(* ===== verification/Prelude.thy ===== *)
theory Prelude
  imports Main "HOL-Library.Word"
begin

text \<open>
  Shared vocabulary of the development: Go's fixed-width integers as words, byte slices and
  strings as lists of bytes, the error monad in which every fallible Go function is written
  (\<open>Inl\<close> is the returned error, \<open>Inr\<close> the result), and the little and big endian integer
  encodings of \<open>encoding/binary\<close> with their round trips.
\<close>

unbundle bit_operations_syntax

type_synonym u8 = "8 word"
type_synonym u32 = "32 word"
type_synonym u64 = "64 word"

text \<open>An \<open>int64\<close> is a 64-bit word read through \<open>sint\<close>; a Go string is its byte sequence.\<close>

type_synonym i64 = "64 word"
type_synonym i32 = "32 word"
type_synonym bytes = "u8 list"
type_synonym gostring = bytes

named_theorems result_iff \<open>inversion of successful results in the error monad\<close>
named_theorems codec_simps \<open>round trips and lengths of the integer encodings\<close>
named_theorems length_simps \<open>sizes of serialised data\<close>

subsection \<open>The error monad\<close>

definition rbind :: "'e + 'a \<Rightarrow> ('a \<Rightarrow> 'e + 'b) \<Rightarrow> 'e + 'b" where
  "rbind m f = (case m of Inl e \<Rightarrow> Inl e | Inr x \<Rightarrow> f x)"

definition rmap :: "('a \<Rightarrow> 'b) \<Rightarrow> 'e + 'a \<Rightarrow> 'e + 'b" where
  "rmap f m = (case m of Inl e \<Rightarrow> Inl e | Inr x \<Rightarrow> Inr (f x))"

lemma rbind_simps [simp]:
  "rbind (Inl e) f = Inl e"
  "rbind (Inr x) f = f x"
  by (simp_all add: rbind_def)

lemma rmap_simps [simp]:
  "rmap f (Inl e) = Inl e"
  "rmap f (Inr x) = Inr (f x)"
  by (simp_all add: rmap_def)

lemma rbind_Inr_iff [result_iff]:
  "rbind m f = Inr y \<longleftrightarrow> (\<exists>x. m = Inr x \<and> f x = Inr y)"
  by (cases m) auto

lemma rmap_Inr_iff [result_iff]: "rmap f m = Inr y \<longleftrightarrow> (\<exists>x. m = Inr x \<and> y = f x)"
  by (cases m) auto

definition isOk :: "'e + 'a \<Rightarrow> bool" where
  "isOk m = (case m of Inl e \<Rightarrow> False | Inr x \<Rightarrow> True)"

lemma isOk_simps [simp]: "\<not> isOk (Inl e)" "isOk (Inr x)"
  by (simp_all add: isOk_def)

lemma isOk_iff: "isOk m \<longleftrightarrow> (\<exists>x. m = Inr x)"
  by (cases m) auto

text \<open>Go string literals.\<close>

definition str :: "string \<Rightarrow> gostring" where
  "str s = map of_char s"

subsection \<open>Endian encodings\<close>

text \<open>
  \<open>put_le n w\<close> are the \<open>n\<close> low bytes of \<open>w\<close>, least significant first, and \<open>get_le\<close>
  assembles them: \<open>binary.LittleEndian.PutUint32\<close>, \<open>PutUint64\<close>, \<open>Uint32\<close>, \<open>Uint64\<close>.
  The big endian versions reverse the bytes.
\<close>

primrec put_le :: "nat \<Rightarrow> 'a::len word \<Rightarrow> bytes" where
  "put_le 0 w = []"
| "put_le (Suc n) w = ucast w # put_le n (drop_bit 8 w)"

primrec get_le :: "bytes \<Rightarrow> 'a::len word" where
  "get_le [] = 0"
| "get_le (b # bs) = ucast b OR push_bit 8 (get_le bs)"

definition put_be :: "nat \<Rightarrow> 'a::len word \<Rightarrow> bytes" where
  "put_be n w = rev (put_le n w)"

definition get_be :: "bytes \<Rightarrow> 'a::len word" where
  "get_be bs = get_le (rev bs)"

lemma length_put_le [simp, codec_simps, length_simps]: "length (put_le n w) = n"
  by (induction n arbitrary: w) auto

lemma length_put_be [simp, codec_simps, length_simps]: "length (put_be n w) = n"
  by (simp add: put_be_def)

lemma put_be_eq_Nil [simp]: "put_be n w = [] \<longleftrightarrow> n = 0" "put_le n w = [] \<longleftrightarrow> n = 0"
  by (simp_all flip: length_0_conv)

lemma bit_get_le:
  "bit (get_le bs :: 'a::len word) i \<longleftrightarrow>
     i < LENGTH('a) \<and> i div 8 < length bs \<and> bit (bs ! (i div 8)) (i mod 8)"
proof (induction bs arbitrary: i)
  case Nil
  then show ?case by simp
next
  case (Cons b bs)
  have low: "\<not> bit b i" if "8 \<le> i"
    using that bit_imp_le_length [of b i] by auto
  show ?case
  proof (cases "i < 8")
    case True
    then show ?thesis
      by (auto simp: bit_or_iff bit_push_bit_iff bit_ucast_iff)
  next
    case False
    then obtain j where j: "i = j + 8"
      by (metis le_add_diff_inverse2 linorder_not_less)
    then have "i div 8 = Suc (j div 8)" "i mod 8 = j mod 8" by auto
    with False low j Cons.IH [of j] show ?thesis
      by (auto simp: bit_or_iff bit_push_bit_iff bit_ucast_iff)
  qed
qed

lemma nth_put_le: "k < n \<Longrightarrow> put_le n w ! k = ucast (drop_bit (8 * k) w)"
proof (induction n arbitrary: w k)
  case 0
  then show ?case by simp
next
  case (Suc n)
  then show ?case
    by (cases k) (simp_all add: add.commute)
qed

lemma get_put_le:
  fixes w :: "'a::len word"
  assumes "LENGTH('a) \<le> 8 * n"
  shows "get_le (put_le n w) = w"
proof (rule bit_word_eqI)
  fix i assume i: "i < LENGTH('a)"
  then have "i div 8 < n" using assms by auto
  moreover have "i mod 8 < LENGTH(8)" by simp
  ultimately have "bit (get_le (put_le n w) :: 'a word) i \<longleftrightarrow> bit w (8 * (i div 8) + i mod 8)"
    using i by (simp only: bit_get_le nth_put_le bit_ucast_iff bit_drop_bit_eq length_put_le) auto
  then show "bit (get_le (put_le n w) :: 'a word) i \<longleftrightarrow> bit w i" by simp
qed

lemma put_get_le:
  fixes bs :: bytes
  assumes "8 * length bs \<le> LENGTH('a::len)"
  shows "put_le (length bs) (get_le bs :: 'a word) = bs"
proof (rule nth_equalityI)
  fix k assume "k < length (put_le (length bs) (get_le bs :: 'a word))"
  then have k: "k < length bs" by simp
  have "ucast (drop_bit (8 * k) (get_le bs :: 'a word)) = bs ! k"
  proof (rule bit_word_eqI)
    fix i assume i: "i < LENGTH(8)"
    then have "(8 * k + i) div 8 = k" "(8 * k + i) mod 8 = i" "8 * k + i < LENGTH('a)"
      using k assms by auto
    with i k show "bit (ucast (drop_bit (8 * k) (get_le bs :: 'a word)) :: u8) i \<longleftrightarrow> bit (bs ! k) i"
      by (simp add: bit_ucast_iff bit_drop_bit_eq bit_get_le)
  qed
  with k show "put_le (length bs) (get_le bs :: 'a word) ! k = bs ! k"
    by (simp add: nth_put_le)
qed simp

lemma get_put_le32 [simp, codec_simps]: "get_le (put_le 4 (w :: u32)) = w"
  by (rule get_put_le) simp

lemma get_put_le64 [simp, codec_simps]: "get_le (put_le 8 (w :: u64)) = w"
  by (rule get_put_le) simp

lemma get_put_be32 [simp, codec_simps]: "get_be (put_be 4 (w :: u32)) = w"
  by (simp add: get_be_def put_be_def)

lemma get_put_be64 [simp, codec_simps]: "get_be (put_be 8 (w :: u64)) = w"
  by (simp add: get_be_def put_be_def)

lemma unat_of_nat_u32 [simp, codec_simps]:
  "n < 2 ^ 32 \<Longrightarrow> unat (of_nat n :: u32) = n"
  by (simp add: unat_of_nat take_bit_nat_eq_self)

lemma unat_of_nat_u64 [simp, codec_simps]:
  "n < 2 ^ 64 \<Longrightarrow> unat (of_nat n :: u64) = n"
  by (simp add: unat_of_nat take_bit_nat_eq_self)

lemma unat_u32_bound [simp]: "unat (w :: u32) < 4294967296"
  using unsigned_less [of w] by simp

lemma unat_u64_bound [simp]: "unat (w :: u64) < 18446744073709551616"
  using unsigned_less [of w] by simp

lemma unat_add_u64:
  "unat (a :: u64) + unat b < 2 ^ 64 \<Longrightarrow> unat (a + b) = unat a + unat b"
  by (simp add: unat_word_ariths)

lemma unat_sub_u64:
  "unat (b :: u64) \<le> unat a \<Longrightarrow> unat (a - b) = unat a - unat b"
  by (simp add: unat_sub word_le_nat_alt)

subsection \<open>Lists\<close>

lemma take_drop_append:
  "length xs = n \<Longrightarrow> take n (xs @ ys) = xs \<and> drop n (xs @ ys) = ys"
  by auto

lemma take_length_takeWhile: "take (length (takeWhile P xs)) xs = takeWhile P xs"
  by (induction xs) auto

lemma drop_length_takeWhile: "drop (length (takeWhile P xs)) xs = dropWhile P xs"
  by (induction xs) auto

lemma take_pred:
  assumes "0 < n" "n \<le> length xs"
  shows "take n xs = take (n - 1) xs @ [xs ! (n - 1)]"
  using assms take_Suc_conv_app_nth [of "n - 1" xs] by simp

lemma take_eq_length: "take n xs = ys \<Longrightarrow> n \<le> length xs \<Longrightarrow> length ys = n"
  by auto

lemma find_map: "find P (map f xs) = map_option f (find (P \<circ> f) xs)"
  by (induction xs) auto

lemma option_eqI: "(\<And>y. a = Some y \<longleftrightarrow> b = Some y) \<Longrightarrow> a = b"
  by (cases a; cases b) auto

lemma map_of_rev_distinct:
  assumes "distinct (map fst xs)"
  shows "map_of (rev xs) = map_of xs"
proof (rule ext, rule option_eqI)
  fix k y
  have "distinct (map fst (rev xs))" using assms by (simp add: rev_map [symmetric])
  then show "map_of (rev xs) k = Some y \<longleftrightarrow> map_of xs k = Some y"
    using assms by (simp only: map_of_eq_Some_iff set_rev)
qed

end
