(* ===== verification/Go_File.thy ===== *)
theory Go_File
  imports Prelude
begin

text \<open>
  The part of \<open>os.File\<close> the stores use. A file is its contents; \<open>Seek\<close> followed by
  \<open>Read\<close> or \<open>Write\<close> is one access at an offset. A read past the end of the file is
  \<open>io.EOF\<close>, a read that meets the end returns the bytes there are, and a write beyond the
  end leaves a hole of zero bytes. A negative seek offset is an error. Hardware failures of
  an otherwise healthy file are not modelled.
\<close>

type_synonym gofile = bytes

datatype io_error = EOF | SeekError

definition f_append :: "bytes \<Rightarrow> gofile \<Rightarrow> gofile" where
  "f_append data f = f @ data"

definition f_write :: "nat \<Rightarrow> bytes \<Rightarrow> gofile \<Rightarrow> gofile" where
  "f_write off data f =
     take off f @ replicate (off - length f) 0 @ data @ drop (off + length data) f"

definition f_read :: "nat \<Rightarrow> nat \<Rightarrow> gofile \<Rightarrow> io_error + bytes" where
  "f_read off n f =
     (if n = 0 then Inr [] else if length f \<le> off then Inl EOF else Inr (take n (drop off f)))"

text \<open>The buffer of \<open>n\<close> zero bytes after \<open>Read\<close> has put \<open>got\<close> at its front.\<close>

definition fill_buf :: "nat \<Rightarrow> bytes \<Rightarrow> bytes" where
  "fill_buf n got = got @ replicate (n - length got) 0"

text \<open>\<open>Seek(offset, 0)\<close> with an \<open>int64\<close> offset.\<close>

definition f_seek :: "i64 \<Rightarrow> io_error + nat" where
  "f_seek off = (if sint off < 0 then Inl SeekError else Inr (nat (sint off)))"

text \<open>The \<open>size\<close> bytes of a file from an offset.\<close>

definition slice :: "nat \<Rightarrow> nat \<Rightarrow> gofile \<Rightarrow> bytes" where
  "slice off n f = take n (drop off f)"

lemma length_f_write [simp]:
  "length (f_write off data f) = max (length f) (off + length data)"
  by (auto simp: f_write_def)

lemma length_f_append [simp]: "length (f_append data f) = length f + length data"
  by (simp add: f_append_def)

lemma length_slice: "off + n \<le> length f \<Longrightarrow> length (slice off n f) = n"
  by (simp add: slice_def)

lemma nth_f_write:
  assumes "i < max (length f) (off + length data)"
  shows "f_write off data f ! i =
    (if off \<le> i \<and> i < off + length data then data ! (i - off)
     else if i < length f then f ! i else 0)"
  using assms by (auto simp: f_write_def nth_append min_def)

lemma slice_f_write_same [simp]: "slice off (length data) (f_write off data f) = data"
  by (rule nth_equalityI) (auto simp: slice_def nth_f_write)

lemma slice_f_write_other:
  assumes "off' + n \<le> length f"
    and "off' + n \<le> off \<or> off + length data \<le> off'"
  shows "slice off' n (f_write off data f) = slice off' n f"
  using assms by (intro nth_equalityI) (auto simp: slice_def nth_f_write)

lemma slice_append_old [simp]:
  "off + n \<le> length f \<Longrightarrow> slice off n (f @ data) = slice off n f"
  by (simp add: slice_def)

lemma slice_append_new [simp]: "slice (length f) (length data) (f @ data) = data"
  by (simp add: slice_def)

lemma slice_f_append_old [simp]:
  "off + n \<le> length f \<Longrightarrow> slice off n (f_append data f) = slice off n f"
  by (simp add: f_append_def)

lemma slice_f_append_new [simp]: "slice (length f) (length data) (f_append data f) = data"
  by (simp add: f_append_def)

lemma slice_slice:
  "i + m \<le> n \<Longrightarrow> slice i m (slice off n f) = slice (off + i) m f"
  by (simp add: slice_def drop_take add.commute min_def)

lemma f_read_ok [simp]:
  "0 < n \<Longrightarrow> off + n \<le> length f \<Longrightarrow> f_read off n f = Inr (slice off n f)"
  by (simp add: f_read_def slice_def)

lemma fill_buf_full [simp]: "length got = n \<Longrightarrow> fill_buf n got = got"
  by (simp add: fill_buf_def)

lemma length_fill_buf: "length got \<le> n \<Longrightarrow> length (fill_buf n got) = n"
  by (simp add: fill_buf_def)

lemma f_read_length: "f_read off n f = Inr got \<Longrightarrow> length got \<le> n"
  by (auto simp: f_read_def split: if_splits)

lemma sint_eq_uint_small:
  assumes "uint (w :: 64 word) < 2 ^ 63"
  shows "sint w = uint w"
proof -
  have "- (2 ^ 63) \<le> uint w"
    using uint_ge_0 [of w] by (rule order_trans [rotated]) simp
  with assms have "signed_take_bit 63 (uint w) = uint w"
    by (intro signed_take_bit_int_eq_self)
  then show ?thesis by (simp add: sint_uint)
qed

lemma f_seek_small [simp]:
  assumes "unat off < 2 ^ 63"
  shows "f_seek off = Inr (unat off)"
proof -
  have "uint off < 2 ^ 63"
    using assms by (simp only: unat_eq_nat_uint nat_less_iff [OF uint_ge_0]) simp
  then have "sint off = uint off" by (rule sint_eq_uint_small)
  then show ?thesis by (simp add: f_seek_def)
qed

end
