(* ===== verification/Value_Format.thy ===== *)
theory Value_Format
  imports Go_File
begin

text \<open>
  The on-disk format of values (\<open>src/internal/storage/values.go\<close>): type tags, sentinels,
  size tiers, the packing of tier, bucket and offset into a 64-bit value ID, and the
  serialisation of a value record. The theorems are the round trips of the record format
  and of the ID packing.
\<close>

subsection \<open>Constants and the value record\<close>

definition TypeText :: u8 where "TypeText = 0x01"
definition TypeNumber :: u8 where "TypeNumber = 0x02"
definition TypeTime :: u8 where "TypeTime = 0x03"
definition TypeMoney :: u8 where "TypeMoney = 0x04"
definition TypePicture :: u8 where "TypePicture = 0x05"
definition TypeReference :: u8 where "TypeReference = 0x06"
definition TypeProcedure :: u8 where "TypeProcedure = 0x07"
definition TypeWatcher :: u8 where "TypeWatcher = 0x08"
definition TypeEmbed :: u8 where "TypeEmbed = 0x09"
definition TypeNothing :: u8 where "TypeNothing = 0xF0"
definition TypeUnknown :: u8 where "TypeUnknown = 0xF1"
definition TypeAnything :: u8 where "TypeAnything = 0xF2"

lemmas type_tag_defs = TypeText_def TypeNumber_def TypeTime_def TypeMoney_def TypePicture_def
  TypeReference_def TypeProcedure_def TypeWatcher_def TypeEmbed_def TypeNothing_def
  TypeUnknown_def TypeAnything_def

definition SentinelValue :: u8 where "SentinelValue = 0x1E"
definition SentinelTombstone :: u8 where "SentinelTombstone = 0x1F"

lemmas sentinel_defs = SentinelValue_def SentinelTombstone_def

definition Tier0MaxSize :: nat where "Tier0MaxSize = 64"
definition Tier1MaxSize :: nat where "Tier1MaxSize = 512"
definition Tier2MaxSize :: nat where "Tier2MaxSize = 4096"

definition OffsetBits :: nat where "OffsetBits = 40"
definition TierBits :: nat where "TierBits = 2"
definition BucketBits :: nat where "BucketBits = 22"

text \<open>Go's \<open>(1 << n) - 1\<close> is \<open>mask n\<close>.\<close>

definition OffsetMask :: u64 where "OffsetMask = mask OffsetBits"
definition TierMask :: u64 where "TierMask = push_bit OffsetBits (mask TierBits)"
definition BucketMask :: u64 where "BucketMask = push_bit (OffsetBits + TierBits) (mask BucketBits)"

record Value =
  vTypeTag :: u8
  vData :: bytes

datatype value_error =
    DataTooShort
  | ValueTombstoned
  | InvalidSentinel u8
  | MissingLength
  | IncompleteData
  | IncompleteFixed u8 nat nat
  | ValueIO io_error
  | InvalidTier nat
  | NoRefCount u64

subsection \<open>Sizes and serialisation\<close>

definition isVariableLength :: "u8 \<Rightarrow> bool" where
  "isVariableLength typeTag =
     (if typeTag \<in> {TypeText, TypeMoney, TypePicture, TypeReference, TypeProcedure, TypeWatcher,
        TypeEmbed, TypeUnknown} then True
      else if typeTag \<in> {TypeNumber, TypeTime, TypeNothing, TypeAnything} then False
      else True)"

definition getFixedTypeSize :: "u8 \<Rightarrow> nat" where
  "getFixedTypeSize typeTag =
     (if typeTag = TypeNumber then 8
      else if typeTag = TypeTime then 9
      else if typeTag \<in> {TypeNothing, TypeAnything} then 0
      else 0)"

definition serializeValue :: "Value \<Rightarrow> bytes" where
  "serializeValue v =
     [SentinelValue, vTypeTag v] @
     (if isVariableLength (vTypeTag v) then put_le 4 (of_nat (length (vData v)) :: u32) else []) @
     vData v"

definition deserializeValue :: "bytes \<Rightarrow> value_error + Value" where
  "deserializeValue data =
     (if length data < 2 then Inl DataTooShort
      else if data ! 0 = SentinelTombstone then Inl ValueTombstoned
      else if data ! 0 \<noteq> SentinelValue then Inl (InvalidSentinel (data ! 0))
      else let typeTag = data ! 1; offset = 2 in
        if isVariableLength typeTag then
          if length data < offset + 4 then Inl MissingLength
          else let len = unat (get_le (slice offset 4 data) :: u32); offset = offset + 4 in
            if length data < offset + len then Inl IncompleteData
            else Inr \<lparr>vTypeTag = typeTag, vData = slice offset len data\<rparr>
        else let expectedSize = getFixedTypeSize typeTag in
          if length data < offset + expectedSize
          then Inl (IncompleteFixed typeTag expectedSize (length data - offset))
          else Inr \<lparr>vTypeTag = typeTag, vData = slice offset expectedSize data\<rparr>)"

definition determineTier :: "nat \<Rightarrow> nat" where
  "determineTier sz =
     (if sz \<le> Tier0MaxSize then 0
      else if sz \<le> Tier1MaxSize then 1
      else if sz \<le> Tier2MaxSize then 2
      else 3)"

subsection \<open>Value IDs\<close>

definition encodeValueID :: "nat \<Rightarrow> u64 \<Rightarrow> u64 \<Rightarrow> u64" where
  "encodeValueID tier bucket offset =
     offset OR push_bit OffsetBits (of_nat tier) OR push_bit (OffsetBits + TierBits) bucket"

definition extractTier :: "u64 \<Rightarrow> nat" where
  "extractTier valueID = unat (drop_bit OffsetBits (valueID AND TierMask))"

definition extractBucket :: "u64 \<Rightarrow> u64" where
  "extractBucket valueID = drop_bit (OffsetBits + TierBits) (valueID AND BucketMask)"

definition extractOffset :: "u64 \<Rightarrow> u64" where
  "extractOffset valueID = valueID AND OffsetMask"

subsection \<open>Well-formed values\<close>

text \<open>
  The values the database stores: a fixed-length type carries exactly its size, and the
  data of a variable-length type fits the 32-bit length field.
\<close>

definition wf_value :: "Value \<Rightarrow> bool" where
  "wf_value v \<longleftrightarrow>
     (if isVariableLength (vTypeTag v) then length (vData v) < 2 ^ 32
      else length (vData v) = getFixedTypeSize (vTypeTag v))"

lemma length_serializeValue [length_simps]:
  "length (serializeValue v) =
     2 + (if isVariableLength (vTypeTag v) then 4 else 0) + length (vData v)"
  by (simp add: serializeValue_def)

lemma serializeValue_bounds:
  assumes "wf_value v"
  shows "2 \<le> length (serializeValue v)" and "length (serializeValue v) < 2 ^ 32 + 6"
  using assms by (auto simp: length_serializeValue wf_value_def getFixedTypeSize_def
      split: if_splits)

lemma serializeValue_nth:
  "serializeValue v ! 0 = SentinelValue" "serializeValue v ! Suc 0 = vTypeTag v"
  by (simp_all add: serializeValue_def)

lemma determineTier_less: "determineTier n < 4"
  by (simp add: determineTier_def)

text \<open>
  Deserialising a record that starts with a serialised value gives the value back; the tail
  is what a partially filled read buffer may hold.
\<close>

lemma deserialize_serialize_append:
  assumes "wf_value v"
  shows "deserializeValue (serializeValue v @ rest) = Inr v"
proof -
  have s: "SentinelValue \<noteq> SentinelTombstone" by (simp add: sentinel_defs)
  show ?thesis
    using assms s
    by (auto simp: deserializeValue_def serializeValue_def wf_value_def slice_def Let_def
        unat_of_nat_u32 simp del: unat_of_nat)
qed

lemma serializeValue_inj:
  assumes "wf_value v" "wf_value w" "serializeValue v = serializeValue w"
  shows "v = w"
  using deserialize_serialize_append [of v "[]"] deserialize_serialize_append [of w "[]"] assms
  by simp

subsection \<open>Packing of value IDs\<close>

lemma not_bit_ge: "unat (w :: 'a::len word) < 2 ^ n \<Longrightarrow> n \<le> i \<Longrightarrow> \<not> bit w i"
proof -
  assume "unat w < 2 ^ n" and ni: "n \<le> i"
  then have "take_bit n w = w"
    by (simp add: word_eq_iff_unsigned [where ?'a = nat] unsigned_take_bit_eq take_bit_nat_eq_self)
  with ni show "\<not> bit w i" by (metis bit_take_bit_iff leD)
qed

lemmas id_bits = bit_and_iff bit_or_iff bit_push_bit_iff bit_drop_bit_eq bit_mask_iff

lemmas id_consts = OffsetMask_def TierMask_def BucketMask_def OffsetBits_def TierBits_def
  BucketBits_def

lemma drop_tier_word:
  fixes offset bucket :: u64
  assumes "tier < 4" "unat offset < 2 ^ 40"
  shows "drop_bit OffsetBits (encodeValueID tier bucket offset AND TierMask) = of_nat tier"
proof (rule bit_word_eqI)
  fix i assume i: "i < LENGTH(64)"
  have t: "\<not> bit (of_nat tier :: u64) i" if "2 \<le> i"
    using assms(1) that by (intro not_bit_ge [where n = 2]) (auto simp: unat_of_nat take_bit_nat_eq_self)
  have off: "\<not> bit offset (40 + i)"
    using assms(2) by (intro not_bit_ge [where n = 40]) auto
  show "bit (drop_bit OffsetBits (encodeValueID tier bucket offset AND TierMask)) i \<longleftrightarrow>
      bit (of_nat tier :: u64) i"
    using i t off by (cases "2 \<le> i") (auto simp: encodeValueID_def id_bits id_consts simp del: mask_numeral)
qed

lemma extractTier_encode:
  assumes "tier < 4" "unat offset < 2 ^ 40"
  shows "extractTier (encodeValueID tier bucket offset) = tier"
  unfolding extractTier_def drop_tier_word [OF assms]
  using assms(1) by (simp add: unat_of_nat take_bit_nat_eq_self)

lemma extractBucket_encode:
  assumes "tier < 4" "unat bucket < 2 ^ 22" "unat offset < 2 ^ 40"
  shows "extractBucket (encodeValueID tier bucket offset) = bucket"
proof (rule bit_word_eqI)
  fix i assume i: "i < LENGTH(64)"
  have t: "\<not> bit (of_nat tier :: u64) (i + 2)"
    using assms(1) by (intro not_bit_ge [where n = 2]) (auto simp: unat_of_nat take_bit_nat_eq_self)
  have b: "\<not> bit bucket i" if "22 \<le> i"
    using assms(2) that by (rule not_bit_ge)
  have off: "\<not> bit offset (42 + i)"
    using assms(3) by (intro not_bit_ge [where n = 40]) auto
  show "bit (extractBucket (encodeValueID tier bucket offset)) i \<longleftrightarrow> bit bucket i"
    using i t b off
    by (cases "22 \<le> i")
       (auto simp: extractBucket_def encodeValueID_def id_bits id_consts add.commute simp del: mask_numeral)
qed

lemma extractOffset_encode:
  assumes "unat offset < 2 ^ 40"
  shows "extractOffset (encodeValueID tier bucket offset) = offset"
proof (rule bit_word_eqI)
  fix i assume i: "i < LENGTH(64)"
  have off: "\<not> bit offset i" if "40 \<le> i"
    using assms that by (rule not_bit_ge)
  show "bit (extractOffset (encodeValueID tier bucket offset)) i \<longleftrightarrow> bit offset i"
    using i off
    by (cases "40 \<le> i")
       (auto simp: extractOffset_def encodeValueID_def id_bits id_consts simp del: mask_numeral)
qed

lemmas extract_encode = extractTier_encode extractBucket_encode extractOffset_encode

lemma encodeValueID_eq_0_iff:
  assumes "tier < 4" "unat bucket < 2 ^ 22" "unat offset < 2 ^ 40"
  shows "encodeValueID tier bucket offset = 0 \<longleftrightarrow> tier = 0 \<and> bucket = 0 \<and> offset = 0"
proof
  assume z: "encodeValueID tier bucket offset = 0"
  have "extractTier 0 = 0" "extractBucket 0 = 0" "extractOffset 0 = 0"
    by (simp_all add: extractTier_def extractBucket_def extractOffset_def)
  then show "tier = 0 \<and> bucket = 0 \<and> offset = 0"
    using extractTier_encode [OF assms(1,3), of bucket] extractBucket_encode [OF assms]
      extractOffset_encode [OF assms(3), of tier bucket] unfolding z by simp
next
  assume "tier = 0 \<and> bucket = 0 \<and> offset = 0"
  then show "encodeValueID tier bucket offset = 0" by (simp add: encodeValueID_def)
qed

end
