(* ===== verification/FreeList.thy ===== *)
theory FreeList
  imports Value_Format
begin

text \<open>
  The free list of a storage file (\<open>src/internal/storage/freelist.go\<close>): tombstoned regions
  kept sorted by offset, merged when adjacent, handed out first fit. The in-place merge loop
  of \<open>coalesceBlocks\<close> is proved equal to a functional merge, and both public operations
  are refined to operations on the set of free byte positions.
\<close>

subsection \<open>Operations\<close>

record FreeBlock =
  fbOffset :: u64
  fbSize :: u64

type_synonym free_list = "FreeBlock list"

definition NewFreeList :: free_list where
  "NewFreeList = []"

text \<open>The search loop of \<open>AddBlock\<close>: the first index whose block starts after the offset.\<close>

fun insert_index :: "u64 \<Rightarrow> free_list \<Rightarrow> nat \<Rightarrow> nat" where
  "insert_index offset [] i = i"
| "insert_index offset (block # rest) i =
     (if offset < fbOffset block then i else insert_index offset rest (Suc i))"

text \<open>
  The merge loop of \<open>coalesceBlocks\<close>, in place over the slice: \<open>r\<close> is
  \<open>readIndex\<close> and \<open>w\<close> is \<open>writeIndex\<close>.
\<close>

function coalesce_loop :: "free_list \<Rightarrow> nat \<Rightarrow> nat \<Rightarrow> free_list" where
  "coalesce_loop blocks r w =
     (if r < length blocks then
        (if 0 < w \<and> fbOffset (blocks ! (w - 1)) + fbSize (blocks ! (w - 1)) = fbOffset (blocks ! r)
         then coalesce_loop
                (blocks[w - 1 := (blocks ! (w - 1))
                   \<lparr>fbSize := fbSize (blocks ! (w - 1)) + fbSize (blocks ! r)\<rparr>])
                (Suc r) w
         else coalesce_loop (if w \<noteq> r then blocks[w := blocks ! r] else blocks) (Suc r) (Suc w))
      else take w blocks)"
  by pat_completeness auto
termination
  by (relation "measure (\<lambda>(blocks, r, w). length blocks - r)") auto

declare coalesce_loop.simps [simp del]

definition coalesceBlocks :: "free_list \<Rightarrow> free_list" where
  "coalesceBlocks blocks =
     (if length blocks \<le> 1 then blocks else coalesce_loop (sort_key fbOffset blocks) 0 0)"

definition AddBlock :: "u64 \<Rightarrow> u64 \<Rightarrow> free_list \<Rightarrow> free_list" where
  "AddBlock offset sz blocks =
     (let i = insert_index offset blocks 0 in
      coalesceBlocks (take i blocks @ [\<lparr>fbOffset = offset, fbSize = sz\<rparr>] @ drop i blocks))"

fun AllocateSpace :: "u64 \<Rightarrow> free_list \<Rightarrow> u64 option \<times> free_list" where
  "AllocateSpace sz [] = (None, [])"
| "AllocateSpace sz (block # rest) =
     (if sz \<le> fbSize block then
        (Some (fbOffset block),
         if fbSize block = sz then rest
         else block\<lparr>fbOffset := fbOffset block + sz, fbSize := fbSize block - sz\<rparr> # rest)
      else let (r, rest') = AllocateSpace sz rest in (r, block # rest'))"

definition GetBlocks :: "free_list \<Rightarrow> free_list" where
  "GetBlocks blocks = blocks"

definition GetTotalFreeSpace :: "free_list \<Rightarrow> u64" where
  "GetTotalFreeSpace blocks = foldl (\<lambda>total block. total + fbSize block) 0 blocks"

definition Clear :: "free_list \<Rightarrow> free_list" where
  "Clear blocks = []"

subsection \<open>Rebuilding the list from a file\<close>

datatype free_error = TombstoneHeader | TombstoneLength | FreeIO io_error

text \<open>The free list's own notion of which types carry a length field.\<close>

definition fl_isVariableLength :: "u8 \<Rightarrow> bool" where
  "fl_isVariableLength typeTag \<longleftrightarrow>
     typeTag \<in> {TypeText, TypePicture, TypeProcedure, TypeWatcher, TypeEmbed}"

definition fl_getFixedTypeSize :: "u8 \<Rightarrow> nat" where
  "fl_getFixedTypeSize typeTag =
     (if typeTag = TypeNumber then 8
      else if typeTag = TypeTime then 9
      else if typeTag = TypeMoney then 12
      else if typeTag = TypeReference then 8
      else if typeTag \<in> {TypeNothing, TypeAnything} then 0
      else if typeTag = TypeUnknown then 0
      else 0)"

definition determineTombstoneSize :: "gofile \<Rightarrow> nat \<Rightarrow> free_error + nat" where
  "determineTombstoneSize f offset =
     (case f_read offset 2 f of
        Inl e \<Rightarrow> Inl TombstoneHeader
      | Inr header \<Rightarrow>
          if length header \<noteq> 2 then Inl TombstoneHeader
          else let typeTag = header ! 1 in
            if fl_isVariableLength typeTag then
              (case f_read (offset + 2) 4 f of
                 Inl e \<Rightarrow> Inl TombstoneLength
               | Inr lengthBytes \<Rightarrow>
                   if length lengthBytes \<noteq> 4 then Inl TombstoneLength
                   else Inr (2 + 4 + unat (get_le lengthBytes :: u32)))
            else Inr (2 + fl_getFixedTypeSize typeTag))"

definition determineValueSize :: "gofile \<Rightarrow> nat \<Rightarrow> free_error + nat" where
  "determineValueSize f offset = determineTombstoneSize f offset"

lemma determineTombstoneSize_ge2:
  "determineTombstoneSize f offset = Inr n \<Longrightarrow> 2 \<le> n"
  by (auto simp: determineTombstoneSize_def Let_def split: sum.splits if_splits)

lemma determineValueSize_ge2: "determineValueSize f offset = Inr n \<Longrightarrow> 2 \<le> n"
  by (simp add: determineValueSize_def determineTombstoneSize_ge2)

text \<open>
  The scan of \<open>RebuildFromFile\<close>. Offsets are file positions; every record has at least two
  bytes, so the scan ends. A byte that is neither sentinel stops it. On an error the blocks
  found so far stay in the list.
\<close>

function rebuild_scan :: "gofile \<Rightarrow> nat \<Rightarrow> free_list \<Rightarrow> free_error option \<times> free_list" where
  "rebuild_scan f offset blocks =
     (if offset < length f then
        (case f_read offset 1 f of
           Inl e \<Rightarrow> (Some (FreeIO e), blocks)
         | Inr sentinel \<Rightarrow>
             if sentinel ! 0 = SentinelTombstone then
               (case determineTombstoneSize f offset of
                  Inl e \<Rightarrow> (Some e, blocks)
                | Inr recordSize \<Rightarrow>
                    rebuild_scan f (offset + recordSize)
                      (blocks @ [\<lparr>fbOffset = of_nat offset, fbSize = of_nat recordSize\<rparr>]))
             else if sentinel ! 0 = SentinelValue then
               (case determineValueSize f offset of
                  Inl e \<Rightarrow> (Some e, blocks)
                | Inr recordSize \<Rightarrow> rebuild_scan f (offset + recordSize) blocks)
             else (None, blocks))
      else (None, blocks))"
  by pat_completeness auto
termination
  by (relation "measure (\<lambda>(f, offset, blocks). length f - offset)")
     (auto dest!: determineTombstoneSize_ge2 determineValueSize_ge2)

declare rebuild_scan.simps [simp del]

definition RebuildFromFile :: "gofile \<Rightarrow> free_error option \<times> free_list" where
  "RebuildFromFile f =
     (if length f = 0 then (None, [])
      else case rebuild_scan f 0 [] of
             (Some e, blocks) \<Rightarrow> (Some e, blocks)
           | (None, blocks) \<Rightarrow> (None, coalesceBlocks blocks))"

subsection \<open>The functional merge\<close>

fun merge_adjacent :: "FreeBlock \<Rightarrow> free_list \<Rightarrow> free_list" where
  "merge_adjacent p [] = [p]"
| "merge_adjacent p (b # bs) =
     (if fbOffset p + fbSize p = fbOffset b
      then merge_adjacent (p\<lparr>fbSize := fbSize p + fbSize b\<rparr>) bs
      else p # merge_adjacent b bs)"

lemma coalesce_loop_merge:
  assumes "0 < w" "w \<le> r" "r \<le> length blocks"
  shows "coalesce_loop blocks r w =
    take (w - 1) blocks @ merge_adjacent (blocks ! (w - 1)) (drop r blocks)"
  using assms
proof (induction blocks r w rule: coalesce_loop.induct)
  case (1 blocks r w)
  show ?case
  proof (cases "r < length blocks")
    case False
    with "1.prems" show ?thesis
      by (subst coalesce_loop.simps) (simp add: take_Suc_conv_app_nth [symmetric])
  next
    case r: True
    let ?p = "blocks ! (w - 1)"
    have d: "drop r blocks = blocks ! r # drop (Suc r) blocks"
      using r by (simp add: Cons_nth_drop_Suc)
    show ?thesis
    proof (cases "fbOffset ?p + fbSize ?p = fbOffset (blocks ! r)")
      case True
      with "1.IH"(1) r "1.prems" show ?thesis
        by (subst coalesce_loop.simps) (simp add: d nth_list_update)
    next
      case False
      let ?bs = "if w \<noteq> r then blocks[w := blocks ! r] else blocks"
      have upd: "?bs = blocks[w := blocks ! r]" by simp
      have "coalesce_loop blocks r w = coalesce_loop ?bs (Suc r) (Suc w)"
        using r False by (subst coalesce_loop.simps) simp
      also have "\<dots> = take w ?bs @ merge_adjacent (?bs ! w) (drop (Suc r) ?bs)"
        using "1.IH"(2) r False "1.prems" by simp
      also have "\<dots> = take w blocks @ merge_adjacent (blocks ! r) (drop (Suc r) blocks)"
        unfolding upd using "1.prems" r by simp
      also have "\<dots> = take (w - 1) blocks @ ?p # merge_adjacent (blocks ! r) (drop (Suc r) blocks)"
        using "1.prems" r by (simp add: take_pred)
      finally show ?thesis using False by (simp add: d)
    qed
  qed
qed

text \<open>The in-place loop computes the functional merge of the sorted blocks.\<close>

lemma coalesceBlocks_merge:
  assumes "sort_key fbOffset blocks = b # bs"
  shows "coalesceBlocks blocks = merge_adjacent b bs"
proof (cases "length blocks \<le> 1")
  case True
  then have "blocks = [b] \<and> bs = []"
    using assms by (cases blocks) auto
  then show ?thesis by (simp add: coalesceBlocks_def)
next
  case False
  have "coalesce_loop (b # bs) 0 0 = coalesce_loop (b # bs) 1 1"
    by (subst coalesce_loop.simps) simp
  also have "\<dots> = merge_adjacent b bs"
    by (subst coalesce_loop_merge) simp_all
  finally show ?thesis using False assms by (simp add: coalesceBlocks_def)
qed

subsection \<open>The set of free positions\<close>

definition region :: "u64 \<Rightarrow> u64 \<Rightarrow> nat set" where
  "region offset sz = {unat offset ..< unat offset + unat sz}"

definition free_set :: "free_list \<Rightarrow> nat set" where
  "free_set blocks = (\<Union>b \<in> set blocks. region (fbOffset b) (fbSize b))"

definition block_end :: "FreeBlock \<Rightarrow> nat" where
  "block_end b = unat (fbOffset b) + unat (fbSize b)"

definition block_ok :: "FreeBlock \<Rightarrow> bool" where
  "block_ok b \<longleftrightarrow> 0 < unat (fbSize b) \<and> block_end b < 2 ^ 64"

text \<open>
  The invariant: blocks are non-empty, do not wrap around, and are separated by at least one
  byte in increasing order, so adjacent ones have been merged.
\<close>

definition fl_inv :: "free_list \<Rightarrow> bool" where
  "fl_inv blocks \<longleftrightarrow> list_all block_ok blocks \<and>
     sorted_wrt (\<lambda>a b. block_end a < unat (fbOffset b)) blocks"

lemma free_set_simps [simp]:
  "free_set [] = {}"
  "free_set (b # bs) = region (fbOffset b) (fbSize b) \<union> free_set bs"
  "free_set (xs @ ys) = free_set xs \<union> free_set ys"
  by (auto simp: free_set_def)

lemma fl_inv_Nil [simp]: "fl_inv []"
  by (simp add: fl_inv_def)

lemma fl_inv_Cons:
  "fl_inv (b # bs) \<longleftrightarrow>
     block_ok b \<and> (\<forall>c \<in> set bs. block_end b < unat (fbOffset c)) \<and> fl_inv bs"
  by (auto simp: fl_inv_def)

lemma merge_adjacent_ok:
  assumes "list_all block_ok (p # bs)"
    and "sorted_wrt (\<lambda>a b. block_end a \<le> unat (fbOffset b)) (p # bs)"
  shows "fl_inv (merge_adjacent p bs) \<and> free_set (merge_adjacent p bs) = free_set (p # bs)
    \<and> (\<forall>c \<in> set (merge_adjacent p bs). unat (fbOffset p) \<le> unat (fbOffset c))"
  using assms
proof (induction p bs rule: merge_adjacent.induct)
  case (1 p)
  then show ?case by (simp add: fl_inv_def)
next
  case (2 p b bs)
  have ok: "block_ok p" "block_ok b" using "2.prems"(1) by auto
  have sum: "unat (fbOffset p + fbSize p) = block_end p"
    using ok(1) by (simp add: block_ok_def block_end_def unat_add_u64)
  show ?case
  proof (cases "fbOffset p + fbSize p = fbOffset b")
    case True
    let ?p = "p\<lparr>fbSize := fbSize p + fbSize b\<rparr>"
    have adj: "block_end p = unat (fbOffset b)" using True sum by simp
    have sz: "unat (fbSize p + fbSize b) = unat (fbSize p) + unat (fbSize b)"
      using ok adj by (intro unat_add_u64) (auto simp: block_ok_def block_end_def)
    have "block_end ?p = block_end b" "block_ok ?p"
      using sz adj ok by (auto simp: block_ok_def block_end_def)
    moreover have "region (fbOffset ?p) (fbSize ?p) =
        region (fbOffset p) (fbSize p) \<union> region (fbOffset b) (fbSize b)"
      using sz adj by (auto simp: region_def block_end_def)
    ultimately show ?thesis
      using "2.IH"(1) [OF True] "2.prems" True by (auto simp: Un_assoc)
  next
    case False
    have "unat (fbOffset p + fbSize p) \<noteq> unat (fbOffset b)"
      using False by (metis word_unat_eq_iff)
    then have lt: "block_end p < unat (fbOffset b)"
      using "2.prems"(2) sum by auto
    have IH: "fl_inv (merge_adjacent b bs)"
        "free_set (merge_adjacent b bs) = free_set (b # bs)"
        "\<forall>c \<in> set (merge_adjacent b bs). unat (fbOffset b) \<le> unat (fbOffset c)"
      using "2.IH"(2) [OF False] "2.prems" by auto
    moreover have "unat (fbOffset p) \<le> block_end p" by (simp add: block_end_def)
    ultimately show ?thesis
      using False lt ok by (auto simp: fl_inv_Cons)
  qed
qed

subsection \<open>AddBlock and AllocateSpace on the set of free positions\<close>

lemma insert_index_takeWhile:
  "insert_index offset bs i = i + length (takeWhile (\<lambda>b. \<not> offset < fbOffset b) bs)"
  by (induction bs arbitrary: i) auto

lemma dropWhile_sorted_ge:
  assumes "sorted_wrt (\<lambda>a b. unat (fbOffset a) < unat (fbOffset b)) bs"
    and "b \<in> set (dropWhile (\<lambda>b. \<not> offset < fbOffset b) bs)"
  shows "unat offset < unat (fbOffset b)"
  using assms
  by (induction bs) (auto simp: word_less_nat_alt split: if_splits)

lemma fl_inv_sorted_offsets:
  assumes "fl_inv bs"
  shows "sorted_wrt (\<lambda>a b. unat (fbOffset a) < unat (fbOffset b)) bs"
proof -
  have "sorted_wrt (\<lambda>a b. block_end a < unat (fbOffset b)) bs"
    using assms by (simp add: fl_inv_def)
  then show ?thesis by (rule sorted_wrt_mono_rel [rotated]) (simp add: block_end_def)
qed

lemma disjoint_blocks_order:
  assumes "block_ok b" "block_ok c"
    and "region (fbOffset b) (fbSize b) \<inter> region (fbOffset c) (fbSize c) = {}"
    and "unat (fbOffset b) \<le> unat (fbOffset c)"
  shows "block_end b \<le> unat (fbOffset c)"
proof (rule ccontr)
  assume "\<not> ?thesis"
  then have "unat (fbOffset c) \<in> region (fbOffset b) (fbSize b) \<inter> region (fbOffset c) (fbSize c)"
    using assms by (auto simp: region_def block_end_def block_ok_def)
  with assms(3) show False by blast
qed

lemma AddBlock_insert:
  assumes inv: "fl_inv bs" and ok: "block_ok n"
    and dis: "region (fbOffset n) (fbSize n) \<inter> free_set bs = {}"
  defines "P \<equiv> \<lambda>b. \<not> fbOffset n < fbOffset b"
  shows "sorted_wrt (\<lambda>a b. block_end a \<le> unat (fbOffset b)) (takeWhile P bs @ n # dropWhile P bs)"
proof -
  have sep: "sorted_wrt (\<lambda>a b. block_end a \<le> unat (fbOffset b)) (takeWhile P bs @ dropWhile P bs)"
    unfolding takeWhile_dropWhile_id
    by (rule sorted_wrt_mono_rel [where P = "\<lambda>a b. block_end a < unat (fbOffset b)"])
       (use inv in \<open>auto simp: fl_inv_def\<close>)
  have okb: "block_ok b" if "b \<in> set bs" for b
    using inv that by (auto simp: fl_inv_def list_all_iff)
  have disb: "region (fbOffset n) (fbSize n) \<inter> region (fbOffset b) (fbSize b) = {}"
    if "b \<in> set bs" for b
    using dis that by (auto simp: free_set_def)
  have "block_end b \<le> unat (fbOffset n)" if "b \<in> set (takeWhile P bs)" for b
  proof -
    from that have "unat (fbOffset b) \<le> unat (fbOffset n)" "b \<in> set bs"
      by (auto simp: P_def word_less_nat_alt dest: set_takeWhileD)
    then show ?thesis using disjoint_blocks_order okb ok disb by (metis Int_commute)
  qed
  moreover have "block_end n \<le> unat (fbOffset b)" if "b \<in> set (dropWhile P bs)" for b
  proof -
    from that have "unat (fbOffset n) < unat (fbOffset b)" "b \<in> set bs"
      using dropWhile_sorted_ge [OF fl_inv_sorted_offsets [OF inv]]
      by (auto simp: P_def dest: set_dropWhileD)
    then show ?thesis using disjoint_blocks_order okb ok disb by (meson less_imp_le)
  qed
  ultimately show ?thesis
    using sep unfolding sorted_wrt_append by auto
qed

lemma coalesceBlocks_ok:
  assumes "list_all block_ok bs" "sorted_wrt (\<lambda>a b. block_end a \<le> unat (fbOffset b)) bs"
  shows "fl_inv (coalesceBlocks bs) \<and> free_set (coalesceBlocks bs) = free_set bs"
proof (cases bs)
  case Nil
  then show ?thesis by (simp add: coalesceBlocks_def)
next
  case (Cons b rest)
  have "sorted_wrt (\<lambda>a b. unat (fbOffset a) \<le> unat (fbOffset b)) bs"
    by (rule sorted_wrt_mono_rel [OF _ assms(2)]) (simp add: block_end_def)
  then have "sorted (map fbOffset bs)"
    by (simp add: sorted_map word_le_nat_alt)
  then have "sort_key fbOffset bs = bs" by (rule sort_key_id_if_sorted)
  then have "sort_key fbOffset bs = b # rest" using Cons by (rule trans)
  then have "coalesceBlocks bs = merge_adjacent b rest"
    by (rule coalesceBlocks_merge)
  then show ?thesis
    using merge_adjacent_ok [of b rest] assms Cons by simp
qed

lemma AddBlock_free_set:
  assumes inv: "fl_inv bs" and pos: "0 < unat sz" and fit: "unat offset + unat sz < 2 ^ 64"
    and dis: "region offset sz \<inter> free_set bs = {}"
  shows "fl_inv (AddBlock offset sz bs)"
    and "free_set (AddBlock offset sz bs) = free_set bs \<union> region offset sz"
proof -
  let ?n = "\<lparr>fbOffset = offset, fbSize = sz\<rparr>"
  let ?P = "\<lambda>b. \<not> offset < fbOffset b"
  have ok: "block_ok ?n" using pos fit by (simp add: block_ok_def block_end_def)
  have add: "AddBlock offset sz bs = coalesceBlocks (takeWhile ?P bs @ ?n # dropWhile ?P bs)"
    unfolding AddBlock_def Let_def insert_index_takeWhile add_0
    by (simp only: take_length_takeWhile drop_length_takeWhile append_Cons append_Nil)
  have "sorted_wrt (\<lambda>a b. block_end a \<le> unat (fbOffset b)) (takeWhile ?P bs @ ?n # dropWhile ?P bs)"
    using AddBlock_insert [OF inv ok] dis by simp
  moreover have "list_all block_ok (takeWhile ?P bs @ ?n # dropWhile ?P bs)"
    using inv ok by (auto simp: fl_inv_def list_all_iff dest: set_takeWhileD set_dropWhileD)
  ultimately have res: "fl_inv (AddBlock offset sz bs) \<and> free_set (AddBlock offset sz bs) =
      free_set (takeWhile ?P bs @ ?n # dropWhile ?P bs)"
    unfolding add by (intro coalesceBlocks_ok)
  have "free_set (takeWhile ?P bs) \<union> free_set (dropWhile ?P bs) = free_set bs"
    by (metis free_set_simps(3) takeWhile_dropWhile_id)
  then have "free_set (takeWhile ?P bs @ ?n # dropWhile ?P bs) = free_set bs \<union> region offset sz"
    unfolding free_set_simps FreeBlock.select_convs by blast
  with res show "fl_inv (AddBlock offset sz bs)"
    and "free_set (AddBlock offset sz bs) = free_set bs \<union> region offset sz"
    by simp_all
qed

lemma AllocateSpace_None: "AllocateSpace sz bs = (None, bs') \<Longrightarrow> bs' = bs"
  by (induction bs arbitrary: bs') (auto split: if_splits prod.splits)

lemma AllocateSpace_None_iff:
  "fst (AllocateSpace sz bs) = None \<longleftrightarrow> (\<forall>b \<in> set bs. fbSize b < sz)"
  by (induction bs) (auto split: prod.splits simp: not_le)

lemma region_shrink:
  assumes "block_ok b" "sz \<le> fbSize b"
  shows "region (fbOffset b + sz) (fbSize b - sz) = region (fbOffset b) (fbSize b) - region (fbOffset b) sz"
    and "unat (fbOffset b + sz) + unat (fbSize b - sz) = block_end b"
    and "region (fbOffset b) sz \<subseteq> region (fbOffset b) (fbSize b)"
proof -
  have le: "unat sz \<le> unat (fbSize b)" using assms(2) by (simp add: word_le_nat_alt)
  then have "unat (fbOffset b + sz) = unat (fbOffset b) + unat sz"
    using assms(1) by (intro unat_add_u64) (auto simp: block_ok_def block_end_def)
  moreover have "unat (fbSize b - sz) = unat (fbSize b) - unat sz"
    using le by (rule unat_sub_u64)
  ultimately show "region (fbOffset b + sz) (fbSize b - sz) = region (fbOffset b) (fbSize b) - region (fbOffset b) sz"
    and "unat (fbOffset b + sz) + unat (fbSize b - sz) = block_end b"
    and "region (fbOffset b) sz \<subseteq> region (fbOffset b) (fbSize b)"
    using le by (auto simp: region_def block_end_def)
qed

lemma AllocateSpace_Some:
  assumes "fl_inv bs" and "AllocateSpace sz bs = (Some offset, bs')"
  shows "fl_inv bs' \<and> region offset sz \<subseteq> free_set bs \<and> free_set bs' = free_set bs - region offset sz
    \<and> (\<forall>b \<in> set bs'. \<exists>c \<in> set bs. unat (fbOffset c) \<le> unat (fbOffset b))"
  using assms
proof (induction bs arbitrary: bs')
  case Nil
  then show ?case by simp
next
  case (Cons b bs)
  have inv: "block_ok b" "fl_inv bs" "\<forall>c \<in> set bs. block_end b < unat (fbOffset c)"
    using Cons.prems(1) by (simp_all add: fl_inv_Cons)
  have dis: "region (fbOffset b) (fbSize b) \<inter> free_set bs = {}"
    using inv(3) by (fastforce simp: free_set_def region_def block_end_def)
  show ?case
  proof (cases "sz \<le> fbSize b")
    case fits: True
    note sh = region_shrink [OF inv(1) fits]
    show ?thesis
    proof (cases "fbSize b = sz")
      case True
      then show ?thesis using Cons.prems fits inv dis by auto
    next
      case False
      let ?b = "b\<lparr>fbOffset := fbOffset b + sz, fbSize := fbSize b - sz\<rparr>"
      have bs': "offset = fbOffset b" "bs' = ?b # bs" using Cons.prems(2) fits False by auto
      have "fbSize b - sz \<noteq> 0" using False by simp
      then have "block_ok ?b"
        using sh(2) inv(1) by (simp add: block_ok_def block_end_def unat_gt_0)
      moreover have "block_end ?b = block_end b" using sh(2) by (simp add: block_end_def)
      moreover have "unat (fbOffset b) \<le> unat (fbOffset ?b)"
        using inv(1) fits by (simp add: block_ok_def block_end_def word_le_nat_alt unat_add_u64)
      ultimately show ?thesis
        using bs' inv sh dis by (auto simp: fl_inv_Cons)
    qed
  next
    case False
    then obtain bs2 where b2: "AllocateSpace sz bs = (Some offset, bs2)" "bs' = b # bs2"
      using Cons.prems(2) by (auto split: prod.splits)
    note IH = Cons.IH [OF inv(2) b2(1)]
    have "\<forall>c \<in> set bs2. block_end b < unat (fbOffset c)"
      using IH inv(3) by fastforce
    with IH b2(2) inv dis show ?thesis by (auto simp: fl_inv_Cons)
  qed
qed

subsection \<open>The contract of a space manager\<close>

text \<open>
  What the value store relies on: freed regions are tracked as a set of byte positions,
  an allocation hands out a region that was free, and a failed one changes nothing.
\<close>

locale space_manager =
  fixes add :: "u64 \<Rightarrow> u64 \<Rightarrow> 'f \<Rightarrow> 'f"
    and alloc :: "u64 \<Rightarrow> 'f \<Rightarrow> u64 option \<times> 'f"
    and free :: "'f \<Rightarrow> nat set"
    and inv :: "'f \<Rightarrow> bool"
  assumes add_inv: "\<lbrakk>inv f; 0 < unat s; unat p + unat s < 2 ^ 64; region p s \<inter> free f = {}\<rbrakk>
      \<Longrightarrow> inv (add p s f)"
    and add_free: "\<lbrakk>inv f; 0 < unat s; unat p + unat s < 2 ^ 64; region p s \<inter> free f = {}\<rbrakk>
      \<Longrightarrow> free (add p s f) = free f \<union> region p s"
    and alloc_none: "alloc s f = (None, f') \<Longrightarrow> f' = f"
    and alloc_inv: "\<lbrakk>inv f; alloc s f = (Some p, f')\<rbrakk> \<Longrightarrow> inv f'"
    and alloc_sub: "\<lbrakk>inv f; alloc s f = (Some p, f')\<rbrakk> \<Longrightarrow> region p s \<subseteq> free f"
    and alloc_free: "\<lbrakk>inv f; alloc s f = (Some p, f')\<rbrakk> \<Longrightarrow> free f' = free f - region p s"
begin

lemma alloc_inv_any: "inv f \<Longrightarrow> alloc s f = (r, f') \<Longrightarrow> inv f'"
  by (cases r) (auto dest: alloc_none alloc_inv)

lemma alloc_free_subset: "inv f \<Longrightarrow> alloc s f = (r, f') \<Longrightarrow> free f' \<subseteq> free f"
  by (cases r) (auto dest: alloc_none alloc_free)

lemma successive_allocs_disjoint:
  assumes "inv f" "alloc s f = (Some p, f')" "alloc t f' = (Some q, f'')"
  shows "region p s \<inter> region q t = {}"
  using alloc_sub [OF alloc_inv [OF assms(1,2)] assms(3)] alloc_free [OF assms(1,2)] by blast

lemma free_after_alloc:
  assumes "inv f" "alloc s f = (Some p, f')" "0 < unat s" "unat p + unat s < 2 ^ 64"
  shows "free (add p s f') = free f" "inv (add p s f')"
proof -
  note i = alloc_inv [OF assms(1,2)] and fr = alloc_free [OF assms(1,2)]
  have dis: "region p s \<inter> free f' = {}" using fr by blast
  show "free (add p s f') = free f"
    using add_free [OF i assms(3,4) dis] alloc_sub [OF assms(1,2)] fr by blast
  show "inv (add p s f')" by (rule add_inv [OF i assms(3,4) dis])
qed

end

interpretation flm: space_manager AddBlock AllocateSpace free_set fl_inv
  by unfold_locales (auto simp: AddBlock_free_set dest: AllocateSpace_None AllocateSpace_Some)

end
