(* ===== verification/ValueStore.thy ===== *)
theory ValueStore
  imports FreeList
begin

text \<open>
  The value store (\<open>src/internal/storage/values.go\<close>): values are content-addressed, written
  once into one of four size tiers, reference counted, and tombstoned when the count reaches
  zero, which returns their space to the tier's free list. The invariant ties the hash map, the
  reference counts, the bytes in the files and the free lists together; the theorems refine
  writing, reading and tombstoning to operations on the map from live value IDs to values.
  SHA-256 is the parameter \<open>sha\<close>.
\<close>

subsection \<open>State\<close>

text \<open>
  \<open>tierDir\<close> are the bucket files in the store's directory and \<open>tierFiles\<close> the buckets whose
  file handle is open, per bucket tier (0, 1, 2).
\<close>

record ValueStore =
  tierDir :: "nat \<Rightarrow> u64 \<Rightarrow> gofile option"
  tierFiles :: "nat \<Rightarrow> u64 list"
  tier3File :: gofile
  currentBucket :: "nat \<Rightarrow> u64"
  freeLists :: "nat \<Rightarrow> free_list"
  hashToValueID :: "bytes \<Rightarrow> u64 option"
  referenceCount :: "u64 \<Rightarrow> int option"

definition hashValue :: "(bytes \<Rightarrow> bytes) \<Rightarrow> Value \<Rightarrow> bytes" where
  "hashValue sha v = sha (sha (vTypeTag v # vData v))"

definition bucketContent :: "ValueStore \<Rightarrow> nat \<Rightarrow> u64 \<Rightarrow> gofile" where
  "bucketContent vs tier bucket = (case tierDir vs tier bucket of None \<Rightarrow> [] | Some f \<Rightarrow> f)"

definition setBucketContent :: "nat \<Rightarrow> u64 \<Rightarrow> gofile \<Rightarrow> ValueStore \<Rightarrow> ValueStore" where
  "setBucketContent tier bucket f vs =
     vs\<lparr>tierDir := (tierDir vs)(tier := (tierDir vs tier)(bucket := Some f))\<rparr>"

definition getBucketFile :: "ValueStore \<Rightarrow> nat \<Rightarrow> u64 \<Rightarrow> value_error + ValueStore" where
  "getBucketFile vs tier bucket =
     (if \<not> tier < 3 then Inl (InvalidTier tier)
      else if bucket \<in> set (tierFiles vs tier) then Inr vs
      else Inr (setBucketContent tier bucket (bucketContent vs tier bucket)
        (vs\<lparr>tierFiles := (tierFiles vs)(tier := tierFiles vs tier @ [bucket])\<rparr>)))"

subsection \<open>Reading\<close>

text \<open>
  The record read shared by tier 3 and the bucket tiers: header, length field, then the whole
  record into a zeroed buffer. Short reads are not reported by the code and leave zeros.
\<close>

definition readRecordAt :: "gofile \<Rightarrow> nat \<Rightarrow> value_error + bytes" where
  "readRecordAt f offset =
     (case f_read offset 2 f of
        Inl e \<Rightarrow> Inl (ValueIO e)
      | Inr got \<Rightarrow>
          let header = fill_buf 2 got in
          if header ! 0 = SentinelTombstone then Inl ValueTombstoned
          else if header ! 0 \<noteq> SentinelValue then Inl (InvalidSentinel (header ! 0))
          else if isVariableLength (header ! 1) then
            (case f_read (offset + length got) 4 f of
               Inl e \<Rightarrow> Inl (ValueIO e)
             | Inr got4 \<Rightarrow>
                 let totalSize = 2 + 4 + unat (get_le (fill_buf 4 got4) :: u32) in
                 (case f_read offset totalSize f of
                    Inl e \<Rightarrow> Inl (ValueIO e)
                  | Inr result \<Rightarrow> Inr (fill_buf totalSize result)))
          else
            let totalSize = 2 + getFixedTypeSize (header ! 1) in
            (case f_read offset totalSize f of
               Inl e \<Rightarrow> Inl (ValueIO e)
             | Inr result \<Rightarrow> Inr (fill_buf totalSize result)))"

definition seekRecord :: "gofile \<Rightarrow> u64 \<Rightarrow> value_error + bytes" where
  "seekRecord f offset =
     (case f_seek offset of Inl e \<Rightarrow> Inl (ValueIO e) | Inr p \<Rightarrow> readRecordAt f p)"

definition readFromTier3 :: "ValueStore \<Rightarrow> u64 \<Rightarrow> value_error + bytes" where
  "readFromTier3 vs offset = seekRecord (tier3File vs) offset"

definition readFromBucketTier ::
  "ValueStore \<Rightarrow> nat \<Rightarrow> u64 \<Rightarrow> u64 \<Rightarrow> (value_error + bytes) \<times> ValueStore" where
  "readFromBucketTier vs tier bucket offset =
     (case getBucketFile vs tier bucket of
        Inl e \<Rightarrow> (Inl e, vs)
      | Inr vs1 \<Rightarrow> (seekRecord (bucketContent vs1 tier bucket) offset, vs1))"

definition readTier ::
  "ValueStore \<Rightarrow> nat \<Rightarrow> u64 \<Rightarrow> u64 \<Rightarrow> (value_error + bytes) \<times> ValueStore" where
  "readTier vs tier bucket offset =
     (if tier = 0 then readFromBucketTier vs 0 bucket offset
      else if tier = 1 then readFromBucketTier vs 1 bucket offset
      else if tier = 2 then readFromBucketTier vs 2 bucket offset
      else if tier = 3 then (readFromTier3 vs offset, vs)
      else (Inl (InvalidTier tier), vs))"

definition readValue :: "ValueStore \<Rightarrow> u64 \<Rightarrow> (value_error + Value) \<times> ValueStore" where
  "readValue vs valueID =
     (let (data, vs1) =
            readTier vs (extractTier valueID) (extractBucket valueID) (extractOffset valueID)
      in (rbind data deserializeValue, vs1))"

subsection \<open>Writing\<close>

definition writeToTier3 :: "ValueStore \<Rightarrow> bytes \<Rightarrow> (value_error + u64) \<times> ValueStore" where
  "writeToTier3 vs data =
     (case AllocateSpace (of_nat (length data)) (freeLists vs 3) of
        (Some offset, fl) \<Rightarrow>
          (let vs1 = vs\<lparr>freeLists := (freeLists vs)(3 := fl)\<rparr> in
           case f_seek offset of
             Inl e \<Rightarrow> (Inl (ValueIO e), vs1)
           | Inr p \<Rightarrow> (Inr (encodeValueID 3 0 offset), vs1\<lparr>tier3File := f_write p data (tier3File vs1)\<rparr>))
      | (None, fl) \<Rightarrow>
          (let offset = of_nat (length (tier3File vs)) in
           (Inr (encodeValueID 3 0 offset), vs\<lparr>tier3File := f_append data (tier3File vs)\<rparr>)))"

definition writeToBucketTier ::
  "ValueStore \<Rightarrow> nat \<Rightarrow> bytes \<Rightarrow> (value_error + u64) \<times> ValueStore" where
  "writeToBucketTier vs0 tier data =
     (let bucket = currentBucket vs0 tier in
      case getBucketFile vs0 tier bucket of
        Inl e \<Rightarrow> (Inl e, vs0)
      | Inr vs \<Rightarrow>
          (let f = bucketContent vs tier bucket in
           case AllocateSpace (of_nat (length data)) (freeLists vs tier) of
             (Some offset, fl) \<Rightarrow>
               (let vs1 = vs\<lparr>freeLists := (freeLists vs)(tier := fl)\<rparr> in
                case f_seek offset of
                  Inl e \<Rightarrow> (Inl (ValueIO e), vs1)
                | Inr p \<Rightarrow> (Inr (encodeValueID tier bucket offset),
                             setBucketContent tier bucket (f_write p data f) vs1))
           | (None, fl) \<Rightarrow>
               (let offset = of_nat (length f);
                    (offset, f) =
                      (if encodeValueID tier bucket offset = 0 then (offset + 1, f_append [0] f)
                       else (offset, f))
                in (Inr (encodeValueID tier bucket offset),
                    setBucketContent tier bucket (f_append data f) vs))))"

definition writeTier :: "ValueStore \<Rightarrow> nat \<Rightarrow> bytes \<Rightarrow> (value_error + u64) \<times> ValueStore" where
  "writeTier vs tier serialized =
     (if tier = 0 then writeToBucketTier vs 0 serialized
      else if tier = 1 then writeToBucketTier vs 1 serialized
      else if tier = 2 then writeToBucketTier vs 2 serialized
      else if tier = 3 then writeToTier3 vs serialized
      else (Inl (InvalidTier tier), vs))"

definition writeValue ::
  "(bytes \<Rightarrow> bytes) \<Rightarrow> ValueStore \<Rightarrow> Value \<Rightarrow> (value_error + u64) \<times> ValueStore" where
  "writeValue sha vs value =
     (let h = hashValue sha value in
      case hashToValueID vs h of
        Some valueID \<Rightarrow>
          (Inr valueID,
           vs\<lparr>referenceCount := (referenceCount vs)(valueID \<mapsto>
                (case referenceCount vs valueID of None \<Rightarrow> 0 | Some n \<Rightarrow> n) + 1)\<rparr>)
      | None \<Rightarrow>
          (let serialized = serializeValue value;
               tier = determineTier (length serialized)
           in case writeTier vs tier serialized of
                (Inl e, vs1) \<Rightarrow> (Inl e, vs1)
              | (Inr valueID, vs1) \<Rightarrow>
                  (Inr valueID,
                   vs1\<lparr>hashToValueID := (hashToValueID vs1)(h \<mapsto> valueID),
                       referenceCount := (referenceCount vs1)(valueID \<mapsto> 1)\<rparr>)))"

subsection \<open>Tombstones\<close>

definition tombstoneTier3 :: "ValueStore \<Rightarrow> u64 \<Rightarrow> (value_error + unit) \<times> ValueStore" where
  "tombstoneTier3 vs offset =
     (case readFromTier3 vs offset of
        Inl e \<Rightarrow> (Inl e, vs)
      | Inr data \<Rightarrow>
          (case f_seek offset of
             Inl e \<Rightarrow> (Inl (ValueIO e), vs)
           | Inr p \<Rightarrow>
               (Inr (),
                vs\<lparr>tier3File := f_write p [SentinelTombstone] (tier3File vs),
                   freeLists := (freeLists vs)(3 := AddBlock offset (of_nat (length data)) (freeLists vs 3))\<rparr>)))"

definition tombstoneBucketTier ::
  "ValueStore \<Rightarrow> nat \<Rightarrow> u64 \<Rightarrow> u64 \<Rightarrow> (value_error + unit) \<times> ValueStore" where
  "tombstoneBucketTier vs0 tier bucket offset =
     (case readFromBucketTier vs0 tier bucket offset of
        (Inl e, vs) \<Rightarrow> (Inl e, vs)
      | (Inr data, vs1) \<Rightarrow>
          (case getBucketFile vs1 tier bucket of
             Inl e \<Rightarrow> (Inl e, vs1)
           | Inr vs \<Rightarrow>
               (case f_seek offset of
                  Inl e \<Rightarrow> (Inl (ValueIO e), vs)
                | Inr p \<Rightarrow>
                    (Inr (),
                     (setBucketContent tier bucket
                        (f_write p [SentinelTombstone] (bucketContent vs tier bucket)) vs)
                     \<lparr>freeLists := (freeLists vs)
                        (tier := AddBlock offset (of_nat (length data)) (freeLists vs tier))\<rparr>))))"

definition tombstoneTier ::
  "ValueStore \<Rightarrow> nat \<Rightarrow> u64 \<Rightarrow> u64 \<Rightarrow> (value_error + unit) \<times> ValueStore" where
  "tombstoneTier vs tier bucket offset =
     (if tier = 0 then tombstoneBucketTier vs 0 bucket offset
      else if tier = 1 then tombstoneBucketTier vs 1 bucket offset
      else if tier = 2 then tombstoneBucketTier vs 2 bucket offset
      else if tier = 3 then tombstoneTier3 vs offset
      else (Inl (InvalidTier tier), vs))"

text \<open>Removing the hash entry of a value about to be tombstoned; a value that cannot be read keeps it.\<close>

definition dropHash :: "(bytes \<Rightarrow> bytes) \<Rightarrow> ValueStore \<Rightarrow> u64 \<Rightarrow> ValueStore" where
  "dropHash sha vs valueID =
     (case readValue vs valueID of
        (Inl e, vs1) \<Rightarrow> vs1
      | (Inr value, vs1) \<Rightarrow>
          vs1\<lparr>hashToValueID := (hashToValueID vs1)(hashValue sha value := None)\<rparr>)"

definition tombstoneValue ::
  "(bytes \<Rightarrow> bytes) \<Rightarrow> ValueStore \<Rightarrow> u64 \<Rightarrow> (value_error + unit) \<times> ValueStore" where
  "tombstoneValue sha vs valueID =
     (case referenceCount vs valueID of
        None \<Rightarrow> (Inl (NoRefCount valueID), vs)
      | Some n \<Rightarrow>
          (let refCount = n - 1 in
           if 0 < refCount
           then (Inr (), vs\<lparr>referenceCount := (referenceCount vs)(valueID \<mapsto> refCount)\<rparr>)
           else
             (let vs1 = vs\<lparr>referenceCount := (referenceCount vs)(valueID := None)\<rparr>;
                  vs2 = dropHash sha vs1 valueID
              in tombstoneTier vs2 (extractTier valueID) (extractBucket valueID) (extractOffset valueID))))"

subsection \<open>Lookup and restart\<close>

definition FindValueIDForData :: "(bytes \<Rightarrow> bytes) \<Rightarrow> ValueStore \<Rightarrow> bytes \<Rightarrow> u8 \<Rightarrow> u64" where
  "FindValueIDForData sha vs data typeTag =
     (case hashToValueID vs (hashValue sha \<lparr>vTypeTag = typeTag, vData = data\<rparr>) of
        Some valueID \<Rightarrow> valueID
      | None \<Rightarrow> 0)"

definition determineMaxValueID :: "ValueStore \<Rightarrow> u64" where
  "determineMaxValueID vs =
     (let maxValueID = 0;
          maxValueID =
            (if 0 < length (tier3File vs) then
               let estimatedCount = of_nat (length (tier3File vs)) div 100 in
               if maxValueID < estimatedCount then estimatedCount else maxValueID
             else maxValueID)
      in if maxValueID = 0 then 1000 else maxValueID)"

definition rebuildStep :: "(bytes \<Rightarrow> bytes) \<Rightarrow> u64 \<Rightarrow> ValueStore \<Rightarrow> ValueStore" where
  "rebuildStep sha valueID vs =
     (case readValue vs valueID of
        (Inl e, vs1) \<Rightarrow> vs1
      | (Inr value, vs1) \<Rightarrow>
          vs1\<lparr>hashToValueID := (hashToValueID vs1)(hashValue sha value \<mapsto> valueID),
              referenceCount := (referenceCount vs1)(valueID \<mapsto> 1)\<rparr>)"

definition rebuildHashMap :: "(bytes \<Rightarrow> bytes) \<Rightarrow> ValueStore \<Rightarrow> ValueStore" where
  "rebuildHashMap sha vs =
     fold (\<lambda>valueID. rebuildStep sha (of_nat valueID)) [1..<Suc (unat (determineMaxValueID vs))] vs"

definition NewValueStore ::
  "(bytes \<Rightarrow> bytes) \<Rightarrow> (nat \<Rightarrow> u64 \<Rightarrow> gofile option) \<Rightarrow> gofile \<Rightarrow> ValueStore" where
  "NewValueStore sha dir large =
     rebuildHashMap sha
       \<lparr>tierDir = dir, tierFiles = (\<lambda>_. []), tier3File = large, currentBucket = (\<lambda>_. 0),
        freeLists = (\<lambda>_. NewFreeList), hashToValueID = Map.empty, referenceCount = Map.empty\<rparr>"

end
