(* ===== verification/ValueStore_Correct.thy ===== *)
theory ValueStore_Correct
  imports ValueStore
begin

text \<open>
  Correctness of the value store: the invariant \<open>vs_inv\<close>, its preservation, and the
  refinement of \<open>writeValue\<close>, \<open>readValue\<close> and \<open>tombstoneValue\<close> to the abstract
  store \<open>contents\<close>, the map from live value IDs to their values.
\<close>

named_theorems vs_simps \<open>field accesses of updated value stores\<close>

subsection \<open>Opening bucket files is invisible\<close>

definition same_core :: "ValueStore \<Rightarrow> ValueStore \<Rightarrow> bool" where
  "same_core vs vs' \<longleftrightarrow>
     bucketContent vs' = bucketContent vs \<and> tier3File vs' = tier3File vs \<and>
     currentBucket vs' = currentBucket vs \<and> freeLists vs' = freeLists vs \<and>
     hashToValueID vs' = hashToValueID vs \<and> referenceCount vs' = referenceCount vs"

lemma same_core_refl [simp]: "same_core vs vs"
  by (simp add: same_core_def)

lemma same_core_trans: "same_core a b \<Longrightarrow> same_core b c \<Longrightarrow> same_core a c"
  by (simp add: same_core_def)

lemma setBucketContent_simps [vs_simps]:
  "bucketContent (setBucketContent t b f vs) t' b' =
     (if t' = t \<and> b' = b then f else bucketContent vs t' b')"
  "tier3File (setBucketContent t b f vs) = tier3File vs"
  "currentBucket (setBucketContent t b f vs) = currentBucket vs"
  "freeLists (setBucketContent t b f vs) = freeLists vs"
  "hashToValueID (setBucketContent t b f vs) = hashToValueID vs"
  "referenceCount (setBucketContent t b f vs) = referenceCount vs"
  by (simp_all add: setBucketContent_def bucketContent_def)

lemma bucketContent_update [vs_simps]:
  "bucketContent (vs\<lparr>tier3File := a\<rparr>) = bucketContent vs"
  "bucketContent (vs\<lparr>freeLists := b\<rparr>) = bucketContent vs"
  "bucketContent (vs\<lparr>hashToValueID := c\<rparr>) = bucketContent vs"
  "bucketContent (vs\<lparr>referenceCount := d\<rparr>) = bucketContent vs"
  "bucketContent (vs\<lparr>tierFiles := g\<rparr>) = bucketContent vs"
  by (simp_all add: fun_eq_iff bucketContent_def)

lemma getBucketFile_ok:
  assumes "tier < 3"
  obtains vs1 where "getBucketFile vs tier bucket = Inr vs1" "same_core vs vs1"
proof (cases "bucket \<in> set (tierFiles vs tier)")
  case True
  with assms that [of vs] show ?thesis by (simp add: getBucketFile_def)
next
  case False
  with assms show ?thesis
    by (intro that) (auto simp: getBucketFile_def same_core_def vs_simps fun_eq_iff)
qed

lemma readFromBucketTier_eq:
  assumes "tier < 3"
  obtains vs1 where "same_core vs vs1"
    "readFromBucketTier vs tier bucket offset = (seekRecord (bucketContent vs tier bucket) offset, vs1)"
  using getBucketFile_ok [OF assms, of vs bucket]
  by (metis (no_types, lifting) readFromBucketTier_def same_core_def sum.case(2))

subsection \<open>Reading a stored record\<close>

lemma readRecordAt_stored:
  assumes wf: "wf_value v"
    and fits: "off + length (serializeValue v) \<le> length f"
    and eq: "slice off (length (serializeValue v)) f = serializeValue v"
  shows "readRecordAt f off = Inr (serializeValue v)"
proof -
  let ?s = "serializeValue v"
  have part: "slice (off + i) n f = slice i n ?s" if "i + n \<le> length ?s" for i n
    using slice_slice [OF that, of off f] eq by simp
  have len: "2 \<le> length ?s" by (simp add: length_serializeValue)
  have hd2: "f_read off 2 f = Inr [SentinelValue, vTypeTag v]"
    using fits len part [of 0 2] by (simp add: slice_def serializeValue_def)
  have ns: "SentinelValue \<noteq> SentinelTombstone" by (simp add: sentinel_defs)
  have whole: "f_read off (length ?s) f = Inr ?s"
    using fits len eq f_read_ok [of "length ?s" off f] by fastforce
  show ?thesis
  proof (cases "isVariableLength (vTypeTag v)")
    case True
    have "f_read (off + 2) 4 f = Inr (put_le 4 (of_nat (length (vData v)) :: u32))"
      using fits True part [of 2 4]
      by (simp add: length_serializeValue) (simp add: slice_def serializeValue_def)
    moreover have "unat (of_nat (length (vData v)) :: u32) = length (vData v)"
      using wf True by (simp add: wf_value_def)
    ultimately show ?thesis
      using hd2 whole ns True unfolding readRecordAt_def
      by (simp add: Let_def length_serializeValue)
  next
    case False
    then show ?thesis
      using hd2 whole ns wf unfolding readRecordAt_def
      by (simp add: Let_def length_serializeValue wf_value_def)
  qed
qed

subsection \<open>Stored values and the invariant\<close>

definition fileAt :: "ValueStore \<Rightarrow> nat \<Rightarrow> gofile" where
  "fileAt vs t = (if t = 3 then tier3File vs else bucketContent vs t 0)"

lemma fileAt_update [vs_simps]:
  "fileAt (vs\<lparr>freeLists := b\<rparr>) = fileAt vs"
  "fileAt (vs\<lparr>hashToValueID := c\<rparr>) = fileAt vs"
  "fileAt (vs\<lparr>referenceCount := d\<rparr>) = fileAt vs"
  by (simp_all add: fun_eq_iff fileAt_def vs_simps)

definition span :: "u64 \<Rightarrow> Value \<Rightarrow> nat set" where
  "span valueID v =
     {unat (extractOffset valueID) ..< unat (extractOffset valueID) + length (serializeValue v)}"

definition stored_at :: "ValueStore \<Rightarrow> u64 \<Rightarrow> Value \<Rightarrow> bool" where
  "stored_at vs valueID v \<longleftrightarrow>
     wf_value v \<and> valueID \<noteq> 0 \<and>
     encodeValueID (extractTier valueID) 0 (extractOffset valueID) = valueID \<and>
     extractTier valueID = determineTier (length (serializeValue v)) \<and>
     extractBucket valueID = 0 \<and> unat (extractOffset valueID) < 2 ^ 40 \<and>
     unat (extractOffset valueID) + length (serializeValue v) \<le> length (fileAt vs (extractTier valueID)) \<and>
     slice (unat (extractOffset valueID)) (length (serializeValue v)) (fileAt vs (extractTier valueID))
       = serializeValue v"

lemma stored_atD:
  assumes "stored_at vs i v"
  shows stored_wf: "wf_value v" and stored_nonzero: "i \<noteq> 0"
    and stored_id: "encodeValueID (extractTier i) 0 (extractOffset i) = i"
    and stored_tier: "extractTier i = determineTier (length (serializeValue v))"
    and stored_tier_less: "extractTier i < 4"
    and stored_bucket: "extractBucket i = 0"
    and stored_offset: "unat (extractOffset i) < 2 ^ 40"
    and stored_fits: "unat (extractOffset i) + length (serializeValue v) \<le> length (fileAt vs (extractTier i))"
    and stored_bytes: "slice (unat (extractOffset i)) (length (serializeValue v)) (fileAt vs (extractTier i))
       = serializeValue v"
  using assms unfolding stored_at_def by (auto simp: determineTier_less)

lemma stored_at_transfer:
  assumes "stored_at vs i v"
    and "slice (unat (extractOffset i)) (length (serializeValue v)) (fileAt vs' (extractTier i))
       = slice (unat (extractOffset i)) (length (serializeValue v)) (fileAt vs (extractTier i))"
    and "length (fileAt vs (extractTier i)) \<le> length (fileAt vs' (extractTier i))"
  shows "stored_at vs' i v"
  using assms unfolding stored_at_def by (metis le_trans)

definition live :: "ValueStore \<Rightarrow> u64 \<Rightarrow> Value \<Rightarrow> bool" where
  "live vs valueID v \<longleftrightarrow> referenceCount vs valueID \<noteq> None \<and> stored_at vs valueID v"

definition vs_inv :: "(bytes \<Rightarrow> bytes) \<Rightarrow> ValueStore \<Rightarrow> bool" where
  "vs_inv sha vs \<longleftrightarrow>
     (\<forall>valueID n. referenceCount vs valueID = Some n \<longrightarrow>
        0 < n \<and> (\<exists>v. stored_at vs valueID v \<and> hashToValueID vs (hashValue sha v) = Some valueID)) \<and>
     (\<forall>h valueID. hashToValueID vs h = Some valueID \<longrightarrow>
        (\<exists>v. live vs valueID v \<and> hashValue sha v = h)) \<and>
     (\<forall>i j v w. live vs i v \<longrightarrow> live vs j w \<longrightarrow> i \<noteq> j \<longrightarrow> extractTier i = extractTier j \<longrightarrow>
        span i v \<inter> span j w = {}) \<and>
     (\<forall>i v. live vs i v \<longrightarrow> span i v \<inter> free_set (freeLists vs (extractTier i)) = {}) \<and>
     (\<forall>t < 4. fl_inv (freeLists vs t) \<and> free_set (freeLists vs t) \<subseteq> {..<length (fileAt vs t)}) \<and>
     0 \<notin> free_set (freeLists vs 0) \<and>
     (\<forall>t. currentBucket vs t = 0)"

lemma vs_invD:
  assumes "vs_inv sha vs"
  shows refs_stored: "\<And>i n. referenceCount vs i = Some n \<Longrightarrow>
      0 < n \<and> (\<exists>v. stored_at vs i v \<and> hashToValueID vs (hashValue sha v) = Some i)"
    and hash_live: "\<And>h i. hashToValueID vs h = Some i \<Longrightarrow> \<exists>v. live vs i v \<and> hashValue sha v = h"
    and spans_disjoint: "\<And>i j v w. \<lbrakk>live vs i v; live vs j w; i \<noteq> j; extractTier i = extractTier j\<rbrakk>
      \<Longrightarrow> span i v \<inter> span j w = {}"
    and span_not_free: "\<And>i v. live vs i v \<Longrightarrow> span i v \<inter> free_set (freeLists vs (extractTier i)) = {}"
    and free_list_inv: "\<And>t. t < 4 \<Longrightarrow> fl_inv (freeLists vs t)"
    and free_in_file: "\<And>t. t < 4 \<Longrightarrow> free_set (freeLists vs t) \<subseteq> {..<length (fileAt vs t)}"
    and zero_not_free: "0 \<notin> free_set (freeLists vs 0)"
    and bucket_zero: "\<And>t. currentBucket vs t = 0"
  using assms unfolding vs_inv_def by blast+

lemma stored_at_unique: "stored_at vs i v \<Longrightarrow> stored_at vs i w \<Longrightarrow> v = w"
proof -
  assume v: "stored_at vs i v" and w: "stored_at vs i w"
  let ?f = "fileAt vs (extractTier i)" and ?p = "unat (extractOffset i)"
  have "readRecordAt ?f ?p = Inr (serializeValue v)" "readRecordAt ?f ?p = Inr (serializeValue w)"
    using v w by (auto simp: stored_at_def intro!: readRecordAt_stored)
  with v w show ?thesis by (auto simp: stored_at_def intro: serializeValue_inj)
qed

lemma fileAt_same_core: "same_core vs vs' \<Longrightarrow> fileAt vs' = fileAt vs"
  by (simp add: fun_eq_iff fileAt_def same_core_def)

lemma stored_at_same_core: "same_core vs vs' \<Longrightarrow> stored_at vs' = stored_at vs"
  by (simp add: fun_eq_iff stored_at_def fileAt_same_core)

lemma live_same_core: "same_core vs vs' \<Longrightarrow> live vs' = live vs"
  by (simp add: fun_eq_iff live_def stored_at_same_core) (simp add: same_core_def)

lemma vs_inv_same_core:
  assumes "same_core vs vs'"
  shows "vs_inv sha vs' = vs_inv sha vs"
  unfolding vs_inv_def stored_at_same_core [OF assms] live_same_core [OF assms]
    fileAt_same_core [OF assms]
  using assms by (simp add: same_core_def)

text \<open>A live value ID reads back its value, and reading opens files but changes nothing else.\<close>

lemma readTier_bucket: "t < 3 \<Longrightarrow> readTier vs t b p = readFromBucketTier vs t b p"
  by (simp add: readTier_def less_Suc_eq numeral_3_eq_3 numeral_2_eq_2) auto

lemma readTier_same_core: "same_core vs (snd (readTier vs t b p))"
proof (cases "t < 3")
  case True
  then show ?thesis
    using readFromBucketTier_eq [OF True, of vs b p] readTier_bucket [OF True, of vs b p]
    by (metis snd_conv)
next
  case False
  then show ?thesis by (simp add: readTier_def)
qed

lemma readTier_fileAt: "t < 4 \<Longrightarrow> fst (readTier vs t 0 p) = seekRecord (fileAt vs t) p"
proof (cases "t < 3")
  case True
  then show ?thesis
    using readFromBucketTier_eq [OF True, of vs 0 p] readTier_bucket [OF True, of vs 0 p]
    by (metis fileAt_def fst_conv nat_neq_iff)
next
  assume "t < 4"
  case False
  with \<open>t < 4\<close> have "t = 3" by simp
  then show ?thesis by (simp add: readTier_def readFromTier3_def fileAt_def)
qed

lemma readValue_same_core: "same_core vs (snd (readValue vs valueID))"
  using readTier_same_core [of vs] by (simp add: readValue_def case_prod_unfold Let_def)

lemma seekRecord_stored:
  assumes "stored_at vs valueID v"
  shows "seekRecord (fileAt vs (extractTier valueID)) (extractOffset valueID) = Inr (serializeValue v)"
  using readRecordAt_stored [OF stored_wf [OF assms] stored_fits [OF assms] stored_bytes [OF assms]]
    stored_offset [OF assms]
  by (simp add: seekRecord_def)

lemma readValue_stored:
  assumes "stored_at vs valueID v"
  shows "fst (readValue vs valueID) = Inr v"
proof -
  have "extractTier valueID < 4" "extractBucket valueID = 0" "wf_value v"
    using assms by (simp_all add: stored_at_def determineTier_less)
  then show ?thesis
    using readTier_fileAt [of "extractTier valueID" vs "extractOffset valueID"]
      seekRecord_stored [OF assms] deserialize_serialize_append [of v "[]"]
    by (simp add: readValue_def case_prod_unfold)
qed

subsection \<open>Placing a record\<close>

text \<open>
  What a tier write does to the file and the free list: the record lies at \<open>p\<close>, only free
  positions or positions past the old end were overwritten, and the free list lost exactly the
  positions of the record.
\<close>

definition file_placed :: "gofile \<Rightarrow> free_list \<Rightarrow> bytes \<Rightarrow> nat \<Rightarrow> gofile \<Rightarrow> free_list \<Rightarrow> bool" where
  "file_placed f fl d p f' fl' \<longleftrightarrow>
     p + length d \<le> length f' \<and> slice p (length d) f' = d \<and>
     length f \<le> length f' \<and> length f' \<le> length f + length d + 1 \<and>
     (\<forall>q n. q + n \<le> length f \<longrightarrow> {q..<q + n} \<inter> free_set fl = {} \<longrightarrow> slice q n f' = slice q n f) \<and>
     {p..<p + length d} \<inter> {..<length f} \<subseteq> free_set fl \<and>
     fl_inv fl' \<and> free_set fl' = free_set fl - {p..<p + length d}"

lemma file_placed_reuse:
  assumes "AllocateSpace (of_nat (length d)) fl = (Some off, fl')"
    and "fl_inv fl" "free_set fl \<subseteq> {..<length f}" "length d < 2 ^ 64" "0 < length d"
  shows "file_placed f fl d (unat off) (f_write (unat off) d f) fl'"
    and "unat off + length d \<le> length f" and "unat off \<in> free_set fl"
proof -
  have r: "region off (of_nat (length d)) = {unat off..<unat off + length d}"
    using assms(4) by (simp add: region_def)
  have sub: "{unat off..<unat off + length d} \<subseteq> free_set fl"
    using flm.alloc_sub [OF assms(2,1)] r by simp
  have last: "unat off + length d - 1 \<in> free_set fl" "unat off \<in> free_set fl"
    using sub gr0_implies_Suc [OF assms(5)] by (auto simp del: length_greater_0_conv)
  then show fits: "unat off + length d \<le> length f" and "unat off \<in> free_set fl"
    using assms(3) by auto
  have other: "slice q n (f_write (unat off) d f) = slice q n f"
    if "q + n \<le> length f" "{q..<q + n} \<inter> free_set fl = {}" for q n
  proof (cases "n = 0")
    case True
    then show ?thesis by (simp add: slice_def)
  next
    case False
    have "{q..<q + n} \<inter> {unat off..<unat off + length d} = {}" using that(2) sub by blast
    then have "q + n \<le> unat off \<or> unat off + length d \<le> q"
      using False assms(5) by (auto simp: disjoint_iff)
    with that(1) show ?thesis by (rule slice_f_write_other)
  qed
  show "file_placed f fl d (unat off) (f_write (unat off) d f) fl'"
    using fits sub other flm.alloc_inv [OF assms(2,1)] flm.alloc_free [OF assms(2,1)] r
    by (auto simp: file_placed_def)
qed

lemma file_placed_append:
  assumes "fl_inv fl" "free_set fl \<subseteq> {..<length f}" "length pad \<le> 1"
  shows "file_placed f fl d (length (f @ pad)) ((f @ pad) @ d) fl"
proof -
  have "slice q n ((f @ pad) @ d) = slice q n f" if "q + n \<le> length f" for q n
    using that by (simp add: slice_def)
  moreover have "slice (length (f @ pad)) (length d) ((f @ pad) @ d) = d"
    by (rule slice_append_new)
  ultimately show ?thesis
    using assms by (auto simp: file_placed_def)
qed

definition placed :: "ValueStore \<Rightarrow> nat \<Rightarrow> bytes \<Rightarrow> nat \<Rightarrow> ValueStore \<Rightarrow> bool" where
  "placed vs t d p vs' \<longleftrightarrow>
     hashToValueID vs' = hashToValueID vs \<and> referenceCount vs' = referenceCount vs \<and>
     currentBucket vs' = currentBucket vs \<and>
     (\<forall>u. u \<noteq> t \<longrightarrow> fileAt vs' u = fileAt vs u \<and> freeLists vs' u = freeLists vs u) \<and>
     file_placed (fileAt vs t) (freeLists vs t) d p (fileAt vs' t) (freeLists vs' t)"

definition room :: "ValueStore \<Rightarrow> nat \<Rightarrow> nat \<Rightarrow> bool" where
  "room vs t n \<longleftrightarrow> length (fileAt vs t) + n + 1 < 2 ^ 40"

lemma writeToTier3_placed:
  assumes "fl_inv (freeLists vs 3)" "free_set (freeLists vs 3) \<subseteq> {..<length (fileAt vs 3)}"
    and "room vs 3 (length d)" "0 < length d"
  obtains off vs' where "writeToTier3 vs d = (Inr (encodeValueID 3 0 off), vs')"
    "unat off < 2 ^ 40" "placed vs 3 d (unat off) vs'"
proof (cases "AllocateSpace (of_nat (length d)) (freeLists vs 3)")
  case (Pair r fl)
  have len: "length (tier3File vs) + length d < 2 ^ 40" "length d < 2 ^ 64"
    using assms(3) by (auto simp: room_def fileAt_def)
  show ?thesis
  proof (cases r)
    case None
    then have "fl = freeLists vs 3" using Pair flm.alloc_none by blast
    with None Pair len assms(1,2) file_placed_append [of "freeLists vs 3" "tier3File vs" "[]" d]
    show ?thesis
      by (intro that [of "of_nat (length (tier3File vs))"])
         (auto simp: writeToTier3_def placed_def fileAt_def f_append_def vs_simps)
  next
    case (Some off)
    note re = file_placed_reuse [OF Pair [unfolded Some] assms(1,2) len(2) assms(4)]
    have "unat off < 2 ^ 40" using re(2) len(1) by (simp add: fileAt_def)
    with Some Pair re(1) show ?thesis
      by (intro that [of off]) (auto simp: writeToTier3_def placed_def fileAt_def vs_simps)
  qed
qed

lemma writeToBucketTier_placed:
  assumes t: "t < 3" and cb: "currentBucket vs t = 0"
    and "fl_inv (freeLists vs t)" "free_set (freeLists vs t) \<subseteq> {..<length (fileAt vs t)}"
    and "room vs t (length d)" "0 < length d"
    and z: "0 \<notin> free_set (freeLists vs 0)"
  obtains off vs' where "writeToBucketTier vs t d = (Inr (encodeValueID t 0 off), vs')"
    "unat off < 2 ^ 40" "\<not> (t = 0 \<and> off = 0)" "placed vs t d (unat off) vs'"
proof -
  obtain vs1 where g: "getBucketFile vs t 0 = Inr vs1" and sc: "same_core vs vs1"
    using getBucketFile_ok [OF t] by metis
  have core: "bucketContent vs1 = bucketContent vs" "freeLists vs1 = freeLists vs"
    "tier3File vs1 = tier3File vs" "hashToValueID vs1 = hashToValueID vs"
    "referenceCount vs1 = referenceCount vs" "currentBucket vs1 = currentBucket vs"
    using sc by (simp_all add: same_core_def)
  let ?f = "bucketContent vs t 0" and ?fl = "freeLists vs t"
  have f: "fileAt vs t = ?f" using t by (simp add: fileAt_def)
  have inv: "fl_inv ?fl" "free_set ?fl \<subseteq> {..<length ?f}" using assms(3,4) f by auto
  have len: "length ?f + length d + 1 < 2 ^ 40" "length d < 2 ^ 64"
    using assms(5) f by (auto simp: room_def)
  have fa: "fileAt (setBucketContent t 0 g vs2) u = (if u = t then g else fileAt vs u)"
    if "bucketContent vs2 = bucketContent vs" "tier3File vs2 = tier3File vs" for g vs2 u
    using t that by (simp add: fileAt_def vs_simps)
  obtain r fl where Pair: "AllocateSpace (of_nat (length d)) ?fl = (r, fl)" by fastforce
  show ?thesis
  proof (cases r)
    case None
    let ?z = "encodeValueID t 0 (of_nat (length ?f)) = 0"
    let ?off = "of_nat (length ?f) + (if ?z then 1 else 0) :: u64"
    let ?pad = "if ?z then [0] else [] :: bytes"
    let ?vs = "setBucketContent t 0 ((?f @ ?pad) @ d) vs1"
    have off: "unat ?off = length (?f @ ?pad)"
      using len(1) by (simp add: unat_word_ariths unat_of_nat take_bit_nat_eq_self)
    have "writeToBucketTier vs t d = (Inr (encodeValueID t 0 ?off), ?vs)"
      using None Pair g cb core
      by (simp add: writeToBucketTier_def Let_def f_append_def)
    moreover have "unat ?off < 2 ^ 40" using off len(1) by (auto split: if_splits)
    moreover have "\<not> (t = 0 \<and> ?off = 0)"
    proof
      assume z0: "t = 0 \<and> ?off = 0"
      then have "?off = 0" by (rule conjunct2)
      then have "unat ?off = 0" by (simp only: unsigned_0)
      with off have "length (?f @ ?pad) = 0" by (rule trans [OF sym])
      then have "?f = []" "\<not> ?z" by (auto split: if_splits)
      then show False using z0 by (simp add: encodeValueID_def)
    qed
    moreover have "placed vs t d (unat ?off) ?vs"
      unfolding placed_def fa [OF core(1,3)] f off
      using file_placed_append [OF inv, of ?pad d] core by (simp add: vs_simps)
    ultimately show ?thesis by (rule that)
  next
    case (Some off)
    note re = file_placed_reuse [OF Pair [unfolded Some] inv len(2) assms(6)]
    let ?vs = "setBucketContent t 0 (f_write (unat off) d ?f) (vs1\<lparr>freeLists := (freeLists vs1)(t := fl)\<rparr>)"
    have lt: "unat off < 2 ^ 40" using re(2) len(1) by simp
    then have "writeToBucketTier vs t d = (Inr (encodeValueID t 0 off), ?vs)"
      using Some Pair g cb core by (simp add: writeToBucketTier_def Let_def)
    moreover have "\<not> (t = 0 \<and> off = 0)" using re(3) z by auto
    moreover have "placed vs t d (unat off) ?vs"
      unfolding placed_def using re(1) core f by (simp add: fa vs_simps)
    ultimately show ?thesis using lt that by blast
  qed
qed

lemma writeTier_bucket: "t < 3 \<Longrightarrow> writeTier vs t d = writeToBucketTier vs t d"
  by (simp add: writeTier_def less_Suc_eq numeral_3_eq_3 numeral_2_eq_2) auto

lemma writeTier_placed:
  assumes inv: "vs_inv sha vs" and t: "t < 4" and "room vs t (length d)" "0 < length d"
  obtains off vs' where "writeTier vs t d = (Inr (encodeValueID t 0 off), vs')"
    "unat off < 2 ^ 40" "encodeValueID t 0 off \<noteq> 0" "placed vs t d (unat off) vs'"
proof (cases "t < 3")
  case True
  obtain off vs' where w: "writeToBucketTier vs t d = (Inr (encodeValueID t 0 off), vs')"
    "unat off < 2 ^ 40" "\<not> (t = 0 \<and> off = 0)" "placed vs t d (unat off) vs'"
    using writeToBucketTier_placed [OF True bucket_zero [OF inv] free_list_inv [OF inv t]
        free_in_file [OF inv t] assms(3,4) zero_not_free [OF inv]] by metis
  moreover have "encodeValueID t 0 off \<noteq> 0"
    using encodeValueID_eq_0_iff [OF t, of 0 off] w(2,3) by simp
  ultimately show ?thesis using that writeTier_bucket [OF True] by metis
next
  case False
  with t have t3: "t = 3" by simp
  obtain off vs' where w: "writeToTier3 vs d = (Inr (encodeValueID 3 0 off), vs')"
    "unat off < 2 ^ 40" "placed vs 3 d (unat off) vs'"
    using writeToTier3_placed [of vs d] free_list_inv [OF inv, of 3] free_in_file [OF inv, of 3]
      assms(3,4) t3 by auto
  moreover have "encodeValueID 3 0 off \<noteq> 0"
    using encodeValueID_eq_0_iff [of 3 0 off] w(2) by simp
  ultimately show ?thesis using that [of off vs'] t3 by (simp add: writeTier_def)
qed

subsection \<open>The abstract store\<close>

definition contents :: "ValueStore \<Rightarrow> u64 \<Rightarrow> Value option" where
  "contents vs valueID =
     (case referenceCount vs valueID of
        None \<Rightarrow> None
      | Some _ \<Rightarrow> (case fst (readValue vs valueID) of Inl e \<Rightarrow> None | Inr v \<Rightarrow> Some v))"

lemma contents_live:
  assumes "vs_inv sha vs"
  shows "contents vs i = Some v \<longleftrightarrow> live vs i v"
proof (cases "referenceCount vs i")
  case None
  then show ?thesis by (simp add: contents_def live_def)
next
  case (Some n)
  then obtain w where w: "stored_at vs i w" using refs_stored [OF assms] by blast
  then have "contents vs i = Some w"
    using Some by (simp add: contents_def readValue_stored)
  with w Some show ?thesis by (auto simp: live_def dest: stored_at_unique)
qed

lemma contents_eq_None: "vs_inv sha vs \<Longrightarrow> contents vs i = None \<longleftrightarrow> referenceCount vs i = None"
  using contents_live [of sha vs i] refs_stored [of sha vs i]
  by (cases "contents vs i"; cases "referenceCount vs i") (auto simp: live_def)

lemma live_span_in_file:
  "live vs i v \<Longrightarrow> span i v \<subseteq> {..<length (fileAt vs (extractTier i))}"
  using stored_fits [of vs i v] by (auto simp: live_def span_def)

lemma live_span_nonempty: "unat (extractOffset i) \<in> span i v"
  by (simp add: span_def length_serializeValue)

lemma placed_span_disjoint:
  assumes inv: "vs_inv sha vs" and pl: "placed vs t d p vs1" and l: "live vs i w" "extractTier i = t"
  shows "span i w \<inter> {p..<p + length d} = {}"
proof -
  have "{p..<p + length d} \<inter> {..<length (fileAt vs t)} \<subseteq> free_set (freeLists vs t)"
    using pl by (simp add: placed_def file_placed_def)
  then show ?thesis
    using live_span_in_file [OF l(1)] span_not_free [OF inv l(1)] l(2) by blast
qed

lemma placed_stored:
  assumes inv: "vs_inv sha vs" and pl: "placed vs t d p vs1" and l: "live vs i w"
    and f: "fileAt vs2 = fileAt vs1"
  shows "stored_at vs2 i w"
proof (cases "extractTier i = t")
  case True
  have st: "stored_at vs i w" using l by (simp add: live_def)
  let ?q = "unat (extractOffset i)" and ?n = "length (serializeValue w)"
  have "{?q..<?q + ?n} \<inter> free_set (freeLists vs t) = {}"
    using span_not_free [OF inv l] True by (simp add: span_def)
  then have "slice ?q ?n (fileAt vs1 t) = slice ?q ?n (fileAt vs t)"
    "length (fileAt vs t) \<le> length (fileAt vs1 t)"
    using pl stored_fits [OF st] True by (auto simp: placed_def file_placed_def)
  with stored_at_transfer [OF st, of vs2] True f show ?thesis by simp
next
  case False
  then have "fileAt vs1 (extractTier i) = fileAt vs (extractTier i)"
    using pl by (simp add: placed_def)
  moreover have "stored_at vs i w" using l by (simp add: live_def)
  ultimately show ?thesis using stored_at_transfer [of vs i w vs2] f by simp
qed

lemma writeValue_new:
  assumes inv: "vs_inv sha vs" and wf: "wf_value v"
    and d: "d = serializeValue v" "t = determineTier (length d)"
    and pl: "placed vs t d (unat off) vs1" and off: "unat off < 2 ^ 40"
    and i: "i = encodeValueID t 0 off" "i \<noteq> 0"
    and new: "hashToValueID vs (hashValue sha v) = None"
    and vs': "vs' = vs1\<lparr>hashToValueID := (hashToValueID vs1)(hashValue sha v \<mapsto> i),
        referenceCount := (referenceCount vs1)(i \<mapsto> 1)\<rparr>"
  shows "referenceCount vs i = None" and "live vs' i v"
    and "\<And>j w. j \<noteq> i \<Longrightarrow> live vs' j w \<longleftrightarrow> live vs j w" and "vs_inv sha vs'"
proof -
  have t4: "t < 4" using d(2) by (simp add: determineTier_less)
  have ex: "extractTier i = t" "extractBucket i = 0" "extractOffset i = off"
    using extractBucket_encode [OF t4 _ off, of 0] extractTier_encode [OF t4 off]
      extractOffset_encode [OF off] i(1) by simp_all
  have f: "fileAt vs' = fileAt vs1"
    by (simp add: vs' vs_simps)
  have refs: "referenceCount vs' = (referenceCount vs)(i \<mapsto> 1)"
    and hs: "hashToValueID vs' = (hashToValueID vs)(hashValue sha v \<mapsto> i)"
    and fls: "freeLists vs' = freeLists vs1" and cb: "currentBucket vs' = currentBucket vs"
    using pl by (simp_all add: vs' placed_def)
  have fp: "file_placed (fileAt vs t) (freeLists vs t) d (unat off) (fileAt vs1 t) (freeLists vs1 t)"
    using pl by (simp add: placed_def)
  have sp: "span i v = {unat off..<unat off + length d}" by (simp add: span_def ex d(1))
  show fresh: "referenceCount vs i = None"
  proof (rule ccontr)
    assume "referenceCount vs i \<noteq> None"
    then obtain w where l: "live vs i w" using refs_stored [OF inv] by (auto simp: live_def)
    have "unat off \<in> span i w \<inter> {unat off..<unat off + length d}"
      using live_span_nonempty [of i w] ex d(1) by (simp add: length_serializeValue)
    with placed_span_disjoint [OF inv pl l ex(1)] show False by blast
  qed
  have sti: "stored_at vs' i v"
    using wf i ex off fp d f by (simp add: stored_at_def file_placed_def)
  then show livei: "live vs' i v" by (simp add: live_def refs)
  show livej: "live vs' j w \<longleftrightarrow> live vs j w" if "j \<noteq> i" for j w
  proof
    assume l: "live vs' j w"
    then have "referenceCount vs j \<noteq> None" using that by (simp add: live_def refs)
    then obtain w' where l': "live vs j w'" using refs_stored [OF inv] by (auto simp: live_def)
    with l placed_stored [OF inv pl l' f] have "w' = w"
      by (auto simp: live_def dest: stored_at_unique)
    with l' show "live vs j w" by simp
  next
    assume l: "live vs j w"
    then show "live vs' j w"
      using placed_stored [OF inv pl l f] by (auto simp: live_def refs)
  qed
  have liveE: "j = i \<and> w = v \<or> j \<noteq> i \<and> live vs j w" if "live vs' j w" for j w
    using that livei livej by (cases "j = i") (auto simp: live_def dest: stored_at_unique)
  show "vs_inv sha vs'"
    unfolding vs_inv_def
  proof (intro conjI allI impI)
    fix j n assume r: "referenceCount vs' j = Some n"
    show "0 < n" using r refs refs_stored [OF inv] by (auto split: if_splits)
    show "\<exists>w. stored_at vs' j w \<and> hashToValueID vs' (hashValue sha w) = Some j"
    proof (cases "j = i")
      case True
      then show ?thesis using sti hs by auto
    next
      case False
      then obtain w where w: "stored_at vs j w" "hashToValueID vs (hashValue sha w) = Some j"
        using r refs refs_stored [OF inv] by auto
      then have "live vs j w" using r False by (simp add: live_def refs)
      then have "stored_at vs' j w" by (rule placed_stored [OF inv pl _ f])
      moreover have "hashValue sha w \<noteq> hashValue sha v" using w(2) new by auto
      ultimately show ?thesis using w(2) hs by auto
    qed
  next
    fix h j assume h: "hashToValueID vs' h = Some j"
    show "\<exists>w. live vs' j w \<and> hashValue sha w = h"
    proof (cases "h = hashValue sha v")
      case True
      then show ?thesis using h hs livei by auto
    next
      case False
      then obtain w where w: "live vs j w" "hashValue sha w = h"
        using h hs hash_live [OF inv] by auto
      then have "j \<noteq> i" using fresh by (auto simp: live_def)
      then show ?thesis using w livej by blast
    qed
  next
    fix j k w x assume "live vs' j w" "live vs' k x" "j \<noteq> k" and e: "extractTier j = extractTier k"
    then show "span j w \<inter> span k x = {}"
      using liveE [of j w] liveE [of k x] spans_disjoint [OF inv, of j w k x]
        placed_span_disjoint [OF inv pl, of j w] placed_span_disjoint [OF inv pl, of k x] sp ex(1)
      by (metis Int_commute)
  next
    fix j w assume "live vs' j w"
    then show "span j w \<inter> free_set (freeLists vs' (extractTier j)) = {}"
      using liveE [of j w] span_not_free [OF inv, of j w] sp ex(1) fp pl fls
      by (cases "extractTier j = t") (auto simp: file_placed_def placed_def)
  next
    fix u :: nat assume u: "u < 4"
    show "fl_inv (freeLists vs' u)" "free_set (freeLists vs' u) \<subseteq> {..<length (fileAt vs' u)}"
      using free_list_inv [OF inv u] free_in_file [OF inv u] fp pl f fls
      by (cases "u = t"; force simp: file_placed_def placed_def)+
  next
    show "0 \<notin> free_set (freeLists vs' 0)"
      using zero_not_free [OF inv] fp pl fls
      by (cases "t = 0") (auto simp: file_placed_def placed_def)
  next
    fix u show "currentBucket vs' u = 0" using bucket_zero [OF inv] cb by simp
  qed
qed


subsection \<open>Writing a value\<close>

lemma live_referenceCount:
  "live (vs\<lparr>referenceCount := r\<rparr>) i v \<longleftrightarrow> r i \<noteq> None \<and> stored_at vs i v"
  by (simp add: live_def stored_at_def fileAt_def vs_simps)

lemma contents_eqI:
  assumes "vs_inv sha vs" "vs_inv sha vs'" "\<And>w. live vs' j w \<longleftrightarrow> live vs j w"
  shows "contents vs' j = contents vs j"
  using contents_live [OF assms(1), of j] contents_live [OF assms(2), of j] assms(3)
  by (metis not_None_eq)

lemma vs_inv_recount:
  assumes inv: "vs_inv sha vs" and i: "referenceCount vs i \<noteq> None" and n: "0 < n"
    and vs': "vs' = vs\<lparr>referenceCount := (referenceCount vs)(i \<mapsto> n)\<rparr>"
  shows "vs_inv sha vs'" and "contents vs' = contents vs"
proof -
  have st: "stored_at vs' = stored_at vs" and f: "fileAt vs' = fileAt vs"
    by (simp_all add: vs' fun_eq_iff stored_at_def fileAt_def vs_simps)
  have lv: "live vs' = live vs"
    using i by (auto simp: live_def st fun_eq_iff) (auto simp: vs' split: if_splits)
  show inv': "vs_inv sha vs'"
    unfolding vs_inv_def st lv f
    using vs_invD [OF inv] n i by (auto simp: vs' split: if_splits)
  show "contents vs' = contents vs"
    using contents_eqI [OF inv inv'] lv by auto
qed

text \<open>The value is not mistaken for another one: no live value shares its digest.\<close>

definition no_collision :: "(bytes \<Rightarrow> bytes) \<Rightarrow> ValueStore \<Rightarrow> Value \<Rightarrow> bool" where
  "no_collision sha vs v \<longleftrightarrow>
     (\<forall>i w. live vs i w \<longrightarrow> hashValue sha w = hashValue sha v \<longrightarrow> w = v)"

definition refs :: "ValueStore \<Rightarrow> u64 \<Rightarrow> int" where
  "refs vs i = (case referenceCount vs i of None \<Rightarrow> 0 | Some n \<Rightarrow> n)"

lemma writeValue_hit:
  assumes inv: "vs_inv sha vs" and nc: "no_collision sha vs v"
    and hit: "hashToValueID vs (hashValue sha v) = Some i"
  shows "contents vs i = Some v" and "refs vs i > 0"
    and "writeValue sha vs v = (Inr i, vs\<lparr>referenceCount := (referenceCount vs)(i \<mapsto> refs vs i + 1)\<rparr>)"
proof -
  obtain w where w: "live vs i w" "hashValue sha w = hashValue sha v"
    using hash_live [OF inv hit] by blast
  then have "w = v" using nc by (simp add: no_collision_def)
  then show "contents vs i = Some v" using w contents_live [OF inv] by simp
  show "refs vs i > 0"
    using w refs_stored [OF inv, of i] by (auto simp: refs_def live_def)
  show "writeValue sha vs v = (Inr i, vs\<lparr>referenceCount := (referenceCount vs)(i \<mapsto> refs vs i + 1)\<rparr>)"
    using hit by (simp add: writeValue_def refs_def)
qed

lemma writeValue_miss:
  assumes inv: "vs_inv sha vs" and wf: "wf_value v"
    and rm: "room vs (determineTier (length (serializeValue v))) (length (serializeValue v))"
    and miss: "hashToValueID vs (hashValue sha v) = None"
  obtains i vs' where "writeValue sha vs v = (Inr i, vs')" "i \<noteq> 0" "contents vs i = None"
    "vs_inv sha vs'" "contents vs' = (contents vs)(i \<mapsto> v)"
    "referenceCount vs' = (referenceCount vs)(i \<mapsto> 1)"
    "hashToValueID vs' = (hashToValueID vs)(hashValue sha v \<mapsto> i)"
    "\<And>t. length (fileAt vs' t) \<le> length (fileAt vs t) + length (serializeValue v) + 1"
proof -
  let ?d = "serializeValue v" and ?h = "hashValue sha v"
  let ?t = "determineTier (length ?d)"
  obtain off vs1 where w: "writeTier vs ?t ?d = (Inr (encodeValueID ?t 0 off), vs1)"
    "unat off < 2 ^ 40" "encodeValueID ?t 0 off \<noteq> 0" "placed vs ?t ?d (unat off) vs1"
    using writeTier_placed [OF inv determineTier_less rm] by (auto simp: length_serializeValue)
  let ?i = "encodeValueID ?t 0 off"
  let ?vs = "vs1\<lparr>hashToValueID := (hashToValueID vs1)(?h \<mapsto> ?i),
        referenceCount := (referenceCount vs1)(?i \<mapsto> 1)\<rparr>"
  note new = writeValue_new [OF inv wf refl refl w(4,2) refl w(3) miss refl]
  have "contents ?vs ?i = Some v" using contents_live [OF new(4)] new(2) by blast
  moreover have "contents ?vs j = contents vs j" if "j \<noteq> ?i" for j
    using contents_eqI [OF inv new(4)] new(3) [OF that] by blast
  ultimately have "contents ?vs = (contents vs)(?i \<mapsto> v)"
    by (simp only: fun_eq_iff fun_upd_apply) metis
  moreover have "contents vs ?i = None" using new(1) contents_eq_None [OF inv] by blast
  moreover have "writeValue sha vs v = (Inr ?i, ?vs)"
    using miss w(1) by (simp add: writeValue_def Let_def)
  moreover have "referenceCount ?vs = (referenceCount vs)(?i \<mapsto> 1)"
    "hashToValueID ?vs = (hashToValueID vs)(?h \<mapsto> ?i)"
    using w(4) by (simp_all add: placed_def)
  moreover have "length (fileAt ?vs t) \<le> length (fileAt vs t) + length ?d + 1" for t
    using w(4) by (cases "t = ?t") (simp_all add: placed_def file_placed_def vs_simps)
  ultimately show ?thesis using that w(3) new(4) by blast
qed

text \<open>
  Writing a well-formed value when its tier has room: the write succeeds, the returned ID is
  nonzero and now holds the value, every other ID keeps what it held, the value's reference
  count grows by one and no other count changes.
\<close>

lemma writeValue_correct:
  assumes inv: "vs_inv sha vs" and wf: "wf_value v"
    and rm: "room vs (determineTier (length (serializeValue v))) (length (serializeValue v))"
    and nc: "no_collision sha vs v"
  obtains i vs' where "writeValue sha vs v = (Inr i, vs')" "i \<noteq> 0" "vs_inv sha vs'"
    "contents vs' = (contents vs)(i \<mapsto> v)" "contents vs i \<in> {None, Some v}"
    "refs vs' = (refs vs)(i := refs vs i + 1)"
    "\<And>t. length (fileAt vs' t) \<le> length (fileAt vs t) + length (serializeValue v) + 1"
proof (cases "hashToValueID vs (hashValue sha v)")
  case (Some i)
  note hit = writeValue_hit [OF inv nc Some]
  let ?vs = "vs\<lparr>referenceCount := (referenceCount vs)(i \<mapsto> refs vs i + 1)\<rparr>"
  have l: "live vs i v" using hit(1) contents_live [OF inv] by blast
  then have r: "referenceCount vs i \<noteq> None" "i \<noteq> 0"
    using stored_nonzero by (auto simp: live_def)
  have p: "0 < refs vs i + 1" using hit(2) by simp
  have "contents ?vs = (contents vs)(i \<mapsto> v)"
    using vs_inv_recount(2) [OF inv r(1) p refl] hit(1) by auto
  moreover have "refs ?vs = (refs vs)(i := refs vs i + 1)"
    by (auto simp: refs_def fun_eq_iff)
  moreover have "length (fileAt ?vs t) \<le> length (fileAt vs t) + length (serializeValue v) + 1" for t
    by (simp add: vs_simps)
  ultimately show ?thesis
    using that [OF hit(3) r(2) vs_inv_recount(1) [OF inv r(1) p refl]] hit(1) by blast
next
  case None
  then obtain i vs' where w: "writeValue sha vs v = (Inr i, vs')" "i \<noteq> 0" "contents vs i = None"
    "vs_inv sha vs'" "contents vs' = (contents vs)(i \<mapsto> v)"
    "referenceCount vs' = (referenceCount vs)(i \<mapsto> 1)"
    "\<And>t. length (fileAt vs' t) \<le> length (fileAt vs t) + length (serializeValue v) + 1"
    using writeValue_miss [OF inv wf rm] by (metis (no_types, lifting))
  have "referenceCount vs i = None" using w(3) contents_eq_None [OF inv] by blast
  then have "refs vs' = (refs vs)(i := refs vs i + 1)"
    using w(6) by (auto simp: refs_def fun_eq_iff)
  then show ?thesis using that w by blast
qed

subsection \<open>Tombstoning a value\<close>

lemma stored_at_cong: "fileAt vs' = fileAt vs \<Longrightarrow> stored_at vs' = stored_at vs"
  by (simp add: fun_eq_iff stored_at_def)

lemma dropHash_stored:
  assumes "stored_at vs i v"
  obtains vs1 where "same_core vs vs1"
    "dropHash sha vs i = vs1\<lparr>hashToValueID := (hashToValueID vs1)(hashValue sha v := None)\<rparr>"
proof -
  obtain vs1 where r: "readValue vs i = (Inr v, vs1)"
    using readValue_stored [OF assms] by (metis prod.collapse)
  then have "same_core vs vs1" using readValue_same_core [of vs i] by simp
  then show ?thesis using that r by (simp add: dropHash_def)
qed

lemma tombstoneTier3_stored:
  assumes "stored_at vs i v" "extractTier i = 3"
  shows "tombstoneTier3 vs (extractOffset i) =
    (Inr (), vs\<lparr>tier3File := f_write (unat (extractOffset i)) [SentinelTombstone] (tier3File vs),
       freeLists := (freeLists vs)(3 := AddBlock (extractOffset i)
         (of_nat (length (serializeValue v))) (freeLists vs 3))\<rparr>)"
  using seekRecord_stored [OF assms(1)] stored_offset [OF assms(1)] assms(2)
  by (simp add: tombstoneTier3_def readFromTier3_def fileAt_def)

lemma tombstoneBucketTier_stored:
  assumes st: "stored_at vs i v" and t: "extractTier i < 3"
  obtains vs1 where "same_core vs vs1"
    "tombstoneBucketTier vs (extractTier i) 0 (extractOffset i) =
      (Inr (), (setBucketContent (extractTier i) 0
          (f_write (unat (extractOffset i)) [SentinelTombstone] (fileAt vs (extractTier i))) vs1)
        \<lparr>freeLists := (freeLists vs)(extractTier i := AddBlock (extractOffset i)
         (of_nat (length (serializeValue v))) (freeLists vs (extractTier i)))\<rparr>)"
proof -
  let ?t = "extractTier i"
  have f: "fileAt vs ?t = bucketContent vs ?t 0" using t by (simp add: fileAt_def)
  obtain vs1 where r: "same_core vs vs1" "readFromBucketTier vs ?t 0 (extractOffset i) =
      (Inr (serializeValue v), vs1)"
    using readFromBucketTier_eq [OF t, of vs 0 "extractOffset i"] seekRecord_stored [OF st] f
    by metis
  obtain vs2 where g: "getBucketFile vs1 ?t 0 = Inr vs2" "same_core vs1 vs2"
    using getBucketFile_ok [OF t] by metis
  have sc: "same_core vs vs2" using same_core_trans [OF r(1) g(2)] .
  then have "bucketContent vs2 = bucketContent vs" "freeLists vs2 = freeLists vs"
    by (simp_all add: same_core_def)
  with r g stored_offset [OF st] f that [OF sc] show ?thesis
    by (simp add: tombstoneBucketTier_def)
qed

lemma tombstoneTier_stored:
  assumes st: "stored_at vs i v"
  obtains vs' where "tombstoneTier vs (extractTier i) (extractBucket i) (extractOffset i) = (Inr (), vs')"
    "fileAt vs' = (fileAt vs)(extractTier i :=
        f_write (unat (extractOffset i)) [SentinelTombstone] (fileAt vs (extractTier i)))"
    "freeLists vs' = (freeLists vs)(extractTier i := AddBlock (extractOffset i)
         (of_nat (length (serializeValue v))) (freeLists vs (extractTier i)))"
    "hashToValueID vs' = hashToValueID vs" "referenceCount vs' = referenceCount vs"
    "currentBucket vs' = currentBucket vs"
proof (cases "extractTier i < 3")
  case True
  then obtain vs1 where v: "same_core vs vs1"
    "tombstoneBucketTier vs (extractTier i) 0 (extractOffset i) =
      (Inr (), (setBucketContent (extractTier i) 0
          (f_write (unat (extractOffset i)) [SentinelTombstone] (fileAt vs (extractTier i))) vs1)
        \<lparr>freeLists := (freeLists vs)(extractTier i := AddBlock (extractOffset i)
         (of_nat (length (serializeValue v))) (freeLists vs (extractTier i)))\<rparr>)"
    using tombstoneBucketTier_stored [OF st] by metis
  have "tombstoneTier vs (extractTier i) 0 (extractOffset i)
      = tombstoneBucketTier vs (extractTier i) 0 (extractOffset i)"
    using True by (simp add: tombstoneTier_def less_Suc_eq numeral_3_eq_3 numeral_2_eq_2) auto
  with v True stored_bucket [OF st] show ?thesis
    by (intro that) (auto simp: same_core_def vs_simps fileAt_def fun_eq_iff)
next
  case False
  then have "extractTier i = 3" using stored_tier_less [OF st] by simp
  with tombstoneTier3_stored [OF st] show ?thesis
    by (intro that) (auto simp: tombstoneTier_def fileAt_def fun_eq_iff vs_simps)
qed

text \<open>Dropping the last reference, as one change of the files, the free list and the maps.\<close>

definition reclaimed :: "(bytes \<Rightarrow> bytes) \<Rightarrow> ValueStore \<Rightarrow> u64 \<Rightarrow> Value \<Rightarrow> ValueStore \<Rightarrow> bool" where
  "reclaimed sha vs i v vs' \<longleftrightarrow>
     fileAt vs' = (fileAt vs)(extractTier i :=
        f_write (unat (extractOffset i)) [SentinelTombstone] (fileAt vs (extractTier i))) \<and>
     freeLists vs' = (freeLists vs)(extractTier i := AddBlock (extractOffset i)
         (of_nat (length (serializeValue v))) (freeLists vs (extractTier i))) \<and>
     hashToValueID vs' = (hashToValueID vs)(hashValue sha v := None) \<and>
     referenceCount vs' = (referenceCount vs)(i := None) \<and>
     currentBucket vs' = currentBucket vs"

lemma tombstoneValue_last:
  assumes l: "live vs i v" and n: "referenceCount vs i = Some 1"
  obtains vs' where "tombstoneValue sha vs i = (Inr (), vs')" "reclaimed sha vs i v vs'"
proof -
  let ?vs1 = "vs\<lparr>referenceCount := (referenceCount vs)(i := None)\<rparr>"
  have f1: "fileAt ?vs1 = fileAt vs" by (simp add: vs_simps)
  have st: "stored_at ?vs1 i v" using l stored_at_cong [OF f1] by (simp add: live_def)
  obtain vs2 where d: "same_core ?vs1 vs2"
    "dropHash sha ?vs1 i = vs2\<lparr>hashToValueID := (hashToValueID vs2)(hashValue sha v := None)\<rparr>"
    using dropHash_stored [OF st] by metis
  let ?vs3 = "vs2\<lparr>hashToValueID := (hashToValueID vs2)(hashValue sha v := None)\<rparr>"
  have f3: "fileAt ?vs3 = fileAt vs"
    using fileAt_same_core [OF d(1)] by (simp add: vs_simps)
  then have "stored_at ?vs3 i v" using l stored_at_cong [of ?vs3 vs] by (simp add: live_def)
  then show ?thesis
  proof (rule tombstoneTier_stored)
    fix vs' assume t: "tombstoneTier ?vs3 (extractTier i) (extractBucket i) (extractOffset i) = (Inr (), vs')"
      "fileAt vs' = (fileAt ?vs3)(extractTier i :=
        f_write (unat (extractOffset i)) [SentinelTombstone] (fileAt ?vs3 (extractTier i)))"
      "freeLists vs' = (freeLists ?vs3)(extractTier i := AddBlock (extractOffset i)
         (of_nat (length (serializeValue v))) (freeLists ?vs3 (extractTier i)))"
      "hashToValueID vs' = hashToValueID ?vs3" "referenceCount vs' = referenceCount ?vs3"
      "currentBucket vs' = currentBucket ?vs3"
    have "reclaimed sha vs i v vs'"
      unfolding reclaimed_def using t(2-6) d(1) by (simp add: f3 same_core_def)
    moreover have "tombstoneValue sha vs i = (Inr (), vs')"
      using n d(2) t(1) by (simp add: tombstoneValue_def Let_def)
    ultimately show ?thesis using that by blast
  qed
qed

lemma reclaimed_stored:
  assumes inv: "vs_inv sha vs" and l: "live vs i v" and r: "reclaimed sha vs i v vs'"
    and j: "live vs j w" "j \<noteq> i"
  shows "stored_at vs' j w"
proof (cases "extractTier j = extractTier i")
  case False
  then have "fileAt vs' (extractTier j) = fileAt vs (extractTier j)"
    using r by (simp add: reclaimed_def)
  moreover have "stored_at vs j w" using j(1) by (simp add: live_def)
  ultimately show ?thesis using stored_at_transfer [of vs j w vs'] by simp
next
  case True
  have st: "stored_at vs j w" using j(1) by (simp add: live_def)
  let ?p = "unat (extractOffset i)" and ?q = "unat (extractOffset j)"
    and ?n = "length (serializeValue w)" and ?f = "fileAt vs (extractTier i)"
  have "?p \<notin> span j w"
    using spans_disjoint [OF inv l j(1)] True j(2) live_span_nonempty [of i v] by auto
  then have "?q + ?n \<le> ?p \<or> ?p + 1 \<le> ?q" by (auto simp: span_def)
  then have "slice ?q ?n (f_write ?p [SentinelTombstone] ?f) = slice ?q ?n ?f"
    using stored_fits [OF st] True by (intro slice_f_write_other) auto
  with stored_at_transfer [OF st, of vs'] True r show ?thesis by (simp add: reclaimed_def)
qed

lemma reclaimed_free:
  assumes inv: "vs_inv sha vs" and l: "live vs i v" and r: "reclaimed sha vs i v vs'"
  shows "fl_inv (freeLists vs' (extractTier i))"
    and "free_set (freeLists vs' (extractTier i)) = free_set (freeLists vs (extractTier i)) \<union> span i v"
proof -
  let ?n = "length (serializeValue v)"
  have st: "stored_at vs i v" using l by (simp add: live_def)
  have n: "?n < 2 ^ 32 + 6" "0 < ?n"
    using serializeValue_bounds [OF stored_wf [OF st]] by auto
  then have u: "unat (of_nat ?n :: u64) = ?n" by (simp add: unat_of_nat_u64)
  then have reg: "region (extractOffset i) (of_nat ?n) = span i v"
    by (simp add: region_def span_def)
  have "unat (extractOffset i) + ?n < 2 ^ 64" using n(1) stored_offset [OF st] by simp
  then have c: "0 < unat (of_nat ?n :: u64)" "unat (extractOffset i) + unat (of_nat ?n :: u64) < 2 ^ 64"
    "region (extractOffset i) (of_nat ?n) \<inter> free_set (freeLists vs (extractTier i)) = {}"
    unfolding u reg using n(2) span_not_free [OF inv l] by simp_all
  note fi = free_list_inv [OF inv stored_tier_less [OF st]]
  show "fl_inv (freeLists vs' (extractTier i))"
    and "free_set (freeLists vs' (extractTier i)) = free_set (freeLists vs (extractTier i)) \<union> span i v"
    using flm.add_inv [OF fi c] flm.add_free [OF fi c] reg r by (simp_all add: reclaimed_def)
qed

lemma reclaimed_live:
  assumes inv: "vs_inv sha vs" and l: "live vs i v" and r: "reclaimed sha vs i v vs'"
  shows "live vs' j w \<longleftrightarrow> j \<noteq> i \<and> live vs j w"
proof
  assume a: "j \<noteq> i \<and> live vs j w"
  then have "stored_at vs' j w" using reclaimed_stored [OF inv l r] by blast
  with a r show "live vs' j w" by (simp add: live_def reclaimed_def)
next
  assume a: "live vs' j w"
  then have b: "j \<noteq> i" "referenceCount vs j \<noteq> None"
    using r by (auto simp: live_def reclaimed_def split: if_splits)
  then obtain w' where w: "live vs j w'" using refs_stored [OF inv] by (auto simp: live_def)
  then have "stored_at vs' j w'" using reclaimed_stored [OF inv l r] b by blast
  then have "w' = w" using a stored_at_unique by (auto simp: live_def)
  with w b show "j \<noteq> i \<and> live vs j w" by simp
qed

lemma live_zero_tier:
  assumes "live vs i v" "extractTier i = 0"
  shows "0 \<notin> span i v"
proof
  have st: "stored_at vs i v" using assms(1) by (simp add: live_def)
  assume "0 \<in> span i v"
  then have "extractOffset i = 0" by (simp add: span_def unat_eq_zero)
  then have "i = encodeValueID 0 0 0" using stored_id [OF st] assms(2) by simp
  then show False using stored_nonzero [OF st] by (simp add: encodeValueID_def)
qed

lemma reclaimed_inv:
  assumes inv: "vs_inv sha vs" and l: "live vs i v" and r: "reclaimed sha vs i v vs'"
  shows "vs_inv sha vs'"
  unfolding vs_inv_def reclaimed_live [OF inv l r]
proof (intro conjI allI impI)
  have h: "hashToValueID vs' = (hashToValueID vs)(hashValue sha v := None)"
    and rc: "referenceCount vs' = (referenceCount vs)(i := None)"
    and fl: "\<And>u. u \<noteq> extractTier i \<Longrightarrow> freeLists vs' u = freeLists vs u \<and> fileAt vs' u = fileAt vs u"
    and len: "length (fileAt vs (extractTier i)) \<le> length (fileAt vs' (extractTier i))"
    using r by (auto simp: reclaimed_def)
  note fr = reclaimed_free [OF inv l r]
  have sti: "stored_at vs i v" using l by (simp add: live_def)
  {
    fix j n assume n: "referenceCount vs' j = Some n"
    then have j: "j \<noteq> i" "referenceCount vs j = Some n" using rc by (auto split: if_splits)
    show "0 < n" using refs_stored [OF inv j(2)] by blast
    obtain w where w: "stored_at vs j w" "hashToValueID vs (hashValue sha w) = Some j"
      using refs_stored [OF inv j(2)] by blast
    have "hashToValueID vs (hashValue sha v) = Some i"
      using refs_stored [OF inv] l stored_at_unique [OF sti] by (auto simp: live_def)
    then have "hashValue sha w \<noteq> hashValue sha v" using w(2) j(1) by auto
    moreover have "stored_at vs' j w"
      using reclaimed_stored [OF inv l r] w(1) j by (simp add: live_def)
    ultimately show "\<exists>w. stored_at vs' j w \<and> hashToValueID vs' (hashValue sha w) = Some j"
      using w(2) h by auto
  next
    fix d j assume d: "hashToValueID vs' d = Some j"
    then have "hashToValueID vs d = Some j" "d \<noteq> hashValue sha v" using h by (auto split: if_splits)
    then show "\<exists>w. (j \<noteq> i \<and> live vs j w) \<and> hashValue sha w = d"
      using hash_live [OF inv] l by (metis live_def stored_at_unique)
  next
    fix j k w x
    assume "j \<noteq> i \<and> live vs j w" "k \<noteq> i \<and> live vs k x" "j \<noteq> k" "extractTier j = extractTier k"
    then show "span j w \<inter> span k x = {}" using spans_disjoint [OF inv] by blast
  next
    fix j w assume j: "j \<noteq> i \<and> live vs j w"
    then show "span j w \<inter> free_set (freeLists vs' (extractTier j)) = {}"
      using span_not_free [OF inv, of j w] fl [of "extractTier j"] fr(2)
        spans_disjoint [OF inv, of j w i v] l
      by (cases "extractTier j = extractTier i") auto
  next
    fix u :: nat assume u: "u < 4"
    show "fl_inv (freeLists vs' u)"
      using free_list_inv [OF inv u] fl [of u] fr(1) by (cases "u = extractTier i") auto
    show "free_set (freeLists vs' u) \<subseteq> {..<length (fileAt vs' u)}"
      using free_in_file [OF inv u] fl [of u] fr(2) live_span_in_file [OF l] len
      by (cases "u = extractTier i") fastforce+
  next
    show "0 \<notin> free_set (freeLists vs' 0)"
      using zero_not_free [OF inv] fl [of 0] fr(2) live_zero_tier [OF l]
      by (cases "extractTier i = 0") auto
  next
    fix u show "currentBucket vs' u = 0" using bucket_zero [OF inv] r by (simp add: reclaimed_def)
  }
qed

lemma readValue_reclaimed:
  assumes l: "live vs i v" and r: "reclaimed sha vs i v vs'"
  shows "fst (readValue vs' i) = Inl ValueTombstoned"
proof -
  have st: "stored_at vs i v" using l by (simp add: live_def)
  let ?f = "fileAt vs (extractTier i)" and ?p = "unat (extractOffset i)"
  let ?g = "f_write ?p [SentinelTombstone] ?f"
  have fits: "?p + 2 \<le> length ?f"
    using stored_fits [OF st] by (simp add: length_serializeValue)
  then have "f_read ?p 2 ?g = Inr (slice ?p 2 ?g)" by (intro f_read_ok) auto
  moreover have "length (slice ?p 2 ?g) = 2" using fits by (intro length_slice) simp
  moreover have "slice ?p 2 ?g ! 0 = SentinelTombstone"
    using fits by (simp add: slice_def nth_f_write)
  ultimately have "readRecordAt ?g ?p = Inl ValueTombstoned"
    by (simp add: readRecordAt_def Let_def)
  then have "seekRecord (fileAt vs' (extractTier i)) (extractOffset i) = Inl ValueTombstoned"
    using r stored_offset [OF st] by (simp add: seekRecord_def reclaimed_def)
  then show ?thesis
    using readTier_fileAt [OF stored_tier_less [OF st], of vs' "extractOffset i"] stored_bucket [OF st]
    by (simp add: readValue_def case_prod_unfold)
qed

lemma tombstoneValue_reclaims:
  assumes inv: "vs_inv sha vs" and n: "referenceCount vs i = Some 1" and c: "contents vs i = Some v"
  obtains vs' where "tombstoneValue sha vs i = (Inr (), vs')" "vs_inv sha vs'"
    "contents vs' = (contents vs)(i := None)"
    "fst (readValue vs' i) = Inl ValueTombstoned"
    "free_set (freeLists vs' (extractTier i)) = free_set (freeLists vs (extractTier i)) \<union> span i v"
proof -
  have l: "live vs i v" using c contents_live [OF inv] by blast
  obtain vs' where t: "tombstoneValue sha vs i = (Inr (), vs')" "reclaimed sha vs i v vs'"
    using tombstoneValue_last [OF l n] by metis
  note inv' = reclaimed_inv [OF inv l t(2)]
  have "contents vs' i = None"
    using t(2) contents_eq_None [OF inv'] by (simp add: reclaimed_def)
  moreover have "contents vs' j = contents vs j" if "j \<noteq> i" for j
    using contents_eqI [OF inv inv'] reclaimed_live [OF inv l t(2)] that by blast
  ultimately have "contents vs' = (contents vs)(i := None)"
    by (simp only: fun_eq_iff fun_upd_apply) metis
  then show ?thesis
    using that t(1) inv' readValue_reclaimed [OF l t(2)] reclaimed_free(2) [OF inv l t(2)] by blast
qed

lemma tombstoneValue_shared:
  assumes inv: "vs_inv sha vs" and n: "referenceCount vs i = Some n" "1 < n"
  obtains vs' where "tombstoneValue sha vs i = (Inr (), vs')" "vs_inv sha vs'"
    "contents vs' = contents vs" "refs vs' = (refs vs)(i := n - 1)"
proof -
  let ?vs = "vs\<lparr>referenceCount := (referenceCount vs)(i \<mapsto> n - 1)\<rparr>"
  have "tombstoneValue sha vs i = (Inr (), ?vs)"
    using n by (simp add: tombstoneValue_def Let_def)
  moreover have "referenceCount vs i \<noteq> None" "0 < n - 1" using n by auto
  moreover have "refs ?vs = (refs vs)(i := n - 1)" by (auto simp: refs_def fun_eq_iff)
  ultimately show ?thesis using that vs_inv_recount [OF inv, of i "n - 1" ?vs] by blast
qed

subsection \<open>The fresh store\<close>

definition empty_store :: ValueStore where
  "empty_store = \<lparr>tierDir = (\<lambda>_. Map.empty), tierFiles = (\<lambda>_. []), tier3File = [],
     currentBucket = (\<lambda>_. 0), freeLists = (\<lambda>_. NewFreeList), hashToValueID = Map.empty,
     referenceCount = Map.empty\<rparr>"

lemma empty_store_inv: "vs_inv sha empty_store"
  by (simp add: vs_inv_def live_def empty_store_def NewFreeList_def fl_inv_def)

end
