(* ===== verification/Value_Heap.thy ===== *)
theory Value_Heap
  imports ValueStore_Correct
begin

text \<open>
  The contract the layers above rely on: a value store is a growing map from value IDs to
  values, in which a value has at most one ID. \<open>fits s vs\<close> says that the values \<open>vs\<close> are well
  formed, that the tier files have room for all of them, and that no two values in play share a
  digest. The locale's lemmas cover the store-or-find pattern of the tree; the interpretation
  discharges the contract for the model of \<open>values.go\<close>.
\<close>

locale value_heap =
  fixes put :: "'s \<Rightarrow> Value \<Rightarrow> (value_error + u64) \<times> 's"
    and get :: "'s \<Rightarrow> u64 \<Rightarrow> (value_error + Value) \<times> 's"
    and lookup :: "'s \<Rightarrow> Value \<Rightarrow> u64"
    and contents :: "'s \<Rightarrow> u64 \<Rightarrow> Value option"
    and inv :: "'s \<Rightarrow> bool"
    and fits :: "'s \<Rightarrow> Value list \<Rightarrow> bool"
  assumes write_ok: "inv s \<Longrightarrow> fits s (v # vs) \<Longrightarrow>
      \<exists>i s'. put s v = (Inr i, s') \<and> i \<noteq> 0 \<and> inv s' \<and> fits s' vs \<and>
        contents s' = (contents s)(i \<mapsto> v) \<and> contents s i \<in> {None, Some v}"
    and read_ok: "inv s \<Longrightarrow> contents s i = Some v \<Longrightarrow>
      \<exists>s'. get s i = (Inr v, s') \<and> inv s' \<and> contents s' = contents s \<and> fits s' = fits s"
    and lookup_ok: "inv s \<Longrightarrow> fits s (v # vs) \<Longrightarrow> lookup s v \<noteq> 0 \<Longrightarrow> contents s (lookup s v) = Some v"
    and lookup_none: "inv s \<Longrightarrow> lookup s v = 0 \<Longrightarrow> v \<notin> ran (contents s)"
    and one_id: "inv s \<Longrightarrow> contents s i = Some v \<Longrightarrow> contents s j = Some v \<Longrightarrow> i = j"
    and zero_unused: "inv s \<Longrightarrow> contents s 0 = None"
    and fits_drop: "fits s (v # vs) \<Longrightarrow> fits s vs"
begin

lemma write_E:
  assumes "inv s" "fits s (v # vs)"
  obtains i s' where "put s v = (Inr i, s')" "i \<noteq> 0" "inv s'" "fits s' vs"
    "contents s' = (contents s)(i \<mapsto> v)" "contents s \<subseteq>\<^sub>m contents s'" "contents s' i = Some v"
proof -
  obtain i s' where w: "put s v = (Inr i, s')" "i \<noteq> 0" "inv s'" "fits s' vs"
    "contents s' = (contents s)(i \<mapsto> v)" "contents s i \<in> {None, Some v}"
    using write_ok [OF assms] by blast
  then have "contents s \<subseteq>\<^sub>m contents s'" by (auto simp: map_le_def dom_def)
  then show ?thesis using that w by simp
qed

text \<open>Writing a value that is already stored returns its ID.\<close>

lemma write_known:
  assumes "inv s" "fits s (v # vs)" "contents s i = Some v" "put s v = (r, s')"
  shows "r = Inr i" and "contents s' = contents s"
proof -
  obtain j t where w: "put s v = (Inr j, t)" "inv t" "contents t = (contents s)(j \<mapsto> v)"
    "contents s \<subseteq>\<^sub>m contents t" using write_E [OF assms(1,2)] by metis
  have "contents t i = Some v" using w(4) assms(3) by (metis domI map_le_def)
  moreover have "contents t j = Some v" using w(3) by simp
  ultimately have "i = j" using one_id [OF w(2)] by blast
  then show "r = Inr i" "contents s' = contents s"
    using w(1,3) assms(3,4) by auto
qed

text \<open>Look a value up and store it when it is missing.\<close>

lemma find_or_write:
  assumes "inv s" "fits s (v # vs)"
    and r: "(if lookup s v \<noteq> 0 then (Inr (lookup s v), s) else put s v) = (r, s')"
  obtains i where "r = Inr i" "i \<noteq> 0" "inv s'" "fits s' vs" "contents s' i = Some v"
    "contents s \<subseteq>\<^sub>m contents s'" "contents s' = (contents s)(i \<mapsto> v)"
proof (cases "lookup s v = 0")
  case True
  with r have w: "put s v = (r, s')" by simp
  show ?thesis by (rule write_E [OF assms(1,2)]) (use w that in auto)
next
  case False
  then have c: "contents s (lookup s v) = Some v" using lookup_ok [OF assms(1,2)] by blast
  moreover have "contents s = (contents s)(lookup s v \<mapsto> v)" using c by (simp add: fun_upd_idem)
  moreover have "r = Inr (lookup s v)" "s' = s" using False r by auto
  ultimately show ?thesis
    using that [of "lookup s v"] False assms(1) fits_drop [OF assms(2)] map_le_refl by metis
qed

end

definition vs_fits :: "(bytes \<Rightarrow> bytes) \<Rightarrow> ValueStore \<Rightarrow> Value list \<Rightarrow> bool" where
  "vs_fits sha vs values \<longleftrightarrow>
     list_all wf_value values \<and>
     (\<forall>t < 4. length (fileAt vs t) + sum_list (map (\<lambda>v. length (serializeValue v) + 1) values) < 2 ^ 40) \<and>
     inj_on (hashValue sha) (set values \<union> ran (contents vs))"

lemma vs_fits_same_core:
  assumes "same_core vs vs'" "contents vs' = contents vs"
  shows "vs_fits sha vs' = vs_fits sha vs"
  unfolding vs_fits_def fileAt_same_core [OF assms(1)] assms(2) ..

lemma contents_same_core:
  assumes "same_core vs vs'"
  shows "contents vs' = contents vs"
proof
  fix i
  have "seekRecord (bucketContent vs' t b) = seekRecord (bucketContent vs t b)"
    "readFromTier3 vs' = readFromTier3 vs" "referenceCount vs' = referenceCount vs" for t b
    using assms by (simp_all add: same_core_def fun_eq_iff readFromTier3_def)
  moreover have "fst (readFromBucketTier us t b p) = seekRecord (bucketContent us t b) p" if "t < 3" for us t b p
    using readFromBucketTier_eq [OF that, of us b p] by (metis fst_conv)
  ultimately show "contents vs' i = contents vs i"
    by (auto simp: contents_def readValue_def readTier_def case_prod_unfold Let_def
        split: option.split)
qed

lemma vs_fits_step:
  assumes fits: "vs_fits sha vs (v # values)"
    and c: "contents vs' = (contents vs)(i \<mapsto> v)"
    and len: "\<And>t. length (fileAt vs' t) \<le> length (fileAt vs t) + length (serializeValue v) + 1"
  shows "vs_fits sha vs' values"
proof -
  have "ran (contents vs') \<subseteq> insert v (ran (contents vs))"
    using c by (auto simp: ran_def split: if_splits)
  then have "inj_on (hashValue sha) (set values \<union> ran (contents vs'))"
    using fits by (auto simp: vs_fits_def intro: inj_on_subset)
  moreover have "length (fileAt vs' t) + sum_list (map (\<lambda>v. length (serializeValue v) + 1) values) < 2 ^ 40"
    if "t < 4" for t
  proof -
    have "length (fileAt vs t) + (length (serializeValue v) + 1 +
        sum_list (map (\<lambda>v. length (serializeValue v) + 1) values)) < 2 ^ 40"
      using fits that unfolding vs_fits_def by simp
    then show ?thesis using len [of t] by linarith
  qed
  ultimately show ?thesis using fits by (simp add: vs_fits_def)
qed

lemma vs_fits_room:
  assumes "vs_fits sha vs (v # values)"
  shows "wf_value v" "room vs (determineTier (length (serializeValue v))) (length (serializeValue v))"
proof -
  show "wf_value v" using assms by (simp add: vs_fits_def)
  let ?t = "determineTier (length (serializeValue v))"
  have "length (fileAt vs ?t) + (length (serializeValue v) + 1 +
      sum_list (map (\<lambda>v. length (serializeValue v) + 1) values)) < 2 ^ 40"
    using assms determineTier_less unfolding vs_fits_def list.map sum_list.Cons by blast
  then show "room vs ?t (length (serializeValue v))" unfolding room_def by linarith
qed

lemma vs_fits_no_collision:
  assumes "vs_inv sha vs" "vs_fits sha vs (v # values)"
  shows "no_collision sha vs v"
  unfolding no_collision_def
proof (intro allI impI)
  fix i w assume "live vs i w" "hashValue sha w = hashValue sha v"
  moreover from this have "w \<in> ran (contents vs)"
    using contents_live [OF assms(1)] by (auto simp: ran_def)
  moreover have "inj_on (hashValue sha) (set (v # values) \<union> ran (contents vs))"
    using assms(2) unfolding vs_fits_def by blast
  ultimately show "w = v" by (elim inj_onD) auto
qed

lemma hash_of_contents:
  assumes "vs_inv sha vs" "contents vs i = Some v"
  shows "hashToValueID vs (hashValue sha v) = Some i"
proof -
  have l: "live vs i v" using assms contents_live by blast
  then obtain w where "stored_at vs i w" "hashToValueID vs (hashValue sha w) = Some i"
    using refs_stored [OF assms(1), of i] by (auto simp: live_def)
  with l stored_at_unique show ?thesis by (auto simp: live_def)
qed

lemma FindValueIDForData_value:
  "FindValueIDForData sha vs (vData v) (vTypeTag v) =
     (case hashToValueID vs (hashValue sha v) of Some valueID \<Rightarrow> valueID | None \<Rightarrow> 0)"
  by (simp add: FindValueIDForData_def hashValue_def)

interpretation vheap: value_heap "writeValue sha" readValue
  "\<lambda>vs v. FindValueIDForData sha vs (vData v) (vTypeTag v)" contents "vs_inv sha" "vs_fits sha" for sha
proof
  fix s v vs assume a: "vs_inv sha s" "vs_fits sha s (v # vs)"
  show "\<exists>i s'. writeValue sha s v = (Inr i, s') \<and> i \<noteq> 0 \<and> vs_inv sha s' \<and> vs_fits sha s' vs \<and>
      contents s' = (contents s)(i \<mapsto> v) \<and> contents s i \<in> {None, Some v}"
    using writeValue_correct [OF a(1) vs_fits_room [OF a(2)] vs_fits_no_collision [OF a]]
      vs_fits_step [OF a(2)] by metis
next
  fix s i v assume a: "vs_inv sha s" "contents s i = Some v"
  have sc: "same_core s (snd (readValue s i))" by (rule readValue_same_core)
  have "fst (readValue s i) = Inr v"
    using contents_live [OF a(1)] a(2) readValue_stored by (simp add: live_def)
  then show "\<exists>s'. readValue s i = (Inr v, s') \<and> vs_inv sha s' \<and> contents s' = contents s \<and>
      vs_fits sha s' = vs_fits sha s"
    using a(1) vs_inv_same_core [OF sc] contents_same_core [OF sc]
      vs_fits_same_core [OF sc contents_same_core [OF sc]] by (metis prod.collapse)
next
  fix s v vs assume a: "vs_inv sha s" "vs_fits sha s (v # vs)"
    and "FindValueIDForData sha s (vData v) (vTypeTag v) \<noteq> 0"
  then obtain i where i: "hashToValueID s (hashValue sha v) = Some i"
    "FindValueIDForData sha s (vData v) (vTypeTag v) = i"
    by (auto simp: FindValueIDForData_value split: option.splits)
  then show "contents s (FindValueIDForData sha s (vData v) (vTypeTag v)) = Some v"
    using writeValue_hit(1) [OF a(1) vs_fits_no_collision [OF a]] by simp
next
  fix s and v :: Value assume a: "vs_inv sha s" "FindValueIDForData sha s (vData v) (vTypeTag v) = 0"
  show "v \<notin> ran (contents s)"
  proof
    assume "v \<in> ran (contents s)"
    then obtain i where i: "contents s i = Some v" by (auto simp: ran_def)
    then have "i \<noteq> 0" using contents_live [OF a(1)] stored_nonzero [of s i v] by (simp add: live_def)
    with hash_of_contents [OF a(1) i] a(2) show False by (simp add: FindValueIDForData_value)
  qed
next
  fix s i v j assume "vs_inv sha s" "contents s i = Some v" "contents s j = Some v"
  then show "i = j" using hash_of_contents by (metis option.inject)
next
  fix s assume "vs_inv sha s"
  then show "contents s 0 = None"
    using contents_live [of sha s 0] by (metis live_def not_None_eq stored_nonzero)
next
  fix s v vs assume "vs_fits sha s (v # vs)"
  then show "vs_fits sha s vs" by (force simp: vs_fits_def intro: inj_on_subset)
qed

end
