(* ===== verification/Record_File.thy ===== *)
theory Record_File
  imports Go_File
begin

text \<open>
  Files of fixed-size records, the layout shared by \<open>instances.dat\<close> and
  \<open>attributes.dat\<close>: record number \<open>n\<close> (counted from 1) starts at byte
  \<open>(n - 1) * size\<close>. The locale \<open>fixed_records\<close> is the contract of a record codec; from it
  follow reading, appending and updating a field in place, each as an operation on the list of
  records the file holds.
\<close>

datatype record_error = InvalidID0 | RecordIO io_error | IncompleteRead nat

text \<open>The seek and full read that \<open>ReadInstance\<close> and \<open>ReadAttribute\<close> both perform.\<close>

definition readRecord :: "nat \<Rightarrow> gofile \<Rightarrow> u64 \<Rightarrow> record_error + bytes" where
  "readRecord sz f recordID =
     (if recordID = 0 then Inl InvalidID0
      else case f_seek ((recordID - 1) * of_nat sz) of
             Inl e \<Rightarrow> Inl (RecordIO e)
           | Inr p \<Rightarrow>
               (case f_read p sz f of
                  Inl e \<Rightarrow> Inl (RecordIO e)
                | Inr data \<Rightarrow>
                    if length data \<noteq> sz then Inl (IncompleteRead (length data)) else Inr data))"

text \<open>The seek and eight-byte write of the operations that change one field of a record.\<close>

definition writeField :: "nat \<Rightarrow> nat \<Rightarrow> gofile \<Rightarrow> u64 \<Rightarrow> u64 \<Rightarrow> record_error + gofile" where
  "writeField sz delta f recordID v =
     (if recordID = 0 then Inl InvalidID0
      else case f_seek ((recordID - 1) * of_nat sz + of_nat delta) of
             Inl e \<Rightarrow> Inl (RecordIO e)
           | Inr p \<Rightarrow> Inr (f_write p (put_le 8 v) f))"

definition file_of :: "('r \<Rightarrow> bytes) \<Rightarrow> 'r list \<Rightarrow> gofile" where
  "file_of enc rs = concat (map enc rs)"

text \<open>Record \<open>k\<close> of the list carries ID \<open>k + 1\<close>.\<close>

definition ids_ok :: "('r \<Rightarrow> u64) \<Rightarrow> 'r list \<Rightarrow> bool" where
  "ids_ok idof rs \<longleftrightarrow> (\<forall>k < length rs. idof (rs ! k) = of_nat (Suc k))"

lemma ids_ok_append:
  "ids_ok idof rs \<Longrightarrow> idof r = of_nat (Suc (length rs)) \<Longrightarrow> ids_ok idof (rs @ [r])"
  by (auto simp: ids_ok_def nth_append less_Suc_eq)

lemma ids_ok_update:
  "ids_ok idof rs \<Longrightarrow> idof r = idof (rs ! k) \<Longrightarrow> ids_ok idof (rs[k := r])"
  unfolding ids_ok_def length_list_update by (metis nth_list_update_eq nth_list_update_neq)

text \<open>A record ID that names a record of the list.\<close>

definition valid_id :: "'r list \<Rightarrow> u64 \<Rightarrow> bool" where
  "valid_id rs i \<longleftrightarrow> 0 < unat i \<and> unat i \<le> length rs"

definition nth_rec :: "'r list \<Rightarrow> u64 \<Rightarrow> 'r" where
  "nth_rec rs i = rs ! (unat i - 1)"

lemma valid_id_nonzero: "valid_id rs i \<Longrightarrow> i \<noteq> 0"
  by (auto simp: valid_id_def)

lemma valid_id_append [simp]: "valid_id rs i \<Longrightarrow> valid_id (rs @ xs) i"
  by (auto simp: valid_id_def)

lemma valid_id_update [simp]: "valid_id (rs[k := r]) i \<longleftrightarrow> valid_id rs i"
  by (simp add: valid_id_def)

lemma nth_rec_append [simp]: "valid_id rs i \<Longrightarrow> nth_rec (rs @ xs) i = nth_rec rs i"
  by (auto simp: valid_id_def nth_rec_def nth_append)

lemma nth_rec_new [simp]:
  "unat i = Suc (length rs) \<Longrightarrow> nth_rec (rs @ [r]) i = r"
  by (simp add: nth_rec_def)

lemma nth_rec_mem: "valid_id rs i \<Longrightarrow> nth_rec rs i \<in> set rs"
  by (auto simp: valid_id_def nth_rec_def)

lemma nth_rec_update:
  "valid_id rs i \<Longrightarrow> valid_id rs j \<Longrightarrow>
   nth_rec (rs[unat i - 1 := r]) j = (if i = j then r else nth_rec rs j)"
  by (auto simp: valid_id_def nth_rec_def nth_list_update word_unat_eq_iff)

lemma ids_ok_record: "ids_ok idof rs \<Longrightarrow> valid_id rs i \<Longrightarrow> idof (nth_rec rs i) = i"
  by (auto simp: ids_ok_def valid_id_def nth_rec_def)

text \<open>The bound under which record offsets do not wrap around.\<close>

definition few :: "nat \<Rightarrow> bool" where
  "few n \<longleftrightarrow> n < 2 ^ 56"

locale fixed_records =
  fixes enc :: "'r \<Rightarrow> bytes"
    and dec :: "bytes \<Rightarrow> u64 \<Rightarrow> 'r"
    and idof :: "'r \<Rightarrow> u64"
    and sz :: nat
  assumes enc_length: "length (enc r) = sz"
    and dec_enc: "dec (enc r) (idof r) = r"
    and sz_pos: "0 < sz" and sz_small: "sz \<le> 64"
begin

lemma file_of_length: "length (file_of enc rs) = length rs * sz"
  by (induction rs) (simp_all add: file_of_def enc_length)

lemma file_of_append: "file_of enc (rs @ [r]) = f_append (enc r) (file_of enc rs)"
  by (simp add: file_of_def f_append_def)

lemma file_of_split:
  assumes "k < length rs"
  shows "file_of enc rs =
    file_of enc (take k rs) @ enc (rs ! k) @ file_of enc (drop (Suc k) rs)"
proof -
  have "rs = take k rs @ rs ! k # drop (Suc k) rs" using assms by (rule id_take_nth_drop)
  then have "concat (map enc rs) = concat (map enc (take k rs @ rs ! k # drop (Suc k) rs))" by simp
  then show ?thesis by (simp add: file_of_def)
qed

lemma slice_record:
  assumes "k < length rs"
  shows "slice (k * sz) sz (file_of enc rs) = enc (rs ! k)"
proof -
  have "length (file_of enc (take k rs)) = k * sz"
    using assms by (simp add: file_of_length)
  then show ?thesis
    using file_of_split [OF assms] by (simp add: slice_def enc_length)
qed

lemma offset_unat:
  assumes "valid_id rs i" "few (length rs)" "delta < 2 ^ 10"
  shows "unat ((i - 1) * of_nat sz + of_nat delta :: u64) = (unat i - 1) * sz + delta"
    and "(unat i - 1) * sz + delta < 2 ^ 63"
proof -
  have k: "unat (i - 1) = unat i - 1" "unat i - 1 < 2 ^ 56"
    using assms(1,2) by (auto simp: valid_id_def few_def unat_sub_u64)
  have "(unat i - 1) * sz \<le> 2 ^ 56 * 64" using k(2) sz_small by (intro mult_le_mono) auto
  then have b: "(unat i - 1) * sz + delta < 2 ^ 63" using assms(3) by simp
  then show "(unat i - 1) * sz + delta < 2 ^ 63" .
  have "unat (of_nat sz :: u64) = sz" "unat (of_nat delta :: u64) = delta"
    using sz_small assms(3) by simp_all
  then show "unat ((i - 1) * of_nat sz + of_nat delta :: u64) = (unat i - 1) * sz + delta"
    using b by (simp add: unat_word_ariths k(1))
qed

lemma read_record:
  assumes "valid_id rs i" "few (length rs)"
  shows "readRecord sz (file_of enc rs) i = Inr (enc (nth_rec rs i))"
proof -
  let ?k = "unat i - 1"
  have k: "?k < length rs" "i \<noteq> 0" using assms(1) by (auto simp: valid_id_def)
  have o: "unat ((i - 1) * of_nat sz :: u64) = ?k * sz" "?k * sz < 2 ^ 63"
    using offset_unat [OF assms, of 0] by simp_all
  then have s: "f_seek ((i - 1) * of_nat sz) = Inr (?k * sz)" using f_seek_small by metis
  have "?k * sz + sz \<le> length (file_of enc rs)"
    using k(1) mult_le_mono1 [of "Suc ?k" "length rs" sz] by (simp add: file_of_length)
  then have "f_read (?k * sz) sz (file_of enc rs) = Inr (enc (nth_rec rs i))"
    using sz_pos slice_record [OF k(1)] by (simp add: nth_rec_def)
  then show ?thesis using s k(2) by (simp add: readRecord_def enc_length)
qed

lemma read_decoded:
  assumes "valid_id rs i" "few (length rs)" "ids_ok idof rs"
  shows "rmap (\<lambda>d. dec d i) (readRecord sz (file_of enc rs) i) = Inr (nth_rec rs i)"
  using read_record [OF assms(1,2)] dec_enc [of "nth_rec rs i"] ids_ok_record [OF assms(3,1)]
  by simp

text \<open>A read past the last record fails, so a stored ID of 0 or beyond never yields a record.\<close>

lemma read_beyond:
  assumes "length rs < unat i" "unat i < 2 ^ 56"
  shows "readRecord sz (file_of enc rs) i = Inl (RecordIO EOF)"
proof -
  let ?k = "unat i - 1"
  have v: "valid_id (replicate (unat i) ()) i" "few (length (replicate (unat i) ()))"
    using assms by (auto simp: valid_id_def few_def)
  have "unat ((i - 1) * of_nat sz :: u64) = ?k * sz" "?k * sz < 2 ^ 63"
    using offset_unat [OF v, of 0] by simp_all
  then have "f_seek ((i - 1) * of_nat sz) = Inr (?k * sz)" using f_seek_small by metis
  moreover have "length (file_of enc rs) \<le> ?k * sz"
    unfolding file_of_length by (rule mult_le_mono1) (use assms(1) in linarith)
  ultimately show ?thesis
    using assms(1) sz_pos by (auto simp: readRecord_def f_read_def)
qed

lemma update_field:
  assumes "valid_id rs i" "few (length rs)" "delta + 8 \<le> sz"
    and new: "enc r' = f_write delta (put_le 8 v) (enc (nth_rec rs i))"
  shows "writeField sz delta (file_of enc rs) i v = Inr (file_of enc (rs[unat i - 1 := r']))"
proof -
  let ?k = "unat i - 1" and ?f = "file_of enc"
  have k: "?k < length rs" "i \<noteq> 0" using assms(1) by (auto simp: valid_id_def)
  have d: "delta < 2 ^ 10" using assms(3) sz_small by simp
  have s: "f_seek ((i - 1) * of_nat sz + of_nat delta) = Inr (?k * sz + delta)"
    using offset_unat [OF assms(1,2) d] f_seek_small by metis
  let ?A = "?f (take ?k rs)" and ?E = "enc (rs ! ?k)" and ?B = "?f (drop (Suc ?k) rs)"
  have A: "length ?A = ?k * sz" using k(1) by (simp add: file_of_length)
  have w: "f_write (length ?A + delta) (put_le 8 v) (?A @ ?E @ ?B) =
      ?A @ f_write delta (put_le 8 v) ?E @ ?B"
    using assms(3) by (simp add: f_write_def enc_length)
  have split: "?f (rs[?k := r']) = ?A @ enc r' @ ?B"
    using file_of_split [of ?k "rs[?k := r']"] k(1) by simp
  have "f_write (?k * sz + delta) (put_le 8 v) (?f rs) = ?f (rs[?k := r'])"
    unfolding split file_of_split [OF k(1)] A [symmetric] w using new by (simp add: nth_rec_def)
  then show ?thesis using s k(2) by (simp add: writeField_def)
qed

end

end
