(* ===== verification/InstanceStore.thy ===== *)
theory InstanceStore
  imports Record_File
begin

text \<open>
  The instance store (\<open>src/internal/storage/instances.go\<close>): an append-only file of 32-byte
  records, each naming a value, an author, a timestamp and the next older instance of the same
  attribute. The store refines a list of instances; the walks along the chain of older
  instances are partial functions and are shown to return whenever every instance points to an
  earlier one, which appending preserves.
\<close>

record Instance =
  iID :: u64
  iValueID :: u64
  iOlderInstanceID :: u64
  iTimestamp :: i64
  iAuthorID :: u64

record InstanceStore =
  isFile :: gofile
  isNextID :: u64

definition InstanceRecordSize :: nat where "InstanceRecordSize = 32"

definition NewInstanceStore :: "gofile \<Rightarrow> InstanceStore" where
  "NewInstanceStore f =
     \<lparr>isFile = f, isNextID = of_nat (length f) div of_nat InstanceRecordSize + 1\<rparr>"

definition serializeInstance :: "Instance \<Rightarrow> bytes" where
  "serializeInstance i =
     put_le 8 (iValueID i) @ put_le 8 (iOlderInstanceID i) @ put_le 8 (iTimestamp i) @
     put_le 8 (iAuthorID i)"

definition deserializeInstance :: "bytes \<Rightarrow> u64 \<Rightarrow> Instance" where
  "deserializeInstance data instanceID =
     \<lparr>iID = instanceID,
      iValueID = get_le (slice 0 8 data),
      iOlderInstanceID = get_le (slice 8 8 data),
      iTimestamp = get_le (slice 16 8 data),
      iAuthorID = get_le (slice 24 8 data)\<rparr>"

text \<open>\<open>now\<close> is the reading of the clock, \<open>time.Now().UTC().UnixMicro()\<close>.\<close>

definition WriteInstance ::
  "i64 \<Rightarrow> InstanceStore \<Rightarrow> u64 \<Rightarrow> u64 \<Rightarrow> u64 \<Rightarrow> u64 \<times> InstanceStore" where
  "WriteInstance now is valueID olderInstanceID authorID =
     (let inst = \<lparr>iID = isNextID is, iValueID = valueID, iOlderInstanceID = olderInstanceID,
                  iTimestamp = now, iAuthorID = authorID\<rparr>
      in (isNextID is,
          is\<lparr>isFile := f_append (serializeInstance inst) (isFile is), isNextID := isNextID is + 1\<rparr>))"

definition ReadInstance :: "InstanceStore \<Rightarrow> u64 \<Rightarrow> record_error + Instance" where
  "ReadInstance is instanceID =
     rmap (\<lambda>data. deserializeInstance data instanceID)
       (readRecord InstanceRecordSize (isFile is) instanceID)"

partial_function (option) chain_loop ::
  "InstanceStore \<Rightarrow> u64 \<Rightarrow> Instance list \<Rightarrow> (record_error + Instance list) option" where
  "chain_loop is currentID chain =
     (if currentID = 0 then Some (Inr chain)
      else case ReadInstance is currentID of
             Inl e \<Rightarrow> Some (Inl e)
           | Inr inst \<Rightarrow> chain_loop is (iOlderInstanceID inst) (chain @ [inst]))"

definition GetInstanceChain :: "InstanceStore \<Rightarrow> u64 \<Rightarrow> (record_error + Instance list) option" where
  "GetInstanceChain is newestInstanceID =
     (if newestInstanceID = 0 then Some (Inr []) else chain_loop is newestInstanceID [])"

fun ValidateChainOrder :: "Instance list \<Rightarrow> (u64 \<times> u64) option" where
  "ValidateChainOrder (newer # older # chain) =
     (if iTimestamp newer \<le>s iTimestamp older then Some (iID newer, iID older)
      else ValidateChainOrder (older # chain))"
| "ValidateChainOrder chain = None"

partial_function (option) FindInstanceAtTime ::
  "InstanceStore \<Rightarrow> u64 \<Rightarrow> i64 \<Rightarrow> (record_error + u64) option" where
  "FindInstanceAtTime is currentInstanceID timestamp =
     (if currentInstanceID = 0 then Some (Inr 0)
      else case ReadInstance is currentInstanceID of
             Inl e \<Rightarrow> Some (Inl e)
           | Inr inst \<Rightarrow>
               if iTimestamp inst \<le>s timestamp then Some (Inr currentInstanceID)
               else FindInstanceAtTime is (iOlderInstanceID inst) timestamp)"

definition TombstoneInstance :: "InstanceStore \<Rightarrow> u64 \<Rightarrow> u64 \<Rightarrow> record_error + InstanceStore" where
  "TombstoneInstance is instanceID deletedBy =
     rmap (\<lambda>f. is\<lparr>isFile := f\<rparr>)
       (writeField InstanceRecordSize 8 (isFile is) instanceID 0xFFFFFFFFFFFFFFFF)"

text \<open>The purge loop returns the count even with an error, and the store as it then is.\<close>

partial_function (option) purge_loop ::
  "InstanceStore \<Rightarrow> u64 \<Rightarrow> i64 \<Rightarrow> i64 \<Rightarrow> u64 \<Rightarrow> nat \<Rightarrow>
     ((record_error option \<times> nat) \<times> InstanceStore) option" where
  "purge_loop is currentInstanceID from to author purgedCount =
     (if currentInstanceID = 0 then Some ((None, purgedCount), is)
      else case ReadInstance is currentInstanceID of
             Inl e \<Rightarrow> Some ((Some e, purgedCount), is)
           | Inr inst \<Rightarrow>
               if from \<le>s iTimestamp inst \<and> iTimestamp inst \<le>s to then
                 (case TombstoneInstance is currentInstanceID author of
                    Inl e \<Rightarrow> Some ((Some e, purgedCount), is)
                  | Inr is' \<Rightarrow>
                      purge_loop is' (iOlderInstanceID inst) from to author (purgedCount + 1))
               else purge_loop is (iOlderInstanceID inst) from to author purgedCount)"

definition PurgeInstancesInTimeRange ::
  "InstanceStore \<Rightarrow> u64 \<Rightarrow> i64 \<Rightarrow> i64 \<Rightarrow> u64 \<Rightarrow>
     ((record_error option \<times> nat) \<times> InstanceStore) option" where
  "PurgeInstancesInTimeRange is firstInstanceID from to author =
     (if firstInstanceID = 0 then Some ((None, 0), is)
      else purge_loop is firstInstanceID from to author 0)"

definition GetInstanceCount :: "InstanceStore \<Rightarrow> u64" where
  "GetInstanceCount is = isNextID is - 1"

subsection \<open>The store as a list of instances\<close>

lemma deserialize_serializeInstance [codec_simps]:
  "deserializeInstance (serializeInstance i) (iID i) = i"
  by (simp add: deserializeInstance_def serializeInstance_def slice_def)

lemma length_serializeInstance [simp, length_simps]: "length (serializeInstance i) = 32"
  by (simp add: serializeInstance_def)

interpretation instance_records: fixed_records serializeInstance deserializeInstance iID InstanceRecordSize
  by unfold_locales (simp_all add: InstanceRecordSize_def deserialize_serializeInstance)

definition is_rep :: "InstanceStore \<Rightarrow> Instance list \<Rightarrow> bool" where
  "is_rep is insts \<longleftrightarrow>
     isFile is = file_of serializeInstance insts \<and>
     isNextID is = of_nat (Suc (length insts)) \<and>
     ids_ok iID insts \<and> few (length insts)"

lemma is_repD:
  assumes "is_rep is insts"
  shows is_rep_file: "isFile is = file_of serializeInstance insts"
    and is_rep_next: "isNextID is = of_nat (Suc (length insts))"
    and is_rep_ids: "ids_ok iID insts" and is_rep_few: "few (length insts)"
  using assms by (auto simp: is_rep_def)

lemma ReadInstance_rep:
  "is_rep is insts \<Longrightarrow> valid_id insts i \<Longrightarrow> ReadInstance is i = Inr (nth_rec insts i)"
  using instance_records.read_decoded [of insts i] by (simp add: ReadInstance_def is_rep_def)

lemma NewInstanceStore_rep:
  assumes "ids_ok iID insts" "few (length insts)"
  shows "is_rep (NewInstanceStore (file_of serializeInstance insts)) insts"
proof -
  let ?n = "length insts"
  have n: "?n * 32 < 2 ^ 64" using assms(2) by (simp add: few_def)
  have "unat (of_nat (?n * 32) div 32 :: u64) = ?n"
    using n by (simp add: unat_div unat_of_nat_u64 del: of_nat_mult)
  then have "of_nat (?n * 32) div 32 = (of_nat ?n :: u64)"
    using n by (simp add: word_unat_eq_iff unat_of_nat_u64 del: of_nat_mult)
  then show ?thesis
    using assms by (simp add: is_rep_def NewInstanceStore_def instance_records.file_of_length
        InstanceRecordSize_def)
qed

lemma WriteInstance_rep:
  assumes rep: "is_rep is insts" and few: "few (Suc (length insts))"
    and w: "WriteInstance now is v older a = (i, is')"
  shows "unat i = Suc (length insts)"
    and "is_rep is' (insts @ [\<lparr>iID = i, iValueID = v, iOlderInstanceID = older,
           iTimestamp = now, iAuthorID = a\<rparr>])"
proof -
  have i: "i = of_nat (Suc (length insts))"
    using w is_rep_next [OF rep] by (simp add: WriteInstance_def)
  then show "unat i = Suc (length insts)"
    using few by (simp add: few_def unat_of_nat_u64 del: of_nat_Suc)
  show "is_rep is' (insts @ [\<lparr>iID = i, iValueID = v, iOlderInstanceID = older,
           iTimestamp = now, iAuthorID = a\<rparr>])"
    using rep few w i
    by (auto simp: is_rep_def WriteInstance_def instance_records.file_of_append intro!: ids_ok_append)
qed

lemma serializeInstance_tombstone:
  "serializeInstance (i\<lparr>iOlderInstanceID := w\<rparr>) = f_write 8 (put_le 8 w) (serializeInstance i)"
  by (simp add: serializeInstance_def f_write_def)

lemma TombstoneInstance_rep:
  assumes "is_rep is insts" "valid_id insts i"
  obtains is' where "TombstoneInstance is i a = Inr is'"
    "is_rep is' (insts[unat i - 1 := (nth_rec insts i)\<lparr>iOlderInstanceID := - 1\<rparr>])"
proof -
  let ?r = "(nth_rec insts i)\<lparr>iOlderInstanceID := - 1\<rparr>"
  have "writeField InstanceRecordSize 8 (isFile is) i (- 1) =
      Inr (file_of serializeInstance (insts[unat i - 1 := ?r]))"
    using instance_records.update_field [OF assms(2) is_rep_few [OF assms(1)] _ serializeInstance_tombstone,
        of "- 1"] is_rep_file [OF assms(1)] by (simp add: InstanceRecordSize_def)
  moreover have m: "(0xFFFFFFFFFFFFFFFF :: u64) = - 1" by simp
  moreover have "ids_ok iID (insts[unat i - 1 := ?r])"
    using is_rep_ids [OF assms(1)] by (rule ids_ok_update) (simp add: nth_rec_def)
  ultimately show ?thesis
    using assms(1) by (intro that) (simp_all only: TombstoneInstance_def m rmap_simps is_rep_def, simp)
qed

subsection \<open>Chains\<close>

text \<open>Every instance points to an earlier one, or to none.\<close>

definition backward :: "Instance list \<Rightarrow> bool" where
  "backward insts \<longleftrightarrow> (\<forall>k < length insts. unat (iOlderInstanceID (insts ! k)) \<le> k)"

lemma backward_less:
  assumes "backward insts" "valid_id insts i"
  shows "unat (iOlderInstanceID (nth_rec insts i)) < unat i"
proof -
  have "unat i - 1 < length insts" "0 < unat i" using assms(2) by (auto simp: valid_id_def)
  then have "unat (iOlderInstanceID (insts ! (unat i - 1))) \<le> unat i - 1"
    using assms(1) unfolding backward_def by blast
  with \<open>0 < unat i\<close> show ?thesis unfolding nth_rec_def by linarith
qed

lemma backward_valid:
  assumes "backward insts" "valid_id insts i" "iOlderInstanceID (nth_rec insts i) \<noteq> 0"
  shows "valid_id insts (iOlderInstanceID (nth_rec insts i))"
  using backward_less [OF assms(1,2)] assms(2,3) by (auto simp: valid_id_def unat_gt_0)

lemma backward_append:
  "backward insts \<Longrightarrow> unat (iOlderInstanceID r) \<le> length insts \<Longrightarrow> backward (insts @ [r])"
  by (auto simp: backward_def nth_append less_Suc_eq)

text \<open>The chain of an instance ID in a list of instances, newest first.\<close>

function chain :: "Instance list \<Rightarrow> u64 \<Rightarrow> Instance list" where
  "chain insts i =
     (if valid_id insts i \<and> unat (iOlderInstanceID (nth_rec insts i)) < unat i
      then nth_rec insts i # chain insts (iOlderInstanceID (nth_rec insts i))
      else [])"
  by pat_completeness auto
termination by (relation "measure (\<lambda>(_, i). unat i)") auto

declare chain.simps [simp del]

lemma chain_0 [simp]: "chain insts 0 = []"
  by (simp add: chain.simps [of insts 0] valid_id_def)

lemma chain_valid:
  "backward insts \<Longrightarrow> valid_id insts i \<Longrightarrow>
   chain insts i = nth_rec insts i # chain insts (iOlderInstanceID (nth_rec insts i))"
  using backward_less by (subst chain.simps) simp

text \<open>Induction along a chain.\<close>

lemma chain_induct [consumes 2, case_names zero older]:
  assumes "backward insts" "i = 0 \<or> valid_id insts i"
    and zero: "P 0"
    and older: "\<And>i. valid_id insts i \<Longrightarrow> i \<noteq> 0 \<Longrightarrow> P (iOlderInstanceID (nth_rec insts i)) \<Longrightarrow> P i"
  shows "P i"
  using assms(2)
proof (induction "unat i" arbitrary: i rule: less_induct)
  case less
  show ?case
  proof (cases "i = 0")
    case False
    then have v: "valid_id insts i" using less.prems by blast
    then show ?thesis
      using less.hyps [OF backward_less [OF assms(1) v]] backward_valid [OF assms(1) v]
        older [OF v False] by blast
  qed (simp add: zero)
qed

lemma chain_append:
  assumes "backward insts" "i = 0 \<or> valid_id insts i" "unat (iOlderInstanceID r) \<le> length insts"
  shows "chain (insts @ [r]) i = chain insts i"
  using assms(1,2)
proof (induction rule: chain_induct)
  case (older i)
  then show ?case
    using chain_valid [OF backward_append [OF assms(1,3)], of i] chain_valid [OF assms(1) older(1)]
    by simp
qed simp

lemma chain_new:
  assumes "backward insts" "unat i = Suc (length insts)"
    and "iOlderInstanceID r = 0 \<or> valid_id insts (iOlderInstanceID r)"
  shows "chain (insts @ [r]) i = r # chain insts (iOlderInstanceID r)"
proof -
  have o: "unat (iOlderInstanceID r) \<le> length insts" using assms(3) by (auto simp: valid_id_def)
  have "valid_id (insts @ [r]) i" using assms(2) by (simp add: valid_id_def)
  then show ?thesis
    using chain_valid [OF backward_append [OF assms(1) o]] chain_append [OF assms(1,3) o]
      nth_rec_new [OF assms(2)] by metis
qed

lemma chain_loop_rep:
  assumes "is_rep is insts" "backward insts" "i = 0 \<or> valid_id insts i"
  shows "chain_loop is i acc = Some (Inr (acc @ chain insts i))"
  using assms(2,3)
proof (induction arbitrary: acc rule: chain_induct)
  case zero
  show ?case by (simp add: chain_loop.simps)
next
  case (older i)
  then show ?case
    using ReadInstance_rep [OF assms(1) older(1)] chain_valid [OF assms(2) older(1)]
    by (simp add: chain_loop.simps [of "is" i])
qed

lemma GetInstanceChain_rep:
  assumes "is_rep is insts" "backward insts" "i = 0 \<or> valid_id insts i"
  shows "GetInstanceChain is i = Some (Inr (chain insts i))"
  using chain_loop_rep [OF assms, of "[]"] by (simp add: GetInstanceChain_def)

text \<open>The first instance of a chain that is not newer than a time.\<close>

definition active_at :: "i64 \<Rightarrow> Instance list \<Rightarrow> Instance option" where
  "active_at t insts = find (\<lambda>i. iTimestamp i \<le>s t) insts"

lemma FindInstanceAtTime_rep:
  assumes "is_rep is insts" "backward insts" "i = 0 \<or> valid_id insts i"
  shows "FindInstanceAtTime is i t =
    Some (Inr (case active_at t (chain insts i) of None \<Rightarrow> 0 | Some inst \<Rightarrow> iID inst))"
  using assms(2,3)
proof (induction rule: chain_induct)
  case zero
  show ?case by (simp add: FindInstanceAtTime.simps active_at_def)
next
  case (older i)
  then show ?case
    using ReadInstance_rep [OF assms(1) older(1)] chain_valid [OF assms(2) older(1)]
      ids_ok_record [OF is_rep_ids [OF assms(1)] older(1)]
    by (simp add: FindInstanceAtTime.simps [of "is" i] active_at_def)
qed

subsection \<open>Purging\<close>

definition in_range :: "i64 \<Rightarrow> i64 \<Rightarrow> Instance \<Rightarrow> bool" where
  "in_range from to inst \<longleftrightarrow> from \<le>s iTimestamp inst \<and> iTimestamp inst \<le>s to"

definition tombstoned :: "Instance \<Rightarrow> Instance" where
  "tombstoned inst = inst\<lparr>iOlderInstanceID := - 1\<rparr>"

text \<open>What the list \<open>cur\<close> becomes when the instances \<open>dead\<close> of \<open>insts\<close> are tombstoned.\<close>

definition purged :: "Instance list \<Rightarrow> Instance set \<Rightarrow> Instance list \<Rightarrow> Instance list \<Rightarrow> bool" where
  "purged insts dead cur cur' \<longleftrightarrow> length cur' = length cur \<and>
     (\<forall>j. valid_id insts j \<longrightarrow> nth_rec cur' j =
        (if nth_rec insts j \<in> dead then tombstoned (nth_rec insts j) else nth_rec cur j))"

lemma chain_ids:
  assumes "ids_ok iID insts" "backward insts" "i = 0 \<or> valid_id insts i" "x \<in> set (chain insts i)"
  shows "unat (iID x) \<le> unat i"
  using assms(2,3,4)
proof (induction rule: chain_induct)
  case (older i)
  then show ?case
    using chain_valid [OF assms(2) older(1)] ids_ok_record [OF assms(1) older(1)]
      backward_less [OF assms(2) older(1)] by auto
qed simp

lemma purge_loop_step:
  assumes "is_rep is cur" "valid_id cur i" "nth_rec cur i = inst" "i \<noteq> 0"
  obtains is' cur' where "is_rep is' cur'" "length cur' = length cur"
    "\<And>j. valid_id cur j \<Longrightarrow> nth_rec cur' j =
       (if i = j \<and> in_range from to inst then tombstoned inst else nth_rec cur j)"
    "purge_loop is i from to a n =
       purge_loop is' (iOlderInstanceID inst) from to a (if in_range from to inst then n + 1 else n)"
proof -
  note rd = ReadInstance_rep [OF assms(1,2)]
  obtain is' where t: "TombstoneInstance is i a = Inr is'"
    "is_rep is' (cur[unat i - 1 := tombstoned inst])"
    using TombstoneInstance_rep [OF assms(1,2)] assms(3) unfolding tombstoned_def by metis
  have u: "purge_loop is i from to a n =
      (if in_range from to inst
       then purge_loop is' (iOlderInstanceID inst) from to a (n + 1)
       else purge_loop is (iOlderInstanceID inst) from to a n)"
    using rd assms(3,4) t(1) by (simp add: purge_loop.simps [of "is" i] in_range_def)
  show ?thesis
  proof (cases "in_range from to inst")
    case True
    then show ?thesis
      using that [OF t(2)] u nth_rec_update [OF assms(2)] by simp
  next
    case False
    then show ?thesis using that [OF assms(1)] u by simp
  qed
qed

lemma purge_loop_rep:
  assumes ids: "ids_ok iID insts" and b: "backward insts" and i: "i = 0 \<or> valid_id insts i"
    and rep: "is_rep is cur" "length cur = length insts"
    and same: "\<And>j. valid_id insts j \<Longrightarrow> unat j \<le> unat i \<Longrightarrow> nth_rec cur j = nth_rec insts j"
  shows "\<exists>is' cur'. purge_loop is i from to a n =
        Some ((None, n + length (filter (in_range from to) (chain insts i))), is') \<and>
      is_rep is' cur' \<and> purged insts {x \<in> set (chain insts i). in_range from to x} cur cur'"
  using b i rep same
proof (induction arbitrary: "is" cur n rule: chain_induct)
  case zero
  then show ?case by (auto simp: purge_loop.simps purged_def)
next
  case (older i)
  let ?o = "iOlderInstanceID (nth_rec insts i)" and ?x = "nth_rec insts i"
  have v: "valid_id cur j \<longleftrightarrow> valid_id insts j" for j using older.prems(2) by (simp add: valid_id_def)
  have x: "nth_rec cur i = ?x" using older by simp
  obtain is1 cur1 where s: "is_rep is1 cur1" "length cur1 = length cur"
    "\<And>j. valid_id insts j \<Longrightarrow> nth_rec cur1 j =
       (if i = j \<and> in_range from to ?x then tombstoned ?x else nth_rec cur j)"
    "purge_loop is i from to a n =
       purge_loop is1 ?o from to a (if in_range from to ?x then n + 1 else n)"
    using purge_loop_step [OF older.prems(1) _ x older.hyps(2), of "from" "to" a n] v older.hyps(1)
    by metis
  have less: "unat ?o < unat i" by (rule backward_less [OF b older.hyps(1)])
  have same1: "nth_rec cur1 j = nth_rec insts j" if "valid_id insts j" "unat j \<le> unat ?o" for j
    using s(3) [OF that(1)] older.prems(3) [OF that(1)] that(2) less by auto
  obtain is' cur' where r: "purge_loop is i from to a n =
        Some ((None, (if in_range from to ?x then n + 1 else n) +
           length (filter (in_range from to) (chain insts ?o))), is')"
      "is_rep is' cur'" "purged insts {x \<in> set (chain insts ?o). in_range from to x} cur1 cur'"
    using older.IH [OF s(1) trans [OF s(2) older.prems(2)] same1,
        of "if in_range from to ?x then n + 1 else n"] unfolding s(4) by blast
  have ne: "?x \<notin> set (chain insts ?o)"
    using chain_ids [OF ids b, of ?o ?x] backward_valid [OF b older.hyps(1)] less
      ids_ok_record [OF ids older.hyps(1)] by fastforce
  have eq: "nth_rec insts j = ?x \<longleftrightarrow> i = j" if "valid_id insts j" for j
    using ids_ok_record [OF ids that] ids_ok_record [OF ids older.hyps(1)] by metis
  have "purged insts {x \<in> set (chain insts i). in_range from to x} cur cur'"
    unfolding purged_def
  proof (intro conjI allI impI)
    show "length cur' = length cur" using r(3) s(2) by (simp add: purged_def)
  next
    fix j assume j: "valid_id insts j"
    then have "nth_rec cur' j = (if nth_rec insts j \<in> set (chain insts ?o) \<and> in_range from to (nth_rec insts j)
        then tombstoned (nth_rec insts j) else nth_rec cur1 j)"
      using r(3) by (simp add: purged_def)
    then show "nth_rec cur' j = (if nth_rec insts j \<in> {x \<in> set (chain insts i). in_range from to x}
        then tombstoned (nth_rec insts j) else nth_rec cur j)"
      using s(3) [OF j] eq [OF j] ne chain_valid [OF b older.hyps(1)] by (cases "i = j") auto
  qed
  with r(1,2) show ?case
    using chain_valid [OF b older.hyps(1)] by auto
qed

lemma PurgeInstancesInTimeRange_rep:
  assumes "is_rep is insts" "backward insts" "i = 0 \<or> valid_id insts i"
  obtains is' insts' where "PurgeInstancesInTimeRange is i from to a =
        Some ((None, length (filter (in_range from to) (chain insts i))), is')"
    "is_rep is' insts'" "purged insts {x \<in> set (chain insts i). in_range from to x} insts insts'"
proof (cases "i = 0")
  case True
  then show ?thesis
    using that [of "is" insts] assms(1) by (simp add: PurgeInstancesInTimeRange_def purged_def)
next
  case False
  then show ?thesis
    using purge_loop_rep [OF is_rep_ids [OF assms(1)] assms(2,3,1), of "from" "to" a 0] that
    by (auto simp: PurgeInstancesInTimeRange_def)
qed

text \<open>
  The marker lands in the link to the older instance: walking from a tombstoned instance seeks
  to a negative offset.
\<close>

lemma ReadInstance_minus_one: "ReadInstance is (- 1) = Inl (RecordIO SeekError)"
proof -
  have "sint ((- 1 - 1) * of_nat 32 :: u64) < 0" by simp
  then have "f_seek ((- 1 - 1) * of_nat 32) = Inl SeekError" unfolding f_seek_def by simp
  then show ?thesis by (simp add: ReadInstance_def readRecord_def InstanceRecordSize_def)
qed

lemma GetInstanceChain_tombstoned:
  assumes "is_rep is insts" "valid_id insts i" "iOlderInstanceID (nth_rec insts i) = - 1"
  shows "GetInstanceChain is i = Some (Inl (RecordIO SeekError))"
  using ReadInstance_rep [OF assms(1,2)] assms(3) valid_id_nonzero [OF assms(2)]
    ReadInstance_minus_one [of "is"]
  by (simp add: GetInstanceChain_def chain_loop.simps [of "is" i] chain_loop.simps [of "is" "- 1"])

end
