(* ===== verification/AttributeStore.thy ===== *)
theory AttributeStore
  imports Record_File
begin

text \<open>
  The attribute store (\<open>src/internal/storage/attributes.go\<close>): a file of 24-byte records, each
  naming the value that is the attribute's label, its newest instance and its next sibling. The
  last two fields are updated in place. The store refines a list of attributes.
\<close>

record Attribute =
  aID :: u64
  aLabelValueID :: u64
  aFirstInstanceID :: u64
  aNextAttributeID :: u64

record AttributeStore =
  asFile :: gofile
  asNextID :: u64

definition AttributeRecordSize :: nat where "AttributeRecordSize = 24"

definition NewAttributeStore :: "gofile \<Rightarrow> AttributeStore" where
  "NewAttributeStore f =
     \<lparr>asFile = f, asNextID = of_nat (length f) div of_nat AttributeRecordSize + 1\<rparr>"

definition serializeAttribute :: "Attribute \<Rightarrow> bytes" where
  "serializeAttribute a =
     put_le 8 (aLabelValueID a) @ put_le 8 (aFirstInstanceID a) @ put_le 8 (aNextAttributeID a)"

definition deserializeAttribute :: "bytes \<Rightarrow> u64 \<Rightarrow> Attribute" where
  "deserializeAttribute data attributeID =
     \<lparr>aID = attributeID,
      aLabelValueID = get_le (slice 0 8 data),
      aFirstInstanceID = get_le (slice 8 8 data),
      aNextAttributeID = get_le (slice 16 8 data)\<rparr>"

definition WriteAttribute ::
  "AttributeStore \<Rightarrow> u64 \<Rightarrow> u64 \<Rightarrow> u64 \<Rightarrow> u64 \<times> AttributeStore" where
  "WriteAttribute as labelValueID firstInstanceID nextAttributeID =
     (let attribute = \<lparr>aID = asNextID as, aLabelValueID = labelValueID,
                       aFirstInstanceID = firstInstanceID, aNextAttributeID = nextAttributeID\<rparr>
      in (asNextID as,
          as\<lparr>asFile := f_append (serializeAttribute attribute) (asFile as),
             asNextID := asNextID as + 1\<rparr>))"

definition ReadAttribute :: "AttributeStore \<Rightarrow> u64 \<Rightarrow> record_error + Attribute" where
  "ReadAttribute as attributeID =
     rmap (\<lambda>data. deserializeAttribute data attributeID)
       (readRecord AttributeRecordSize (asFile as) attributeID)"

definition UpdateAttributeNextID ::
  "AttributeStore \<Rightarrow> u64 \<Rightarrow> u64 \<Rightarrow> record_error + AttributeStore" where
  "UpdateAttributeNextID as attributeID nextAttributeID =
     rmap (\<lambda>f. as\<lparr>asFile := f\<rparr>)
       (writeField AttributeRecordSize 16 (asFile as) attributeID nextAttributeID)"

definition UpdateAttributeFirstInstance ::
  "AttributeStore \<Rightarrow> u64 \<Rightarrow> u64 \<Rightarrow> record_error + AttributeStore" where
  "UpdateAttributeFirstInstance as attributeID firstInstanceID =
     rmap (\<lambda>f. as\<lparr>asFile := f\<rparr>)
       (writeField AttributeRecordSize 8 (asFile as) attributeID firstInstanceID)"

partial_function (option) sibling_loop ::
  "AttributeStore \<Rightarrow> u64 \<Rightarrow> Attribute list \<Rightarrow> (record_error + Attribute list) option" where
  "sibling_loop as currentID siblings =
     (if currentID = 0 then Some (Inr siblings)
      else case ReadAttribute as currentID of
             Inl e \<Rightarrow> Some (Inl e)
           | Inr attribute \<Rightarrow>
               sibling_loop as (aNextAttributeID attribute) (siblings @ [attribute]))"

definition GetSiblingChain ::
  "AttributeStore \<Rightarrow> u64 \<Rightarrow> (record_error + Attribute list) option" where
  "GetSiblingChain as firstAttributeID =
     (if firstAttributeID = 0 then Some (Inr []) else sibling_loop as firstAttributeID [])"

definition FindAttributeByLabel ::
  "AttributeStore \<Rightarrow> u64 \<Rightarrow> u64 \<Rightarrow> (record_error + Attribute option) option" where
  "FindAttributeByLabel as firstAttributeID labelValueID =
     map_option (rmap (find (\<lambda>attr. aLabelValueID attr = labelValueID)))
       (GetSiblingChain as firstAttributeID)"

definition GetAttributeCount :: "AttributeStore \<Rightarrow> u64" where
  "GetAttributeCount as = asNextID as - 1"

subsection \<open>The store as a list of attributes\<close>

lemma deserialize_serializeAttribute [codec_simps]:
  "deserializeAttribute (serializeAttribute a) (aID a) = a"
  by (simp add: deserializeAttribute_def serializeAttribute_def slice_def)

lemma length_serializeAttribute [simp, length_simps]: "length (serializeAttribute a) = 24"
  by (simp add: serializeAttribute_def)

interpretation attribute_records:
  fixed_records serializeAttribute deserializeAttribute aID AttributeRecordSize
  by unfold_locales (simp_all add: AttributeRecordSize_def deserialize_serializeAttribute)

definition as_rep :: "AttributeStore \<Rightarrow> Attribute list \<Rightarrow> bool" where
  "as_rep as attrs \<longleftrightarrow>
     asFile as = file_of serializeAttribute attrs \<and>
     asNextID as = of_nat (Suc (length attrs)) \<and>
     ids_ok aID attrs \<and> few (length attrs)"

lemma as_repD:
  assumes "as_rep as attrs"
  shows as_rep_file: "asFile as = file_of serializeAttribute attrs"
    and as_rep_next: "asNextID as = of_nat (Suc (length attrs))"
    and as_rep_ids: "ids_ok aID attrs" and as_rep_few: "few (length attrs)"
  using assms by (auto simp: as_rep_def)

lemma GetAttributeCount_rep: "as_rep as attrs \<Longrightarrow> unat (GetAttributeCount as) = length attrs"
  by (simp add: GetAttributeCount_def as_rep_def few_def)

lemma ReadAttribute_rep:
  "as_rep as attrs \<Longrightarrow> valid_id attrs i \<Longrightarrow> ReadAttribute as i = Inr (nth_rec attrs i)"
  using attribute_records.read_decoded [of attrs i] by (simp add: ReadAttribute_def as_rep_def)

lemma NewAttributeStore_rep:
  assumes "ids_ok aID attrs" "few (length attrs)"
  shows "as_rep (NewAttributeStore (file_of serializeAttribute attrs)) attrs"
proof -
  let ?n = "length attrs"
  have n: "?n * 24 < 2 ^ 64" using assms(2) by (simp add: few_def)
  have "unat (of_nat (?n * 24) div 24 :: u64) = ?n"
    using n by (simp add: unat_div unat_of_nat_u64 del: of_nat_mult)
  then have "of_nat (?n * 24) div 24 = (of_nat ?n :: u64)"
    using n by (simp add: word_unat_eq_iff unat_of_nat_u64 del: of_nat_mult)
  then show ?thesis
    using assms by (simp add: as_rep_def NewAttributeStore_def attribute_records.file_of_length
        AttributeRecordSize_def)
qed

lemma WriteAttribute_rep:
  assumes rep: "as_rep as attrs" and few: "few (Suc (length attrs))"
    and w: "WriteAttribute as l f n = (i, as')"
  shows "unat i = Suc (length attrs)"
    and "as_rep as' (attrs @ [\<lparr>aID = i, aLabelValueID = l, aFirstInstanceID = f, aNextAttributeID = n\<rparr>])"
proof -
  have i: "i = of_nat (Suc (length attrs))"
    using w as_rep_next [OF rep] by (simp add: WriteAttribute_def)
  then show "unat i = Suc (length attrs)"
    using few by (simp add: few_def unat_of_nat_u64 del: of_nat_Suc)
  show "as_rep as' (attrs @ [\<lparr>aID = i, aLabelValueID = l, aFirstInstanceID = f, aNextAttributeID = n\<rparr>])"
    using rep few w i
    by (auto simp: as_rep_def WriteAttribute_def attribute_records.file_of_append intro!: ids_ok_append)
qed

lemma serializeAttribute_update:
  "serializeAttribute (a\<lparr>aFirstInstanceID := w\<rparr>) = f_write 8 (put_le 8 w) (serializeAttribute a)"
  "serializeAttribute (a\<lparr>aNextAttributeID := w\<rparr>) = f_write 16 (put_le 8 w) (serializeAttribute a)"
  by (simp_all add: serializeAttribute_def f_write_def)

lemma as_rep_update:
  assumes "as_rep as attrs" "aID a = aID (nth_rec attrs i)"
  shows "as_rep (as\<lparr>asFile := file_of serializeAttribute (attrs[unat i - 1 := a])\<rparr>) (attrs[unat i - 1 := a])"
  using assms ids_ok_update [of aID attrs a "unat i - 1"] by (simp add: as_rep_def nth_rec_def)

lemma UpdateAttributeFirstInstance_rep:
  assumes "as_rep as attrs" "valid_id attrs i"
  obtains as' where "UpdateAttributeFirstInstance as i w = Inr as'"
    "as_rep as' (attrs[unat i - 1 := (nth_rec attrs i)\<lparr>aFirstInstanceID := w\<rparr>])"
  using attribute_records.update_field [OF assms(2) as_rep_few [OF assms(1)] _ serializeAttribute_update(1)]
    as_rep_update [OF assms(1)] as_rep_file [OF assms(1)] that
  by (simp add: UpdateAttributeFirstInstance_def AttributeRecordSize_def)

lemma UpdateAttributeNextID_rep:
  assumes "as_rep as attrs" "valid_id attrs i"
  obtains as' where "UpdateAttributeNextID as i w = Inr as'"
    "as_rep as' (attrs[unat i - 1 := (nth_rec attrs i)\<lparr>aNextAttributeID := w\<rparr>])"
  using attribute_records.update_field [OF assms(2) as_rep_few [OF assms(1)] _ serializeAttribute_update(2)]
    as_rep_update [OF assms(1)] as_rep_file [OF assms(1)] that
  by (simp add: UpdateAttributeNextID_def AttributeRecordSize_def)

text \<open>
  The sibling walk returns the records along the links of any list of IDs that ends in 0; links
  set by \<open>UpdateAttributeNextID\<close> may form a cycle, on which the loop does not return.
\<close>

fun linked :: "Attribute list \<Rightarrow> u64 \<Rightarrow> u64 list \<Rightarrow> bool" where
  "linked attrs i [] \<longleftrightarrow> i = 0"
| "linked attrs i (j # js) \<longleftrightarrow>
     i = j \<and> valid_id attrs i \<and> linked attrs (aNextAttributeID (nth_rec attrs i)) js"

lemma sibling_loop_linked:
  assumes "as_rep as attrs" "linked attrs i is"
  shows "sibling_loop as i acc = Some (Inr (acc @ map (nth_rec attrs) is))"
  using assms(2)
proof (induction "is" arbitrary: i acc)
  case Nil
  then show ?case by (simp add: sibling_loop.simps)
next
  case (Cons j js)
  then have v: "valid_id attrs j" "i = j" by auto
  with Cons show ?case
    using ReadAttribute_rep [OF assms(1) v(1)] valid_id_nonzero [OF v(1)]
    by (simp add: sibling_loop.simps [of as j])
qed

lemma FindAttributeByLabel_linked:
  assumes "as_rep as attrs" "linked attrs i is"
  shows "FindAttributeByLabel as i l =
    Some (Inr (find (\<lambda>a. aLabelValueID a = l) (map (nth_rec attrs) is)))"
  using sibling_loop_linked [OF assms, of "[]"] assms(2)
  by (cases "is") (auto simp: FindAttributeByLabel_def GetSiblingChain_def dest: valid_id_nonzero)

end
