(* ===== verification/HashIndex.thy ===== *)
theory HashIndex
  imports AttributeStore
begin

text \<open>
  The hash index (\<open>src/internal/storage/hashindex.go\<close>): a chained hash table from label value
  IDs to attribute IDs, hashed with FNV-1a. The linked buckets are lists of pairs, a chain's head
  first. The index refines a finite map; the contract of such an index is the locale
  \<open>attribute_index\<close>, in which rebuilding from an attribute store is proved.
\<close>

record HashBucket =
  hbLabelValueID :: u64
  hbAttributeID :: u64

record HashIndex =
  hiBuckets :: "HashBucket list list"
  hiBucketCount :: u64
  hiSize :: u64

definition DefaultBucketCount :: u64 where "DefaultBucketCount = 1024"

definition NewHashIndex :: "u64 \<Rightarrow> HashIndex" where
  "NewHashIndex bucketCount =
     (let bucketCount = (if bucketCount = 0 then DefaultBucketCount else bucketCount)
      in \<lparr>hiBuckets = replicate (unat bucketCount) [], hiBucketCount = bucketCount, hiSize = 0\<rparr>)"

text \<open>\<open>hash/fnv\<close>'s 64-bit FNV-1a.\<close>

definition fnv1a :: "bytes \<Rightarrow> u64" where
  "fnv1a bs = fold (\<lambda>b h. (h XOR ucast b) * 1099511628211) bs 14695981039346656037"

definition hash :: "HashIndex \<Rightarrow> u64 \<Rightarrow> u64" where
  "hash hi labelValueID = fnv1a (put_le 8 labelValueID) mod hiBucketCount hi"

fun update_chain :: "u64 \<Rightarrow> u64 \<Rightarrow> HashBucket list \<Rightarrow> HashBucket list option" where
  "update_chain l a [] = None"
| "update_chain l a (b # bs) =
     (if hbLabelValueID b = l then Some (b\<lparr>hbAttributeID := a\<rparr> # bs)
      else map_option (Cons b) (update_chain l a bs))"

definition hi_Insert :: "u64 \<Rightarrow> u64 \<Rightarrow> HashIndex \<Rightarrow> HashIndex" where
  "hi_Insert labelValueID attributeID hi =
     (let bucketIndex = unat (hash hi labelValueID);
          chain = hiBuckets hi ! bucketIndex
      in case update_chain labelValueID attributeID chain of
           Some chain' \<Rightarrow> hi\<lparr>hiBuckets := (hiBuckets hi)[bucketIndex := chain']\<rparr>
         | None \<Rightarrow>
             hi\<lparr>hiBuckets := (hiBuckets hi)[bucketIndex :=
                  \<lparr>hbLabelValueID = labelValueID, hbAttributeID = attributeID\<rparr> # chain],
                hiSize := hiSize hi + 1\<rparr>)"

definition hi_Lookup :: "HashIndex \<Rightarrow> u64 \<Rightarrow> u64 option" where
  "hi_Lookup hi labelValueID =
     map_option hbAttributeID
       (find (\<lambda>b. hbLabelValueID b = labelValueID) (hiBuckets hi ! unat (hash hi labelValueID)))"

text \<open>The loop of \<open>Remove\<close> looks one bucket ahead; the head was handled before.\<close>

fun remove_ahead :: "u64 \<Rightarrow> HashBucket list \<Rightarrow> HashBucket list option" where
  "remove_ahead l (b # n # bs) =
     (if hbLabelValueID n = l then Some (b # bs) else map_option (Cons b) (remove_ahead l (n # bs)))"
| "remove_ahead l bs = None"

definition hi_Remove :: "u64 \<Rightarrow> HashIndex \<Rightarrow> bool \<times> HashIndex" where
  "hi_Remove labelValueID hi =
     (let bucketIndex = unat (hash hi labelValueID);
          chain = hiBuckets hi ! bucketIndex
      in if chain \<noteq> [] \<and> hbLabelValueID (hd chain) = labelValueID
         then (True, hi\<lparr>hiBuckets := (hiBuckets hi)[bucketIndex := tl chain], hiSize := hiSize hi - 1\<rparr>)
         else case remove_ahead labelValueID chain of
                Some chain' \<Rightarrow>
                  (True, hi\<lparr>hiBuckets := (hiBuckets hi)[bucketIndex := chain'], hiSize := hiSize hi - 1\<rparr>)
              | None \<Rightarrow> (False, hi))"

definition hi_Clear :: "HashIndex \<Rightarrow> HashIndex" where
  "hi_Clear hi = hi\<lparr>hiBuckets := replicate (unat (hiBucketCount hi)) [], hiSize := 0\<rparr>"

text \<open>
  Rebuilding scans attribute IDs 1 to the count; on a read error the entries inserted so far
  stay. The insertion inlined in the code's loop is the one of \<open>Insert\<close>.
\<close>

fun rebuild_loop :: "AttributeStore \<Rightarrow> nat list \<Rightarrow> HashIndex \<Rightarrow> (record_error + unit) \<times> HashIndex" where
  "rebuild_loop as [] hi = (Inr (), hi)"
| "rebuild_loop as (n # ns) hi =
     (case ReadAttribute as (of_nat n) of
        Inl e \<Rightarrow> (Inl e, hi)
      | Inr attribute \<Rightarrow> rebuild_loop as ns (hi_Insert (aLabelValueID attribute) (of_nat n) hi))"

definition RebuildFromAttributeStore ::
  "AttributeStore \<Rightarrow> HashIndex \<Rightarrow> (record_error + unit) \<times> HashIndex" where
  "RebuildFromAttributeStore as hi =
     rebuild_loop as [1..<Suc (unat (GetAttributeCount as))] (hi_Clear hi)"

definition GetCollisionStats :: "HashIndex \<Rightarrow> nat \<times> nat \<times> nat" where
  "GetCollisionStats hi =
     fold (\<lambda>bucket (usedBuckets, totalChainLength, maxChainLength).
             if bucket = [] then (usedBuckets, totalChainLength, maxChainLength)
             else (usedBuckets + 1, totalChainLength + length bucket,
                   if maxChainLength < length bucket then length bucket else maxChainLength))
       (hiBuckets hi) (0, 0, 0)"

subsection \<open>The index as a map\<close>

definition chain_map :: "HashBucket list \<Rightarrow> u64 \<Rightarrow> u64 option" where
  "chain_map bs l = map_option hbAttributeID (find (\<lambda>b. hbLabelValueID b = l) bs)"

text \<open>
  Chains sit where their labels hash to, hold each label once, and the size counts the entries.
\<close>

definition hi_inv :: "HashIndex \<Rightarrow> bool" where
  "hi_inv hi \<longleftrightarrow>
     0 < hiBucketCount hi \<and> length (hiBuckets hi) = unat (hiBucketCount hi) \<and>
     (\<forall>k < length (hiBuckets hi).
        distinct (map hbLabelValueID (hiBuckets hi ! k)) \<and>
        (\<forall>b \<in> set (hiBuckets hi ! k). unat (hash hi (hbLabelValueID b)) = k)) \<and>
     hiSize hi = of_nat (length (concat (hiBuckets hi)))"

lemma hi_invD:
  assumes "hi_inv hi"
  shows hi_inv_length: "length (hiBuckets hi) = unat (hiBucketCount hi)"
    and hi_inv_distinct: "k < length (hiBuckets hi) \<Longrightarrow> distinct (map hbLabelValueID (hiBuckets hi ! k))"
    and hi_inv_home: "k < length (hiBuckets hi) \<Longrightarrow> b \<in> set (hiBuckets hi ! k) \<Longrightarrow>
      unat (hash hi (hbLabelValueID b)) = k"
    and hi_inv_size: "hiSize hi = of_nat (length (concat (hiBuckets hi)))"
    and hi_inv_index: "unat (hash hi l) < length (hiBuckets hi)"
proof -
  show "length (hiBuckets hi) = unat (hiBucketCount hi)"
    "k < length (hiBuckets hi) \<Longrightarrow> distinct (map hbLabelValueID (hiBuckets hi ! k))"
    "k < length (hiBuckets hi) \<Longrightarrow> b \<in> set (hiBuckets hi ! k) \<Longrightarrow> unat (hash hi (hbLabelValueID b)) = k"
    "hiSize hi = of_nat (length (concat (hiBuckets hi)))"
    using assms unfolding hi_inv_def by blast+
  have "0 < unat (hiBucketCount hi)" using assms by (simp add: hi_inv_def word_less_nat_alt)
  then show "unat (hash hi l) < length (hiBuckets hi)"
    using assms by (simp add: hi_inv_def hash_def unat_mod)
qed

lemma hi_Lookup_chain_map: "hi_Lookup hi l = chain_map (hiBuckets hi ! unat (hash hi l)) l"
  by (simp add: hi_Lookup_def chain_map_def)

lemma hash_update [simp]:
  "hash (hi\<lparr>hiBuckets := x\<rparr>) = hash hi" "hash (hi\<lparr>hiSize := y\<rparr>) = hash hi"
  by (simp_all add: fun_eq_iff hash_def)

lemma length_concat_update:
  "k < length xss \<Longrightarrow>
   length (concat (xss[k := ys])) + length (xss ! k) = length (concat xss) + length ys"
proof (induction xss arbitrary: k)
  case (Cons xs xss)
  then show ?case by (cases k) (auto simp: algebra_simps)
qed simp

text \<open>Replacing the chain of one label keeps the invariant and changes the map as the chain changed.\<close>

lemma replace_chain:
  assumes inv: "hi_inv hi" and k: "k = unat (hash hi l)"
    and d: "distinct (map hbLabelValueID bs)"
    and sub: "hbLabelValueID ` set bs \<subseteq> insert l (hbLabelValueID ` set (hiBuckets hi ! k))"
    and m: "chain_map bs = (chain_map (hiBuckets hi ! k))(l := r)"
    and n: "n + of_nat (length (hiBuckets hi ! k)) = hiSize hi + of_nat (length bs)"
  shows "hi_inv (hi\<lparr>hiBuckets := (hiBuckets hi)[k := bs], hiSize := n\<rparr>)"
    and "hi_Lookup (hi\<lparr>hiBuckets := (hiBuckets hi)[k := bs], hiSize := n\<rparr>) = (hi_Lookup hi)(l := r)"
proof -
  have kl: "k < length (hiBuckets hi)" using hi_inv_index [OF inv] k by simp
  have home: "unat (hash hi (hbLabelValueID b)) = k" if "b \<in> set bs" for b
    using sub that hi_inv_home [OF inv kl] k by fastforce
  have "of_nat (length (concat ((hiBuckets hi)[k := bs]))) + of_nat (length (hiBuckets hi ! k))
      = (hiSize hi + of_nat (length bs) :: u64)"
    unfolding hi_inv_size [OF inv] of_nat_add [symmetric] length_concat_update [OF kl] ..
  then have sz: "n = of_nat (length (concat ((hiBuckets hi)[k := bs])))"
    using n by (metis add_right_cancel)
  show "hi_inv (hi\<lparr>hiBuckets := (hiBuckets hi)[k := bs], hiSize := n\<rparr>)"
    using inv home d sz unfolding hi_inv_def by (simp add: nth_list_update [OF kl])
  show "hi_Lookup (hi\<lparr>hiBuckets := (hiBuckets hi)[k := bs], hiSize := n\<rparr>) = (hi_Lookup hi)(l := r)"
  proof
    fix l'
    show "hi_Lookup (hi\<lparr>hiBuckets := (hiBuckets hi)[k := bs], hiSize := n\<rparr>) l' = ((hi_Lookup hi)(l := r)) l'"
      using m kl k by (cases "unat (hash hi l') = k") (auto simp: hi_Lookup_chain_map)
  qed
qed

lemma chain_map_simps [simp]:
  "chain_map [] = Map.empty"
  "chain_map (b # bs) = (chain_map bs)(hbLabelValueID b \<mapsto> hbAttributeID b)"
  by (auto simp: fun_eq_iff chain_map_def)

lemma chain_map_None: "chain_map bs l = None \<longleftrightarrow> l \<notin> hbLabelValueID ` set bs"
  by (induction bs) auto

lemma update_chain_None: "update_chain l a bs = None \<longleftrightarrow> l \<notin> hbLabelValueID ` set bs"
  by (induction bs) auto

lemma update_chain_Some:
  "update_chain l a bs = Some bs' \<Longrightarrow>
     map hbLabelValueID bs' = map hbLabelValueID bs \<and> chain_map bs' = (chain_map bs)(l \<mapsto> a)"
  by (induction bs arbitrary: bs') (auto split: if_splits)

lemma Insert_correct:
  assumes inv: "hi_inv hi"
  shows "hi_inv (hi_Insert l a hi)" and "hi_Lookup (hi_Insert l a hi) = (hi_Lookup hi)(l \<mapsto> a)"
proof -
  let ?k = "unat (hash hi l)" and ?b = "\<lparr>hbLabelValueID = l, hbAttributeID = a\<rparr>"
  let ?c = "hiBuckets hi ! ?k"
  have d: "distinct (map hbLabelValueID ?c)"
    using hi_inv_distinct [OF inv hi_inv_index [OF inv]] .
  have "hi_inv (hi_Insert l a hi) \<and> hi_Lookup (hi_Insert l a hi) = (hi_Lookup hi)(l \<mapsto> a)"
  proof (cases "update_chain l a ?c")
    case None
    then have n: "l \<notin> hbLabelValueID ` set ?c" by (simp add: update_chain_None)
    have "hi_Insert l a hi = hi\<lparr>hiBuckets := (hiBuckets hi)[?k := ?b # ?c], hiSize := hiSize hi + 1\<rparr>"
      using None by (simp add: hi_Insert_def Let_def)
    then show ?thesis
      using replace_chain [OF inv refl, where l = l and bs = "?b # ?c" and r = "Some a" and n = "hiSize hi + 1"] d n by auto
  next
    case (Some c')
    note u = update_chain_Some [OF Some]
    have same: "hbLabelValueID ` set c' = hbLabelValueID ` set ?c" "length c' = length ?c"
      using u by (metis list.set_map, metis length_map)
    have "hi_Insert l a hi = hi\<lparr>hiBuckets := (hiBuckets hi)[?k := c'], hiSize := hiSize hi\<rparr>"
      using Some by (simp add: hi_Insert_def Let_def)
    then show ?thesis
      using replace_chain [OF inv refl, where l = l and bs = c' and r = "Some a" and n = "hiSize hi"] d u same by auto
  qed
  then show "hi_inv (hi_Insert l a hi)" "hi_Lookup (hi_Insert l a hi) = (hi_Lookup hi)(l \<mapsto> a)"
    by blast+
qed

definition drop_label :: "u64 \<Rightarrow> HashBucket list \<Rightarrow> HashBucket list" where
  "drop_label l bs = filter (\<lambda>b. hbLabelValueID b \<noteq> l) bs"

lemma chain_map_drop_label: "chain_map (drop_label l bs) = (chain_map bs)(l := None)"
  by (induction bs) (auto simp: drop_label_def)

lemma drop_label_absent: "l \<notin> hbLabelValueID ` set bs \<Longrightarrow> drop_label l bs = bs"
  by (auto simp: drop_label_def filter_id_conv)

lemma remove_ahead_spec:
  assumes "distinct (map hbLabelValueID bs)" "bs \<noteq> [] \<longrightarrow> hbLabelValueID (hd bs) \<noteq> l"
  shows "remove_ahead l bs = (if l \<in> hbLabelValueID ` set bs then Some (drop_label l bs) else None)"
  using assms
proof (induction l bs rule: remove_ahead.induct)
  case (1 l b n bs)
  then show ?case
    using drop_label_absent [of l bs] by (auto simp: drop_label_def)
qed auto

lemma length_drop_label:
  assumes "distinct (map hbLabelValueID bs)" "l \<in> hbLabelValueID ` set bs"
  shows "Suc (length (drop_label l bs)) = length bs"
  using assms
proof (induction bs)
  case (Cons b bs)
  then show ?case using drop_label_absent [of l bs] by (auto simp: drop_label_def)
qed simp

lemma Remove_eq:
  assumes inv: "hi_inv hi" and c: "c = hiBuckets hi ! unat (hash hi l)"
  shows "hi_Remove l hi =
    (if hi_Lookup hi l = None then (False, hi)
     else (True, hi\<lparr>hiBuckets := (hiBuckets hi)[unat (hash hi l) := drop_label l c],
                   hiSize := hiSize hi - 1\<rparr>))"
proof -
  have d: "distinct (map hbLabelValueID c)"
    using hi_inv_distinct [OF inv hi_inv_index [OF inv]] c by simp
  have lk: "hi_Lookup hi l = None \<longleftrightarrow> l \<notin> hbLabelValueID ` set c"
    by (simp add: hi_Lookup_chain_map c chain_map_None)
  show ?thesis
  proof (cases "c \<noteq> [] \<and> hbLabelValueID (hd c) = l")
    case True
    then obtain b bs where b: "c = b # bs" "hbLabelValueID b = l" by (cases c) auto
    then have "drop_label l c = bs" using d drop_label_absent [of l bs] by (auto simp: drop_label_def)
    with True b lk show ?thesis by (simp add: hi_Remove_def Let_def c [symmetric])
  next
    case False
    then show ?thesis
      using remove_ahead_spec [OF d, of l] lk by (auto simp: hi_Remove_def Let_def c [symmetric])
  qed
qed

lemma Remove_correct:
  assumes inv: "hi_inv hi" and r: "hi_Remove l hi = (found, hi')"
  shows "hi_inv hi'" and "hi_Lookup hi' = (hi_Lookup hi)(l := None)"
    and "found \<longleftrightarrow> hi_Lookup hi l \<noteq> None"
proof -
  let ?k = "unat (hash hi l)"
  let ?c = "hiBuckets hi ! ?k"
  have d: "distinct (map hbLabelValueID ?c)"
    using hi_inv_distinct [OF inv hi_inv_index [OF inv]] .
  have lk: "hi_Lookup hi l = None \<longleftrightarrow> l \<notin> hbLabelValueID ` set ?c"
    by (simp add: hi_Lookup_chain_map chain_map_None)
  have "hi_inv hi' \<and> hi_Lookup hi' = (hi_Lookup hi)(l := None) \<and> (found \<longleftrightarrow> hi_Lookup hi l \<noteq> None)"
  proof (cases "hi_Lookup hi l")
    case None
    then show ?thesis using r inv Remove_eq [OF inv refl, of l] by auto
  next
    case (Some a)
    let ?n = "hiSize hi - 1"
    have "of_nat (Suc (length (drop_label l ?c))) = (of_nat (length ?c) :: u64)"
      using length_drop_label [OF d] Some lk by simp
    then have n: "?n + of_nat (length ?c) = hiSize hi + of_nat (length (drop_label l ?c))"
      by (metis (no_types, opaque_lifting) add.commute add_diff_cancel_left' diff_add_eq of_nat_Suc)
    have "distinct (map hbLabelValueID (drop_label l ?c))"
      using d unfolding drop_label_def by (rule distinct_map_filter)
    moreover have "set (drop_label l ?c) \<subseteq> set ?c" by (auto simp: drop_label_def)
    ultimately show ?thesis
      using r Some Remove_eq [OF inv refl, of l] chain_map_drop_label
        replace_chain [OF inv refl _ _ _ n, where r = None] by auto
  qed
  then show "hi_inv hi'" "hi_Lookup hi' = (hi_Lookup hi)(l := None)"
    "found \<longleftrightarrow> hi_Lookup hi l \<noteq> None" by blast+
qed

lemma Clear_correct:
  assumes "0 < hiBucketCount hi"
  shows "hi_inv (hi_Clear hi)" and "hi_Lookup (hi_Clear hi) = Map.empty"
proof -
  have "length (concat (replicate n [])) = (0 :: nat)" for n by (induction n) auto
  then show i: "hi_inv (hi_Clear hi)" using assms by (simp add: hi_inv_def hi_Clear_def)
  show "hi_Lookup (hi_Clear hi) = Map.empty"
    using hi_inv_index [OF i] by (auto simp: hi_Lookup_def hi_Clear_def fun_eq_iff)
qed

lemma NewHashIndex_Clear: "hi_Clear (NewHashIndex n) = NewHashIndex n" "0 < hiBucketCount (NewHashIndex n)"
  by (simp_all add: hi_Clear_def NewHashIndex_def Let_def DefaultBucketCount_def word_neq_0_conv [symmetric])

lemma hiBucketCount_Insert [simp]: "hiBucketCount (hi_Insert l a hi) = hiBucketCount hi"
  by (simp add: hi_Insert_def Let_def split: option.split)

subsection \<open>The contract of an attribute index\<close>

locale attribute_index =
  fixes lookup :: "'h \<Rightarrow> u64 \<Rightarrow> u64 option"
    and insert :: "u64 \<Rightarrow> u64 \<Rightarrow> 'h \<Rightarrow> 'h"
    and remove :: "u64 \<Rightarrow> 'h \<Rightarrow> bool \<times> 'h"
    and inv :: "'h \<Rightarrow> bool"
  assumes insert_inv: "inv h \<Longrightarrow> inv (insert l a h)"
    and lookup_insert: "inv h \<Longrightarrow> lookup (insert l a h) = (lookup h)(l \<mapsto> a)"
    and remove_inv: "inv h \<Longrightarrow> remove l h = (r, h') \<Longrightarrow> inv h'"
    and lookup_remove: "inv h \<Longrightarrow> remove l h = (r, h') \<Longrightarrow> lookup h' = (lookup h)(l := None)"
begin

text \<open>Inserting the entries of a list leaves, for every label, the last entry of the list.\<close>

lemma fold_insert:
  assumes "inv h"
  shows "inv (fold (\<lambda>(l, a). insert l a) es h)
    \<and> lookup (fold (\<lambda>(l, a). insert l a) es h) = lookup h ++ map_of (rev es)"
  using assms
proof (induction es arbitrary: h)
  case (Cons e es)
  obtain l a where e: "e = (l, a)" by fastforce
  have "lookup h ++ map_of (rev (e # es)) = (lookup h)(l \<mapsto> a) ++ map_of (rev es)"
    by (simp add: e map_add_assoc [symmetric])
  then show ?case
    using Cons.IH [OF insert_inv [OF Cons.prems, of l a]] lookup_insert [OF Cons.prems, of l a] e
    by (metis (no_types, lifting) case_prod_conv fold_simps(2))
qed simp

lemma insert_remove:
  "inv h \<Longrightarrow> remove l (insert l a h) = (r, h') \<Longrightarrow> lookup h' = (lookup h)(l := None)"
  using lookup_remove [OF insert_inv, of h l l a] lookup_insert [of h l a] by auto

end

interpretation hidx: attribute_index hi_Lookup hi_Insert hi_Remove hi_inv
  by unfold_locales (auto simp: Insert_correct dest: Remove_correct)

subsection \<open>Rebuilding\<close>

definition attr_entries :: "Attribute list \<Rightarrow> (u64 \<times> u64) list" where
  "attr_entries attrs = map (\<lambda>a. (aLabelValueID a, aID a)) attrs"

lemma rebuild_loop_rep:
  assumes "as_rep as attrs" "k \<le> length attrs"
  shows "rebuild_loop as [Suc k..<Suc (length attrs)] hi =
    (Inr (), fold (\<lambda>(l, a). hi_Insert l a) (attr_entries (drop k attrs)) hi)"
  using assms(2)
proof (induction "length attrs - k" arbitrary: k hi)
  case 0
  then show ?case by (simp add: attr_entries_def)
next
  case (Suc n)
  then have k: "k < length attrs" by simp
  let ?i = "of_nat (Suc k) :: u64"
  have u: "unat ?i = Suc k"
    using k as_rep_few [OF assms(1)] by (simp add: few_def unat_of_nat_u64 del: of_nat_Suc)
  then have v: "valid_id attrs ?i" using k by (simp add: valid_id_def del: of_nat_Suc)
  have r: "ReadAttribute as ?i = Inr (attrs ! k)"
    using ReadAttribute_rep [OF assms(1) v] u by (simp add: nth_rec_def del: of_nat_Suc)
  have id: "aID (attrs ! k) = ?i"
    using ids_ok_record [OF as_rep_ids [OF assms(1)] v] u by (simp add: nth_rec_def del: of_nat_Suc)
  have "[Suc k..<Suc (length attrs)] = Suc k # [Suc (Suc k)..<Suc (length attrs)]"
    using k by (simp add: upt_rec)
  moreover have "drop k attrs = attrs ! k # drop (Suc k) attrs"
    using k by (rule Cons_nth_drop_Suc [symmetric])
  ultimately show ?case
    using Suc.hyps(1) [of "Suc k"] Suc.hyps(2) k r id
    by (simp add: attr_entries_def del: of_nat_Suc upt_Suc)
qed

lemma Rebuild_rep:
  assumes "as_rep as attrs" "0 < hiBucketCount hi"
  obtains hi' where "RebuildFromAttributeStore as hi = (Inr (), hi')" "hi_inv hi'"
    "hi_Lookup hi' = map_of (rev (attr_entries attrs))"
proof -
  let ?hi = "fold (\<lambda>(l, a). hi_Insert l a) (attr_entries attrs) (hi_Clear hi)"
  have "RebuildFromAttributeStore as hi = (Inr (), ?hi)"
    using rebuild_loop_rep [OF assms(1), of 0 "hi_Clear hi"] GetAttributeCount_rep [OF assms(1)]
    by (simp add: RebuildFromAttributeStore_def del: upt_Suc)
  then show ?thesis
    using that hidx.fold_insert [OF Clear_correct(1) [OF assms(2)]] Clear_correct(2) [OF assms(2)]
    by simp
qed

end
