(* ===== verification/Go_Text.thy ===== *)
theory Go_Text
  imports Prelude
begin

text \<open>
  Go strings as byte sequences: UTF-8 (\<open>utf8.Valid\<close> and the runes a \<open>range\<close> loop visits),
  decimal formatting with \<open>%d\<close>, \<open>strings.Join\<close> and prefixes, and maps that are read by
  iteration, as association lists in iteration order.
\<close>

subsection \<open>UTF-8\<close>

definition byte_between :: "nat \<Rightarrow> nat \<Rightarrow> u8 \<Rightarrow> bool" where
  "byte_between lo hi b \<longleftrightarrow> lo \<le> unat b \<and> unat b \<le> hi"

text \<open>
  For each leading byte the number of continuation bytes and the range of the first one, which
  excludes overlong forms, surrogates and code points above \<open>10FFFF\<close>.
\<close>

definition utf8_lead :: "u8 \<Rightarrow> (nat \<times> nat \<times> nat) option" where
  "utf8_lead b =
     (let n = unat b in
      if n < 0x80 then Some (0, 0x80, 0xBF)
      else if n < 0xC2 then None
      else if n < 0xE0 then Some (1, 0x80, 0xBF)
      else if n = 0xE0 then Some (2, 0xA0, 0xBF)
      else if n = 0xED then Some (2, 0x80, 0x9F)
      else if n < 0xF0 then Some (2, 0x80, 0xBF)
      else if n = 0xF0 then Some (3, 0x90, 0xBF)
      else if n < 0xF4 then Some (3, 0x80, 0xBF)
      else if n = 0xF4 then Some (3, 0x80, 0x8F)
      else None)"

text \<open>The length of the code point at the start of a string, if it is well formed.\<close>

definition utf8_width :: "bytes \<Rightarrow> nat option" where
  "utf8_width s =
     (case s of [] \<Rightarrow> None
      | b # r \<Rightarrow>
          (case utf8_lead b of
             None \<Rightarrow> None
           | Some (n, lo, hi) \<Rightarrow>
               if n = 0 then Some 1
               else if n \<le> length r \<and> byte_between lo hi (hd r) \<and> (\<forall>c \<in> set (take (n - 1) (tl r)). byte_between 0x80 0xBF c)
               then Some (n + 1) else None))"

lemma utf8_width_pos: "utf8_width s = Some n \<Longrightarrow> 0 < n \<and> s \<noteq> []"
  by (auto simp: utf8_width_def split: list.splits option.splits if_splits prod.splits)

function utf8_valid :: "bytes \<Rightarrow> bool" where
  "utf8_valid s = (if s = [] then True
     else case utf8_width s of None \<Rightarrow> False | Some n \<Rightarrow> utf8_valid (drop n s))"
  by auto
termination
  by (relation "measure length") (auto dest: utf8_width_pos)

declare utf8_valid.simps [simp del]

lemma utf8_valid_Nil [simp]: "utf8_valid []"
  by (simp add: utf8_valid.simps)

lemma utf8_valid_ascii: "\<forall>b \<in> set s. unat b < 0x80 \<Longrightarrow> utf8_valid s"
proof (induction s)
  case (Cons b s)
  then have "utf8_width (b # s) = Some 1" by (simp add: utf8_width_def utf8_lead_def)
  with Cons show ?case by (simp add: utf8_valid.simps [of "b # s"])
qed simp

text \<open>
  The rune values of a \<open>range\<close> loop with their byte positions; an ill-formed byte gives
  \<open>utf8.RuneError\<close> and advances by one.
\<close>

definition rune_at :: "bytes \<Rightarrow> nat" where
  "rune_at s =
     (case s of [] \<Rightarrow> 0
      | b # r \<Rightarrow>
          (case utf8_width s of
             None \<Rightarrow> 0xFFFD
           | Some n \<Rightarrow>
               foldl (\<lambda>acc c. acc * 64 + unat c mod 64)
                 (if n = 1 then unat b else if n = 2 then unat b mod 32 else if n = 3 then unat b mod 16
                  else unat b mod 8)
                 (take (n - 1) r)))"

function runes_from :: "nat \<Rightarrow> bytes \<Rightarrow> (nat \<times> nat) list" where
  "runes_from i s = (if s = [] then []
     else let n = (case utf8_width s of None \<Rightarrow> 1 | Some n \<Rightarrow> n)
          in (i, rune_at s) # runes_from (i + n) (drop n s))"
  by auto
termination
  by (relation "measure (length \<circ> snd)") (auto dest: utf8_width_pos split: option.splits)

definition runes :: "bytes \<Rightarrow> (nat \<times> nat) list" where
  "runes s = runes_from 0 s"

declare runes_from.simps [simp del]

text \<open>\<open>unicode.IsSpace\<close>.\<close>

definition IsSpace :: "nat \<Rightarrow> bool" where
  "IsSpace r \<longleftrightarrow>
     r \<in> {9, 10, 11, 12, 13, 32, 0x85, 0xA0, 0x1680, 0x2028, 0x2029, 0x202F, 0x205F, 0x3000} \<or> 0x2000 \<le> r \<and> r \<le> 0x200A"

text \<open>\<open>strings.TrimSpace\<close>: the runes between the first and the last that is no space.\<close>

definition TrimSpace :: "gostring \<Rightarrow> gostring" where
  "TrimSpace s =
     (let left = dropWhile (IsSpace \<circ> snd) (runes s);
          right = takeWhile (IsSpace \<circ> snd) (rev left)
      in case left of
           [] \<Rightarrow> []
         | (start, r) # _ \<Rightarrow> drop start (if right = [] then s else take (fst (last right)) s))"

subsection \<open>Decimal numbers\<close>

function dec :: "nat \<Rightarrow> gostring" where
  "dec n = (if n < 10 then [of_nat (48 + n)] else dec (n div 10) @ [of_nat (48 + n mod 10)])"
  by auto
termination by (relation "measure id") auto

declare dec.simps [simp del]

definition undec :: "gostring \<Rightarrow> nat" where
  "undec s = foldl (\<lambda>n c. n * 10 + (unat c - 48)) 0 s"

lemma unat_digit: "d < 10 \<Longrightarrow> unat (of_nat (48 + d) :: u8) = 48 + d"
  by (simp only: unat_of_nat) (simp add: take_bit_eq_mod)

lemma undec_dec: "undec (dec n) = n"
proof (induction n rule: dec.induct)
  case (1 n)
  show ?case
  proof (cases "n < 10")
    case True
    then show ?thesis using unat_digit [of n] by (subst dec.simps) (simp add: undec_def)
  next
    case False
    then have "undec (dec (n div 10)) = n div 10" using 1 by simp
    then show ?thesis
      using False unat_digit [of "n mod 10"] by (subst dec.simps) (simp add: undec_def)
  qed
qed

lemma dec_inj: "dec m = dec n \<longleftrightarrow> m = n"
  by (metis undec_dec)

lemma dec_digits: "\<forall>c \<in> set (dec n). 48 \<le> unat c \<and> unat c < 58"
proof (induction n rule: dec.induct)
  case (1 n)
  show ?case
  proof (cases "n < 10")
    case True
    then show ?thesis using unat_digit [of n] by (subst dec.simps) simp
  next
    case False
    then show ?thesis
      using 1 unat_digit [of "n mod 10"] by (subst dec.simps) (auto split: if_splits)
  qed
qed

lemma dec_not_Nil: "dec n \<noteq> []"
  by (subst dec.simps) simp

text \<open>Hexadecimal digits: \<open>hex.EncodeToString\<close> and the format \<open>%x\<close>.\<close>

definition hex_digit :: "nat \<Rightarrow> u8" where
  "hex_digit n = of_nat (if n < 10 then 48 + n else 87 + n)"

definition hex :: "bytes \<Rightarrow> gostring" where
  "hex bs = concat (map (\<lambda>b. [hex_digit (unat b div 16), hex_digit (unat b mod 16)]) bs)"

lemma length_hex [simp]: "length (hex bs) = 2 * length bs"
  by (induction bs) (simp_all add: hex_def)

subsection \<open>Joining\<close>

definition dot :: u8 where "dot = 0x2E"

fun join :: "gostring list \<Rightarrow> gostring" where
  "join [] = []"
| "join [c] = c"
| "join (c # cs) = c @ dot # join cs"

definition dotless :: "gostring list \<Rightarrow> bool" where
  "dotless path \<longleftrightarrow> (\<forall>c \<in> set path. dot \<notin> set c)"

lemma append_dot_eq:
  "dot \<notin> set a \<Longrightarrow> dot \<notin> set b \<Longrightarrow> a @ dot # s = b @ dot # t \<longleftrightarrow> a = b \<and> s = t"
proof (induction a arbitrary: b)
  case Nil then show ?case by (cases b) auto
next
  case (Cons x a) then show ?case by (cases b) auto
qed

lemma join_Cons: "cs \<noteq> [] \<Longrightarrow> join (c # cs) = c @ dot # join cs"
  by (cases cs) auto

lemma dot_in_join: "cs \<noteq> [] \<Longrightarrow> dot \<in> set (join (c # cs))"
  by (simp add: join_Cons)

text \<open>Joining loses nothing when no component contains a dot and the path is not empty.\<close>

lemma join_inj:
  "dotless p \<Longrightarrow> dotless q \<Longrightarrow> p \<noteq> [] \<Longrightarrow> q \<noteq> [] \<Longrightarrow> join p = join q \<Longrightarrow> p = q"
proof (induction p arbitrary: q rule: join.induct)
  case (2 c)
  then show ?case
  proof (cases q rule: join.cases)
    case (3 d e ds)
    then have "dot \<in> set (join q)" by simp
    then show ?thesis using 2 by (auto simp: dotless_def)
  qed auto
next
  case (3 c d cs)
  then show ?case
  proof (cases q rule: join.cases)
    case (2 e)
    moreover have "dot \<in> set (join (c # d # cs))" by simp
    ultimately show ?thesis using 3 by (auto simp: dotless_def)
  next
    case (3 e f fs)
    then have "c = e \<and> join (d # cs) = join (f # fs)"
      using "3.prems" append_dot_eq by (auto simp: dotless_def)
    moreover have "dotless (d # cs)" "dotless (f # fs)" using "3.prems" 3 by (auto simp: dotless_def)
    ultimately show ?thesis using "3.IH" [of "f # fs"] 3 by simp
  qed (use 3 in simp)
qed simp

text \<open>\<open>strings.Split\<close> at the dots.\<close>

fun split_dots :: "gostring \<Rightarrow> gostring list" where
  "split_dots [] = [[]]"
| "split_dots (c # s) = (if c = dot then [] # split_dots s else (c # hd (split_dots s)) # tl (split_dots s))"

lemma split_dots_not_Nil [simp]: "split_dots s \<noteq> []"
  by (cases s) simp_all

lemma split_dots_dotless: "dot \<notin> set c \<Longrightarrow> split_dots c = [c]"
  by (induction c) auto

lemma split_dots_append: "dot \<notin> set c \<Longrightarrow> split_dots (c @ dot # s) = c # split_dots s"
  by (induction c) auto

lemma split_join: "dotless path \<Longrightarrow> path \<noteq> [] \<Longrightarrow> split_dots (join path) = path"
  by (induction path rule: join.induct) (auto simp: dotless_def split_dots_dotless split_dots_append)

lemma join_split: "join (split_dots s) = s"
proof (induction s)
  case (Cons c s)
  obtain d ds where d: "split_dots s = d # ds" by (cases "split_dots s") auto
  then show ?case using Cons by (cases ds) auto
qed simp

lemma split_dots_pieces: "dotless (split_dots s)"
proof (induction s)
  case (Cons c s)
  obtain d ds where "split_dots s = d # ds" by (cases "split_dots s") auto
  then show ?case using Cons by (auto simp: dotless_def)
qed (simp add: dotless_def)

lemma join_append: "ps \<noteq> [] \<Longrightarrow> rs \<noteq> [] \<Longrightarrow> join (ps @ rs) = join ps @ dot # join rs"
  by (induction ps rule: join.induct) (simp_all add: join_Cons)

text \<open>\<open>strings.HasPrefix\<close>, and what a prefix followed by a dot says about the components.\<close>

definition HasPrefix :: "gostring \<Rightarrow> gostring \<Rightarrow> bool" where
  "HasPrefix s p \<longleftrightarrow> take (length p) s = p"

text \<open>\<open>strings.Contains\<close>.\<close>

fun Contains :: "gostring \<Rightarrow> gostring \<Rightarrow> bool" where
  "Contains [] t = (t = [])"
| "Contains (c # s) t = (HasPrefix (c # s) t \<or> Contains s t)"

lemma HasPrefix_iff: "HasPrefix s p \<longleftrightarrow> (\<exists>t. s = p @ t)"
proof
  assume "HasPrefix s p"
  then have "s = p @ drop (length p) s" unfolding HasPrefix_def by (metis append_take_drop_id)
  then show "\<exists>t. s = p @ t" by blast
qed (auto simp: HasPrefix_def)

lemma join_below:
  assumes "dotless ps" "dotless qs" "ps \<noteq> []" "qs \<noteq> []"
  shows "join qs = join ps \<or> HasPrefix (join qs) (join ps @ [dot]) \<longleftrightarrow> (\<exists>rs. qs = ps @ rs)"
proof
  assume "join qs = join ps \<or> HasPrefix (join qs) (join ps @ [dot])"
  then show "\<exists>rs. qs = ps @ rs"
  proof
    assume "join qs = join ps"
    then show ?thesis using join_inj [OF assms(2,1,4,3)] by auto
  next
    assume "HasPrefix (join qs) (join ps @ [dot])"
    then obtain t where "join qs = join ps @ dot # t" by (auto simp: HasPrefix_iff)
    then have "join qs = join (ps @ split_dots t)"
      using join_append [OF assms(3), of "split_dots t"] by (simp add: join_split)
    moreover have "dotless (ps @ split_dots t)" using assms(1) split_dots_pieces [of t] by (auto simp: dotless_def)
    ultimately show ?thesis using join_inj [OF assms(2) _ assms(4)] assms(3) by blast
  qed
next
  assume "\<exists>rs. qs = ps @ rs"
  then obtain rs where "qs = ps @ rs" by blast
  then show "join qs = join ps \<or> HasPrefix (join qs) (join ps @ [dot])"
    using join_append [OF assms(3), of rs] by (cases "rs = []") (auto simp: HasPrefix_iff)
qed

subsection \<open>Maps by iteration order\<close>

text \<open>Assignment \<open>m[k] = v\<close>: an existing key keeps its place.\<close>

fun aset :: "'k \<Rightarrow> 'v \<Rightarrow> ('k \<times> 'v) list \<Rightarrow> ('k \<times> 'v) list" where
  "aset k v [] = [(k, v)]"
| "aset k v ((k', v') # m) = (if k = k' then (k, v) # m else (k', v') # aset k v m)"

lemma map_of_aset [simp]: "map_of (aset k v m) = (map_of m)(k \<mapsto> v)"
  by (induction m) auto

lemma fst_set_aset: "fst ` set (aset k v m) = insert k (fst ` set m)"
  by (induction k v m rule: aset.induct) (auto simp: insert_commute)

lemma set_aset: "set (aset k x fs) \<subseteq> insert (k, x) (set fs)"
  by (induction fs) (auto split: if_splits)

lemma aset_not_Nil [simp]: "aset k v m \<noteq> []"
  by (cases m) (auto split: if_splits)

text \<open>\<open>delete(m, k)\<close>.\<close>

definition adel :: "'k \<Rightarrow> ('k \<times> 'v) list \<Rightarrow> ('k \<times> 'v) list" where
  "adel k m = filter (\<lambda>(k', v). k' \<noteq> k) m"

lemma map_of_adel [simp]: "map_of (adel k m) k' = (if k' = k then None else map_of m k')"
  by (induction m) (auto simp: adel_def)

lemma distinct_adel [simp]: "distinct (map fst m) \<Longrightarrow> distinct (map fst (adel k m))"
  by (simp add: adel_def distinct_map_filter)

lemma distinct_aset [simp]: "distinct (map fst m) \<Longrightarrow> distinct (map fst (aset k v m))"
  by (induction m) (auto simp: fst_set_aset)

lemma aset_new: "k \<notin> fst ` set m \<Longrightarrow> aset k v m = m @ [(k, v)]"
  by (induction m) auto

end
