(* ===== verification/StorageTree.thy ===== *)
theory StorageTree
  imports Value_Heap InstanceStore HashIndex Go_Text
begin

text \<open>
  The storage tree (\<open>src/internal/storage/tree.go\<close>): the attribute, instance and value stores
  and the hash index combined into a versioned tree. A path is stored as one attribute labelled
  with the dot-joined path; each change of its value appends an instance. Clock readings are
  arguments; the walks that may not return make \<open>ReadAt\<close> and \<open>Purge\<close> partial.
\<close>

record StorageTree =
  stValueStore :: ValueStore
  stInstanceStore :: InstanceStore
  stAttributeStore :: AttributeStore
  stHashIndex :: HashIndex

record NamedAttribute =
  naAttribute :: Attribute
  naName :: gostring

datatype tree_error =
    EmptyPath
  | PathNotFound
  | NoInstances
  | NoInstanceAtTime
  | TreeValueError value_error
  | TreeRecordError record_error
  | InvalidAttributeID0
  | NonTextLabel u8
  | EmptyPrefix

fun compositePath :: "gostring list \<Rightarrow> gostring" where
  "compositePath [] = []"
| "compositePath [c] = c"
| "compositePath (c # d # cs) = c @ dot # compositePath (d # cs)"

lemma compositePath_join: "compositePath path = join path"
  by (induction path rule: compositePath.induct) auto

definition textValue :: "gostring \<Rightarrow> Value" where
  "textValue s = \<lparr>vTypeTag = TypeText, vData = s\<rparr>"

subsection \<open>Attributes of paths\<close>

definition findValueIDForString ::
  "(bytes \<Rightarrow> bytes) \<Rightarrow> StorageTree \<Rightarrow> gostring \<Rightarrow> (value_error + u64) \<times> StorageTree" where
  "findValueIDForString sha st s =
     (let valueID = FindValueIDForData sha (stValueStore st) s TypeText in
      if valueID \<noteq> 0 then (Inr valueID, st)
      else
        (let (r, vs) = writeValue sha (stValueStore st) (textValue s)
         in (r, st\<lparr>stValueStore := vs\<rparr>)))"

definition findAttributeForPath ::
  "(bytes \<Rightarrow> bytes) \<Rightarrow> StorageTree \<Rightarrow> gostring list \<Rightarrow> u64 \<times> StorageTree" where
  "findAttributeForPath sha st path =
     (if path = [] then (0, st)
      else
        (case findValueIDForString sha st (compositePath path) of
           (Inl e, st1) \<Rightarrow> (0, st1)
         | (Inr compositeValueID, st1) \<Rightarrow>
             if compositeValueID = 0 then (0, st1)
             else (case hi_Lookup (stHashIndex st1) compositeValueID of
                     None \<Rightarrow> (0, st1)
                   | Some attributeID \<Rightarrow> (attributeID, st1))))"

definition findOrCreateAttributeForPath ::
  "(bytes \<Rightarrow> bytes) \<Rightarrow> StorageTree \<Rightarrow> gostring list \<Rightarrow> (tree_error + u64) \<times> StorageTree" where
  "findOrCreateAttributeForPath sha st path =
     (if path = [] then (Inl EmptyPath, st)
      else
        (case writeValue sha (stValueStore st) (textValue (compositePath path)) of
           (Inl e, vs) \<Rightarrow> (Inl (TreeValueError e), st\<lparr>stValueStore := vs\<rparr>)
         | (Inr pathValueID, vs) \<Rightarrow>
             (let st1 = st\<lparr>stValueStore := vs\<rparr> in
              case hi_Lookup (stHashIndex st1) pathValueID of
                Some attributeID \<Rightarrow> (Inr attributeID, st1)
              | None \<Rightarrow>
                  (let (attributeID, as) = WriteAttribute (stAttributeStore st1) pathValueID 0 0
                   in (Inr attributeID,
                       st1\<lparr>stAttributeStore := as,
                           stHashIndex := hi_Insert pathValueID attributeID (stHashIndex st1)\<rparr>)))))"

subsection \<open>Reading\<close>

definition readInstanceValue ::
  "StorageTree \<Rightarrow> u64 \<Rightarrow> (tree_error + Value) \<times> StorageTree" where
  "readInstanceValue st instanceID =
     (case ReadInstance (stInstanceStore st) instanceID of
        Inl e \<Rightarrow> (Inl (TreeRecordError e), st)
      | Inr inst \<Rightarrow>
          (case readValue (stValueStore st) (iValueID inst) of
             (Inl e, vs) \<Rightarrow> (Inl (TreeValueError e), st\<lparr>stValueStore := vs\<rparr>)
           | (Inr value, vs) \<Rightarrow> (Inr value, st\<lparr>stValueStore := vs\<rparr>)))"

definition tree_Read ::
  "(bytes \<Rightarrow> bytes) \<Rightarrow> StorageTree \<Rightarrow> gostring list \<Rightarrow> (tree_error + Value) \<times> StorageTree" where
  "tree_Read sha st path =
     (if path = [] then (Inl EmptyPath, st)
      else
        (let (attributeID, st1) = findAttributeForPath sha st path in
         if attributeID = 0 then (Inl PathNotFound, st1)
         else
           (case ReadAttribute (stAttributeStore st1) attributeID of
              Inl e \<Rightarrow> (Inl (TreeRecordError e), st1)
            | Inr attribute \<Rightarrow>
                if aFirstInstanceID attribute = 0 then (Inl NoInstances, st1)
                else readInstanceValue st1 (aFirstInstanceID attribute))))"

definition tree_ReadAt ::
  "(bytes \<Rightarrow> bytes) \<Rightarrow> StorageTree \<Rightarrow> gostring list \<Rightarrow> i64 \<Rightarrow> ((tree_error + Value) \<times> StorageTree) option" where
  "tree_ReadAt sha st path timestamp =
     (if path = [] then Some (Inl EmptyPath, st)
      else
        (let (attributeID, st1) = findAttributeForPath sha st path in
         if attributeID = 0 then Some (Inl PathNotFound, st1)
         else
           (case ReadAttribute (stAttributeStore st1) attributeID of
              Inl e \<Rightarrow> Some (Inl (TreeRecordError e), st1)
            | Inr attribute \<Rightarrow>
                if aFirstInstanceID attribute = 0 then Some (Inl NoInstances, st1)
                else
                  (case FindInstanceAtTime (stInstanceStore st1) (aFirstInstanceID attribute) timestamp of
                     None \<Rightarrow> None
                   | Some (Inl e) \<Rightarrow> Some (Inl (TreeRecordError e), st1)
                   | Some (Inr instanceID) \<Rightarrow>
                       if instanceID = 0 then Some (Inl NoInstanceAtTime, st1)
                       else Some (readInstanceValue st1 instanceID)))))"

subsection \<open>Writing\<close>

text \<open>
  \<open>WriteReportingChange\<close> in three parts: the final append of an instance, the comparison with
  the newest instance, and the whole.
\<close>

definition appendInstance ::
  "i64 \<Rightarrow> StorageTree \<Rightarrow> u64 \<Rightarrow> u64 \<Rightarrow> u64 \<Rightarrow> u64 \<Rightarrow> (tree_error + bool) \<times> StorageTree" where
  "appendInstance now st attributeID firstInstanceID valueID author =
     (let (instanceID, is) = WriteInstance now (stInstanceStore st) valueID firstInstanceID author;
          st1 = st\<lparr>stInstanceStore := is\<rparr>
      in case UpdateAttributeFirstInstance (stAttributeStore st1) attributeID instanceID of
           Inl e \<Rightarrow> (Inl (TreeRecordError e), st1)
         | Inr as \<Rightarrow> (Inr True, st1\<lparr>stAttributeStore := as\<rparr>))"

definition setNewest ::
  "i64 \<Rightarrow> StorageTree \<Rightarrow> u64 \<Rightarrow> u64 \<Rightarrow> u64 \<Rightarrow> (tree_error + bool) \<times> StorageTree" where
  "setNewest now st attributeID valueID author =
     (case ReadAttribute (stAttributeStore st) attributeID of
        Inl e \<Rightarrow> (Inl (TreeRecordError e), st)
      | Inr attribute \<Rightarrow>
          if aFirstInstanceID attribute \<noteq> 0 then
            (case ReadInstance (stInstanceStore st) (aFirstInstanceID attribute) of
               Inl e \<Rightarrow> (Inl (TreeRecordError e), st)
             | Inr currentInstance \<Rightarrow>
                 if iValueID currentInstance = valueID then (Inr False, st)
                 else appendInstance now st attributeID (aFirstInstanceID attribute) valueID author)
          else appendInstance now st attributeID (aFirstInstanceID attribute) valueID author)"

definition WriteReportingChange ::
  "(bytes \<Rightarrow> bytes) \<Rightarrow> i64 \<Rightarrow> StorageTree \<Rightarrow> gostring list \<Rightarrow> Value \<Rightarrow> u64 \<Rightarrow>
     (tree_error + bool) \<times> StorageTree" where
  "WriteReportingChange sha now st path value author =
     (if path = [] then (Inl EmptyPath, st)
      else
        (case writeValue sha (stValueStore st) value of
           (Inl e, vs) \<Rightarrow> (Inl (TreeValueError e), st\<lparr>stValueStore := vs\<rparr>)
         | (Inr valueID, vs) \<Rightarrow>
             (case findOrCreateAttributeForPath sha (st\<lparr>stValueStore := vs\<rparr>) path of
                (Inl e, st2) \<Rightarrow> (Inl e, st2)
              | (Inr attributeID, st2) \<Rightarrow> setNewest now st2 attributeID valueID author)))"

definition tree_Write ::
  "(bytes \<Rightarrow> bytes) \<Rightarrow> i64 \<Rightarrow> StorageTree \<Rightarrow> gostring list \<Rightarrow> Value \<Rightarrow> u64 \<Rightarrow>
     (tree_error + unit) \<times> StorageTree" where
  "tree_Write sha now st path value author =
     (let (r, st') = WriteReportingChange sha now st path value author in (rmap (\<lambda>_. ()) r, st'))"

subsection \<open>Purging\<close>

text \<open>\<open>fmt.Sprintf\<close> of an integer with \<open>%d\<close>.\<close>

fun dec_nat :: "nat \<Rightarrow> gostring" where
  "dec_nat n = (if n < 10 then [of_nat (48 + n)] else dec_nat (n div 10) @ [of_nat (48 + n mod 10)])"

definition dec_int :: "int \<Rightarrow> gostring" where
  "dec_int n = (if n < 0 then str ''-'' @ dec_nat (nat (- n)) else dec_nat (nat n))"

definition purgeMessage :: "nat \<Rightarrow> i64 \<Rightarrow> i64 \<Rightarrow> u64 \<Rightarrow> gostring" where
  "purgeMessage purgedCount from to author =
     str ''Purged '' @ dec_nat purgedCount @ str '' instances from '' @ dec_int (sint from) @
     str '' to '' @ dec_int (sint to) @ str '' by author '' @ dec_nat (unat author)"

text \<open>\<open>nowSec\<close> is \<open>time.Now().Unix()\<close>, \<open>now\<close> the clock of the audit record's instance.\<close>

definition tree_Purge ::
  "(bytes \<Rightarrow> bytes) \<Rightarrow> i64 \<Rightarrow> i64 \<Rightarrow> StorageTree \<Rightarrow> gostring list \<Rightarrow> i64 \<Rightarrow> i64 \<Rightarrow> u64 \<Rightarrow>
     ((tree_error + unit) \<times> StorageTree) option" where
  "tree_Purge sha nowSec now st path from to author =
     (if path = [] then Some (Inl EmptyPath, st)
      else
        (let (attributeID, st1) = findAttributeForPath sha st path in
         if attributeID = 0 then Some (Inl PathNotFound, st1)
         else
           (case ReadAttribute (stAttributeStore st1) attributeID of
              Inl e \<Rightarrow> Some (Inl (TreeRecordError e), st1)
            | Inr attribute \<Rightarrow>
                if aFirstInstanceID attribute = 0 then Some (Inr (), st1)
                else
                  (case PurgeInstancesInTimeRange (stInstanceStore st1) (aFirstInstanceID attribute)
                          from to author of
                     None \<Rightarrow> None
                   | Some ((Some e, purgedCount), is) \<Rightarrow>
                       Some (Inl (TreeRecordError e), st1\<lparr>stInstanceStore := is\<rparr>)
                   | Some ((None, purgedCount), is) \<Rightarrow>
                       Some (tree_Write sha now (st1\<lparr>stInstanceStore := is\<rparr>)
                               (path @ [str ''_audit'', str ''purge_'' @ dec_int (sint nowSec)])
                               (textValue (purgeMessage purgedCount from to author)) author)))))"

subsection \<open>Enumeration\<close>

definition hasPrefix :: "gostring \<Rightarrow> gostring \<Rightarrow> bool" where
  "hasPrefix s p \<longleftrightarrow> take (length p) s = p"

definition attribute_ids :: "AttributeStore \<Rightarrow> u64 list" where
  "attribute_ids as = map of_nat [1..<Suc (unat (GetAttributeCount as))]"

definition getRootAttributes :: "StorageTree \<Rightarrow> Attribute list" where
  "getRootAttributes st =
     List.map_filter (\<lambda>i. case ReadAttribute (stAttributeStore st) i of Inl e \<Rightarrow> None | Inr a \<Rightarrow> Some a)
       (attribute_ids (stAttributeStore st))"

text \<open>One iteration of the loop of \<open>findChildrenByPrefixNamed\<close>: children, names seen, tree.\<close>

definition children_step ::
  "(bytes \<Rightarrow> bytes) \<Rightarrow> gostring \<Rightarrow> u64 \<Rightarrow> NamedAttribute list \<times> gostring list \<times> StorageTree \<Rightarrow>
     NamedAttribute list \<times> gostring list \<times> StorageTree" where
  "children_step sha childPrefix attributeID s =
     (case s of (children, seenChildren, st) \<Rightarrow>
        (case ReadAttribute (stAttributeStore st) attributeID of
           Inl e \<Rightarrow> s
         | Inr attribute \<Rightarrow>
             (case readValue (stValueStore st) (aLabelValueID attribute) of
                (Inl e, vs) \<Rightarrow> (children, seenChildren, st\<lparr>stValueStore := vs\<rparr>)
              | (Inr pathValue, vs) \<Rightarrow>
                  (let st1 = st\<lparr>stValueStore := vs\<rparr>; pathStr = vData pathValue in
                   if hasPrefix pathStr childPrefix then
                     (let remainder = drop (length childPrefix) pathStr;
                          childName = takeWhile (\<lambda>c. c \<noteq> dot) remainder
                      in if childName \<in> set seenChildren then (children, seenChildren, st1)
                         else
                           (case writeValue sha (stValueStore st1) (textValue childName) of
                              (Inl e, vs2) \<Rightarrow>
                                (children, childName # seenChildren, st1\<lparr>stValueStore := vs2\<rparr>)
                            | (Inr childValueID, vs2) \<Rightarrow>
                                (children @
                                   [\<lparr>naAttribute =
                                       \<lparr>aID = attributeID, aLabelValueID = childValueID,
                                        aFirstInstanceID = aFirstInstanceID attribute,
                                        aNextAttributeID = 0\<rparr>,
                                     naName = childName\<rparr>],
                                 childName # seenChildren, st1\<lparr>stValueStore := vs2\<rparr>)))
                   else (children, seenChildren, st1)))))"

definition findChildrenByPrefixNamed ::
  "(bytes \<Rightarrow> bytes) \<Rightarrow> StorageTree \<Rightarrow> gostring \<Rightarrow> NamedAttribute list \<times> StorageTree" where
  "findChildrenByPrefixNamed sha st parentPath =
     (let (children, seenChildren, st') =
            fold (children_step sha (parentPath @ [dot])) (attribute_ids (stAttributeStore st))
              ([], [], st)
      in (children, st'))"

definition findChildrenByPrefix ::
  "(bytes \<Rightarrow> bytes) \<Rightarrow> StorageTree \<Rightarrow> gostring \<Rightarrow> Attribute list \<times> StorageTree" where
  "findChildrenByPrefix sha st parentPath =
     (let (named, st') = findChildrenByPrefixNamed sha st parentPath in (map naAttribute named, st'))"

definition tree_Children ::
  "(bytes \<Rightarrow> bytes) \<Rightarrow> StorageTree \<Rightarrow> gostring list \<Rightarrow> Attribute list \<times> StorageTree" where
  "tree_Children sha st path =
     (if path = [] then (getRootAttributes st, st)
      else findChildrenByPrefix sha st (compositePath path))"

fun name_roots :: "Attribute list \<Rightarrow> StorageTree \<Rightarrow> NamedAttribute list \<times> StorageTree" where
  "name_roots [] st = ([], st)"
| "name_roots (attr # attrs) st =
     (let (r, vs) = readValue (stValueStore st) (aLabelValueID attr);
          name = (case r of Inl e \<Rightarrow> [] | Inr labelValue \<Rightarrow> vData labelValue);
          (named, st') = name_roots attrs (st\<lparr>stValueStore := vs\<rparr>)
      in (\<lparr>naAttribute = attr, naName = name\<rparr> # named, st'))"

definition ChildrenWithNames ::
  "(bytes \<Rightarrow> bytes) \<Rightarrow> StorageTree \<Rightarrow> gostring list \<Rightarrow> NamedAttribute list \<times> StorageTree" where
  "ChildrenWithNames sha st path =
     (if path = [] then name_roots (getRootAttributes st) st
      else findChildrenByPrefixNamed sha st (compositePath path))"

definition leaf_step ::
  "gostring \<Rightarrow> u64 \<Rightarrow> gostring list \<times> StorageTree \<Rightarrow> gostring list \<times> StorageTree" where
  "leaf_step prefixStr i s =
     (case s of (leaves, st) \<Rightarrow>
        (case ReadAttribute (stAttributeStore st) i of
           Inl e \<Rightarrow> s
         | Inr attribute \<Rightarrow>
             (case readValue (stValueStore st) (aLabelValueID attribute) of
                (Inl e, vs) \<Rightarrow> (leaves, st\<lparr>stValueStore := vs\<rparr>)
              | (Inr labelValue, vs) \<Rightarrow>
                  (let st1 = st\<lparr>stValueStore := vs\<rparr>; composite = vData labelValue in
                   if \<not> hasPrefix composite prefixStr then (leaves, st1)
                   else
                     (let remainder = drop (length prefixStr) composite
                      in if remainder = [] \<or> remainder \<in> set leaves then (leaves, st1)
                         else (leaves @ [remainder], st1))))))"

definition ListLeafPaths ::
  "StorageTree \<Rightarrow> gostring list \<Rightarrow> (tree_error + gostring list) \<times> StorageTree" where
  "ListLeafPaths st prefix =
     (if prefix = [] then (Inl EmptyPrefix, st)
      else
        (let (leaves, st') =
               fold (leaf_step (compositePath prefix @ [dot])) (attribute_ids (stAttributeStore st)) ([], st)
         in (Inr leaves, st')))"

definition ResolveAttributePath ::
  "StorageTree \<Rightarrow> u64 \<Rightarrow> (tree_error + gostring) \<times> StorageTree" where
  "ResolveAttributePath st attributeID =
     (if attributeID = 0 then (Inl InvalidAttributeID0, st)
      else
        (case ReadAttribute (stAttributeStore st) attributeID of
           Inl e \<Rightarrow> (Inl (TreeRecordError e), st)
         | Inr attribute \<Rightarrow>
             (case readValue (stValueStore st) (aLabelValueID attribute) of
                (Inl e, vs) \<Rightarrow> (Inl (TreeValueError e), st\<lparr>stValueStore := vs\<rparr>)
              | (Inr pathValue, vs) \<Rightarrow>
                  (if vTypeTag pathValue \<noteq> TypeText then Inl (NonTextLabel (vTypeTag pathValue))
                   else Inr (vData pathValue),
                   st\<lparr>stValueStore := vs\<rparr>))))"

definition NewStorageTree ::
  "(bytes \<Rightarrow> bytes) \<Rightarrow> (nat \<Rightarrow> u64 \<Rightarrow> gofile option) \<Rightarrow> gofile \<Rightarrow> gofile \<Rightarrow> gofile \<Rightarrow>
     record_error + StorageTree" where
  "NewStorageTree sha tiers large instances attributes =
     (let valueStore = NewValueStore sha tiers large;
          instanceStore = NewInstanceStore instances;
          attributeStore = NewAttributeStore attributes
      in case RebuildFromAttributeStore attributeStore (NewHashIndex 0) of
           (Inl e, hi) \<Rightarrow> Inl e
         | (Inr u, hi) \<Rightarrow>
             Inr \<lparr>stValueStore = valueStore, stInstanceStore = instanceStore,
                  stAttributeStore = attributeStore, stHashIndex = hi\<rparr>)"

end
