(* ===== verification/StorageTree_Correct.thy ===== *)
theory StorageTree_Correct
  imports StorageTree
begin

text \<open>
  The storage tree refines a map from dotted paths to histories: lists of versions, newest
  first, each a timestamp, an author and a value. \<open>tree_state\<close> is the invariant that ties the
  four stores together; \<open>tree_rep\<close> is the refinement relation.
\<close>

type_synonym version = "i64 \<times> u64 \<times> Value"
type_synonym history = "gostring \<Rightarrow> version list"

definition versions :: "(u64 \<Rightarrow> Value option) \<Rightarrow> Instance list \<Rightarrow> u64 \<Rightarrow> version list" where
  "versions c insts i =
     map (\<lambda>x. (iTimestamp x, iAuthorID x, the (c (iValueID x)))) (chain insts i)"

definition attr_of :: "(u64 \<Rightarrow> Value option) \<Rightarrow> Attribute list \<Rightarrow> gostring \<Rightarrow> Attribute option" where
  "attr_of c attrs p = find (\<lambda>a. c (aLabelValueID a) = Some (textValue p)) attrs"

definition hist :: "(u64 \<Rightarrow> Value option) \<Rightarrow> Attribute list \<Rightarrow> Instance list \<Rightarrow> history" where
  "hist c attrs insts p =
     (case attr_of c attrs p of None \<Rightarrow> [] | Some a \<Rightarrow> versions c insts (aFirstInstanceID a))"

text \<open>What the attributes and instances refer to exists.\<close>

definition closed :: "(u64 \<Rightarrow> Value option) \<Rightarrow> Attribute list \<Rightarrow> Instance list \<Rightarrow> bool" where
  "closed c attrs insts \<longleftrightarrow>
     distinct (map aLabelValueID attrs) \<and> backward insts \<and>
     (\<forall>a \<in> set attrs. (\<exists>p. c (aLabelValueID a) = Some (textValue p)) \<and>
        (aFirstInstanceID a = 0 \<or> valid_id insts (aFirstInstanceID a))) \<and>
     (\<forall>x \<in> set insts. c (iValueID x) \<noteq> None)"

definition tree_state ::
  "(bytes \<Rightarrow> bytes) \<Rightarrow> StorageTree \<Rightarrow> Attribute list \<Rightarrow> Instance list \<Rightarrow> bool" where
  "tree_state sha st attrs insts \<longleftrightarrow>
     vs_inv sha (stValueStore st) \<and> as_rep (stAttributeStore st) attrs \<and>
     is_rep (stInstanceStore st) insts \<and> hi_inv (stHashIndex st) \<and>
     hi_Lookup (stHashIndex st) = map_of (attr_entries attrs) \<and>
     closed (contents (stValueStore st)) attrs insts"

definition tree_rep :: "(bytes \<Rightarrow> bytes) \<Rightarrow> StorageTree \<Rightarrow> history \<Rightarrow> bool" where
  "tree_rep sha st H \<longleftrightarrow>
     (\<exists>attrs insts. tree_state sha st attrs insts \<and> (\<forall>a \<in> set attrs. aFirstInstanceID a \<noteq> 0) \<and>
        H = hist (contents (stValueStore st)) attrs insts)"

lemma tree_stateD:
  assumes "tree_state sha st attrs insts"
  shows ts_vs: "vs_inv sha (stValueStore st)" and ts_as: "as_rep (stAttributeStore st) attrs"
    and ts_is: "is_rep (stInstanceStore st) insts" and ts_hi: "hi_inv (stHashIndex st)"
    and ts_lookup: "hi_Lookup (stHashIndex st) = map_of (attr_entries attrs)"
    and ts_closed: "closed (contents (stValueStore st)) attrs insts"
    and ts_backward: "backward insts"
  using assms by (auto simp: tree_state_def closed_def)

lemma textValue_inj [simp]: "textValue p = textValue q \<longleftrightarrow> p = q"
  by (simp add: textValue_def)

definition one_id :: "(u64 \<Rightarrow> Value option) \<Rightarrow> bool" where
  "one_id c \<longleftrightarrow> (\<forall>i j v. c i = Some v \<longrightarrow> c j = Some v \<longrightarrow> i = j)"

lemma ts_one_id: "tree_state sha st attrs insts \<Longrightarrow> one_id (contents (stValueStore st))"
  using vheap.one_id [OF ts_vs] unfolding one_id_def by blast

subsection \<open>Attributes of paths\<close>

lemma attr_of_iff:
  assumes "closed c attrs insts" "one_id c"
  shows "attr_of c attrs p = Some a \<longleftrightarrow> a \<in> set attrs \<and> c (aLabelValueID a) = Some (textValue p)"
proof
  assume "attr_of c attrs p = Some a"
  then show "a \<in> set attrs \<and> c (aLabelValueID a) = Some (textValue p)"
    by (auto simp: attr_of_def find_Some_iff)
next
  assume a: "a \<in> set attrs \<and> c (aLabelValueID a) = Some (textValue p)"
  then obtain b where b: "attr_of c attrs p = Some b"
    by (cases "attr_of c attrs p") (auto simp: attr_of_def find_None_iff)
  then have b': "b \<in> set attrs" "c (aLabelValueID b) = Some (textValue p)"
    by (auto simp: attr_of_def find_Some_iff)
  then have "aLabelValueID b = aLabelValueID a" using a assms(2) by (metis one_id_def)
  moreover have "inj_on aLabelValueID (set attrs)"
    using assms(1) by (simp add: closed_def distinct_map)
  ultimately have "b = a" using a b'(1) by (auto dest: inj_onD)
  with b show "attr_of c attrs p = Some a" by simp
qed

lemma attr_of_None:
  "attr_of c attrs p = None \<longleftrightarrow> (\<forall>a \<in> set attrs. c (aLabelValueID a) \<noteq> Some (textValue p))"
  by (auto simp: attr_of_def find_None_iff)

lemma map_of_attr_entries:
  assumes "closed c attrs insts" "one_id c" "c i = Some (textValue p)"
  shows "map_of (attr_entries attrs) i = map_option aID (attr_of c attrs p)"
proof (cases "attr_of c attrs p")
  case None
  then have "\<forall>a \<in> set attrs. aLabelValueID a \<noteq> i" using assms(3) by (auto simp: attr_of_None)
  then have "i \<notin> fst ` set (attr_entries attrs)" by (auto simp: attr_entries_def)
  with None show ?thesis by (simp add: map_of_eq_None_iff [symmetric])
next
  case (Some a)
  then have a: "a \<in> set attrs" "aLabelValueID a = i"
    using attr_of_iff [OF assms(1,2)] assms(2,3) by (auto simp: one_id_def)
  then have "(i, aID a) \<in> set (attr_entries attrs)" by (force simp: attr_entries_def)
  moreover have "distinct (map fst (attr_entries attrs))"
    using assms(1) by (simp add: closed_def attr_entries_def comp_def)
  ultimately show ?thesis using Some by simp
qed

subsection \<open>A growing value store keeps the histories\<close>

lemma map_le_Some: "c \<subseteq>\<^sub>m c' \<Longrightarrow> c i = Some v \<Longrightarrow> c' i = Some v"
  by (metis domI map_le_def)

lemma closed_mono:
  assumes "closed c attrs insts" "c \<subseteq>\<^sub>m c'"
  shows "closed c' attrs insts"
  using assms(1) map_le_Some [OF assms(2)] unfolding closed_def by (fastforce simp: not_None_eq)

lemma chain_subset: "set (chain insts i) \<subseteq> set insts"
proof (induction insts i rule: chain.induct)
  case (1 insts i)
  then show ?case using nth_rec_mem [of insts i] by (subst chain.simps) auto
qed

lemma hist_mono:
  assumes "closed c attrs insts" "c \<subseteq>\<^sub>m c'"
  shows "hist c' attrs insts = hist c attrs insts"
proof
  fix p
  have l: "c' (aLabelValueID a) = c (aLabelValueID a)" if "a \<in> set attrs" for a
    using assms that map_le_Some [OF assms(2)] unfolding closed_def by metis
  then have "attr_of c' attrs p = attr_of c attrs p"
    unfolding attr_of_def by (intro find_cong) auto
  moreover have "versions c' insts i = versions c insts i" for i
  proof -
    have "c' (iValueID x) = c (iValueID x)" if "x \<in> set (chain insts i)" for x
      using assms that chain_subset map_le_Some [OF assms(2)] unfolding closed_def
      by (metis not_None_eq subsetD)
    then show ?thesis by (simp add: versions_def)
  qed
  ultimately show "hist c' attrs insts p = hist c attrs insts p" by (simp add: hist_def split: option.split)
qed

lemma tree_state_grow:
  assumes "tree_state sha st attrs insts" "vs_inv sha vs"
    and "contents (stValueStore st) \<subseteq>\<^sub>m contents vs"
  shows "tree_state sha (st\<lparr>stValueStore := vs\<rparr>) attrs insts"
    and "hist (contents vs) attrs insts = hist (contents (stValueStore st)) attrs insts"
  using assms closed_mono [OF ts_closed [OF assms(1)] assms(3)]
    hist_mono [OF ts_closed [OF assms(1)] assms(3)]
  by (simp_all add: tree_state_def)

subsection \<open>Looking a path up\<close>

lemma findValueIDForString_ok:
  assumes ts: "tree_state sha st attrs insts" and fits: "vs_fits sha (stValueStore st) (textValue s # L)"
  obtains i vs where "findValueIDForString sha st s = (Inr i, st\<lparr>stValueStore := vs\<rparr>)" "i \<noteq> 0"
    "vs_inv sha vs" "vs_fits sha vs L" "contents vs i = Some (textValue s)"
    "contents (stValueStore st) \<subseteq>\<^sub>m contents vs"
proof -
  let ?vs = "stValueStore st"
  let ?f = "FindValueIDForData sha ?vs s TypeText"
  obtain r vs where r: "(if ?f \<noteq> 0 then (Inr ?f, ?vs) else writeValue sha ?vs (textValue s)) = (r, vs)"
    by fastforce
  then have e: "findValueIDForString sha st s = (r, st\<lparr>stValueStore := vs\<rparr>)"
    by (auto simp: findValueIDForString_def Let_def split: if_splits)
  show ?thesis
    by (rule vheap.find_or_write [OF ts_vs [OF ts] fits, of r vs]) (use r that e in \<open>auto simp: textValue_def\<close>)
qed

lemma attr_id_valid:
  assumes "as_rep as attrs" "a \<in> set attrs"
  shows "valid_id attrs (aID a)" and "nth_rec attrs (aID a) = a" and "aID a \<noteq> 0"
proof -
  obtain k where k: "k < length attrs" "attrs ! k = a" using assms(2) by (auto simp: in_set_conv_nth)
  then have "aID a = of_nat (Suc k)" using as_rep_ids [OF assms(1)] by (auto simp: ids_ok_def)
  then have u: "unat (aID a) = Suc k"
    using k(1) as_rep_few [OF assms(1)] by (simp add: few_def unat_of_nat_u64 del: of_nat_Suc)
  then show "valid_id attrs (aID a)" "nth_rec attrs (aID a) = a"
    using k by (auto simp: valid_id_def nth_rec_def)
  then show "aID a \<noteq> 0" by (simp add: valid_id_nonzero)
qed

lemma findAttributeForPath_ok:
  assumes ts: "tree_state sha st attrs insts" and p: "path \<noteq> []"
    and fits: "vs_fits sha (stValueStore st) (textValue (compositePath path) # L)"
  obtains vs where "findAttributeForPath sha st path =
      (case attr_of (contents vs) attrs (compositePath path) of None \<Rightarrow> 0 | Some a \<Rightarrow> aID a,
       st\<lparr>stValueStore := vs\<rparr>)"
    "vs_inv sha vs" "vs_fits sha vs L" "contents (stValueStore st) \<subseteq>\<^sub>m contents vs"
proof -
  obtain i vs where f: "findValueIDForString sha st (compositePath path) = (Inr i, st\<lparr>stValueStore := vs\<rparr>)"
    "i \<noteq> 0" "vs_inv sha vs" "vs_fits sha vs L" "contents vs i = Some (textValue (compositePath path))"
    "contents (stValueStore st) \<subseteq>\<^sub>m contents vs"
    using findValueIDForString_ok [OF ts fits] by metis
  note ts' = tree_state_grow(1) [OF ts f(3,6)]
  have "hi_Lookup (stHashIndex st) i = map_option aID (attr_of (contents vs) attrs (compositePath path))"
    using map_of_attr_entries [OF ts_closed [OF ts'] ts_one_id [OF ts']] f(5) ts_lookup [OF ts] by simp
  then have "findAttributeForPath sha st path =
      (case attr_of (contents vs) attrs (compositePath path) of None \<Rightarrow> 0 | Some a \<Rightarrow> aID a,
       st\<lparr>stValueStore := vs\<rparr>)"
    using p f(1,2) by (simp add: findAttributeForPath_def split: option.split)
  then show ?thesis using that f by blast
qed

lemma readInstanceValue_ok:
  assumes ts: "tree_state sha st attrs insts" and i: "valid_id insts i"
  obtains v vs where "readInstanceValue st i = (Inr v, st\<lparr>stValueStore := vs\<rparr>)"
    "contents (stValueStore st) (iValueID (nth_rec insts i)) = Some v"
    "vs_inv sha vs" "contents vs = contents (stValueStore st)" "vs_fits sha vs = vs_fits sha (stValueStore st)"
proof -
  obtain v where v: "contents (stValueStore st) (iValueID (nth_rec insts i)) = Some v"
    using ts_closed [OF ts] nth_rec_mem [OF i] by (auto simp: closed_def)
  then obtain vs where "readValue (stValueStore st) (iValueID (nth_rec insts i)) = (Inr v, vs)"
    "vs_inv sha vs" "contents vs = contents (stValueStore st)" "vs_fits sha vs = vs_fits sha (stValueStore st)"
    using vheap.read_ok [OF ts_vs [OF ts] v] by blast
  then show ?thesis
    using that [of v vs] v ReadInstance_rep [OF ts_is [OF ts] i] by (simp add: readInstanceValue_def)
qed

subsection \<open>Reading\<close>

lemma tree_rep_grow:
  assumes "tree_rep sha st H" "vs_inv sha vs" "contents (stValueStore st) \<subseteq>\<^sub>m contents vs"
  shows "tree_rep sha (st\<lparr>stValueStore := vs\<rparr>) H"
proof -
  obtain attrs insts where a: "tree_state sha st attrs insts" "\<forall>a \<in> set attrs. aFirstInstanceID a \<noteq> 0"
    "H = hist (contents (stValueStore st)) attrs insts"
    using assms(1) by (auto simp: tree_rep_def)
  show ?thesis
    unfolding tree_rep_def using tree_state_grow [OF a(1) assms(2,3)] a(2,3)
    by (intro exI [of _ attrs] exI [of _ insts]) simp
qed

text \<open>The record counters leave room for \<open>n\<close> more attributes and instances.\<close>

definition ids_left :: "StorageTree \<Rightarrow> nat \<Rightarrow> bool" where
  "ids_left st n \<longleftrightarrow> unat (asNextID (stAttributeStore st)) + n \<le> 2 ^ 56 \<and>
     unat (isNextID (stInstanceStore st)) + n \<le> 2 ^ 56"

text \<open>A path lookup either finds nothing and the history is empty, or finds its attribute.\<close>

lemma path_cases:
  assumes rep: "tree_rep sha st H" and p: "path \<noteq> []"
    and fits: "vs_fits sha (stValueStore st) (textValue (compositePath path) # L)"
  obtains (missing) st' where "findAttributeForPath sha st path = (0, st')"
      "H (compositePath path) = []" "tree_rep sha st' H" "vs_fits sha (stValueStore st') L"
      "ids_left st' = ids_left st"
  | (found) st' a attrs insts where "findAttributeForPath sha st path = (aID a, st')" "aID a \<noteq> 0"
      "ReadAttribute (stAttributeStore st') (aID a) = Inr a" "tree_rep sha st' H"
      "tree_state sha st' attrs insts" "valid_id insts (aFirstInstanceID a)"
      "H (compositePath path) = versions (contents (stValueStore st')) insts (aFirstInstanceID a)"
      "vs_fits sha (stValueStore st') L" "ids_left st' = ids_left st"
proof -
  obtain attrs insts where ts: "tree_state sha st attrs insts"
    and nz: "\<forall>a \<in> set attrs. aFirstInstanceID a \<noteq> 0"
    and H: "H = hist (contents (stValueStore st)) attrs insts"
    using rep by (auto simp: tree_rep_def)
  obtain vs where f: "findAttributeForPath sha st path =
      (case attr_of (contents vs) attrs (compositePath path) of None \<Rightarrow> 0 | Some a \<Rightarrow> aID a,
       st\<lparr>stValueStore := vs\<rparr>)"
    "vs_inv sha vs" "vs_fits sha vs L" "contents (stValueStore st) \<subseteq>\<^sub>m contents vs"
    using findAttributeForPath_ok [OF ts p fits] by metis
  note ts' = tree_state_grow(1) [OF ts f(2,4)] and rep' = tree_rep_grow [OF rep f(2,4)]
  have Hp: "H (compositePath path) =
      (case attr_of (contents vs) attrs (compositePath path) of None \<Rightarrow> []
       | Some a \<Rightarrow> versions (contents vs) insts (aFirstInstanceID a))"
    unfolding H tree_state_grow(2) [OF ts f(2,4), symmetric] by (simp add: hist_def)
  show ?thesis
  proof (cases "attr_of (contents vs) attrs (compositePath path)")
    case None
    then show ?thesis using missing f(1,3) Hp rep' by (simp add: ids_left_def fun_eq_iff)
  next
    case (Some a)
    then have a: "a \<in> set attrs" using attr_of_iff [OF ts_closed [OF ts'] ts_one_id [OF ts']] by auto
    have "valid_id insts (aFirstInstanceID a)" using a nz ts_closed [OF ts] by (auto simp: closed_def)
    with Some show ?thesis
      using found [OF _ _ _ rep' ts'] f(1,3) Hp attr_id_valid [OF ts_as [OF ts] a]
        ReadAttribute_rep [OF ts_as [OF ts]] by (simp add: ids_left_def fun_eq_iff)
  qed
qed

lemma versions_valid:
  "backward insts \<Longrightarrow> valid_id insts i \<Longrightarrow> versions c insts i =
     (iTimestamp (nth_rec insts i), iAuthorID (nth_rec insts i), the (c (iValueID (nth_rec insts i)))) #
     versions c insts (iOlderInstanceID (nth_rec insts i))"
  by (simp add: versions_def chain_valid)

lemma tree_Read_rep:
  assumes rep: "tree_rep sha st H" and p: "path \<noteq> []"
    and fits: "vs_fits sha (stValueStore st) (textValue (compositePath path) # L)"
  shows "\<exists>st'. tree_Read sha st path =
      (case H (compositePath path) of [] \<Rightarrow> Inl PathNotFound | (t, a, v) # vs \<Rightarrow> Inr v, st') \<and>
    tree_rep sha st' H \<and> vs_fits sha (stValueStore st') L \<and> ids_left st' = ids_left st"
  using rep p fits
proof (cases rule: path_cases)
  case (missing st')
  then show ?thesis using p by (simp add: tree_Read_def)
next
  case (found st' a attrs insts)
  let ?i = "aFirstInstanceID a"
  obtain v vs where r: "readInstanceValue st' ?i = (Inr v, st'\<lparr>stValueStore := vs\<rparr>)"
    "contents (stValueStore st') (iValueID (nth_rec insts ?i)) = Some v" "vs_inv sha vs"
    "contents vs = contents (stValueStore st')" "vs_fits sha vs = vs_fits sha (stValueStore st')"
    using readInstanceValue_ok [OF found(5,6)] by metis
  have "tree_Read sha st path = (Inr v, st'\<lparr>stValueStore := vs\<rparr>)"
    using found(1,2,3) valid_id_nonzero [OF found(6)] p r(1) by (simp add: tree_Read_def)
  moreover have "tree_rep sha (st'\<lparr>stValueStore := vs\<rparr>) H"
    using tree_rep_grow [OF found(4) r(3)] r(4) by simp
  ultimately show ?thesis
    using found(7,8,9) versions_valid [OF ts_backward [OF found(5)] found(6)] r(2,5)
    by (simp add: ids_left_def fun_eq_iff)
qed

text \<open>What a reader asking for a point in time should see of a history.\<close>

definition version_at :: "i64 \<Rightarrow> version list \<Rightarrow> version option" where
  "version_at ts = find (\<lambda>(t, a, v). t \<le>s ts)"

lemma version_at_versions:
  "version_at ts (versions c insts i) =
     map_option (\<lambda>x. (iTimestamp x, iAuthorID x, the (c (iValueID x)))) (active_at ts (chain insts i))"
  unfolding version_at_def versions_def active_at_def
  by (simp add: find_map comp_def)

lemma active_at_valid:
  assumes "ids_ok iID insts" "backward insts" "i = 0 \<or> valid_id insts i" "active_at ts (chain insts i) = Some x"
  shows "valid_id insts (iID x) \<and> nth_rec insts (iID x) = x"
  using assms(2,3,4)
proof (induction rule: chain_induct)
  case (older i)
  then show ?case
    using chain_valid [OF assms(2) older(1)] ids_ok_record [OF assms(1) older(1)]
    by (auto simp: active_at_def split: if_splits)
qed (simp add: active_at_def)

definition read_at_spec :: "version list \<Rightarrow> i64 \<Rightarrow> tree_error + Value" where
  "read_at_spec vs ts =
     (if vs = [] then Inl PathNotFound
      else case version_at ts vs of None \<Rightarrow> Inl NoInstanceAtTime | Some (t, a, v) \<Rightarrow> Inr v)"

lemma tree_ReadAt_rep:
  assumes rep: "tree_rep sha st H" and p: "path \<noteq> []"
    and fits: "vs_fits sha (stValueStore st) (textValue (compositePath path) # L)"
  shows "\<exists>st'. tree_ReadAt sha st path ts = Some (read_at_spec (H (compositePath path)) ts, st') \<and>
    tree_rep sha st' H \<and> vs_fits sha (stValueStore st') L \<and> ids_left st' = ids_left st"
  using rep p fits
proof (cases rule: path_cases)
  case (missing st')
  then show ?thesis using p by (simp add: tree_ReadAt_def read_at_spec_def)
next
  case (found st1 a attrs insts)
  let ?i = "aFirstInstanceID a" and ?c = "contents (stValueStore st1)"
  note find = FindInstanceAtTime_rep [OF ts_is [OF found(5)] ts_backward [OF found(5)] disjI2 [OF found(6)], of ts]
  have rd: "tree_ReadAt sha st path ts =
      (case active_at ts (chain insts ?i) of None \<Rightarrow> Some (Inl NoInstanceAtTime, st1)
       | Some x \<Rightarrow> if iID x = 0 then Some (Inl NoInstanceAtTime, st1)
                   else Some (readInstanceValue st1 (iID x)))"
    using found(1,2,3) valid_id_nonzero [OF found(6)] p find
    by (simp add: tree_ReadAt_def split: option.split)
  have sp: "read_at_spec (H (compositePath path)) ts =
      (case active_at ts (chain insts ?i) of None \<Rightarrow> Inl NoInstanceAtTime
       | Some x \<Rightarrow> Inr (the (?c (iValueID x))))"
    using version_at_versions [of ts ?c insts ?i] versions_valid [OF ts_backward [OF found(5)] found(6)] found(7)
    by (simp add: read_at_spec_def split: option.split)
  show ?thesis
  proof (cases "active_at ts (chain insts ?i)")
    case None
    then show ?thesis using rd sp found(4,8,9) by simp
  next
    case (Some x)
    have x: "valid_id insts (iID x)" "nth_rec insts (iID x) = x"
      using active_at_valid [OF is_rep_ids [OF ts_is [OF found(5)]] ts_backward [OF found(5)]
          disjI2 [OF found(6)] Some] by auto
    obtain v vs where r: "readInstanceValue st1 (iID x) = (Inr v, st1\<lparr>stValueStore := vs\<rparr>)"
      "?c (iValueID x) = Some v" "vs_inv sha vs" "contents vs = ?c"
      "vs_fits sha vs = vs_fits sha (stValueStore st1)"
      using readInstanceValue_ok [OF found(5) x(1)] x(2) by metis
    moreover have "tree_rep sha (st1\<lparr>stValueStore := vs\<rparr>) H"
      using tree_rep_grow [OF found(4) r(3)] r(4) by simp
    ultimately show ?thesis
      using rd sp Some valid_id_nonzero [OF x(1)] found(8,9) by (simp add: ids_left_def fun_eq_iff)
  qed
qed

subsection \<open>Writing\<close>

lemma attr_of_append:
  "attr_of c (attrs @ [a]) q =
     (case attr_of c attrs q of Some b \<Rightarrow> Some b
      | None \<Rightarrow> if c (aLabelValueID a) = Some (textValue q) then Some a else None)"
  by (induction attrs) (auto simp: attr_of_def)

lemma new_attribute:
  assumes cl: "closed c attrs insts" and c: "c i = Some (textValue p)" and none: "attr_of c attrs p = None"
    and a: "aLabelValueID a = i" "aFirstInstanceID a = 0"
  shows "closed c (attrs @ [a]) insts" and "hist c (attrs @ [a]) insts = hist c attrs insts"
    and "map_of (attr_entries (attrs @ [a])) = (map_of (attr_entries attrs))(i \<mapsto> aID a)"
proof -
  have fresh: "i \<notin> aLabelValueID ` set attrs" using none c by (auto simp: attr_of_None)
  then show "closed c (attrs @ [a]) insts" using cl c a by (auto simp: closed_def)
  show "hist c (attrs @ [a]) insts = hist c attrs insts"
    using none c a by (auto simp: hist_def attr_of_append versions_def fun_eq_iff split: option.split)
  have "i \<notin> dom (map_of (attr_entries attrs))"
    using fresh by (auto simp: attr_entries_def dom_map_of_conv_image_fst image_iff)
  then show "map_of (attr_entries (attrs @ [a])) = (map_of (attr_entries attrs))(i \<mapsto> aID a)"
    using a(1) by (auto simp: attr_entries_def map_add_def fun_eq_iff dom_def split: option.split)
qed

lemma ids_left_iff:
  assumes "tree_state sha st attrs insts"
  shows "ids_left st n \<longleftrightarrow> length attrs + n < 2 ^ 56 \<and> length insts + n < 2 ^ 56"
proof -
  have "length attrs < 2 ^ 56" "length insts < 2 ^ 56"
    using as_rep_few [OF ts_as [OF assms(1)]] is_rep_few [OF ts_is [OF assms(1)]] by (simp_all add: few_def)
  moreover have "asNextID (stAttributeStore st) = of_nat (Suc (length attrs))"
    "isNextID (stInstanceStore st) = of_nat (Suc (length insts))"
    using as_rep_next [OF ts_as [OF assms(1)]] is_rep_next [OF ts_is [OF assms(1)]] by blast+
  ultimately show ?thesis
    by (auto simp: ids_left_def unat_of_nat_u64 simp del: of_nat_Suc)
qed

lemma findOrCreate_ok:
  assumes ts: "tree_state sha st attrs insts" and p: "path \<noteq> []" and few: "few (Suc (length attrs))"
    and fits: "vs_fits sha (stValueStore st) (textValue (compositePath path) # L)"
  obtains st' attrs' a where "findOrCreateAttributeForPath sha st path = (Inr (aID a), st')"
    "tree_state sha st' attrs' insts" "vs_fits sha (stValueStore st') L"
    "contents (stValueStore st) \<subseteq>\<^sub>m contents (stValueStore st')"
    "attr_of (contents (stValueStore st')) attrs' (compositePath path) = Some a"
    "hist (contents (stValueStore st')) attrs' insts = hist (contents (stValueStore st)) attrs insts"
    "\<forall>b \<in> set attrs'. b = a \<or> b \<in> set attrs" "length attrs' \<le> Suc (length attrs)"
proof -
  obtain i vs where w: "writeValue sha (stValueStore st) (textValue (compositePath path)) = (Inr i, vs)"
    "vs_inv sha vs" "vs_fits sha vs L" "contents (stValueStore st) \<subseteq>\<^sub>m contents vs"
    "contents vs i = Some (textValue (compositePath path))"
    using vheap.write_E [OF ts_vs [OF ts] fits] by metis
  let ?st = "st\<lparr>stValueStore := vs\<rparr>" and ?c = "contents vs"
  note ts' = tree_state_grow(1) [OF ts w(2,4)] and h' = tree_state_grow(2) [OF ts w(2,4)]
  have cl: "closed ?c attrs insts" and one: "one_id ?c"
    using ts_closed [OF ts'] ts_one_id [OF ts'] by simp_all
  have lk: "hi_Lookup (stHashIndex st) i = map_option aID (attr_of ?c attrs (compositePath path))"
    using map_of_attr_entries [OF cl one w(5)] ts_lookup [OF ts] by simp
  show ?thesis
  proof (cases "attr_of ?c attrs (compositePath path)")
    case (Some a)
    then show ?thesis
      using that [of a ?st attrs] p w lk ts' h' by (simp add: findOrCreateAttributeForPath_def)
  next
    case None
    obtain n as where wa: "WriteAttribute (stAttributeStore st) i 0 0 = (n, as)" by fastforce
    let ?a = "\<lparr>aID = n, aLabelValueID = i, aFirstInstanceID = 0, aNextAttributeID = 0\<rparr>"
    let ?st2 = "?st\<lparr>stAttributeStore := as, stHashIndex := hi_Insert i n (stHashIndex st)\<rparr>"
    note new = new_attribute [OF cl w(5) None, of ?a]
    have "tree_state sha ?st2 (attrs @ [?a]) insts"
      using ts' WriteAttribute_rep(2) [OF ts_as [OF ts] few wa] new hidx.insert_inv [OF ts_hi [OF ts], of i n]
        hidx.lookup_insert [OF ts_hi [OF ts], of i n]
      by (simp add: tree_state_def)
    moreover have "attr_of ?c (attrs @ [?a]) (compositePath path) = Some ?a"
      using None w(5) by (simp add: attr_of_append)
    ultimately show ?thesis
      using that [of ?a ?st2 "attrs @ [?a]"] None p w lk wa new(2) h'
      by (simp add: findOrCreateAttributeForPath_def)
  qed
qed

lemma map_of_attr_update:
  assumes "k < length attrs" "aLabelValueID a = aLabelValueID (attrs ! k)" "aID a = aID (attrs ! k)"
  shows "attr_entries (attrs[k := a]) = attr_entries attrs"
    and "map aLabelValueID (attrs[k := a]) = map aLabelValueID attrs"
  using assms by (simp_all add: attr_entries_def map_update list_update_same_conv)

text \<open>The new instance on top of the history of one attribute, as a change of the two lists.\<close>

lemma push_instance:
  assumes cl: "closed c attrs insts" and one: "one_id c" and at: "attr_of c attrs p = Some a"
    and k: "k < length attrs" "attrs ! k = a"
    and i: "unat i = Suc (length insts)"
    and x: "iOlderInstanceID x = aFirstInstanceID a" "c (iValueID x) = Some v"
  defines "attrs' \<equiv> attrs[k := a\<lparr>aFirstInstanceID := i\<rparr>]" and "insts' \<equiv> insts @ [x]"
  shows "closed c attrs' insts'"
    and "hist c attrs' insts' = (hist c attrs insts)(p := (iTimestamp x, iAuthorID x, v) # hist c attrs insts p)"
proof -
  let ?a = "a\<lparr>aFirstInstanceID := i\<rparr>"
  have b: "backward insts" and dl: "distinct (map aLabelValueID attrs)"
    and av: "\<And>b. b \<in> set attrs \<Longrightarrow> aFirstInstanceID b = 0 \<or> valid_id insts (aFirstInstanceID b)"
    using cl by (auto simp: closed_def)
  have a: "a \<in> set attrs" "c (aLabelValueID a) = Some (textValue p)"
    using attr_of_iff [OF cl one] at by auto
  have older: "unat (iOlderInstanceID x) \<le> length insts" using av [OF a(1)] x(1) by (auto simp: valid_id_def)
  have sa: "set attrs' = insert ?a (set attrs - {a})"
    unfolding attrs'_def using set_update_distinct [of attrs k ?a] dl k by (simp add: distinct_map)
  have iv: "valid_id insts' i" using i by (simp add: insts'_def valid_id_def)
  show cl': "closed c attrs' insts'"
    unfolding closed_def
  proof (intro conjI ballI)
    show "distinct (map aLabelValueID attrs')"
      unfolding attrs'_def using map_of_attr_update(2) [OF k(1)] k(2) dl by simp
    show "backward insts'" unfolding insts'_def using backward_append [OF b older] .
  next
    fix y assume "y \<in> set attrs'"
    then show "\<exists>p. c (aLabelValueID y) = Some (textValue p)"
      "aFirstInstanceID y = 0 \<or> valid_id insts' (aFirstInstanceID y)"
      using sa a cl iv by (auto simp: closed_def insts'_def)
  next
    fix y assume "y \<in> set insts'"
    then show "c (iValueID y) \<noteq> None" using cl x(2) by (auto simp: insts'_def closed_def)
  qed
  have keep: "versions c insts' (aFirstInstanceID y) = versions c insts (aFirstInstanceID y)"
    if "y \<in> set attrs" for y
    unfolding versions_def insts'_def using chain_append [OF b av [OF that] older] by simp
  have top: "versions c insts' i = (iTimestamp x, iAuthorID x, v) # versions c insts (aFirstInstanceID a)"
    unfolding versions_def insts'_def
    using chain_new [OF b i, of x] av [OF a(1)] x by simp
  show "hist c attrs' insts' = (hist c attrs insts)(p := (iTimestamp x, iAuthorID x, v) # hist c attrs insts p)"
  proof
    fix q
    have at': "attr_of c attrs' q = (if q = p then Some ?a else attr_of c attrs q)"
    proof (cases "q = p")
      case True
      then show ?thesis using attr_of_iff [OF cl' one, of p ?a] sa a by simp
    next
      case False
      then have "attr_of c attrs' q = Some y \<longleftrightarrow> attr_of c attrs q = Some y" for y
        unfolding attr_of_iff [OF cl' one] attr_of_iff [OF cl one] sa
        using a by (cases "y = a"; cases "y = ?a") simp_all
      then have "attr_of c attrs' q = attr_of c attrs q" by (rule option_eqI)
      with False show ?thesis by simp
    qed
    have "versions c insts' (aFirstInstanceID y) = versions c insts (aFirstInstanceID y)"
      if "attr_of c attrs q = Some y" for y
      using keep that attr_of_iff [OF cl one] by blast
    then show "hist c attrs' insts' q =
        ((hist c attrs insts)(p := (iTimestamp x, iAuthorID x, v) # hist c attrs insts p)) q"
      using at top by (simp add: hist_def at' split: option.split)
  qed
qed

lemma appendInstance_ok:
  assumes ts: "tree_state sha st attrs insts" and few: "few (Suc (length insts))"
    and at: "attr_of (contents (stValueStore st)) attrs p = Some a"
    and v: "contents (stValueStore st) vid = Some v"
  obtains st' attrs' insts' where "appendInstance now st (aID a) (aFirstInstanceID a) vid author = (Inr True, st')"
    "tree_state sha st' attrs' insts'" "stValueStore st' = stValueStore st"
    "hist (contents (stValueStore st)) attrs' insts' =
       (hist (contents (stValueStore st)) attrs insts)
         (p := (now, author, v) # hist (contents (stValueStore st)) attrs insts p)"
    "\<forall>b \<in> set attrs'. aFirstInstanceID b \<noteq> 0 \<or> b \<in> set attrs - {a}"
    "length attrs' = length attrs" "length insts' = Suc (length insts)"
proof -
  let ?c = "contents (stValueStore st)"
  note cl = ts_closed [OF ts] and one = ts_one_id [OF ts]
  have a: "a \<in> set attrs" using attr_of_iff [OF cl one] at by auto
  obtain i is1 where wi: "WriteInstance now (stInstanceStore st) vid (aFirstInstanceID a) author = (i, is1)"
    by fastforce
  let ?x = "\<lparr>iID = i, iValueID = vid, iOlderInstanceID = aFirstInstanceID a, iTimestamp = now, iAuthorID = author\<rparr>"
  note wr = WriteInstance_rep [OF ts_is [OF ts] few wi]
  let ?k = "unat (aID a) - 1" and ?a = "a\<lparr>aFirstInstanceID := i\<rparr>"
  note ida = attr_id_valid [OF ts_as [OF ts] a]
  have k: "?k < length attrs" "attrs ! ?k = a"
    using ida(1,2) by (auto simp: valid_id_def nth_rec_def)
  obtain as where ua: "UpdateAttributeFirstInstance (stAttributeStore st) (aID a) i = Inr as"
    "as_rep as (attrs[?k := ?a])"
    using UpdateAttributeFirstInstance_rep [OF ts_as [OF ts] ida(1), of i] ida(2) by metis
  let ?st = "st\<lparr>stInstanceStore := is1, stAttributeStore := as\<rparr>"
  have push: "closed ?c (attrs[?k := ?a]) (insts @ [?x])"
    "hist ?c (attrs[?k := ?a]) (insts @ [?x]) = (hist ?c attrs insts)(p := (now, author, v) # hist ?c attrs insts p)"
    using push_instance [OF cl one at k wr(1), of ?x v] v by simp_all
  have "tree_state sha ?st (attrs[?k := ?a]) (insts @ [?x])"
    using ts wr(2) ua(2) push(1) map_of_attr_update(1) [OF k(1), of ?a] k(2) by (simp add: tree_state_def)
  moreover have "appendInstance now st (aID a) (aFirstInstanceID a) vid author = (Inr True, ?st)"
    using wi ua(1) by (simp add: appendInstance_def)
  moreover have "\<forall>b \<in> set (attrs[?k := ?a]). aFirstInstanceID b \<noteq> 0 \<or> b \<in> set attrs - {a}"
    using set_update_distinct [of attrs ?k ?a] cl k wr(1) by (auto simp: closed_def distinct_map)
  ultimately show ?thesis using that push(2) by simp
qed

text \<open>The history after a write: unchanged when the newest value is the one written.\<close>

definition newest :: "version list \<Rightarrow> Value option" where
  "newest h = (case h of [] \<Rightarrow> None | (t, a, v) # _ \<Rightarrow> Some v)"

definition write_spec :: "history \<Rightarrow> gostring \<Rightarrow> version \<Rightarrow> history" where
  "write_spec H p w = (if newest (H p) = Some (snd (snd w)) then H else H(p := w # H p))"

lemma newest_versions:
  assumes "tree_state sha st attrs insts" "valid_id insts i"
  shows "newest (versions (contents (stValueStore st)) insts i)
    = contents (stValueStore st) (iValueID (nth_rec insts i))"
  using versions_valid [OF ts_backward [OF assms(1)] assms(2)] ts_closed [OF assms(1)] nth_rec_mem [OF assms(2)]
  by (auto simp: newest_def closed_def)

lemma setNewest_ok:
  assumes ts: "tree_state sha st attrs insts" and few: "few (Suc (length insts))"
    and at: "attr_of (contents (stValueStore st)) attrs p = Some a"
    and v: "contents (stValueStore st) vid = Some v"
    and H: "hist (contents (stValueStore st)) attrs insts = H"
    and nz: "\<forall>b \<in> set attrs. b = a \<or> aFirstInstanceID b \<noteq> 0"
    and left: "length attrs + n < 2 ^ 56" "length insts + Suc n < 2 ^ 56"
  shows "\<exists>st'. setNewest now st (aID a) vid author = (Inr (newest (H p) \<noteq> Some v), st') \<and>
    tree_rep sha st' (write_spec H p (now, author, v)) \<and> stValueStore st' = stValueStore st \<and> ids_left st' n"
proof -
  let ?c = "contents (stValueStore st)" and ?i = "aFirstInstanceID a"
  have a: "a \<in> set attrs" using attr_of_iff [OF ts_closed [OF ts] ts_one_id [OF ts]] at by auto
  have Hp: "H p = versions ?c insts ?i" unfolding H [symmetric] using at by (simp add: hist_def)
  have ra: "ReadAttribute (stAttributeStore st) (aID a) = Inr a"
    using attr_id_valid [OF ts_as [OF ts] a] ReadAttribute_rep [OF ts_as [OF ts]] by simp
  obtain st3 attrs3 insts3 where ap: "appendInstance now st (aID a) ?i vid author = (Inr True, st3)"
    "tree_state sha st3 attrs3 insts3" "stValueStore st3 = stValueStore st"
    "hist ?c attrs3 insts3 = H(p := (now, author, v) # H p)"
    "\<forall>b \<in> set attrs3. aFirstInstanceID b \<noteq> 0 \<or> b \<in> set attrs - {a}"
    "length attrs3 = length attrs" "length insts3 = Suc (length insts)"
    by (rule appendInstance_ok [OF ts few at v]) (use H in auto)
  have rep3: "tree_rep sha st3 (H(p := (now, author, v) # H p))"
    unfolding tree_rep_def using ap(2-5) nz by (intro exI [of _ attrs3] exI [of _ insts3]) auto
  have left3: "ids_left st3 n" using ids_left_iff [OF ap(2)] left ap(6,7) by simp
  show ?thesis
  proof (cases "?i = 0")
    case True
    then have "H p = []" using Hp by (simp add: versions_def)
    with True show ?thesis
      using ra ap(1,3) rep3 left3 by (simp add: setNewest_def write_spec_def newest_def)
  next
    case False
    then have iv: "valid_id insts ?i" using a ts_closed [OF ts] by (auto simp: closed_def)
    note ri = ReadInstance_rep [OF ts_is [OF ts] iv]
    have same: "newest (H p) = Some v \<longleftrightarrow> iValueID (nth_rec insts ?i) = vid"
      unfolding Hp newest_versions [OF ts iv] using v ts_one_id [OF ts] by (auto simp: one_id_def)
    have rep2: "tree_rep sha st H"
      unfolding tree_rep_def using ts H nz False by (intro exI [of _ attrs] exI [of _ insts]) auto
    have left2: "ids_left st n" using ids_left_iff [OF ts] left by simp
    show ?thesis
      using ra ri ap(1,3) rep2 rep3 left2 left3 same False by (simp add: setNewest_def write_spec_def)
  qed
qed

lemma WriteReportingChange_rep:
  assumes rep: "tree_rep sha st H" and p: "path \<noteq> []" and left: "ids_left st (Suc n)"
    and fits: "vs_fits sha (stValueStore st) (v # textValue (compositePath path) # L)"
  shows "\<exists>st'. WriteReportingChange sha now st path v author =
      (Inr (newest (H (compositePath path)) \<noteq> Some v), st') \<and>
    tree_rep sha st' (write_spec H (compositePath path) (now, author, v)) \<and>
    vs_fits sha (stValueStore st') L \<and> ids_left st' n"
proof -
  let ?p = "compositePath path"
  obtain attrs insts where ts: "tree_state sha st attrs insts"
    and nz: "\<forall>a \<in> set attrs. aFirstInstanceID a \<noteq> 0" and H: "H = hist (contents (stValueStore st)) attrs insts"
    using rep by (auto simp: tree_rep_def)
  have few: "few (Suc (length attrs))" "few (Suc (length insts))"
    using ids_left_iff [OF ts] left by (auto simp: few_def)
  obtain vid vs where w: "writeValue sha (stValueStore st) v = (Inr vid, vs)" "vs_inv sha vs"
    "vs_fits sha vs (textValue ?p # L)" "contents (stValueStore st) \<subseteq>\<^sub>m contents vs" "contents vs vid = Some v"
    using vheap.write_E [OF ts_vs [OF ts] fits] by metis
  note ts1 = tree_state_grow [OF ts w(2,4)]
  obtain st2 attrs2 a where f: "findOrCreateAttributeForPath sha (st\<lparr>stValueStore := vs\<rparr>) path = (Inr (aID a), st2)"
    "tree_state sha st2 attrs2 insts" "vs_fits sha (stValueStore st2) L"
    "contents vs \<subseteq>\<^sub>m contents (stValueStore st2)" "attr_of (contents (stValueStore st2)) attrs2 ?p = Some a"
    "hist (contents (stValueStore st2)) attrs2 insts = hist (contents vs) attrs insts"
    "\<forall>b \<in> set attrs2. b = a \<or> b \<in> set attrs" "length attrs2 \<le> Suc (length attrs)"
    by (rule findOrCreate_ok [OF ts1(1) p few(1)]) (use w(3) in auto)
  have v2: "contents (stValueStore st2) vid = Some v" using map_le_Some [OF f(4) w(5)] .
  have H2: "hist (contents (stValueStore st2)) attrs2 insts = H" using f(6) ts1(2) H by simp
  have left2: "length attrs2 + n < 2 ^ 56" "length insts + Suc n < 2 ^ 56"
    using ids_left_iff [OF ts] left f(8) by auto
  have nz2: "\<forall>b \<in> set attrs2. b = a \<or> aFirstInstanceID b \<noteq> 0" using f(7) nz by blast
  have "WriteReportingChange sha now st path v author = setNewest now st2 (aID a) vid author"
    using p w(1) f(1) by (simp add: WriteReportingChange_def setNewest_def)
  then show ?thesis
    using setNewest_ok [OF f(2) few(2) f(5) v2 H2 nz2 left2, of now author] f(3) by auto
qed

end
