(* ===== verification/Versioned_Tree.thy ===== *)
theory Versioned_Tree
  imports StorageTree_Correct
begin

text \<open>
  The contract of a versioned tree, and what clients get from it: a run of writes and reads
  answers exactly as the abstract history does. The interpretation discharges the contract for
  the storage tree. \<open>ok s L n\<close> is the budget: room for the values \<open>L\<close> and for \<open>n\<close> records.
\<close>

datatype tree_op =
    OpWrite i64 "gostring list" Value u64
  | OpRead "gostring list"

datatype tree_answer =
    Wrote "tree_error + bool"
  | Saw "tree_error + Value"

text \<open>The concrete run, for any write and read operation, and its specification on histories.\<close>

fun run_ops ::
  "(i64 \<Rightarrow> 's \<Rightarrow> gostring list \<Rightarrow> Value \<Rightarrow> u64 \<Rightarrow> (tree_error + bool) \<times> 's) \<Rightarrow>
   ('s \<Rightarrow> gostring list \<Rightarrow> (tree_error + Value) \<times> 's) \<Rightarrow> 's \<Rightarrow> tree_op list \<Rightarrow> tree_answer list \<times> 's" where
  "run_ops w r s [] = ([], s)"
| "run_ops w r s (OpWrite now path v author # ops) =
     (let (a, s1) = w now s path v author; (as, s2) = run_ops w r s1 ops in (Wrote a # as, s2))"
| "run_ops w r s (OpRead path # ops) =
     (let (a, s1) = r s path; (as, s2) = run_ops w r s1 ops in (Saw a # as, s2))"

definition read_spec :: "version list \<Rightarrow> tree_error + Value" where
  "read_spec h = (case newest h of None \<Rightarrow> Inl PathNotFound | Some v \<Rightarrow> Inr v)"

fun spec_ops :: "history \<Rightarrow> tree_op list \<Rightarrow> tree_answer list \<times> history" where
  "spec_ops H [] = ([], H)"
| "spec_ops H (OpWrite now path v author # ops) =
     (let p = compositePath path; (as, H') = spec_ops (write_spec H p (now, author, v)) ops
      in (Wrote (Inr (newest (H p) \<noteq> Some v)) # as, H'))"
| "spec_ops H (OpRead path # ops) =
     (let (as, H') = spec_ops H ops in (Saw (read_spec (H (compositePath path))) # as, H'))"

fun op_path :: "tree_op \<Rightarrow> gostring list" where
  "op_path (OpWrite now path v author) = path"
| "op_path (OpRead path) = path"

text \<open>The values an operation may store.\<close>

fun op_values :: "tree_op \<Rightarrow> Value list" where
  "op_values (OpWrite now path v author) = [v, textValue (compositePath path)]"
| "op_values (OpRead path) = [textValue (compositePath path)]"

locale versioned_tree =
  fixes put :: "i64 \<Rightarrow> 's \<Rightarrow> gostring list \<Rightarrow> Value \<Rightarrow> u64 \<Rightarrow> (tree_error + bool) \<times> 's"
    and get :: "'s \<Rightarrow> gostring list \<Rightarrow> (tree_error + Value) \<times> 's"
    and rep :: "'s \<Rightarrow> history \<Rightarrow> bool"
    and ok :: "'s \<Rightarrow> Value list \<Rightarrow> nat \<Rightarrow> bool"
  assumes put_rep: "\<lbrakk>rep s H; path \<noteq> []; ok s (v # textValue (compositePath path) # L) (Suc n)\<rbrakk> \<Longrightarrow>
      \<exists>s'. put now s path v author = (Inr (newest (H (compositePath path)) \<noteq> Some v), s') \<and>
        rep s' (write_spec H (compositePath path) (now, author, v)) \<and> ok s' L n"
    and get_rep: "\<lbrakk>rep s H; path \<noteq> []; ok s (textValue (compositePath path) # L) n\<rbrakk> \<Longrightarrow>
      \<exists>s'. get s path = (read_spec (H (compositePath path)), s') \<and> rep s' H \<and> ok s' L n"
    and ok_less: "ok s L (Suc n) \<Longrightarrow> ok s L n"
begin

lemma run_refines:
  assumes "rep s H" "list_all (\<lambda>op. op_path op \<noteq> []) ops"
    and "ok s (concat (map op_values ops)) (length ops)"
  shows "\<exists>s'. run_ops put get s ops = (fst (spec_ops H ops), s') \<and> rep s' (snd (spec_ops H ops))"
  using assms
proof (induction ops arbitrary: s H)
  case Nil
  then show ?case by simp
next
  case (Cons x ops)
  show ?case
  proof (cases x)
    case (OpWrite now path v author)
    let ?H = "write_spec H (compositePath path) (now, author, v)"
    obtain s1 where s1: "put now s path v author = (Inr (newest (H (compositePath path)) \<noteq> Some v), s1)"
      "rep s1 ?H" "ok s1 (concat (map op_values ops)) (length ops)"
      using put_rep [OF Cons.prems(1), of path v "concat (map op_values ops)" "length ops" now author]
        Cons.prems(2,3) OpWrite by auto
    then show ?thesis
      using Cons.IH [OF s1(2) _ s1(3)] Cons.prems(2) OpWrite by (auto simp: case_prod_unfold Let_def)
  next
    case (OpRead path)
    obtain s1 where s1: "get s path = (read_spec (H (compositePath path)), s1)"
      "rep s1 H" "ok s1 (concat (map op_values ops)) (length ops)"
      using get_rep [OF Cons.prems(1), of path "concat (map op_values ops)" "length ops"]
        Cons.prems(2,3) OpRead ok_less by auto
    then show ?thesis
      using Cons.IH [OF s1(2) _ s1(3)] Cons.prems(2) OpRead by (auto simp: case_prod_unfold Let_def)
  qed
qed

text \<open>A value written is read back, and writing it again changes nothing.\<close>

lemma read_your_write:
  assumes "rep s H" "path \<noteq> []"
    and "ok s [v, textValue (compositePath path), textValue (compositePath path)] 1"
    and "put now s path v author = (r, s1)"
  shows "fst (get s1 path) = Inr v"
proof -
  have s1: "rep s1 (write_spec H (compositePath path) (now, author, v))"
    "ok s1 [textValue (compositePath path)] 0"
    using put_rep [OF assms(1,2), of v "[textValue (compositePath path)]" 0 now author] assms(3,4) by auto
  have "newest (write_spec H (compositePath path) (now, author, v) (compositePath path)) = Some v"
    by (simp add: write_spec_def newest_def)
  then show ?thesis using get_rep [OF s1(1) assms(2) s1(2)] by (auto simp: read_spec_def)
qed

lemma rewrite_unchanged:
  assumes "rep s H" "path \<noteq> []"
    and "ok s [v, textValue (compositePath path), v, textValue (compositePath path)] 2"
    and "put now s path v author = (r, s1)"
  shows "fst (put now' s1 path v author') = Inr False"
    and "rep (snd (put now' s1 path v author')) (write_spec H (compositePath path) (now, author, v))"
proof -
  let ?p = "compositePath path"
  let ?H = "write_spec H ?p (now, author, v)"
  have s1: "rep s1 ?H" "ok s1 [v, textValue ?p] 1"
    using put_rep [OF assms(1,2), of v "[v, textValue ?p]" 1 now author] assms(3,4)
    by (auto simp: numeral_2_eq_2)
  have n: "newest (?H ?p) = Some v" by (simp add: write_spec_def newest_def)
  then have "write_spec ?H ?p (now', author', v) = ?H" by (simp add: write_spec_def)
  then show "fst (put now' s1 path v author') = Inr False" "rep (snd (put now' s1 path v author')) ?H"
    using put_rep [OF s1(1) assms(2), of v "[]" 0 now' author'] s1(2) n by auto
qed

end

definition tree_ok :: "(bytes \<Rightarrow> bytes) \<Rightarrow> StorageTree \<Rightarrow> Value list \<Rightarrow> nat \<Rightarrow> bool" where
  "tree_ok sha st L n \<longleftrightarrow> vs_fits sha (stValueStore st) L \<and> ids_left st n"

interpretation vtree: versioned_tree "WriteReportingChange sha" "tree_Read sha" "tree_rep sha" "tree_ok sha" for sha
proof
  fix s H path v L n now author
  assume "tree_rep sha s H" "path \<noteq> []" "tree_ok sha s (v # textValue (compositePath path) # L) (Suc n)"
  then show "\<exists>s'. WriteReportingChange sha now s path v author =
        (Inr (newest (H (compositePath path)) \<noteq> Some v), s') \<and>
      tree_rep sha s' (write_spec H (compositePath path) (now, author, v)) \<and> tree_ok sha s' L n"
    using WriteReportingChange_rep [of sha s H path n v L now author] by (auto simp: tree_ok_def)
next
  fix s H path L n
  assume a: "tree_rep sha s H" "path \<noteq> []" "tree_ok sha s (textValue (compositePath path) # L) n"
  have "read_spec h = (case h of [] \<Rightarrow> Inl PathNotFound | (t, a, v) # vs \<Rightarrow> Inr v)" for h
    by (auto simp: read_spec_def newest_def split: list.split)
  then show "\<exists>s'. tree_Read sha s path = (read_spec (H (compositePath path)), s') \<and>
      tree_rep sha s' H \<and> tree_ok sha s' L n"
    using tree_Read_rep [OF a(1,2), of L] a(3) by (auto simp: tree_ok_def)
next
  fix s L n assume "tree_ok sha s L (Suc n)"
  then show "tree_ok sha s L n" by (auto simp: tree_ok_def ids_left_def)
qed

subsection \<open>The empty tree\<close>

definition empty_tree :: StorageTree where
  "empty_tree = \<lparr>stValueStore = empty_store, stInstanceStore = NewInstanceStore [],
     stAttributeStore = NewAttributeStore [], stHashIndex = NewHashIndex 0\<rparr>"

lemma empty_tree_rep: "tree_rep sha empty_tree (\<lambda>_. [])"
proof -
  have "hi_inv (NewHashIndex 0)" "hi_Lookup (NewHashIndex 0) = Map.empty"
    using Clear_correct [OF NewHashIndex_Clear(2)] NewHashIndex_Clear(1) by metis+
  then have "tree_state sha empty_tree [] []"
    by (simp add: tree_state_def empty_tree_def empty_store_inv closed_def as_rep_def is_rep_def
        NewAttributeStore_def NewInstanceStore_def file_of_def ids_ok_def few_def attr_entries_def backward_def)
  then show ?thesis
    unfolding tree_rep_def
    by (intro exI [of _ "[]"]) (auto simp: hist_def attr_of_def fun_eq_iff)
qed

end
