(* ===== verification/Tree_Listing.thy ===== *)
theory Tree_Listing
  imports Versioned_Tree
begin

text \<open>
  The enumerations of the storage tree, \<open>ListLeafPaths\<close> and \<open>ChildrenWithNames\<close>: the scan of
  all attributes returns, without repetition, exactly the names under which the histories have
  versions.
\<close>

lemma attribute_ids_rep:
  assumes "as_rep as attrs"
  shows "attribute_ids as = map aID attrs"
proof (rule nth_equalityI)
  show "length (attribute_ids as) = length (map aID attrs)"
    using GetAttributeCount_rep [OF assms] by (simp add: attribute_ids_def del: upt_Suc)
  fix k assume k: "k < length (attribute_ids as)"
  then have "k < length attrs"
    using GetAttributeCount_rep [OF assms] by (simp add: attribute_ids_def del: upt_Suc)
  then show "attribute_ids as ! k = map aID attrs ! k"
    using as_rep_ids [OF assms] GetAttributeCount_rep [OF assms]
    by (simp add: attribute_ids_def ids_ok_def del: upt_Suc)
qed

text \<open>The label of an attribute of a tree state.\<close>

definition label_of :: "(u64 \<Rightarrow> Value option) \<Rightarrow> Attribute \<Rightarrow> gostring" where
  "label_of c a = vData (the (c (aLabelValueID a)))"

lemma label_of_text:
  "closed c attrs insts \<Longrightarrow> a \<in> set attrs \<Longrightarrow> c (aLabelValueID a) = Some (textValue (label_of c a))"
  by (auto simp: closed_def label_of_def textValue_def)

lemma label_of_mono:
  "closed c attrs insts \<Longrightarrow> c \<subseteq>\<^sub>m c' \<Longrightarrow> a \<in> set attrs \<Longrightarrow> label_of c' a = label_of c a"
  using label_of_text [of c attrs insts a] map_le_Some [of c c'] by (simp add: label_of_def)

lemma hist_labels:
  assumes "tree_state sha st attrs insts" "\<forall>a \<in> set attrs. aFirstInstanceID a \<noteq> 0"
    and c: "c = contents (stValueStore st)"
  shows "hist c attrs insts p \<noteq> [] \<longleftrightarrow> p \<in> label_of c ` set attrs"
proof -
  note cl = ts_closed [OF assms(1), folded c] and one = ts_one_id [OF assms(1), folded c]
  have "versions c insts (aFirstInstanceID a) \<noteq> []" if "a \<in> set attrs" for a
    using versions_valid [OF ts_backward [OF assms(1)], of "aFirstInstanceID a" c] cl that assms(2)
    by (auto simp: closed_def)
  moreover have "a \<in> set attrs" if "attr_of c attrs p = Some a" for a
    using attr_of_iff [OF cl one] that by blast
  ultimately have "hist c attrs insts p \<noteq> [] \<longleftrightarrow> (\<exists>a. attr_of c attrs p = Some a)"
    by (cases "attr_of c attrs p") (auto simp: hist_def)
  also have "\<dots> \<longleftrightarrow> p \<in> label_of c ` set attrs"
    unfolding attr_of_iff [OF cl one] using label_of_text [OF cl] by auto
  finally show ?thesis .
qed

lemma hasPrefix_iff: "hasPrefix s p \<longleftrightarrow> (\<exists>r. s = p @ r)"
  by (auto simp: hasPrefix_def) (metis append_take_drop_id)

subsection \<open>Leaf paths\<close>

text \<open>What the scan adds for each label: the non-empty remainders not yet listed.\<close>

definition leaf_add :: "gostring \<Rightarrow> gostring \<Rightarrow> gostring list \<Rightarrow> gostring list" where
  "leaf_add pre l leaves =
     (if hasPrefix l pre \<and> drop (length pre) l \<noteq> [] \<and> drop (length pre) l \<notin> set leaves
      then leaves @ [drop (length pre) l] else leaves)"

lemma leaf_add_fold:
  assumes "distinct leaves"
  shows "distinct (fold (leaf_add pre) ls leaves) \<and>
    set (fold (leaf_add pre) ls leaves) = set leaves \<union> {r. r \<noteq> [] \<and> pre @ r \<in> set ls}"
  using assms
proof (induction ls arbitrary: leaves)
  case (Cons l ls)
  have "distinct (leaf_add pre l leaves)" using Cons.prems by (simp add: leaf_add_def)
  moreover have "set (leaf_add pre l leaves) = set leaves \<union> {r. r \<noteq> [] \<and> pre @ r = l}"
    by (auto simp: leaf_add_def hasPrefix_iff)
  ultimately show ?case using Cons.IH by auto
qed simp

lemma leaf_step_ok:
  assumes ts: "tree_state sha st attrs insts" and a: "a \<in> set attrs"
  obtains vs where "leaf_step pre (aID a) (leaves, st) =
      (leaf_add pre (label_of (contents (stValueStore st)) a) leaves, st\<lparr>stValueStore := vs\<rparr>)"
    "vs_inv sha vs" "contents vs = contents (stValueStore st)"
proof -
  let ?c = "contents (stValueStore st)"
  note l = label_of_text [OF ts_closed [OF ts] a]
  obtain vs where r: "readValue (stValueStore st) (aLabelValueID a) = (Inr (textValue (label_of ?c a)), vs)"
    "vs_inv sha vs" "contents vs = ?c"
    using vheap.read_ok [OF ts_vs [OF ts] l] by blast
  have "ReadAttribute (stAttributeStore st) (aID a) = Inr a"
    using attr_id_valid [OF ts_as [OF ts] a] ReadAttribute_rep [OF ts_as [OF ts]] by simp
  with r(1) have "leaf_step pre (aID a) (leaves, st) =
      (leaf_add pre (label_of ?c a) leaves, st\<lparr>stValueStore := vs\<rparr>)"
    by (simp add: leaf_step_def leaf_add_def textValue_def Let_def)
  then show ?thesis using that r by blast
qed

lemma leaf_fold_ok:
  assumes "tree_state sha st attrs insts" "set as \<subseteq> set attrs"
  shows "\<exists>vs. fold (leaf_step pre) (map aID as) (leaves, st) =
      (fold (leaf_add pre) (map (label_of (contents (stValueStore st))) as) leaves, st\<lparr>stValueStore := vs\<rparr>) \<and>
    vs_inv sha vs \<and> contents vs = contents (stValueStore st)"
  using assms
proof (induction as arbitrary: st leaves)
  case Nil
  then show ?case using ts_vs [OF Nil.prems(1)] by (intro exI [of _ "stValueStore st"]) simp
next
  case (Cons a as)
  let ?c = "contents (stValueStore st)"
  have a: "a \<in> set attrs" and as: "set as \<subseteq> set attrs" using Cons.prems(2) by auto
  obtain vs where s: "leaf_step pre (aID a) (leaves, st) =
      (leaf_add pre (label_of ?c a) leaves, st\<lparr>stValueStore := vs\<rparr>)" "vs_inv sha vs" "contents vs = ?c"
    using leaf_step_ok [OF Cons.prems(1) a] by metis
  have "tree_state sha (st\<lparr>stValueStore := vs\<rparr>) attrs insts"
    using tree_state_grow(1) [OF Cons.prems(1) s(2)] s(3) by simp
  from Cons.IH [OF this as] show ?case using s by simp
qed

lemma ListLeafPaths_rep:
  assumes rep: "tree_rep sha st H" and p: "prefix \<noteq> []"
  shows "\<exists>leaves st'. ListLeafPaths st prefix = (Inr leaves, st') \<and> tree_rep sha st' H \<and> distinct leaves \<and>
    set leaves = {r. r \<noteq> [] \<and> H (compositePath prefix @ dot # r) \<noteq> []}"
proof -
  obtain attrs insts where ts: "tree_state sha st attrs insts"
    and nz: "\<forall>a \<in> set attrs. aFirstInstanceID a \<noteq> 0"
    and H: "H = hist (contents (stValueStore st)) attrs insts"
    using rep by (auto simp: tree_rep_def)
  let ?pre = "compositePath prefix @ [dot]" and ?ls = "map (label_of (contents (stValueStore st))) attrs"
  obtain vs where f: "fold (leaf_step ?pre) (map aID attrs) ([], st) =
      (fold (leaf_add ?pre) ?ls [], st\<lparr>stValueStore := vs\<rparr>)" "vs_inv sha vs"
      "contents vs = contents (stValueStore st)"
    using leaf_fold_ok [OF ts subset_refl] by metis
  have "ListLeafPaths st prefix = (Inr (fold (leaf_add ?pre) ?ls []), st\<lparr>stValueStore := vs\<rparr>)"
    using p f(1) attribute_ids_rep [OF ts_as [OF ts]] by (simp add: ListLeafPaths_def)
  moreover have "tree_rep sha (st\<lparr>stValueStore := vs\<rparr>) H"
    using tree_rep_grow [OF rep f(2)] f(3) by simp
  moreover have "set (fold (leaf_add ?pre) ?ls []) = {r. r \<noteq> [] \<and> H (compositePath prefix @ dot # r) \<noteq> []}"
    using leaf_add_fold [of "[]" ?pre ?ls] hist_labels [OF ts nz refl] H by simp
  ultimately show ?thesis using leaf_add_fold [of "[]" ?pre ?ls] by auto
qed

subsection \<open>Children\<close>

text \<open>The immediate child a label contributes under a prefix that ends in a dot.\<close>

definition child_name :: "gostring \<Rightarrow> gostring \<Rightarrow> gostring option" where
  "child_name pre l =
     (if hasPrefix l pre then Some (takeWhile (\<lambda>c. c \<noteq> dot) (drop (length pre) l)) else None)"

definition child_add :: "gostring \<Rightarrow> gostring \<Rightarrow> gostring list \<Rightarrow> gostring list" where
  "child_add pre l names =
     (case child_name pre l of None \<Rightarrow> names
      | Some n \<Rightarrow> if n \<in> set names then names else names @ [n])"

lemma child_add_fold:
  assumes "distinct names"
  shows "distinct (fold (child_add pre) ls names) \<and>
    set (fold (child_add pre) ls names) = set names \<union> {n. \<exists>l \<in> set ls. child_name pre l = Some n}"
  using assms
proof (induction ls arbitrary: names)
  case (Cons l ls)
  have "distinct (child_add pre l names)" using Cons.prems by (simp add: child_add_def split: option.split)
  moreover have "set (child_add pre l names) = set names \<union> {n. child_name pre l = Some n}"
    by (auto simp: child_add_def split: option.split)
  ultimately show ?case using Cons.IH by auto
qed simp

lemma child_name_Some:
  "child_name pre l = Some n \<longleftrightarrow> (\<exists>r. l = pre @ r \<and> n = takeWhile (\<lambda>c. c \<noteq> dot) r)"
  by (auto simp: child_name_def hasPrefix_iff)

text \<open>The values the scan may store: the child names of all labels.\<close>

definition child_values :: "gostring \<Rightarrow> gostring list \<Rightarrow> Value list" where
  "child_values pre ls = map textValue (List.map_filter (child_name pre) ls)"

lemma child_values_Cons:
  "child_values pre (l # ls) =
     (case child_name pre l of None \<Rightarrow> child_values pre ls | Some n \<Rightarrow> textValue n # child_values pre ls)"
  by (simp add: child_values_def List.map_filter_simps split: option.split)

lemma children_step_ok:
  assumes ts: "tree_state sha st attrs insts" and a: "a \<in> set attrs"
    and seen: "set (map naName ch) = set seen"
    and l: "l = label_of (contents (stValueStore st)) a"
    and fits: "vs_fits sha (stValueStore st) (child_values pre (l # ls))"
  obtains ch' seen' vs where "children_step sha pre (aID a) (ch, seen, st) = (ch', seen', st\<lparr>stValueStore := vs\<rparr>)"
    "map naName ch' = child_add pre l (map naName ch)" "set (map naName ch') = set seen'"
    "vs_inv sha vs" "vs_fits sha vs (child_values pre ls)" "contents (stValueStore st) \<subseteq>\<^sub>m contents vs"
proof -
  note lt = label_of_text [OF ts_closed [OF ts] a, folded l]
  obtain vs where r: "readValue (stValueStore st) (aLabelValueID a) = (Inr (textValue l), vs)"
    "vs_inv sha vs" "contents vs = contents (stValueStore st)" "vs_fits sha vs = vs_fits sha (stValueStore st)"
    using vheap.read_ok [OF ts_vs [OF ts] lt] by blast
  have ra: "ReadAttribute (stAttributeStore st) (aID a) = Inr a"
    using attr_id_valid [OF ts_as [OF ts] a] ReadAttribute_rep [OF ts_as [OF ts]] by simp
  show ?thesis
  proof (cases "child_name pre l")
    case None
    then have "children_step sha pre (aID a) (ch, seen, st) = (ch, seen, st\<lparr>stValueStore := vs\<rparr>)"
      using r(1) ra by (simp add: children_step_def child_name_def textValue_def Let_def split: if_splits)
    then show ?thesis
      using that None r seen fits by (simp add: child_add_def child_values_Cons)
  next
    case (Some n)
    then have nm: "hasPrefix l pre" "takeWhile (\<lambda>c. c \<noteq> dot) (drop (length pre) l) = n"
      by (simp_all add: child_name_def split: if_splits)
    have fits': "vs_fits sha vs (textValue n # child_values pre ls)"
      using fits r(4) Some by (simp add: child_values_Cons)
    obtain i vs2 where w: "writeValue sha vs (textValue n) = (Inr i, vs2)" "vs_inv sha vs2"
      "vs_fits sha vs2 (child_values pre ls)" "contents vs \<subseteq>\<^sub>m contents vs2"
      using vheap.write_E [OF r(2) fits'] by metis
    show ?thesis
    proof (cases "n \<in> set seen")
      case True
      then have "children_step sha pre (aID a) (ch, seen, st) = (ch, seen, st\<lparr>stValueStore := vs\<rparr>)"
        using r(1) ra nm by (simp add: children_step_def textValue_def Let_def)
      then show ?thesis
        using that True Some r seen vheap.fits_drop [OF fits'] by (simp add: child_add_def)
    next
      case False
      let ?a = "\<lparr>naAttribute = \<lparr>aID = aID a, aLabelValueID = i, aFirstInstanceID = aFirstInstanceID a,
          aNextAttributeID = 0\<rparr>, naName = n\<rparr>"
      have "children_step sha pre (aID a) (ch, seen, st) = (ch @ [?a], n # seen, st\<lparr>stValueStore := vs2\<rparr>)"
        using False r(1) ra nm w(1) by (simp add: children_step_def textValue_def Let_def)
      then show ?thesis
        using that False Some r(3) w(2-4) seen by (simp add: child_add_def)
    qed
  qed
qed

lemma children_fold_ok:
  assumes "tree_state sha st attrs insts" "set as \<subseteq> set attrs" "set (map naName ch) = set seen"
    and "ls = map (label_of (contents (stValueStore st))) as"
    and "vs_fits sha (stValueStore st) (child_values pre ls)"
  shows "\<exists>ch' seen' vs. fold (children_step sha pre) (map aID as) (ch, seen, st) = (ch', seen', st\<lparr>stValueStore := vs\<rparr>) \<and>
    map naName ch' = fold (child_add pre) ls (map naName ch) \<and>
    vs_inv sha vs \<and> contents (stValueStore st) \<subseteq>\<^sub>m contents vs"
  using assms
proof (induction as arbitrary: st ch seen ls)
  case Nil
  then show ?case using ts_vs [OF Nil.prems(1)] by (intro exI [of _ ch] exI [of _ seen] exI [of _ "stValueStore st"]) simp
next
  case (Cons a as)
  let ?c = "contents (stValueStore st)"
  let ?ls = "map (label_of ?c) as"
  have a: "a \<in> set attrs" and as: "set as \<subseteq> set attrs" using Cons.prems(2) by auto
  have ls: "ls = label_of ?c a # ?ls" using Cons.prems(4) by simp
  obtain ch1 seen1 vs where s: "children_step sha pre (aID a) (ch, seen, st) = (ch1, seen1, st\<lparr>stValueStore := vs\<rparr>)"
    "map naName ch1 = child_add pre (label_of ?c a) (map naName ch)" "set (map naName ch1) = set seen1"
    "vs_inv sha vs" "vs_fits sha vs (child_values pre ?ls)" "?c \<subseteq>\<^sub>m contents vs"
    by (rule children_step_ok [OF Cons.prems(1) a Cons.prems(3) refl, of pre ?ls]) (use Cons.prems(5) ls in auto)
  note ts1 = tree_state_grow(1) [OF Cons.prems(1) s(4,6)]
  have same: "?ls = map (label_of (contents vs)) as"
    using label_of_mono [OF ts_closed [OF Cons.prems(1)] s(6)] as by auto
  have fit1: "vs_fits sha (stValueStore (st\<lparr>stValueStore := vs\<rparr>))
      (child_values pre (map (label_of (contents (stValueStore (st\<lparr>stValueStore := vs\<rparr>)))) as))"
    using s(5) unfolding same by simp
  obtain ch' seen' vs' where r: "fold (children_step sha pre) (map aID as) (ch1, seen1, st\<lparr>stValueStore := vs\<rparr>) =
      (ch', seen', st\<lparr>stValueStore := vs'\<rparr>)" "map naName ch' = fold (child_add pre) ?ls (map naName ch1)"
      "vs_inv sha vs'" "contents vs \<subseteq>\<^sub>m contents vs'"
    using Cons.IH [OF ts1 as s(3) refl fit1] unfolding same by auto
  then show ?case
    using s(1,2) ls map_le_trans [OF s(6)] by auto
qed

lemma ChildrenWithNames_rep:
  assumes rep: "tree_rep sha st H" and p: "path \<noteq> []"
    and fits: "\<And>ls. list_all (\<lambda>l. H l \<noteq> []) ls \<Longrightarrow> distinct ls \<Longrightarrow>
      vs_fits sha (stValueStore st) (child_values (compositePath path @ [dot]) ls)"
  shows "\<exists>ch st'. ChildrenWithNames sha st path = (ch, st') \<and> tree_rep sha st' H \<and> distinct (map naName ch) \<and>
    naName ` set ch = {n. \<exists>r. H (compositePath path @ dot # r) \<noteq> [] \<and> n = takeWhile (\<lambda>c. c \<noteq> dot) r}"
proof -
  obtain attrs insts where ts: "tree_state sha st attrs insts"
    and nz: "\<forall>a \<in> set attrs. aFirstInstanceID a \<noteq> 0"
    and H: "H = hist (contents (stValueStore st)) attrs insts"
    using rep by (auto simp: tree_rep_def)
  let ?c = "contents (stValueStore st)"
  let ?pre = "compositePath path @ [dot]" and ?ls = "map (label_of ?c) attrs"
  have Hl: "H l \<noteq> [] \<longleftrightarrow> l \<in> set ?ls" for l using hist_labels [OF ts nz refl] H by simp
  have "distinct ?ls"
    using ts_closed [OF ts] ts_one_id [OF ts] label_of_text [OF ts_closed [OF ts]]
    by (simp add: closed_def distinct_map inj_on_def one_id_def)
  then have fit: "vs_fits sha (stValueStore st) (child_values ?pre ?ls)"
    using fits Hl by (simp add: list_all_iff)
  obtain ch seen vs where f: "fold (children_step sha ?pre) (map aID attrs) ([], [], st) = (ch, seen, st\<lparr>stValueStore := vs\<rparr>)"
    "map naName ch = fold (child_add ?pre) ?ls []" "vs_inv sha vs" "?c \<subseteq>\<^sub>m contents vs"
    using children_fold_ok [OF ts subset_refl _ refl fit, of "[]" "[]"] by auto
  have "ChildrenWithNames sha st path = (ch, st\<lparr>stValueStore := vs\<rparr>)"
    using p f(1) attribute_ids_rep [OF ts_as [OF ts]]
    by (simp add: ChildrenWithNames_def findChildrenByPrefixNamed_def)
  moreover have "naName ` set ch = {n. \<exists>r. H (compositePath path @ dot # r) \<noteq> [] \<and> n = takeWhile (\<lambda>c. c \<noteq> dot) r}"
  proof -
    have "set (map naName ch) = {n. \<exists>l \<in> set ?ls. child_name ?pre l = Some n}"
      unfolding f(2) using child_add_fold [of "[]" ?pre ?ls] by simp
    then have "naName ` set ch = {n. \<exists>l \<in> set ?ls. child_name ?pre l = Some n}"
      by (simp only: list.set_map)
    moreover have "(\<exists>l \<in> set ?ls. child_name ?pre l = Some n) \<longleftrightarrow>
        (\<exists>r. ?pre @ r \<in> set ?ls \<and> n = takeWhile (\<lambda>c. c \<noteq> dot) r)" for n
      unfolding child_name_Some by blast
    ultimately show ?thesis unfolding Hl by simp
  qed
  moreover have "distinct (map naName ch)" using child_add_fold [of "[]" ?pre ?ls] f(2) by simp
  moreover have "tree_rep sha (st\<lparr>stValueStore := vs\<rparr>) H" using tree_rep_grow [OF rep f(3,4)] .
  ultimately show ?thesis by blast
qed

end
