(* ===== verification/Storage_Properties.thy ===== *)
theory Storage_Properties
  imports Tree_Listing
begin

text \<open>
  The properties of the storage engine: the tree, the value store, the instance store, the hash
  index and the free list. Each rests on the lemmas of its component; the witnesses instantiate
  SHA-256 with the identity, for which no two values collide.
\<close>

subsection \<open>Concrete states for the witnesses\<close>

definition nosha :: "bytes \<Rightarrow> bytes" where "nosha b = b"

lemma hashValue_nosha: "inj (hashValue nosha)"
  by (auto simp: inj_on_def hashValue_def nosha_def)

lemma contents_empty_store [simp]: "contents empty_store = Map.empty"
  by (simp add: fun_eq_iff contents_def empty_store_def)

lemma fileAt_empty_store [simp]: "fileAt empty_store t = []"
  by (simp add: fileAt_def empty_store_def bucketContent_def)

lemma fits_empty_store:
  assumes "list_all wf_value L" "sum_list (map (\<lambda>v. length (serializeValue v) + 1) L) < 2 ^ 40"
  shows "vs_fits nosha empty_store L"
  using assms hashValue_nosha by (auto simp: vs_fits_def intro: inj_on_subset)

definition num :: "u64 \<Rightarrow> Value" where
  "num n = \<lparr>vTypeTag = TypeNumber, vData = put_le 8 n\<rparr>"

definition foo :: "gostring list" where
  "foo = [str ''foo'', str ''bar'']"

lemma foo_simps [simp]: "foo \<noteq> []" "length (compositePath foo) = 7"
  by (simp_all add: foo_def str_def)

lemma text_simps [simp]:
  "wf_value (textValue s) \<longleftrightarrow> length s < 2 ^ 32"
  "length (serializeValue (textValue s)) = 6 + length s"
  by (simp_all add: wf_value_def textValue_def length_serializeValue isVariableLength_def)

lemma num_simps [simp]: "wf_value (num n)" "length (serializeValue (num n)) = 10"
  by (simp_all add: wf_value_def num_def length_serializeValue isVariableLength_def getFixedTypeSize_def
      type_tag_defs)

lemma empty_tree_ok:
  assumes "list_all wf_value L" "sum_list (map (\<lambda>v. length (serializeValue v) + 1) L) < 2 ^ 40" "n < 2 ^ 50"
  shows "tree_ok nosha empty_tree L n"
  using fits_empty_store [OF assms(1,2)] assms(3)
  by (simp add: tree_ok_def ids_left_def empty_tree_def NewAttributeStore_def NewInstanceStore_def)

definition tree1 :: StorageTree where
  "tree1 = snd (WriteReportingChange nosha 5 empty_tree foo (num 1) 9)"

lemma num_inj [simp]: "num n = num m \<longleftrightarrow> n = m"
  unfolding num_def by (metis Value.simps(2) get_put_le64)

lemma tree1_put:
  assumes "list_all wf_value L" "sum_list (map (\<lambda>v. length (serializeValue v) + 1) L) < 2 ^ 39"
  shows "tree_rep nosha tree1 ((\<lambda>_. [])(compositePath foo := [(5, 9, num 1)]))" and "tree_ok nosha tree1 L 0"
proof -
  have "tree_ok nosha empty_tree (num 1 # textValue (compositePath foo) # L) (Suc 0)"
    using assms by (intro empty_tree_ok) simp_all
  from vtree.put_rep [OF empty_tree_rep foo_simps(1) this, of 5 9]
  show "tree_rep nosha tree1 ((\<lambda>_. [])(compositePath foo := [(5, 9, num 1)]))" "tree_ok nosha tree1 L 0"
    by (auto simp: tree1_def write_spec_def newest_def)
qed

lemmas tree1_rep = tree1_put(1) [of "[]", simplified]

subsection \<open>The storage tree\<close>

text \<open>
  C1. Any run of writes and reads on non-empty paths, started in a tree that represents a
  history and has room, gives exactly the answers of the abstract history: a write reports
  whether it changed the newest value and then pushes a version, a read returns the newest value
  or "path not found". The final tree represents the final history.
\<close>

theorem tree_run_refines:
  assumes "tree_rep sha st H" "list_all (\<lambda>op. op_path op \<noteq> []) ops"
    and "tree_ok sha st (concat (map op_values ops)) (length ops)"
  shows "\<exists>st'. run_ops (WriteReportingChange sha) (tree_Read sha) st ops = (fst (spec_ops H ops), st') \<and>
    tree_rep sha st' (snd (spec_ops H ops))"
  using assms by (rule vtree.run_refines)

theorem tree_run_refines_witness:
  "fst (run_ops (WriteReportingChange nosha) (tree_Read nosha) empty_tree
      [OpWrite 5 foo (num 1) 9, OpWrite 6 foo (num 1) 9, OpWrite 7 foo (num 2) 9, OpRead foo]) =
    [Wrote (Inr True), Wrote (Inr False), Wrote (Inr True), Saw (Inr (num 2))]"
proof -
  let ?ops = "[OpWrite 5 foo (num 1) 9, OpWrite 6 foo (num 1) 9, OpWrite 7 foo (num 2) 9, OpRead foo]"
  have "tree_ok nosha empty_tree (concat (map op_values ?ops)) (length ?ops)"
    by (rule empty_tree_ok) simp_all
  then show ?thesis
    using tree_run_refines [OF empty_tree_rep, of ?ops nosha]
    by (auto simp: write_spec_def newest_def read_spec_def Let_def)
qed

text \<open>
  C2. Reading a path at a point in time returns, the loop over the instance chain ending, the
  newest version not newer than that time; it is an error when the path has no history or all
  its versions are newer. Reading leaves the history as it was.
\<close>

theorem tree_ReadAt_history:
  assumes "tree_rep sha st H" "path \<noteq> []" "tree_ok sha st [textValue (compositePath path)] 0"
  shows "\<exists>st'. tree_ReadAt sha st path ts = Some (read_at_spec (H (compositePath path)) ts, st') \<and>
    tree_rep sha st' H"
  using tree_ReadAt_rep [OF assms(1,2), of "[]" ts] assms(3) by (auto simp: tree_ok_def)

theorem tree_ReadAt_history_witness:
  "(\<exists>st'. tree_ReadAt nosha tree1 foo 8 = Some (Inr (num 1), st')) \<and>
   (\<exists>st'. tree_ReadAt nosha tree1 foo 4 = Some (Inl NoInstanceAtTime, st'))"
  using tree_ReadAt_history [OF tree1_rep foo_simps(1) tree1_put(2), of 8]
    tree_ReadAt_history [OF tree1_rep foo_simps(1) tree1_put(2), of 4]
  by (auto simp: read_at_spec_def version_at_def word_sle_eq)

text \<open>
  C3. \<open>ListLeafPaths\<close> lists, without repetition, exactly the non-empty remainders \<open>r\<close> for which
  the path \<open>prefix.r\<close> has a history.
\<close>

theorem ListLeafPaths_exact:
  assumes "tree_rep sha st H" "prefix \<noteq> []"
  shows "\<exists>leaves st'. ListLeafPaths st prefix = (Inr leaves, st') \<and> tree_rep sha st' H \<and>
    distinct leaves \<and> set leaves = {r. r \<noteq> [] \<and> H (compositePath prefix @ dot # r) \<noteq> []}"
  using assms by (rule ListLeafPaths_rep)

theorem ListLeafPaths_exact_witness:
  "\<exists>st'. ListLeafPaths tree1 [str ''foo''] = (Inr [str ''bar''], st')"
proof -
  have "compositePath foo = str ''foo'' @ dot # str ''bar''" by (simp add: foo_def)
  then have s: "{r. r \<noteq> [] \<and> ((\<lambda>_. [])(compositePath foo := [(5, 9, num 1)])) (compositePath [str ''foo''] @ dot # r) \<noteq> []}
      = {str ''bar''}" by (auto simp: str_def)
  have "leaves = [x]" if "distinct leaves" "set leaves = {x}" for leaves and x :: gostring
    using that by (cases leaves; cases "tl leaves") auto
  with ListLeafPaths_exact [OF tree1_rep, of "[str ''foo'']"] show ?thesis unfolding s by fastforce
qed

text \<open>
  C4. \<open>ChildrenWithNames\<close> of a non-empty path names, without repetition, exactly the first
  components of the paths below it that have a history; the histories do not change.
\<close>

theorem ChildrenWithNames_exact:
  assumes "tree_rep sha st H" "path \<noteq> []"
    and "\<forall>ls. list_all (\<lambda>l. H l \<noteq> []) ls \<longrightarrow> distinct ls \<longrightarrow>
      vs_fits sha (stValueStore st) (child_values (compositePath path @ [dot]) ls)"
  shows "\<exists>ch st'. ChildrenWithNames sha st path = (ch, st') \<and> tree_rep sha st' H \<and> distinct (map naName ch) \<and>
    naName ` set ch = {n. \<exists>r. H (compositePath path @ dot # r) \<noteq> [] \<and> n = takeWhile (\<lambda>c. c \<noteq> dot) r}"
  using assms(3) by (intro ChildrenWithNames_rep [OF assms(1,2)]) blast

theorem ChildrenWithNames_exact_witness:
  "\<exists>ch st'. ChildrenWithNames nosha tree1 [str ''foo''] = (ch, st') \<and> naName ` set ch = {str ''bar''}"
proof -
  let ?H = "(\<lambda>_. [])(compositePath foo := [(5, 9, num 1)]) :: history" and ?pre = "compositePath [str ''foo''] @ [dot]"
  have cp: "compositePath foo = ?pre @ str ''bar''" by (simp add: foo_def)
  have bar: "takeWhile (\<lambda>c. c \<noteq> dot) (str ''bar'') = str ''bar''" by (simp add: str_def dot_def)
  have "vs_fits nosha (stValueStore tree1) (child_values ?pre ls)"
    if "list_all (\<lambda>l. ?H l \<noteq> []) ls" "distinct ls" for ls
  proof -
    have "set ls \<subseteq> {compositePath foo}" using that(1) by (auto simp: list_all_iff split: if_splits)
    then have "ls = [] \<or> ls = [compositePath foo]" using that(2) by (cases ls; cases "tl ls") auto
    moreover have "child_name ?pre (compositePath foo) = Some (str ''bar'')"
      unfolding child_name_Some using cp bar by metis
    ultimately have "child_values ?pre ls = [] \<or> child_values ?pre ls = [textValue (str ''bar'')]"
      by (auto simp: child_values_def List.map_filter_simps)
    then show ?thesis
      using tree1_put(2) [of "[]"] tree1_put(2) [of "[textValue (str ''bar'')]"] by (auto simp: tree_ok_def str_def)
  qed
  moreover have "{n. \<exists>r. ?H (compositePath [str ''foo''] @ dot # r) \<noteq> [] \<and> n = takeWhile (\<lambda>c. c \<noteq> dot) r} = {str ''bar''}"
    using bar by (auto simp: cp)
  ultimately show ?thesis
    using ChildrenWithNames_exact [OF tree1_rep, of "[str ''foo'']"] by (simp only:) auto
qed

subsection \<open>The value store\<close>

definition store1 :: ValueStore where
  "store1 = snd (writeValue nosha empty_store (num 1))"

definition id1 :: u64 where
  "id1 = (case fst (writeValue nosha empty_store (num 1)) of Inl e \<Rightarrow> 0 | Inr i \<Rightarrow> i)"

lemma store1_facts: "vs_inv nosha store1" "contents store1 id1 = Some (num 1)" "refs store1 id1 = 1"
proof -
  have f: "vs_fits nosha empty_store [num 1]" by (rule fits_empty_store) simp_all
  obtain i vs where "writeValue nosha empty_store (num 1) = (Inr i, vs)" "vs_inv nosha vs"
    "contents vs = (contents empty_store)(i \<mapsto> num 1)" "refs vs = (refs empty_store)(i := refs empty_store i + 1)"
    by (rule writeValue_correct [OF empty_store_inv vs_fits_room [OF f] vs_fits_no_collision [OF empty_store_inv f]])
       auto
  moreover have "refs empty_store i = 0" by (simp add: refs_def empty_store_def)
  ultimately show "vs_inv nosha store1" "contents store1 id1 = Some (num 1)" "refs store1 id1 = 1"
    by (simp_all add: store1_def id1_def)
qed

text \<open>
  C5. Writing a well-formed value that fits succeeds: the returned ID is nonzero, is either new
  or already held this value, and reads back the value; every other ID keeps its value, the
  reference count of the ID grows by one and no other count changes.
\<close>

theorem writeValue_refines:
  assumes "vs_inv sha vs" "vs_fits sha vs [v]"
  shows "\<exists>i vs'. writeValue sha vs v = (Inr i, vs') \<and> i \<noteq> 0 \<and> vs_inv sha vs' \<and>
    contents vs' = (contents vs)(i \<mapsto> v) \<and> contents vs i \<in> {None, Some v} \<and>
    refs vs' = (refs vs)(i := refs vs i + 1) \<and> fst (readValue vs' i) = Inr v"
proof -
  obtain i vs' where w: "writeValue sha vs v = (Inr i, vs')" "i \<noteq> 0" "vs_inv sha vs'"
    "contents vs' = (contents vs)(i \<mapsto> v)" "contents vs i \<in> {None, Some v}"
    "refs vs' = (refs vs)(i := refs vs i + 1)"
    by (rule writeValue_correct [OF assms(1) vs_fits_room [OF assms(2)] vs_fits_no_collision [OF assms]]) auto
  have "fst (readValue vs' i) = Inr v" using vheap.read_ok [OF w(3), of i v] w(4) by auto
  with w show ?thesis by blast
qed

theorem writeValue_refines_witness:
  "\<exists>i vs'. writeValue nosha empty_store (textValue (str ''hi'')) = (Inr i, vs') \<and> i \<noteq> 0 \<and>
    fst (readValue vs' i) = Inr (textValue (str ''hi''))"
proof -
  have "vs_fits nosha empty_store [textValue (str ''hi'')]" by (rule fits_empty_store) (simp_all add: str_def)
  from writeValue_refines [OF empty_store_inv this] show ?thesis by blast
qed

text \<open>
  C6. Tombstoning a live value succeeds. While more references remain, only its count drops.
  With the last reference the ID disappears from the store, reading it reports a tombstone, the
  bytes of its record join the free list of its tier, and every other value keeps its place.
\<close>

theorem tombstoneValue_refines:
  assumes "vs_inv sha vs" "contents vs i = Some v"
  shows "\<exists>vs'. tombstoneValue sha vs i = (Inr (), vs') \<and> vs_inv sha vs' \<and>
    (if 1 < refs vs i
     then contents vs' = contents vs \<and> refs vs' = (refs vs)(i := refs vs i - 1)
     else contents vs' = (contents vs)(i := None) \<and> fst (readValue vs' i) = Inl ValueTombstoned \<and>
       free_set (freeLists vs' (extractTier i)) = free_set (freeLists vs (extractTier i)) \<union> span i v)"
proof -
  have "live vs i v" using assms contents_live by blast
  then obtain n where n: "referenceCount vs i = Some n" "0 < n"
    using refs_stored [OF assms(1), of i] by (auto simp: live_def)
  show ?thesis
  proof (cases "1 < n")
    case True
    then show ?thesis
      using tombstoneValue_shared [OF assms(1) n(1)] n(1) by (auto simp: refs_def)
  next
    case False
    with n have "referenceCount vs i = Some 1" by simp
    then show ?thesis
      using tombstoneValue_reclaims [OF assms(1) _ assms(2)] by (auto simp: refs_def)
  qed
qed

theorem tombstoneValue_refines_witness:
  "\<exists>vs'. tombstoneValue nosha store1 id1 = (Inr (), vs') \<and> contents vs' id1 = None \<and>
    fst (readValue vs' id1) = Inl ValueTombstoned"
  using tombstoneValue_refines [OF store1_facts(1,2)] store1_facts(3) by auto

text \<open>
  Deserialising a record that begins with a serialised well-formed value gives the value
  back, whatever follows it in the buffer.
\<close>

theorem deserializeValue_serializeValue:
  assumes "wf_value v"
  shows "deserializeValue (serializeValue v @ rest) = Inr v"
  using assms by (rule deserialize_serialize_append)

theorem deserializeValue_serializeValue_witness:
  "deserializeValue (serializeValue (textValue (str ''hi'')) @ [1, 2]) = Inr (textValue (str ''hi''))"
  by (rule deserializeValue_serializeValue) (simp add: str_def)

text \<open>
  A value ID packs its tier, bucket and offset without loss while they keep to their 2, 22
  and 40 bits.
\<close>

theorem encodeValueID_extract:
  assumes "tier < 4" "unat bucket < 2 ^ 22" "unat offset < 2 ^ 40"
  shows "extractTier (encodeValueID tier bucket offset) = tier \<and>
    extractBucket (encodeValueID tier bucket offset) = bucket \<and>
    extractOffset (encodeValueID tier bucket offset) = offset"
  using assms by (simp add: extractTier_encode extractBucket_encode extractOffset_encode)

theorem encodeValueID_extract_witness:
  "extractTier (encodeValueID 2 77 123456) = 2 \<and> extractBucket (encodeValueID 2 77 123456) = 77 \<and>
   extractOffset (encodeValueID 2 77 123456) = 123456"
  by (rule encodeValueID_extract) simp_all

text \<open>After a restart the hash map only refers to the value IDs the rebuild has scanned.\<close>

lemma rebuildStep_ids:
  assumes "\<forall>h i. hashToValueID vs h = Some i \<longrightarrow> unat i \<le> n" "unat j \<le> n"
  shows "\<forall>h i. hashToValueID (rebuildStep sha j vs) h = Some i \<longrightarrow> unat i \<le> n"
proof -
  have sc: "hashToValueID (snd (readValue vs j)) = hashToValueID vs"
    using readValue_same_core [of vs j] by (simp add: same_core_def)
  show ?thesis
  proof (cases "readValue vs j")
    case (Pair r vs1)
    with sc assms show ?thesis by (cases r) (auto simp: rebuildStep_def)
  qed
qed

lemma rebuild_fold_ids:
  assumes "\<forall>h i. hashToValueID vs h = Some i \<longrightarrow> unat i \<le> n" "\<forall>k \<in> set ks. k \<le> n"
  shows "\<forall>h i. hashToValueID (fold (\<lambda>k. rebuildStep sha (of_nat k)) ks vs) h = Some i \<longrightarrow> unat i \<le> n"
  using assms
proof (induction ks arbitrary: vs)
  case (Cons k ks)
  have "unat (of_nat k :: u64) \<le> k" by (simp add: unat_of_nat)
  then have "unat (of_nat k :: u64) \<le> n" using Cons.prems(2) by (meson list.set_intros(1) order_trans)
  from Cons.IH [OF rebuildStep_ids [OF Cons.prems(1) this]] show ?case using Cons.prems(2) by simp
qed simp

text \<open>
  What a restart recovers of the deduplication map: every entry refers to a value of the
  smallest tier. Values of the three larger tiers are never found again by their contents, so
  writing one after a restart stores a second copy.
\<close>

theorem restart_indexes_smallest_tier_only:
  assumes "length large < 2 ^ 46" "hashToValueID (NewValueStore sha dir large) h = Some i"
  shows "extractTier i = 0"
proof -
  let ?vs = "\<lparr>tierDir = dir, tierFiles = (\<lambda>_. []), tier3File = large, currentBucket = (\<lambda>_. 0),
        freeLists = (\<lambda>_. NewFreeList), hashToValueID = Map.empty, referenceCount = Map.empty\<rparr>"
  let ?n = "unat (determineMaxValueID ?vs)"
  have "unat (of_nat (length large) div 100 :: u64) = length large div 100"
    using assms(1) by (simp add: unat_div)
  moreover have "length large div 100 < 2 ^ 40" using assms(1) by (intro less_mult_imp_div_less) simp
  ultimately have n: "?n < 2 ^ 40" by (simp add: determineMaxValueID_def Let_def)
  have "\<forall>h i. hashToValueID (fold (\<lambda>k. rebuildStep sha (of_nat k)) [1..<Suc ?n] ?vs) h = Some i \<longrightarrow> unat i \<le> ?n"
    by (rule rebuild_fold_ids) (auto simp del: upt_Suc)
  then have "unat i \<le> ?n" using assms(2) unfolding NewValueStore_def rebuildHashMap_def by blast
  with n have "unat i < 2 ^ 40" by simp
  then have "drop_bit 40 (i AND TierMask) = 0"
    by (intro bit_word_eqI) (simp add: bit_drop_bit_eq bit_and_iff not_bit_ge [where n = 40])
  then show ?thesis by (simp add: extractTier_def OffsetBits_def)
qed

definition dir1 :: "nat \<Rightarrow> u64 \<Rightarrow> gofile option" where
  "dir1 t b = (if t = 0 \<and> b = 0 then Some (0 # serializeValue (num 1)) else None)"

lemma restart_finds_small:
  "hashToValueID (NewValueStore nosha dir1 (replicate 100 0)) (hashValue nosha (num 1)) = Some 1"
proof -
  let ?vs = "\<lparr>tierDir = dir1, tierFiles = (\<lambda>_. []), tier3File = replicate 100 0, currentBucket = (\<lambda>_. 0),
        freeLists = (\<lambda>_. NewFreeList), hashToValueID = Map.empty, referenceCount = Map.empty\<rparr>"
  have ids: "extractTier 1 = 0" "extractBucket 1 = 0" "extractOffset 1 = 1" "encodeValueID 0 0 1 = 1"
    by code_simp+
  have "fileAt ?vs 0 = 0 # serializeValue (num 1)"
    by (simp add: fileAt_def bucketContent_def dir1_def)
  then have "stored_at ?vs 1 (num 1)"
    using ids by (simp add: stored_at_def slice_def determineTier_def Tier0MaxSize_def)
  then have r: "fst (readValue ?vs 1) = Inr (num 1)" by (rule readValue_stored)
  have "determineMaxValueID ?vs = 1" by (simp add: determineMaxValueID_def Let_def)
  then have "NewValueStore nosha dir1 (replicate 100 0) = rebuildStep nosha 1 ?vs"
    by (simp add: NewValueStore_def rebuildHashMap_def)
  then show ?thesis
    using r by (simp add: rebuildStep_def case_prod_unfold split: sum.split)
qed

theorem restart_indexes_smallest_tier_only_witness:
  "hashToValueID (NewValueStore nosha dir1 (replicate 100 0)) (hashValue nosha (num 1)) = Some 1 \<and>
   extractTier 1 = 0"
  using restart_indexes_smallest_tier_only [OF _ restart_finds_small] restart_finds_small by simp

subsection \<open>The instance store\<close>

definition insts1 :: "Instance list" where
  "insts1 = [\<lparr>iID = 1, iValueID = 70, iOlderInstanceID = 0, iTimestamp = 5, iAuthorID = 9\<rparr>,
             \<lparr>iID = 2, iValueID = 71, iOlderInstanceID = 1, iTimestamp = 6, iAuthorID = 9\<rparr>]"

definition instances1 :: InstanceStore where
  "instances1 = NewInstanceStore (file_of serializeInstance insts1)"

lemma instances1_facts: "is_rep instances1 insts1" "backward insts1" "valid_id insts1 2" "valid_id insts1 1"
proof -
  have "ids_ok iID insts1" by (auto simp: ids_ok_def insts1_def less_Suc_eq)
  then show "is_rep instances1 insts1" unfolding instances1_def
    by (rule NewInstanceStore_rep) (simp add: insts1_def few_def)
  show "backward insts1" by (simp add: backward_def insts1_def less_Suc_eq)
  show "valid_id insts1 2" "valid_id insts1 1" by (simp_all add: valid_id_def insts1_def)
qed

lemma chain1: "chain insts1 2 = [insts1 ! 1, insts1 ! 0]"
  using chain_valid [OF instances1_facts(2,3)] chain_valid [OF instances1_facts(2,4)]
  by (simp add: nth_rec_def insts1_def)

text \<open>
  C7. On a store in which every instance points to an earlier one, the chain walk ends and
  returns the instances from the newest to the oldest, and the search for a time ends and
  returns the first of them that is not newer than that time, or 0.
\<close>

theorem instance_walks_return:
  assumes "is_rep is insts" "backward insts" "i = 0 \<or> valid_id insts i"
  shows "GetInstanceChain is i = Some (Inr (chain insts i)) \<and>
    FindInstanceAtTime is i t =
      Some (Inr (case active_at t (chain insts i) of None \<Rightarrow> 0 | Some inst \<Rightarrow> iID inst))"
  using GetInstanceChain_rep [OF assms] FindInstanceAtTime_rep [OF assms] by simp

theorem instance_walks_return_witness:
  "GetInstanceChain instances1 2 = Some (Inr [insts1 ! 1, insts1 ! 0]) \<and>
   FindInstanceAtTime instances1 2 5 = Some (Inr 1)"
  using instance_walks_return [OF instances1_facts(1,2) disjI2 [OF instances1_facts(3)], of 5]
  unfolding chain1 by (simp add: active_at_def insts1_def word_sle_eq)

text \<open>
  Appending an instance whose older link is empty or names a stored instance extends the
  store by that record: it gets the next ID, its chain is the new record followed by the older
  chain, every chain of the old store is unchanged, and all links still point backwards.
\<close>

theorem WriteInstance_extends:
  assumes "is_rep is insts" "backward insts" "few (Suc (length insts))"
    and "older = 0 \<or> valid_id insts older" and "WriteInstance now is v older a = (i, is')"
  shows "\<exists>insts'. is_rep is' insts' \<and> backward insts' \<and> unat i = Suc (length insts) \<and>
    chain insts' i = \<lparr>iID = i, iValueID = v, iOlderInstanceID = older, iTimestamp = now, iAuthorID = a\<rparr> # chain insts older \<and>
    (\<forall>j. j = 0 \<or> valid_id insts j \<longrightarrow> chain insts' j = chain insts j)"
proof -
  let ?r = "\<lparr>iID = i, iValueID = v, iOlderInstanceID = older, iTimestamp = now, iAuthorID = a\<rparr>"
  have o: "unat (iOlderInstanceID ?r) \<le> length insts" using assms(4) by (auto simp: valid_id_def)
  note w = WriteInstance_rep [OF assms(1,3,5)]
  show ?thesis
    using w backward_append [OF assms(2) o] chain_new [OF assms(2) w(1), of ?r] assms(4)
      chain_append [OF assms(2) _ o]
    by (intro exI [of _ "insts @ [?r]"]) simp
qed

theorem WriteInstance_extends_witness:
  "\<exists>insts'. is_rep (snd (WriteInstance 8 instances1 72 2 9)) insts' \<and> backward insts' \<and>
    length (chain insts' (fst (WriteInstance 8 instances1 72 2 9))) = 3"
proof -
  have "few (Suc (length insts1))" by (simp add: few_def insts1_def)
  from WriteInstance_extends [OF instances1_facts(1,2) this disjI2 [OF instances1_facts(3)] prod.collapse [symmetric]]
  show ?thesis using chain1 by fastforce
qed

text \<open>
  Purging a time range walks the whole chain, reports the number of its instances in the
  range, and changes exactly those records: each becomes the tombstoned one, whose link to the
  older instance is overwritten and whose author stays as it was.
\<close>

lemma purge_marks_range:
  assumes "is_rep is insts" "backward insts" "i = 0 \<or> valid_id insts i"
  shows "\<exists>is' insts'. PurgeInstancesInTimeRange is i from to a =
      Some ((None, length (filter (in_range from to) (chain insts i))), is') \<and>
    is_rep is' insts' \<and> purged insts {x \<in> set (chain insts i). in_range from to x} insts insts'"
  using PurgeInstancesInTimeRange_rep [OF assms] by metis

lemma purge_marks_range_witness:
  "\<exists>is' insts'. PurgeInstancesInTimeRange instances1 2 6 6 9 = Some ((None, 1), is') \<and> is_rep is' insts' \<and>
    nth_rec insts' 1 = insts1 ! 0 \<and> nth_rec insts' 2 = tombstoned (insts1 ! 1)"
proof -
  have f: "filter (in_range 6 6) (chain insts1 2) = [insts1 ! 1]"
    "nth_rec insts1 1 = insts1 ! 0" "nth_rec insts1 2 = insts1 ! 1" "insts1 ! 0 \<noteq> insts1 ! 1"
    unfolding chain1 by (simp_all add: in_range_def insts1_def word_sle_eq nth_rec_def)
  then have s: "{x \<in> set (chain insts1 2). in_range 6 6 x} = {insts1 ! 1}"
    by (metis list.set(1) list.simps(15) set_filter)
  from purge_marks_range [OF instances1_facts(1,2) disjI2 [OF instances1_facts(3)], of 6 6 9]
  obtain is' insts' where p: "PurgeInstancesInTimeRange instances1 2 6 6 9 = Some ((None, length [insts1 ! 1]), is')"
    "is_rep is' insts'" "purged insts1 {insts1 ! 1} insts1 insts'"
    unfolding s f(1) by blast
  moreover have "nth_rec insts' 1 = insts1 ! 0" "nth_rec insts' 2 = tombstoned (insts1 ! 1)"
    using p(3) instances1_facts(3,4) f(2-4) by (simp_all add: purged_def)
  ultimately show ?thesis by auto
qed

text \<open>
  What tombstoning does to the record: the author stays, the link to the older instance is
  overwritten, so that a later walk over the chain from this instance fails with a seek error
  and the older versions can no longer be reached from it.
\<close>

theorem tombstone_cuts_chain:
  assumes "is_rep is insts" "valid_id insts i"
  shows "\<exists>is'. TombstoneInstance is i a = Inr is' \<and>
    ReadInstance is' i = Inr ((nth_rec insts i)\<lparr>iOlderInstanceID := - 1\<rparr>) \<and>
    GetInstanceChain is' i = Some (Inl (RecordIO SeekError))"
proof -
  let ?r = "(nth_rec insts i)\<lparr>iOlderInstanceID := - 1\<rparr>" and ?k = "unat i - 1"
  obtain is' where t: "TombstoneInstance is i a = Inr is'" "is_rep is' (insts[?k := ?r])"
    using TombstoneInstance_rep [OF assms] by metis
  have v: "valid_id (insts[?k := ?r]) i" "nth_rec (insts[?k := ?r]) i = ?r"
    using assms(2) nth_rec_update [OF assms(2,2)] by auto
  show ?thesis
    using t ReadInstance_rep [OF t(2) v(1)] GetInstanceChain_tombstoned [OF t(2) v(1)] v(2) by auto
qed

theorem tombstone_cuts_chain_witness:
  "\<exists>is'. TombstoneInstance instances1 2 9 = Inr is' \<and> GetInstanceChain is' 2 = Some (Inl (RecordIO SeekError))"
  using tombstone_cuts_chain [OF instances1_facts(1,3)] by blast

subsection \<open>The hash index\<close>

text \<open>
  C8. The chained hash table is a map: after an insertion the label maps to the new attribute
  and all other labels to what they did, after a removal it maps to nothing, the removal reports
  whether the label was present, and both keep the table well formed.
\<close>

theorem hash_index_is_map:
  assumes "hi_inv hi" "hi_Remove l hi = (found, hi')"
  shows "hi_inv (hi_Insert l a hi) \<and> hi_Lookup (hi_Insert l a hi) = (hi_Lookup hi)(l \<mapsto> a) \<and>
    hi_inv hi' \<and> hi_Lookup hi' = (hi_Lookup hi)(l := None) \<and> (found \<longleftrightarrow> hi_Lookup hi l \<noteq> None)"
  using Insert_correct [OF assms(1)] Remove_correct [OF assms] by simp

lemma new_index: "hi_inv (NewHashIndex n)" "hi_Lookup (NewHashIndex n) = Map.empty"
  using Clear_correct [OF NewHashIndex_Clear(2)] NewHashIndex_Clear(1) by metis+

theorem hash_index_is_map_witness:
  "hi_Lookup (hi_Insert 3 8 (hi_Insert 3 7 (NewHashIndex 4))) 3 = Some 8 \<and>
   hi_Lookup (snd (hi_Remove 3 (hi_Insert 3 7 (NewHashIndex 4)))) 3 = None \<and>
   fst (hi_Remove 3 (hi_Insert 3 7 (NewHashIndex 4)))"
proof -
  have h: "hi_inv (hi_Insert 3 7 (NewHashIndex 4))" "hi_Lookup (hi_Insert 3 7 (NewHashIndex 4)) 3 = Some 7"
    using Insert_correct [OF new_index(1)] by simp_all
  show ?thesis
    using hash_index_is_map [OF h(1) prod.collapse [symmetric], of 3 8] h(2) by simp
qed

text \<open>
  Rebuilding the index from an attribute store reads every attribute without error and
  maps each label to the last attribute that carries it, whatever the index held before.
\<close>

theorem hash_index_rebuild:
  assumes "as_rep as attrs" "0 < hiBucketCount hi"
  shows "\<exists>hi'. RebuildFromAttributeStore as hi = (Inr (), hi') \<and> hi_inv hi' \<and>
    hi_Lookup hi' = map_of (rev (map (\<lambda>a. (aLabelValueID a, aID a)) attrs))"
  by (rule Rebuild_rep [OF assms]) (auto simp: attr_entries_def)

definition attrs1 :: "Attribute list" where
  "attrs1 = [\<lparr>aID = 1, aLabelValueID = 40, aFirstInstanceID = 2, aNextAttributeID = 0\<rparr>,
             \<lparr>aID = 2, aLabelValueID = 50, aFirstInstanceID = 0, aNextAttributeID = 0\<rparr>]"

lemma attrs1_rep: "as_rep (NewAttributeStore (file_of serializeAttribute attrs1)) attrs1"
  by (rule NewAttributeStore_rep) (auto simp: ids_ok_def attrs1_def few_def less_Suc_eq)

theorem hash_index_rebuild_witness:
  "\<exists>hi'. RebuildFromAttributeStore (NewAttributeStore (file_of serializeAttribute attrs1)) (NewHashIndex 0) = (Inr (), hi') \<and>
    hi_Lookup hi' 50 = Some 2 \<and> hi_Lookup hi' 60 = None"
  using hash_index_rebuild [OF attrs1_rep NewHashIndex_Clear(2), of 0] by (auto simp: attrs1_def)

text \<open>
  C9. Restarting on the files of a tree in which no two attributes share a label rebuilds the
  same index: the lookups of the reopened tree are those of the tree that was closed, and its
  attribute and instance stores hold the same records.
\<close>

theorem restart_keeps_records:
  assumes "tree_state sha st attrs insts"
  shows "\<exists>st'. NewStorageTree sha (tierDir (stValueStore st)) (tier3File (stValueStore st))
      (isFile (stInstanceStore st)) (asFile (stAttributeStore st)) = Inr st' \<and>
    hi_inv (stHashIndex st') \<and> hi_Lookup (stHashIndex st') = hi_Lookup (stHashIndex st) \<and>
    as_rep (stAttributeStore st') attrs \<and> is_rep (stInstanceStore st') insts"
proof -
  note a = ts_as [OF assms] and i = ts_is [OF assms]
  have ar: "as_rep (NewAttributeStore (asFile (stAttributeStore st))) attrs"
    unfolding as_rep_file [OF a] by (rule NewAttributeStore_rep [OF as_rep_ids [OF a] as_rep_few [OF a]])
  have ir: "is_rep (NewInstanceStore (isFile (stInstanceStore st))) insts"
    unfolding is_rep_file [OF i] by (rule NewInstanceStore_rep [OF is_rep_ids [OF i] is_rep_few [OF i]])
  obtain hi where r: "RebuildFromAttributeStore (NewAttributeStore (asFile (stAttributeStore st))) (NewHashIndex 0) = (Inr (), hi)"
    "hi_inv hi" "hi_Lookup hi = map_of (rev (attr_entries attrs))"
    by (rule Rebuild_rep [OF ar NewHashIndex_Clear(2)])
  have "distinct (map fst (attr_entries attrs))"
    using ts_closed [OF assms] by (simp add: closed_def attr_entries_def comp_def)
  then have "hi_Lookup hi = hi_Lookup (stHashIndex st)"
    unfolding r(3) ts_lookup [OF assms] by (simp add: map_of_rev_distinct)
  then show ?thesis using ar ir r by (simp add: NewStorageTree_def)
qed

lemma tree1_state: "\<exists>attrs insts. tree_state nosha tree1 attrs insts"
  using tree1_rep unfolding tree_rep_def by blast

theorem restart_keeps_records_witness:
  "\<exists>st'. NewStorageTree nosha (tierDir (stValueStore tree1)) (tier3File (stValueStore tree1))
      (isFile (stInstanceStore tree1)) (asFile (stAttributeStore tree1)) = Inr st' \<and>
    hi_Lookup (stHashIndex st') = hi_Lookup (stHashIndex tree1)"
  using restart_keeps_records tree1_state by metis

subsection \<open>The free list\<close>

text \<open>
  Allocation from a well-formed free list is first fit without loss: it fails, leaving the
  list as it is, exactly when every block is too small; otherwise the region handed out was
  free, is no longer, and nothing else changed.
\<close>

theorem AllocateSpace_exact:
  assumes "fl_inv fl"
  shows "case AllocateSpace sz fl of
      (None, fl') \<Rightarrow> fl' = fl \<and> (\<forall>b \<in> set fl. fbSize b < sz)
    | (Some p, fl') \<Rightarrow> fl_inv fl' \<and> region p sz \<subseteq> free_set fl \<and> free_set fl' = free_set fl - region p sz"
proof (cases "AllocateSpace sz fl")
  case (Pair r fl')
  then show ?thesis
    using AllocateSpace_None_iff [of sz fl] AllocateSpace_Some [OF assms]
    by (cases r) (auto dest: AllocateSpace_None)
qed

theorem AllocateSpace_exact_witness:
  "case AllocateSpace 16 [\<lparr>fbOffset = 8, fbSize = 4\<rparr>, \<lparr>fbOffset = 100, fbSize = 40\<rparr>] of
      (None, fl') \<Rightarrow> False
    | (Some p, fl') \<Rightarrow> p = 100 \<and> fl_inv fl'"
proof -
  have "fl_inv [\<lparr>fbOffset = 8, fbSize = 4\<rparr>, \<lparr>fbOffset = 100, fbSize = 40\<rparr>]"
    by (simp add: fl_inv_def block_ok_def block_end_def)
  from AllocateSpace_exact [OF this, of 16] show ?thesis by simp
qed

text \<open>
  Returning a region that is not free makes exactly its bytes free as well, and the list
  stays sorted with adjacent blocks merged. Returning what an allocation handed out restores the
  set of free bytes.
\<close>

theorem AddBlock_exact:
  assumes "fl_inv fl" "0 < unat sz" "unat p + unat sz < 2 ^ 64" "region p sz \<inter> free_set fl = {}"
  shows "fl_inv (AddBlock p sz fl) \<and> free_set (AddBlock p sz fl) = free_set fl \<union> region p sz"
  using AddBlock_free_set [OF assms] by simp

theorem AddBlock_exact_witness:
  "fl_inv (AddBlock 8 4 [\<lparr>fbOffset = 12, fbSize = 4\<rparr>]) \<and>
   AddBlock 8 4 [\<lparr>fbOffset = 12, fbSize = 4\<rparr>] = [\<lparr>fbOffset = 8, fbSize = 8\<rparr>]"
proof -
  have "fl_inv [\<lparr>fbOffset = 12, fbSize = 4\<rparr>]" "region 8 4 \<inter> free_set [\<lparr>fbOffset = 12, fbSize = 4\<rparr>] = {}"
    by (auto simp: fl_inv_def block_ok_def block_end_def region_def)
  from AddBlock_exact [OF this(1) _ _ this(2)]
  have "fl_inv (AddBlock 8 4 [\<lparr>fbOffset = 12, fbSize = 4\<rparr>])" by simp
  moreover have "AddBlock 8 4 [\<lparr>fbOffset = 12, fbSize = 4\<rparr>] = [\<lparr>fbOffset = 8, fbSize = 8\<rparr>]" by code_simp
  ultimately show ?thesis by simp
qed

end
