(* ===== verification/Wire_Fields.thy ===== *)
theory Wire_Fields
  imports Value_Format
begin

text \<open>
  The field layer of the wire protocol (\<open>src/internal/protocol/encode.go\<close> and
  \<open>decode.go\<close>): tagged fields with big endian integers and length-prefixed data. A
  \<open>bytes.Reader\<close> is the list of the bytes not yet read; every read returns the value and the
  rest. The loop over the fields of a payload is a partial function, shown to return on every
  payload because no field reader lengthens its input.
\<close>

datatype wire_error =
    ReaderEOF
  | UnexpectedEOF
  | ShortRead nat nat
  | UnexpectedTag u8 u8
  | InvalidFieldLength u32
  | MessageTooShort nat
  | SizeMismatch nat nat
  | PayloadLengthMismatch u32 nat
  | ChecksumMismatch u32 u32
  | UnsupportedVersion u8
  | ChildrenCountTooLarge u32
  | ChildNameTooLong u32

type_synonym 'a reader = "bytes \<Rightarrow> wire_error + ('a \<times> bytes)"

subsection \<open>Reading from \<open>bytes.Reader\<close>\<close>

definition ReadByte :: "u8 reader" where
  "ReadByte r = (case r of [] \<Rightarrow> Inl ReaderEOF | b # r' \<Rightarrow> Inr (b, r'))"

text \<open>\<open>io.ReadFull\<close>, which \<open>binary.Read\<close> uses.\<close>

definition ReadFull :: "nat \<Rightarrow> bytes reader" where
  "ReadFull n r =
     (if n = 0 then Inr ([], r)
      else if r = [] then Inl ReaderEOF
      else if length r < n then Inl UnexpectedEOF
      else Inr (take n r, drop n r))"

definition binRead8 :: "u8 reader" where
  "binRead8 r = rmap (\<lambda>(d, r'). (hd d, r')) (ReadFull 1 r)"

definition binRead32 :: "u32 reader" where
  "binRead32 r = rmap (\<lambda>(d, r'). (get_be d, r')) (ReadFull 4 r)"

definition binRead64 :: "u64 reader" where
  "binRead64 r = rmap (\<lambda>(d, r'). (get_be d, r')) (ReadFull 8 r)"

text \<open>\<open>Reader.Read\<close> into a buffer of \<open>n\<close> bytes, with the callers' check that it was filled.
  At the end of the data it returns \<open>io.EOF\<close>, also for an empty buffer.\<close>

definition ReadExact :: "nat \<Rightarrow> bytes reader" where
  "ReadExact n r =
     (if r = [] then Inl ReaderEOF
      else if length r < n then Inl (ShortRead (length r) n)
      else Inr (take n r, drop n r))"

definition readString :: "gostring reader" where
  "readString r = rbind (binRead32 r) (\<lambda>(len, r'). ReadExact (unat len) r')"

fun readStrings :: "nat \<Rightarrow> gostring list \<Rightarrow> gostring list reader" where
  "readStrings 0 acc r = Inr (acc, r)"
| "readStrings (Suc n) acc r = rbind (readString r) (\<lambda>(s, r'). readStrings n (acc @ [s]) r')"

definition readStringSlice :: "gostring list reader" where
  "readStringSlice r = rbind (binRead32 r) (\<lambda>(len, r'). readStrings (unat len) [] r')"

definition readBool :: "bool reader" where
  "readBool r = rmap (\<lambda>(b, r'). (b \<noteq> 0, r')) (ReadByte r)"

definition wire_readValue :: "Value reader" where
  "wire_readValue r =
     rbind (ReadByte r) (\<lambda>(typeTag, r1).
       rbind (binRead32 r1) (\<lambda>(len, r2).
         rmap (\<lambda>(d, r3). (\<lparr>vTypeTag = typeTag, vData = d\<rparr>, r3)) (ReadExact (unat len) r2)))"

definition skipField :: "u8 \<Rightarrow> bytes \<Rightarrow> wire_error + bytes" where
  "skipField tag r =
     (if 0x01 \<le> tag \<and> tag \<le> 0x10 then
        rbind (binRead32 r) (\<lambda>(len, r').
          if of_nat (length r') < len then Inl (InvalidFieldLength len)
          else Inr (drop (unat len) r'))
      else rmap snd (ReadByte r))"

definition decodeStringSlice :: "bytes \<Rightarrow> u8 \<Rightarrow> wire_error + gostring list" where
  "decodeStringSlice payload expectedTag =
     rbind (ReadByte payload) (\<lambda>(tag, r).
       if tag \<noteq> expectedTag then Inl (UnexpectedTag expectedTag tag)
       else rmap fst (readStringSlice r))"

definition decodeValue :: "bytes \<Rightarrow> u8 \<Rightarrow> wire_error + Value" where
  "decodeValue payload expectedTag =
     rbind (ReadByte payload) (\<lambda>(tag, r).
       if tag \<noteq> expectedTag then Inl (UnexpectedTag expectedTag tag)
       else rmap fst (wire_readValue r))"

subsection \<open>Writing fields\<close>

definition encodeString :: "u8 \<Rightarrow> gostring \<Rightarrow> bytes" where
  "encodeString tag s = tag # put_be 4 (of_nat (length s) :: u32) @ s"

definition encodeStringSlice :: "u8 \<Rightarrow> gostring list \<Rightarrow> bytes" where
  "encodeStringSlice tag ss =
     tag # put_be 4 (of_nat (length ss) :: u32) @
     concat (map (\<lambda>s. put_be 4 (of_nat (length s) :: u32) @ s) ss)"

definition encodeValue :: "u8 \<Rightarrow> Value \<Rightarrow> bytes" where
  "encodeValue tag v =
     tag # vTypeTag v # put_be 4 (of_nat (length (vData v)) :: u32) @ vData v"

definition encodeBool :: "u8 \<Rightarrow> bool \<Rightarrow> bytes" where
  "encodeBool tag b = [tag, if b then 1 else 0]"

definition encodeUint64 :: "u8 \<Rightarrow> u64 \<Rightarrow> bytes" where
  "encodeUint64 tag v = tag # put_be 8 v"

definition encodeInt64 :: "u8 \<Rightarrow> i64 \<Rightarrow> bytes" where
  "encodeInt64 tag v = tag # put_be 8 v"

definition encodeUint32 :: "u8 \<Rightarrow> u32 \<Rightarrow> bytes" where
  "encodeUint32 tag v = tag # put_be 4 v"

definition encodeInt32 :: "u8 \<Rightarrow> i32 \<Rightarrow> bytes" where
  "encodeInt32 tag v = tag # put_be 4 v"

subsection \<open>The field loop\<close>

text \<open>
  A case of the decoders' \<open>switch\<close> reads a field and stores it in the message; the default
  case skips the field.
\<close>

type_synonym 'm field_case = "'m \<Rightarrow> 'm reader"

definition store :: "'a reader \<Rightarrow> ('a \<Rightarrow> 'm \<Rightarrow> 'm) \<Rightarrow> 'm field_case" where
  "store rd upd msg r = rmap (\<lambda>(x, r'). (upd x msg, r')) (rd r)"

definition switch :: "(u8 \<times> 'm field_case) list \<Rightarrow> u8 \<Rightarrow> 'm field_case" where
  "switch cases tag msg r =
     (case map_of cases tag of
        Some h \<Rightarrow> h msg r
      | None \<Rightarrow> rmap (\<lambda>r'. (msg, r')) (skipField tag r))"

partial_function (option) fields_loop ::
  "(u8 \<times> 'm field_case) list \<Rightarrow> 'm \<Rightarrow> bytes \<Rightarrow> (wire_error + 'm) option" where
  "fields_loop cases msg r =
     (if r = [] then Some (Inr msg)
      else case ReadByte r of
             Inl e \<Rightarrow> Some (Inl e)
           | Inr (tag, r1) \<Rightarrow>
               (case switch cases tag msg r1 of
                  Inl e \<Rightarrow> Some (Inl e)
                | Inr (msg', r2) \<Rightarrow> fields_loop cases msg' r2))"

lemma fields_loop_Nil [simp]: "fields_loop cases msg [] = Some (Inr msg)"
  by (simp add: fields_loop.simps)

lemma fields_loop_Cons:
  "fields_loop cases msg (tag # r) =
     (case switch cases tag msg r of
        Inl e \<Rightarrow> Some (Inl e)
      | Inr (msg', r') \<Rightarrow> fields_loop cases msg' r')"
  by (simp add: fields_loop.simps [of cases msg "tag # r"] ReadByte_def)

subsection \<open>Readers make progress\<close>

definition shrinks :: "'a reader \<Rightarrow> bool" where
  "shrinks rd \<longleftrightarrow> (\<forall>r x r'. rd r = Inr (x, r') \<longrightarrow> length r' \<le> length r)"

lemma shrinksD: "shrinks rd \<Longrightarrow> rd r = Inr (x, r') \<Longrightarrow> length r' \<le> length r"
  by (simp add: shrinks_def)

named_theorems progress \<open>readers that do not lengthen their input\<close>

lemma shrinks_basic [progress]:
  "shrinks ReadByte" "shrinks (ReadFull n)" "shrinks (ReadExact n)"
  by (auto simp: shrinks_def ReadByte_def ReadFull_def ReadExact_def split: list.splits if_splits)

lemma shrinks_bind [progress]:
  assumes "shrinks f" "\<And>x. shrinks (g x)"
  shows "shrinks (\<lambda>r. rbind (f r) (\<lambda>(x, r'). g x r'))"
  unfolding shrinks_def
proof (intro allI impI)
  fix r y r' assume "rbind (f r) (\<lambda>(x, r'). g x r') = Inr (y, r')"
  then obtain x r1 where "f r = Inr (x, r1)" "g x r1 = Inr (y, r')" by (auto simp: result_iff)
  then show "length r' \<le> length r" using shrinksD [OF assms(1)] shrinksD [OF assms(2)] by (meson le_trans)
qed

lemma shrinks_map [progress]: "shrinks f \<Longrightarrow> shrinks (\<lambda>r. rmap (\<lambda>(x, r'). (h x, r')) (f r))"
  by (auto simp: shrinks_def result_iff)

lemma shrinks_binRead [progress]: "shrinks binRead8" "shrinks binRead32" "shrinks binRead64"
  unfolding binRead8_def [abs_def] binRead32_def [abs_def] binRead64_def [abs_def]
  by (intro progress)+

lemma shrinks_readString [progress]: "shrinks readString"
  unfolding readString_def [abs_def] by (intro progress)

lemma shrinks_readStrings [progress]: "shrinks (readStrings n acc)"
proof (induction n arbitrary: acc)
  case (Suc n)
  have "readStrings (Suc n) acc = (\<lambda>r. rbind (readString r) (\<lambda>(s, r'). readStrings n (acc @ [s]) r'))"
    by (simp add: fun_eq_iff)
  then show ?case using shrinks_bind [OF shrinks_readString Suc.IH] by simp
qed (simp add: shrinks_def)

lemma shrinks_fields [progress]: "shrinks readStringSlice" "shrinks readBool" "shrinks wire_readValue"
  unfolding readStringSlice_def [abs_def] readBool_def [abs_def] wire_readValue_def [abs_def]
  by (intro progress)+

lemma shrinks_store [progress]: "shrinks rd \<Longrightarrow> shrinks (store rd upd msg)"
  unfolding store_def [abs_def] by (intro progress)

lemma skipField_shrinks: "skipField tag r = Inr r' \<Longrightarrow> length r' \<le> length r"
  using shrinksD [OF shrinks_binRead(2)] shrinksD [OF shrinks_basic(1)]
  by (fastforce simp: skipField_def result_iff split: if_splits)

lemma switch_shrinks:
  assumes "\<forall>(tag, h) \<in> set cases. \<forall>msg. shrinks (h msg)"
  shows "shrinks (switch cases tag msg)"
proof (cases "map_of cases tag")
  case None
  then show ?thesis
    using skipField_shrinks by (auto simp: shrinks_def switch_def result_iff)
next
  case (Some h)
  then have "(tag, h) \<in> set cases" by (rule map_of_SomeD)
  then have "shrinks (h msg)" using assms by fast
  with Some show ?thesis by (simp add: shrinks_def switch_def)
qed

text \<open>The loop returns on every payload.\<close>

lemma fields_loop_total:
  assumes "\<forall>(tag, h) \<in> set cases. \<forall>msg. shrinks (h msg)"
  shows "\<exists>y. fields_loop cases msg r = Some y"
proof (induction r arbitrary: msg rule: length_induct)
  case (1 r)
  show ?case
  proof (cases r)
    case (Cons tag r1)
    show ?thesis
    proof (cases "switch cases tag msg r1")
      case (Inr p)
      obtain msg' r2 where p: "p = (msg', r2)" by fastforce
      then have "length r2 < length r"
        using shrinksD [OF switch_shrinks [OF assms]] Inr Cons by fastforce
      with 1 Inr p Cons show ?thesis by (simp add: fields_loop_Cons)
    qed (simp add: Cons fields_loop_Cons)
  qed simp
qed

subsection \<open>Round trips of the fields\<close>

named_theorems wire_simps \<open>reading back what an encoder wrote\<close>

lemma ReadByte_Cons [wire_simps]: "ReadByte (b # r) = Inr (b, r)"
  by (simp add: ReadByte_def)

lemma binRead_put [wire_simps]:
  "binRead32 (put_be 4 w @ r) = Inr (w, r)"
  "binRead64 (put_be 8 v @ r) = Inr (v, r)"
  "binRead32 (put_be 4 w) = Inr (w, [])"
  "binRead64 (put_be 8 v) = Inr (v, [])"
  by (simp_all add: binRead32_def binRead64_def ReadFull_def)

text \<open>A length-prefixed string reads back unless it is empty and nothing follows it.\<close>

lemma readString_put [wire_simps]:
  "length s < 2 ^ 32 \<Longrightarrow> s \<noteq> [] \<or> r \<noteq> [] \<Longrightarrow>
   readString (put_be 4 (of_nat (length s) :: u32) @ s @ r) = Inr (s, r)"
  "length s < 2 ^ 32 \<Longrightarrow> s \<noteq> [] \<Longrightarrow>
   readString (put_be 4 (of_nat (length s) :: u32) @ s) = Inr (s, [])"
  by (auto simp: readString_def binRead_put ReadExact_def)

lemma readString_empty_end: "readString (put_be 4 (0 :: u32)) = Inl ReaderEOF"
  by (simp add: readString_def binRead_put ReadExact_def)

definition strings_ok :: "gostring list \<Rightarrow> bool" where
  "strings_ok ss \<longleftrightarrow> length ss < 2 ^ 32 \<and> list_all (\<lambda>s. length s < 2 ^ 32) ss"

definition put_strings :: "gostring list \<Rightarrow> bytes" where
  "put_strings ss = concat (map (\<lambda>s. put_be 4 (of_nat (length s) :: u32) @ s) ss)"

lemma readStrings_put:
  assumes "list_all (\<lambda>s. length s < 2 ^ 32) ss" "ss = [] \<or> last ss \<noteq> [] \<or> r \<noteq> []"
  shows "readStrings (length ss) acc (put_strings ss @ r) = Inr (acc @ ss, r)"
  using assms
proof (induction ss arbitrary: acc)
  case (Cons s ss)
  have ne: "s \<noteq> [] \<or> put_strings ss @ r \<noteq> []"
  proof (cases ss)
    case (Cons t ts)
    then show ?thesis by (simp add: put_strings_def)
  qed (use Cons.prems(2) in auto)
  have "readString (put_be 4 (of_nat (length s) :: u32) @ s @ put_strings ss @ r) = Inr (s, put_strings ss @ r)"
    using Cons.prems(1) ne by (intro readString_put) auto
  then show ?case
    using Cons.IH [of "acc @ [s]"] Cons.prems by (auto simp: put_strings_def split: if_splits)
qed (simp add: put_strings_def)

lemma readStringSlice_put [wire_simps]:
  "strings_ok ss \<Longrightarrow> ss = [] \<or> last ss \<noteq> [] \<or> r \<noteq> [] \<Longrightarrow>
   readStringSlice (put_be 4 (of_nat (length ss) :: u32) @ put_strings ss @ r) = Inr (ss, r)"
  "strings_ok ss \<Longrightarrow> ss = [] \<or> last ss \<noteq> [] \<Longrightarrow>
   readStringSlice (put_be 4 (of_nat (length ss) :: u32) @ put_strings ss) = Inr (ss, [])"
  using readStrings_put [of ss r "[]"] readStrings_put [of ss "[]" "[]"]
  by (auto simp: readStringSlice_def binRead_put strings_ok_def)

lemma readBool_put [wire_simps]:
    "readBool ((if b then 1 else 0) # r) = Inr (b, r)"
    "readBool (0 # r) = Inr (False, r)" "readBool (1 # r) = Inr (True, r)"
  by (simp_all add: readBool_def ReadByte_def)

lemma wire_readValue_put [wire_simps]:
  "length (vData v) < 2 ^ 32 \<Longrightarrow> vData v \<noteq> [] \<or> r \<noteq> [] \<Longrightarrow>
   wire_readValue (vTypeTag v # put_be 4 (of_nat (length (vData v)) :: u32) @ vData v @ r) = Inr (v, r)"
  "length (vData v) < 2 ^ 32 \<Longrightarrow> vData v \<noteq> [] \<Longrightarrow>
   wire_readValue (vTypeTag v # put_be 4 (of_nat (length (vData v)) :: u32) @ vData v) = Inr (v, [])"
  by (auto simp: wire_readValue_def binRead_put ReadByte_Cons ReadExact_def)

lemmas encode_defs = encodeString_def encodeStringSlice_def [folded put_strings_def] encodeValue_def
  encodeBool_def encodeUint64_def encodeInt64_def encodeUint32_def encodeInt32_def

lemmas loop_simps = fields_loop_Cons switch_def store_def encode_defs

end
