(* ===== verification/Wire_Frame.thy ===== *)
theory Wire_Frame
  imports Wire_Fields
begin

text \<open>
  Message frames of the wire protocol: a fixed header, the payload and its CRC-32
  (\<open>EncodeMessage\<close>, \<open>DecodeMessage\<close>, \<open>CreateMessage\<close>). The locale \<open>wire_codec\<close> is the
  contract of a payload encoder and decoder; from it follows delivery of a message through a
  frame.
\<close>

record Message =
  mVersion :: u8
  mType :: u8
  mSequence :: u32
  mPayloadLength :: u32
  mPayload :: bytes
  mChecksum :: u32

definition Version :: u8 where "Version = 0x01"

text \<open>\<open>crc32.ChecksumIEEE\<close>, bit by bit with the reflected polynomial.\<close>

definition crc_bit :: "u32 \<Rightarrow> u32" where
  "crc_bit c = (if bit c 0 then drop_bit 1 c XOR 0xEDB88320 else drop_bit 1 c)"

definition crc_byte :: "u8 \<Rightarrow> u32 \<Rightarrow> u32" where
  "crc_byte b c = (crc_bit ^^ 8) (c XOR ucast b)"

definition ChecksumIEEE :: "bytes \<Rightarrow> u32" where
  "ChecksumIEEE d = NOT (fold crc_byte d 0xFFFFFFFF)"

definition EncodeMessage :: "Message \<Rightarrow> wire_error + bytes" where
  "EncodeMessage msg =
     (if length (mPayload msg) \<noteq> unat (mPayloadLength msg)
      then Inl (PayloadLengthMismatch (mPayloadLength msg) (length (mPayload msg)))
      else Inr (mVersion msg # mType msg # put_be 4 (mSequence msg) @ put_be 4 (mPayloadLength msg) @
                mPayload msg @ put_be 4 (mChecksum msg)))"

definition CreateMessage :: "u8 \<Rightarrow> u32 \<Rightarrow> bytes \<Rightarrow> Message" where
  "CreateMessage msgType sequence payload =
     \<lparr>mVersion = Version, mType = msgType, mSequence = sequence,
      mPayloadLength = of_nat (length payload), mPayload = payload,
      mChecksum = ChecksumIEEE payload\<rparr>"

definition DecodeMessage :: "bytes \<Rightarrow> wire_error + Message" where
  "DecodeMessage data =
     (if length data < 14 then Inl (MessageTooShort (length data))
      else
        rbind (binRead8 data) (\<lambda>(version, r1).
        rbind (binRead8 r1) (\<lambda>(ty, r2).
        rbind (binRead32 r2) (\<lambda>(sequence, r3).
        rbind (binRead32 r3) (\<lambda>(payloadLength, r4).
          let expectedSize = 14 + unat payloadLength in
          if length data \<noteq> expectedSize then Inl (SizeMismatch expectedSize (length data))
          else
            rbind (ReadExact (unat payloadLength) r4) (\<lambda>(payload, r5).
            rbind (binRead32 r5) (\<lambda>(checksum, r6).
              if checksum \<noteq> ChecksumIEEE payload
              then Inl (ChecksumMismatch (ChecksumIEEE payload) checksum)
              else if version \<noteq> Version then Inl (UnsupportedVersion version)
              else Inr \<lparr>mVersion = version, mType = ty, mSequence = sequence,
                        mPayloadLength = payloadLength, mPayload = payload,
                        mChecksum = checksum\<rparr>)))))))"

lemma binRead8_Cons [wire_simps]: "binRead8 (b # r) = Inr (b, r)"
  by (simp add: binRead8_def ReadFull_def)

lemma ReadExact_append [wire_simps]:
  "length d = n \<Longrightarrow> d \<noteq> [] \<or> r \<noteq> [] \<Longrightarrow> ReadExact n (d @ r) = Inr (d, r)"
  by (auto simp: ReadExact_def)

lemma Decode_Create:
  assumes "length payload < 2 ^ 32"
  shows "\<exists>data. EncodeMessage (CreateMessage ty sq payload) = Inr data \<and>
    DecodeMessage data = Inr (CreateMessage ty sq payload)"
  using assms by (simp add: EncodeMessage_def CreateMessage_def DecodeMessage_def wire_simps)

text \<open>What the decoder accepts is exactly what the encoder writes for the decoded message.\<close>

lemma ReadFull_eq:
  assumes "ReadFull n r = Inr (d, r')"
  shows "r = d @ r'" "length d = n"
  using assms by (auto simp: ReadFull_def split: if_splits)

lemma ReadExact_eq:
  assumes "ReadExact n r = Inr (d, r')"
  shows "r = d @ r'" "length d = n"
  using assms by (auto simp: ReadExact_def split: if_splits)

lemma binRead8_eq: "binRead8 r = Inr (b, r') \<Longrightarrow> r = b # r'"
  by (cases r) (auto simp: binRead8_def ReadFull_def split: if_splits)

lemma put_get_be32: "length d = 4 \<Longrightarrow> put_be 4 (get_be d :: u32) = d"
  using put_get_le [where 'a = 32, of "rev d"] by (simp add: put_be_def get_be_def)

lemma binRead32_eq: "binRead32 r = Inr (w, r') \<Longrightarrow> r = put_be 4 w @ r'"
  using ReadFull_eq [of 4 r] by (auto simp: binRead32_def result_iff put_get_be32)

lemma DecodeMessage_sound:
  assumes "DecodeMessage data = Inr msg"
  shows "EncodeMessage msg = Inr data" and "mChecksum msg = ChecksumIEEE (mPayload msg)"
    and "mVersion msg = Version"
proof -
  obtain v r1 ty r2 sq r3 pl r4 p r5 r6 where
    r: "binRead8 data = Inr (v, r1)" "binRead8 r1 = Inr (ty, r2)" "binRead32 r2 = Inr (sq, r3)"
      "binRead32 r3 = Inr (pl, r4)" "ReadExact (unat pl) r4 = Inr (p, r5)"
      "binRead32 r5 = Inr (ChecksumIEEE p, r6)"
    and len: "length data = 14 + unat pl" and v: "v = Version"
    and msg: "msg = \<lparr>mVersion = v, mType = ty, mSequence = sq, mPayloadLength = pl, mPayload = p,
        mChecksum = ChecksumIEEE p\<rparr>"
    using assms unfolding DecodeMessage_def Let_def by (auto simp: result_iff split: if_splits prod.splits)
  have data: "data = v # ty # put_be 4 sq @ put_be 4 pl @ p @ put_be 4 (ChecksumIEEE p) @ r6"
    using binRead8_eq [OF r(1)] binRead8_eq [OF r(2)] binRead32_eq [OF r(3)] binRead32_eq [OF r(4)]
      ReadExact_eq(1) [OF r(5)] binRead32_eq [OF r(6)] by simp
  moreover have "r6 = []" using len ReadExact_eq(2) [OF r(5)] unfolding data by simp
  ultimately show "EncodeMessage msg = Inr data"
    using ReadExact_eq(2) [OF r(5)] by (simp add: EncodeMessage_def msg)
  show "mChecksum msg = ChecksumIEEE (mPayload msg)" "mVersion msg = Version" using msg v by simp_all
qed

subsection \<open>Corrupted bytes\<close>

text \<open>
  A step of the CRC register can be undone: the bit shifted out shows in the top bit. So two
  payloads that differ in one byte have different checksums.
\<close>

lemma bit_crc_bit_31: "bit (crc_bit c) 31 = bit c 0"
  using bit_imp_le_length [of c 32] by (auto simp: crc_bit_def bit_simps)

lemma xor_cancel: "a XOR (x :: 'a :: len word) = b XOR x \<Longrightarrow> a = b"
  by (metis xor.assoc xor.right_neutral xor_self_eq)

lemma crc_bit_inj: "crc_bit c = crc_bit d \<Longrightarrow> c = d"
proof -
  assume eq: "crc_bit c = crc_bit d"
  then have b: "bit c 0 = bit d 0" by (metis bit_crc_bit_31)
  then have "drop_bit 1 c = drop_bit 1 d"
    using eq by (auto simp: crc_bit_def split: if_splits dest: xor_cancel)
  then have s: "bit (drop_bit 1 c) n = bit (drop_bit 1 d) n" for n by simp
  show "c = d"
  proof (rule bit_word_eqI)
    fix n show "bit c n = bit d n"
    proof (cases n)
      case (Suc k) with s [of k] show ?thesis by (simp add: bit_drop_bit_eq)
    qed (use b in simp)
  qed
qed

lemma crc_bits_inj: "(crc_bit ^^ n) c = (crc_bit ^^ n) d \<Longrightarrow> c = d"
  by (induction n) (auto dest: crc_bit_inj)

lemma crc_byte_inj: "crc_byte b c = crc_byte b d \<Longrightarrow> c = d"
  unfolding crc_byte_def by (metis crc_bits_inj xor_cancel)

lemma ucast_byte: "(ucast (ucast (a :: u8) :: u32) :: u8) = a"
  by (rule bit_word_eqI) (simp add: bit_simps)

lemma crc_byte_inj2: "crc_byte a c = crc_byte b c \<Longrightarrow> a = b"
proof -
  assume "crc_byte a c = crc_byte b c"
  then have "ucast a XOR c = ucast b XOR (c :: u32)"
    unfolding crc_byte_def by (metis crc_bits_inj xor.commute)
  then have "(ucast a :: u32) = ucast b" by (rule xor_cancel)
  then show "a = b" by (metis ucast_byte)
qed

lemma fold_crc_inj: "fold crc_byte d c = fold crc_byte d c' \<Longrightarrow> c = c'"
  by (induction d arbitrary: c c') (auto dest: crc_byte_inj)

lemma ChecksumIEEE_update:
  assumes "i < length p" "b \<noteq> p ! i"
  shows "ChecksumIEEE (p[i := b]) \<noteq> ChecksumIEEE p"
proof
  assume "ChecksumIEEE (p[i := b]) = ChecksumIEEE p"
  then have "fold crc_byte (take i p @ b # drop (Suc i) p) 0xFFFFFFFF =
      fold crc_byte (take i p @ p ! i # drop (Suc i) p) 0xFFFFFFFF"
    using assms(1) by (simp add: ChecksumIEEE_def upd_conv_take_nth_drop flip: id_take_nth_drop)
  then have "b = p ! i" by (auto dest!: fold_crc_inj crc_byte_inj2)
  with assms(2) show False by simp
qed

text \<open>The parts of an accepted frame, by position.\<close>

lemma DecodeMessage_parts:
  assumes "DecodeMessage data = Inr msg" and n: "n = length data - 14"
  shows "14 \<le> length data" "data ! 0 = Version" "take 4 (drop 6 data) = put_be 4 (of_nat n :: u32)"
    "take 4 (drop (10 + n) data) = put_be 4 (ChecksumIEEE (take n (drop 10 data)))"
proof -
  have e: "EncodeMessage msg = Inr data" "mChecksum msg = ChecksumIEEE (mPayload msg)" "mVersion msg = Version"
    using DecodeMessage_sound [OF assms(1)] by auto
  then have d: "data = Version # mType msg # put_be 4 (mSequence msg) @ put_be 4 (mPayloadLength msg) @
      mPayload msg @ put_be 4 (ChecksumIEEE (mPayload msg))"
    and l: "length (mPayload msg) = unat (mPayloadLength msg)"
    by (auto simp: EncodeMessage_def split: if_splits)
  have n': "n = length (mPayload msg)" using n d by simp
  have pl: "of_nat n = mPayloadLength msg" using n' l by simp
  show "14 \<le> length data" "data ! 0 = Version" using d by simp_all
  show "take 4 (drop 6 data) = put_be 4 (of_nat n :: u32)" unfolding pl by (subst d) simp
  show "take 4 (drop (10 + n) data) = put_be 4 (ChecksumIEEE (take n (drop 10 data)))"
    unfolding n' add.commute [of 10] drop_drop [symmetric] d by simp
qed

lemma put_be4_inj: "put_be 4 (v :: u32) = put_be 4 w \<Longrightarrow> v = w"
  by (metis get_put_be32)

lemma DecodeMessage_update:
  assumes d: "DecodeMessage data = Inr msg" and i: "i < length data" "b \<noteq> data ! i" "i < 1 \<or> 5 < i"
  shows "\<exists>e. DecodeMessage (data[i := b]) = Inl e"
proof (rule ccontr)
  assume "\<not> ?thesis"
  then obtain msg' where d': "DecodeMessage (data[i := b]) = Inr msg'"
    by (cases "DecodeMessage (data[i := b])") auto
  define n where "n = length data - 14"
  note p = DecodeMessage_parts [OF d n_def]
  note p' = DecodeMessage_parts [OF d', of n, simplified n_def length_list_update, folded n_def, OF refl]
  have same: "(take k (drop j data))[i - j := b] \<noteq> take k (drop j data)" if "j \<le> i" "i < j + k" for j k
  proof -
    have "i - j < length (take k (drop j data))" "take k (drop j data) ! (i - j) = data ! i" using that i(1) by auto
    then show ?thesis using i(2) by (metis list_update_same_conv)
  qed
  consider "i = 0" | "6 \<le> i" "i < 10" | "10 \<le> i" "i < 10 + n" | "10 + n \<le> i" using i(3) by linarith
  then show False
  proof cases
    case 1 with i p(1,2) p'(2) show ?thesis by (cases data) auto
  next
    case 2 with p(3) p'(3) same [of 6 4] show ?thesis by (simp add: drop_update_swap take_update_swap)
  next
    case 3
    then have "take 4 (drop (10 + n) (data[i := b])) = take 4 (drop (10 + n) data)" by simp
    then have "ChecksumIEEE ((take n (drop 10 data))[i - 10 := b]) = ChecksumIEEE (take n (drop 10 data))"
      using p(4) p'(4) 3 put_be4_inj by (simp add: drop_update_swap take_update_swap)
    moreover have "i - 10 < length (take n (drop 10 data))" "b \<noteq> take n (drop 10 data) ! (i - 10)"
      using 3 i p(1) by (auto simp: n_def)
    ultimately show ?thesis using ChecksumIEEE_update by blast
  next
    case 4
    then have "take n (drop 10 (data[i := b])) = take n (drop 10 data)" by (simp add: drop_update_swap)
    then have "(take 4 (drop (10 + n) data))[i - (10 + n) := b] = take 4 (drop (10 + n) data)"
      using p(4) p'(4) 4 by (simp add: drop_update_swap take_update_swap)
    with same [of "10 + n" 4] 4 i(1) p(1) show ?thesis by (simp add: n_def)
  qed
qed

subsection \<open>Payload codecs\<close>

locale wire_codec =
  fixes enc :: "'m \<Rightarrow> bytes"
    and dec :: "bytes \<Rightarrow> (wire_error + 'm) option"
    and ok :: "'m \<Rightarrow> bool"
  assumes roundtrip: "ok m \<Longrightarrow> dec (enc m) = Some (Inr m)"
    and total: "\<exists>y. dec p = Some y"
begin

lemma enc_inj: "ok m \<Longrightarrow> ok m' \<Longrightarrow> enc m = enc m' \<Longrightarrow> m = m'"
  by (metis roundtrip Inr_inject option.inject)

lemma delivered:
  assumes "ok m" "length (enc m) < 2 ^ 32"
  shows "\<exists>data msg. EncodeMessage (CreateMessage ty sq (enc m)) = Inr data \<and> DecodeMessage data = Inr msg \<and>
    mType msg = ty \<and> mSequence msg = sq \<and> dec (mPayload msg) = Some (Inr m)"
proof -
  obtain data where d: "EncodeMessage (CreateMessage ty sq (enc m)) = Inr data"
    "DecodeMessage data = Inr (CreateMessage ty sq (enc m))"
    using Decode_Create [OF assms(2)] by blast
  show ?thesis
    using d roundtrip [OF assms(1)]
    by (intro exI [of _ data] exI [of _ "CreateMessage ty sq (enc m)"]) (simp add: CreateMessage_def)
qed

end

subsection \<open>Go's \<open>int\<close> as 32 bits\<close>

text \<open>Counts are \<open>int\<close> (64 bits) in the messages and travel as \<open>int32\<close>.\<close>

definition readInt32 :: "i64 reader" where
  "readInt32 r = rmap (\<lambda>(w, r'). (scast (w :: i32), r')) (binRead32 r)"

definition fits_int32 :: "i64 \<Rightarrow> bool" where
  "fits_int32 v \<longleftrightarrow> scast (ucast v :: i32) = v"

lemma readInt32_put [wire_simps]:
  "fits_int32 v \<Longrightarrow> readInt32 (put_be 4 (ucast v :: i32) @ r) = Inr (v, r)"
  "fits_int32 v \<Longrightarrow> readInt32 (put_be 4 (ucast v :: i32)) = Inr (v, [])"
  by (simp_all add: readInt32_def wire_simps fits_int32_def)

lemma shrinks_readInt32 [progress]: "shrinks readInt32"
  unfolding readInt32_def [abs_def] by (intro progress)

end
