(* ===== verification/Wire_Messages.thy ===== *)
theory Wire_Messages
  imports Wire_Frame
begin

text \<open>
  The messages of the wire protocol (\<open>messages.go\<close>, \<open>encode.go\<close>, \<open>decode.go\<close>): a record,
  an encoder and a decoder each. \<open>X_ok\<close> states when a message survives the trip: lengths fit
  their 32-bit fields, counts fit \<open>int32\<close>, and a string that is written last is not empty. Every
  codec interprets \<open>wire_codec\<close>.
\<close>

subsection \<open>\<open>ReadAtMessage\<close>\<close>

record ReadAtMessage =
  raPath :: "gostring list"
  raTimestamp :: i64

definition EncodeReadAtMessage :: "ReadAtMessage \<Rightarrow> bytes" where
  "EncodeReadAtMessage m =
     encodeStringSlice 0x01 (raPath m) @
     encodeInt64 0x02 (raTimestamp m)"

definition DecodeReadAtMessage :: "bytes \<Rightarrow> (wire_error + ReadAtMessage) option" where
  "DecodeReadAtMessage payload =
     fields_loop
       [(0x01, store readStringSlice (\<lambda>x m. m\<lparr>raPath := x\<rparr>)),
        (0x02, store binRead64 (\<lambda>x m. m\<lparr>raTimestamp := x\<rparr>))]
       \<lparr>raPath = [], raTimestamp = 0\<rparr>
       payload"

definition ReadAt_ok :: "ReadAtMessage \<Rightarrow> bool" where
  "ReadAt_ok m \<longleftrightarrow> strings_ok (raPath m)"

lemma ReadAt_roundtrip: "ReadAt_ok m \<Longrightarrow> DecodeReadAtMessage (EncodeReadAtMessage m) = Some (Inr m)"
  by (cases m) (auto simp: DecodeReadAtMessage_def EncodeReadAtMessage_def ReadAt_ok_def loop_simps wire_simps)

lemma ReadAt_total: "\<exists>y. DecodeReadAtMessage p = Some y"
  unfolding DecodeReadAtMessage_def by (rule fields_loop_total) (auto intro!: progress)

interpretation ReadAt_wire: wire_codec EncodeReadAtMessage DecodeReadAtMessage ReadAt_ok
  by (unfold_locales; (erule ReadAt_roundtrip | rule ReadAt_total))

subsection \<open>\<open>WriteMessage\<close>\<close>

record WriteMessage =
  wrPath :: "gostring list"
  wrValue :: Value
  wrAuthor :: u64

definition EncodeWriteMessage :: "WriteMessage \<Rightarrow> bytes" where
  "EncodeWriteMessage m =
     encodeStringSlice 0x01 (wrPath m) @
     encodeValue 0x02 (wrValue m) @
     encodeUint64 0x03 (wrAuthor m)"

definition DecodeWriteMessage :: "bytes \<Rightarrow> (wire_error + WriteMessage) option" where
  "DecodeWriteMessage payload =
     fields_loop
       [(0x01, store readStringSlice (\<lambda>x m. m\<lparr>wrPath := x\<rparr>)),
        (0x02, store wire_readValue (\<lambda>x m. m\<lparr>wrValue := x\<rparr>)),
        (0x03, store binRead64 (\<lambda>x m. m\<lparr>wrAuthor := x\<rparr>))]
       \<lparr>wrPath = [], wrValue = \<lparr>vTypeTag = 0, vData = []\<rparr>, wrAuthor = 0\<rparr>
       payload"

definition Write_ok :: "WriteMessage \<Rightarrow> bool" where
  "Write_ok m \<longleftrightarrow> strings_ok (wrPath m) \<and> length (vData (wrValue m)) < 2 ^ 32"

lemma Write_roundtrip: "Write_ok m \<Longrightarrow> DecodeWriteMessage (EncodeWriteMessage m) = Some (Inr m)"
  by (cases m) (auto simp: DecodeWriteMessage_def EncodeWriteMessage_def Write_ok_def loop_simps wire_simps)

lemma Write_total: "\<exists>y. DecodeWriteMessage p = Some y"
  unfolding DecodeWriteMessage_def by (rule fields_loop_total) (auto intro!: progress)

interpretation Write_wire: wire_codec EncodeWriteMessage DecodeWriteMessage Write_ok
  by (unfold_locales; (erule Write_roundtrip | rule Write_total))

subsection \<open>\<open>WriteAckMessage\<close>\<close>

record WriteAckMessage =
  waSuccess :: bool
  waError :: gostring

definition EncodeWriteAckMessage :: "WriteAckMessage \<Rightarrow> bytes" where
  "EncodeWriteAckMessage m =
     encodeBool 0x01 (waSuccess m) @
     (if waError m \<noteq> [] then encodeString 0x02 (waError m) else [])"

definition DecodeWriteAckMessage :: "bytes \<Rightarrow> (wire_error + WriteAckMessage) option" where
  "DecodeWriteAckMessage payload =
     fields_loop
       [(0x01, store readBool (\<lambda>x m. m\<lparr>waSuccess := x\<rparr>)),
        (0x02, store readString (\<lambda>x m. m\<lparr>waError := x\<rparr>))]
       \<lparr>waSuccess = False, waError = []\<rparr>
       payload"

definition WriteAck_ok :: "WriteAckMessage \<Rightarrow> bool" where
  "WriteAck_ok m \<longleftrightarrow> length (waError m) < 2 ^ 32"

lemma WriteAck_roundtrip: "WriteAck_ok m \<Longrightarrow> DecodeWriteAckMessage (EncodeWriteAckMessage m) = Some (Inr m)"
  by (cases "waError m = []") (auto simp: DecodeWriteAckMessage_def EncodeWriteAckMessage_def WriteAck_ok_def loop_simps wire_simps)

lemma WriteAck_total: "\<exists>y. DecodeWriteAckMessage p = Some y"
  unfolding DecodeWriteAckMessage_def by (rule fields_loop_total) (auto intro!: progress)

interpretation WriteAck_wire: wire_codec EncodeWriteAckMessage DecodeWriteAckMessage WriteAck_ok
  by (unfold_locales; (erule WriteAck_roundtrip | rule WriteAck_total))

subsection \<open>\<open>PurgeMessage\<close>\<close>

record PurgeMessage =
  puPath :: "gostring list"
  puFrom :: i64
  puTo :: i64
  puAuthor :: u64

definition EncodePurgeMessage :: "PurgeMessage \<Rightarrow> bytes" where
  "EncodePurgeMessage m =
     encodeStringSlice 0x01 (puPath m) @
     encodeInt64 0x02 (puFrom m) @
     encodeInt64 0x03 (puTo m) @
     encodeUint64 0x04 (puAuthor m)"

definition DecodePurgeMessage :: "bytes \<Rightarrow> (wire_error + PurgeMessage) option" where
  "DecodePurgeMessage payload =
     fields_loop
       [(0x01, store readStringSlice (\<lambda>x m. m\<lparr>puPath := x\<rparr>)),
        (0x02, store binRead64 (\<lambda>x m. m\<lparr>puFrom := x\<rparr>)),
        (0x03, store binRead64 (\<lambda>x m. m\<lparr>puTo := x\<rparr>)),
        (0x04, store binRead64 (\<lambda>x m. m\<lparr>puAuthor := x\<rparr>))]
       \<lparr>puPath = [], puFrom = 0, puTo = 0, puAuthor = 0\<rparr>
       payload"

definition Purge_ok :: "PurgeMessage \<Rightarrow> bool" where
  "Purge_ok m \<longleftrightarrow> strings_ok (puPath m)"

lemma Purge_roundtrip: "Purge_ok m \<Longrightarrow> DecodePurgeMessage (EncodePurgeMessage m) = Some (Inr m)"
  by (cases m) (auto simp: DecodePurgeMessage_def EncodePurgeMessage_def Purge_ok_def loop_simps wire_simps)

lemma Purge_total: "\<exists>y. DecodePurgeMessage p = Some y"
  unfolding DecodePurgeMessage_def by (rule fields_loop_total) (auto intro!: progress)

interpretation Purge_wire: wire_codec EncodePurgeMessage DecodePurgeMessage Purge_ok
  by (unfold_locales; (erule Purge_roundtrip | rule Purge_total))

subsection \<open>\<open>StatusResponseMessage\<close>\<close>

record StatusResponseMessage =
  srUptime :: i64
  srNodeIdentity :: gostring
  srLocalSocket :: gostring
  srNetworkPort :: i64
  srConnections :: i64
  srDataSize :: i64

definition EncodeStatusResponseMessage :: "StatusResponseMessage \<Rightarrow> bytes" where
  "EncodeStatusResponseMessage m =
     encodeInt64 0x01 (srUptime m) @
     encodeString 0x02 (srNodeIdentity m) @
     encodeString 0x03 (srLocalSocket m) @
     encodeInt32 0x04 (ucast (srNetworkPort m)) @
     encodeInt32 0x05 (ucast (srConnections m)) @
     encodeInt64 0x06 (srDataSize m)"

definition DecodeStatusResponseMessage :: "bytes \<Rightarrow> (wire_error + StatusResponseMessage) option" where
  "DecodeStatusResponseMessage payload =
     fields_loop
       [(0x01, store binRead64 (\<lambda>x m. m\<lparr>srUptime := x\<rparr>)),
        (0x02, store readString (\<lambda>x m. m\<lparr>srNodeIdentity := x\<rparr>)),
        (0x03, store readString (\<lambda>x m. m\<lparr>srLocalSocket := x\<rparr>)),
        (0x04, store readInt32 (\<lambda>x m. m\<lparr>srNetworkPort := x\<rparr>)),
        (0x05, store readInt32 (\<lambda>x m. m\<lparr>srConnections := x\<rparr>)),
        (0x06, store binRead64 (\<lambda>x m. m\<lparr>srDataSize := x\<rparr>))]
       \<lparr>srUptime = 0, srNodeIdentity = [], srLocalSocket = [], srNetworkPort = 0, srConnections = 0, srDataSize = 0\<rparr>
       payload"

definition StatusResponse_ok :: "StatusResponseMessage \<Rightarrow> bool" where
  "StatusResponse_ok m \<longleftrightarrow> length (srNodeIdentity m) < 2 ^ 32 \<and> length (srLocalSocket m) < 2 ^ 32 \<and> fits_int32 (srNetworkPort m) \<and> fits_int32 (srConnections m)"

lemma StatusResponse_roundtrip: "StatusResponse_ok m \<Longrightarrow> DecodeStatusResponseMessage (EncodeStatusResponseMessage m) = Some (Inr m)"
  by (cases m) (auto simp: DecodeStatusResponseMessage_def EncodeStatusResponseMessage_def StatusResponse_ok_def loop_simps wire_simps)

lemma StatusResponse_total: "\<exists>y. DecodeStatusResponseMessage p = Some y"
  unfolding DecodeStatusResponseMessage_def by (rule fields_loop_total) (auto intro!: progress)

interpretation StatusResponse_wire: wire_codec EncodeStatusResponseMessage DecodeStatusResponseMessage StatusResponse_ok
  by (unfold_locales; (erule StatusResponse_roundtrip | rule StatusResponse_total))

subsection \<open>\<open>WhoAmIResponseMessage\<close>\<close>

record WhoAmIResponseMessage =
  wiAgentID :: i64
  wiIdentity :: gostring

definition EncodeWhoAmIResponseMessage :: "WhoAmIResponseMessage \<Rightarrow> bytes" where
  "EncodeWhoAmIResponseMessage m =
     encodeInt64 0x01 (wiAgentID m) @
     encodeString 0x02 (wiIdentity m)"

definition DecodeWhoAmIResponseMessage :: "bytes \<Rightarrow> (wire_error + WhoAmIResponseMessage) option" where
  "DecodeWhoAmIResponseMessage payload =
     fields_loop
       [(0x01, store binRead64 (\<lambda>x m. m\<lparr>wiAgentID := x\<rparr>)),
        (0x02, store readString (\<lambda>x m. m\<lparr>wiIdentity := x\<rparr>))]
       \<lparr>wiAgentID = 0, wiIdentity = []\<rparr>
       payload"

definition WhoAmIResponse_ok :: "WhoAmIResponseMessage \<Rightarrow> bool" where
  "WhoAmIResponse_ok m \<longleftrightarrow> length (wiIdentity m) < 2 ^ 32 \<and> wiIdentity m \<noteq> []"

lemma WhoAmIResponse_roundtrip: "WhoAmIResponse_ok m \<Longrightarrow> DecodeWhoAmIResponseMessage (EncodeWhoAmIResponseMessage m) = Some (Inr m)"
  by (cases m) (auto simp: DecodeWhoAmIResponseMessage_def EncodeWhoAmIResponseMessage_def WhoAmIResponse_ok_def loop_simps wire_simps)

lemma WhoAmIResponse_total: "\<exists>y. DecodeWhoAmIResponseMessage p = Some y"
  unfolding DecodeWhoAmIResponseMessage_def by (rule fields_loop_total) (auto intro!: progress)

interpretation WhoAmIResponse_wire: wire_codec EncodeWhoAmIResponseMessage DecodeWhoAmIResponseMessage WhoAmIResponse_ok
  by (unfold_locales; (erule WhoAmIResponse_roundtrip | rule WhoAmIResponse_total))

subsection \<open>\<open>AuthInitMessage\<close>\<close>

record AuthInitMessage =
  aiIdentity :: gostring

definition EncodeAuthInitMessage :: "AuthInitMessage \<Rightarrow> bytes" where
  "EncodeAuthInitMessage m =
     encodeString 0x01 (aiIdentity m)"

definition DecodeAuthInitMessage :: "bytes \<Rightarrow> (wire_error + AuthInitMessage) option" where
  "DecodeAuthInitMessage payload =
     fields_loop
       [(0x01, store readString (\<lambda>x m. m\<lparr>aiIdentity := x\<rparr>))]
       \<lparr>aiIdentity = []\<rparr>
       payload"

definition AuthInit_ok :: "AuthInitMessage \<Rightarrow> bool" where
  "AuthInit_ok m \<longleftrightarrow> length (aiIdentity m) < 2 ^ 32 \<and> aiIdentity m \<noteq> []"

lemma AuthInit_roundtrip: "AuthInit_ok m \<Longrightarrow> DecodeAuthInitMessage (EncodeAuthInitMessage m) = Some (Inr m)"
  by (cases m) (auto simp: DecodeAuthInitMessage_def EncodeAuthInitMessage_def AuthInit_ok_def loop_simps wire_simps)

lemma AuthInit_total: "\<exists>y. DecodeAuthInitMessage p = Some y"
  unfolding DecodeAuthInitMessage_def by (rule fields_loop_total) (auto intro!: progress)

interpretation AuthInit_wire: wire_codec EncodeAuthInitMessage DecodeAuthInitMessage AuthInit_ok
  by (unfold_locales; (erule AuthInit_roundtrip | rule AuthInit_total))

subsection \<open>\<open>AuthChallengeMessage\<close>\<close>

record AuthChallengeMessage =
  acChallenge :: gostring

definition EncodeAuthChallengeMessage :: "AuthChallengeMessage \<Rightarrow> bytes" where
  "EncodeAuthChallengeMessage m =
     encodeString 0x01 (acChallenge m)"

definition DecodeAuthChallengeMessage :: "bytes \<Rightarrow> (wire_error + AuthChallengeMessage) option" where
  "DecodeAuthChallengeMessage payload =
     fields_loop
       [(0x01, store readString (\<lambda>x m. m\<lparr>acChallenge := x\<rparr>))]
       \<lparr>acChallenge = []\<rparr>
       payload"

definition AuthChallenge_ok :: "AuthChallengeMessage \<Rightarrow> bool" where
  "AuthChallenge_ok m \<longleftrightarrow> length (acChallenge m) < 2 ^ 32 \<and> acChallenge m \<noteq> []"

lemma AuthChallenge_roundtrip: "AuthChallenge_ok m \<Longrightarrow> DecodeAuthChallengeMessage (EncodeAuthChallengeMessage m) = Some (Inr m)"
  by (cases m) (auto simp: DecodeAuthChallengeMessage_def EncodeAuthChallengeMessage_def AuthChallenge_ok_def loop_simps wire_simps)

lemma AuthChallenge_total: "\<exists>y. DecodeAuthChallengeMessage p = Some y"
  unfolding DecodeAuthChallengeMessage_def by (rule fields_loop_total) (auto intro!: progress)

interpretation AuthChallenge_wire: wire_codec EncodeAuthChallengeMessage DecodeAuthChallengeMessage AuthChallenge_ok
  by (unfold_locales; (erule AuthChallenge_roundtrip | rule AuthChallenge_total))

subsection \<open>\<open>AuthResponseMessage\<close>\<close>

record AuthResponseMessage =
  apResponse :: gostring

definition EncodeAuthResponseMessage :: "AuthResponseMessage \<Rightarrow> bytes" where
  "EncodeAuthResponseMessage m =
     encodeString 0x01 (apResponse m)"

definition DecodeAuthResponseMessage :: "bytes \<Rightarrow> (wire_error + AuthResponseMessage) option" where
  "DecodeAuthResponseMessage payload =
     fields_loop
       [(0x01, store readString (\<lambda>x m. m\<lparr>apResponse := x\<rparr>))]
       \<lparr>apResponse = []\<rparr>
       payload"

definition AuthResponse_ok :: "AuthResponseMessage \<Rightarrow> bool" where
  "AuthResponse_ok m \<longleftrightarrow> length (apResponse m) < 2 ^ 32 \<and> apResponse m \<noteq> []"

lemma AuthResponse_roundtrip: "AuthResponse_ok m \<Longrightarrow> DecodeAuthResponseMessage (EncodeAuthResponseMessage m) = Some (Inr m)"
  by (cases m) (auto simp: DecodeAuthResponseMessage_def EncodeAuthResponseMessage_def AuthResponse_ok_def loop_simps wire_simps)

lemma AuthResponse_total: "\<exists>y. DecodeAuthResponseMessage p = Some y"
  unfolding DecodeAuthResponseMessage_def by (rule fields_loop_total) (auto intro!: progress)

interpretation AuthResponse_wire: wire_codec EncodeAuthResponseMessage DecodeAuthResponseMessage AuthResponse_ok
  by (unfold_locales; (erule AuthResponse_roundtrip | rule AuthResponse_total))

subsection \<open>\<open>AuthResultMessage\<close>\<close>

record AuthResultMessage =
  arSuccess :: bool
  arAgentID :: i64
  arIdentity :: gostring
  arError :: gostring

definition EncodeAuthResultMessage :: "AuthResultMessage \<Rightarrow> bytes" where
  "EncodeAuthResultMessage m =
     encodeBool 0x01 (arSuccess m) @
     encodeInt64 0x02 (arAgentID m) @
     (if arIdentity m \<noteq> [] then encodeString 0x03 (arIdentity m) else []) @
     (if arError m \<noteq> [] then encodeString 0x04 (arError m) else [])"

definition DecodeAuthResultMessage :: "bytes \<Rightarrow> (wire_error + AuthResultMessage) option" where
  "DecodeAuthResultMessage payload =
     fields_loop
       [(0x01, store readBool (\<lambda>x m. m\<lparr>arSuccess := x\<rparr>)),
        (0x02, store binRead64 (\<lambda>x m. m\<lparr>arAgentID := x\<rparr>)),
        (0x03, store readString (\<lambda>x m. m\<lparr>arIdentity := x\<rparr>)),
        (0x04, store readString (\<lambda>x m. m\<lparr>arError := x\<rparr>))]
       \<lparr>arSuccess = False, arAgentID = 0, arIdentity = [], arError = []\<rparr>
       payload"

definition AuthResult_ok :: "AuthResultMessage \<Rightarrow> bool" where
  "AuthResult_ok m \<longleftrightarrow> length (arIdentity m) < 2 ^ 32 \<and> length (arError m) < 2 ^ 32"

lemma AuthResult_roundtrip: "AuthResult_ok m \<Longrightarrow> DecodeAuthResultMessage (EncodeAuthResultMessage m) = Some (Inr m)"
  by (cases "arIdentity m = []"; cases "arError m = []") (auto simp: DecodeAuthResultMessage_def EncodeAuthResultMessage_def AuthResult_ok_def loop_simps wire_simps)

lemma AuthResult_total: "\<exists>y. DecodeAuthResultMessage p = Some y"
  unfolding DecodeAuthResultMessage_def by (rule fields_loop_total) (auto intro!: progress)

interpretation AuthResult_wire: wire_codec EncodeAuthResultMessage DecodeAuthResultMessage AuthResult_ok
  by (unfold_locales; (erule AuthResult_roundtrip | rule AuthResult_total))

subsection \<open>\<open>RegisterMessage\<close>\<close>

record RegisterMessage =
  rgIdentity :: gostring
  rgPublicKey :: gostring
  rgToken :: gostring

definition EncodeRegisterMessage :: "RegisterMessage \<Rightarrow> bytes" where
  "EncodeRegisterMessage m =
     encodeString 0x01 (rgIdentity m) @
     encodeString 0x02 (rgPublicKey m) @
     encodeString 0x03 (rgToken m)"

definition DecodeRegisterMessage :: "bytes \<Rightarrow> (wire_error + RegisterMessage) option" where
  "DecodeRegisterMessage payload =
     fields_loop
       [(0x01, store readString (\<lambda>x m. m\<lparr>rgIdentity := x\<rparr>)),
        (0x02, store readString (\<lambda>x m. m\<lparr>rgPublicKey := x\<rparr>)),
        (0x03, store readString (\<lambda>x m. m\<lparr>rgToken := x\<rparr>))]
       \<lparr>rgIdentity = [], rgPublicKey = [], rgToken = []\<rparr>
       payload"

definition Register_ok :: "RegisterMessage \<Rightarrow> bool" where
  "Register_ok m \<longleftrightarrow> length (rgIdentity m) < 2 ^ 32 \<and> length (rgPublicKey m) < 2 ^ 32 \<and> length (rgToken m) < 2 ^ 32 \<and> rgToken m \<noteq> []"

lemma Register_roundtrip: "Register_ok m \<Longrightarrow> DecodeRegisterMessage (EncodeRegisterMessage m) = Some (Inr m)"
  by (cases m) (auto simp: DecodeRegisterMessage_def EncodeRegisterMessage_def Register_ok_def loop_simps wire_simps)

lemma Register_total: "\<exists>y. DecodeRegisterMessage p = Some y"
  unfolding DecodeRegisterMessage_def by (rule fields_loop_total) (auto intro!: progress)

interpretation Register_wire: wire_codec EncodeRegisterMessage DecodeRegisterMessage Register_ok
  by (unfold_locales; (erule Register_roundtrip | rule Register_total))

subsection \<open>\<open>RegisterResultMessage\<close>\<close>

record RegisterResultMessage =
  rrSuccess :: bool
  rrAgentID :: i64
  rrError :: gostring

definition EncodeRegisterResultMessage :: "RegisterResultMessage \<Rightarrow> bytes" where
  "EncodeRegisterResultMessage m =
     encodeBool 0x01 (rrSuccess m) @
     encodeInt64 0x02 (rrAgentID m) @
     (if rrError m \<noteq> [] then encodeString 0x03 (rrError m) else [])"

definition DecodeRegisterResultMessage :: "bytes \<Rightarrow> (wire_error + RegisterResultMessage) option" where
  "DecodeRegisterResultMessage payload =
     fields_loop
       [(0x01, store readBool (\<lambda>x m. m\<lparr>rrSuccess := x\<rparr>)),
        (0x02, store binRead64 (\<lambda>x m. m\<lparr>rrAgentID := x\<rparr>)),
        (0x03, store readString (\<lambda>x m. m\<lparr>rrError := x\<rparr>))]
       \<lparr>rrSuccess = False, rrAgentID = 0, rrError = []\<rparr>
       payload"

definition RegisterResult_ok :: "RegisterResultMessage \<Rightarrow> bool" where
  "RegisterResult_ok m \<longleftrightarrow> length (rrError m) < 2 ^ 32"

lemma RegisterResult_roundtrip: "RegisterResult_ok m \<Longrightarrow> DecodeRegisterResultMessage (EncodeRegisterResultMessage m) = Some (Inr m)"
  by (cases "rrError m = []") (auto simp: DecodeRegisterResultMessage_def EncodeRegisterResultMessage_def RegisterResult_ok_def loop_simps wire_simps)

lemma RegisterResult_total: "\<exists>y. DecodeRegisterResultMessage p = Some y"
  unfolding DecodeRegisterResultMessage_def by (rule fields_loop_total) (auto intro!: progress)

interpretation RegisterResult_wire: wire_codec EncodeRegisterResultMessage DecodeRegisterResultMessage RegisterResult_ok
  by (unfold_locales; (erule RegisterResult_roundtrip | rule RegisterResult_total))

subsection \<open>\<open>InviteCreateResultMessage\<close>\<close>

record InviteCreateResultMessage =
  icSuccess :: bool
  icToken :: gostring
  icError :: gostring

definition EncodeInviteCreateResultMessage :: "InviteCreateResultMessage \<Rightarrow> bytes" where
  "EncodeInviteCreateResultMessage m =
     encodeBool 0x01 (icSuccess m) @
     (if icToken m \<noteq> [] then encodeString 0x02 (icToken m) else []) @
     (if icError m \<noteq> [] then encodeString 0x03 (icError m) else [])"

definition DecodeInviteCreateResultMessage :: "bytes \<Rightarrow> (wire_error + InviteCreateResultMessage) option" where
  "DecodeInviteCreateResultMessage payload =
     fields_loop
       [(0x01, store readBool (\<lambda>x m. m\<lparr>icSuccess := x\<rparr>)),
        (0x02, store readString (\<lambda>x m. m\<lparr>icToken := x\<rparr>)),
        (0x03, store readString (\<lambda>x m. m\<lparr>icError := x\<rparr>))]
       \<lparr>icSuccess = False, icToken = [], icError = []\<rparr>
       payload"

definition InviteCreateResult_ok :: "InviteCreateResultMessage \<Rightarrow> bool" where
  "InviteCreateResult_ok m \<longleftrightarrow> length (icToken m) < 2 ^ 32 \<and> length (icError m) < 2 ^ 32"

lemma InviteCreateResult_roundtrip: "InviteCreateResult_ok m \<Longrightarrow> DecodeInviteCreateResultMessage (EncodeInviteCreateResultMessage m) = Some (Inr m)"
  by (cases "icToken m = []"; cases "icError m = []") (auto simp: DecodeInviteCreateResultMessage_def EncodeInviteCreateResultMessage_def InviteCreateResult_ok_def loop_simps wire_simps)

lemma InviteCreateResult_total: "\<exists>y. DecodeInviteCreateResultMessage p = Some y"
  unfolding DecodeInviteCreateResultMessage_def by (rule fields_loop_total) (auto intro!: progress)

interpretation InviteCreateResult_wire: wire_codec EncodeInviteCreateResultMessage DecodeInviteCreateResultMessage InviteCreateResult_ok
  by (unfold_locales; (erule InviteCreateResult_roundtrip | rule InviteCreateResult_total))

subsection \<open>\<open>StopAckMessage\<close>\<close>

record StopAckMessage =
  saSuccess :: bool
  saError :: gostring

definition EncodeStopAckMessage :: "StopAckMessage \<Rightarrow> bytes" where
  "EncodeStopAckMessage m =
     encodeBool 0x01 (saSuccess m) @
     (if saError m \<noteq> [] then encodeString 0x02 (saError m) else [])"

definition DecodeStopAckMessage :: "bytes \<Rightarrow> (wire_error + StopAckMessage) option" where
  "DecodeStopAckMessage payload =
     fields_loop
       [(0x01, store readBool (\<lambda>x m. m\<lparr>saSuccess := x\<rparr>)),
        (0x02, store readString (\<lambda>x m. m\<lparr>saError := x\<rparr>))]
       \<lparr>saSuccess = False, saError = []\<rparr>
       payload"

definition StopAck_ok :: "StopAckMessage \<Rightarrow> bool" where
  "StopAck_ok m \<longleftrightarrow> length (saError m) < 2 ^ 32"

lemma StopAck_roundtrip: "StopAck_ok m \<Longrightarrow> DecodeStopAckMessage (EncodeStopAckMessage m) = Some (Inr m)"
  by (cases "saError m = []") (auto simp: DecodeStopAckMessage_def EncodeStopAckMessage_def StopAck_ok_def loop_simps wire_simps)

lemma StopAck_total: "\<exists>y. DecodeStopAckMessage p = Some y"
  unfolding DecodeStopAckMessage_def by (rule fields_loop_total) (auto intro!: progress)

interpretation StopAck_wire: wire_codec EncodeStopAckMessage DecodeStopAckMessage StopAck_ok
  by (unfold_locales; (erule StopAck_roundtrip | rule StopAck_total))

subsection \<open>\<open>CompactAckMessage\<close>\<close>

record CompactAckMessage =
  caSuccess :: bool
  caError :: gostring
  caSpaceReclaimed :: i64

definition EncodeCompactAckMessage :: "CompactAckMessage \<Rightarrow> bytes" where
  "EncodeCompactAckMessage m =
     encodeBool 0x01 (caSuccess m) @
     (if caError m \<noteq> [] then encodeString 0x02 (caError m) else []) @
     encodeInt64 0x03 (caSpaceReclaimed m)"

definition DecodeCompactAckMessage :: "bytes \<Rightarrow> (wire_error + CompactAckMessage) option" where
  "DecodeCompactAckMessage payload =
     fields_loop
       [(0x01, store readBool (\<lambda>x m. m\<lparr>caSuccess := x\<rparr>)),
        (0x02, store readString (\<lambda>x m. m\<lparr>caError := x\<rparr>)),
        (0x03, store binRead64 (\<lambda>x m. m\<lparr>caSpaceReclaimed := x\<rparr>))]
       \<lparr>caSuccess = False, caError = [], caSpaceReclaimed = 0\<rparr>
       payload"

definition CompactAck_ok :: "CompactAckMessage \<Rightarrow> bool" where
  "CompactAck_ok m \<longleftrightarrow> length (caError m) < 2 ^ 32"

lemma CompactAck_roundtrip: "CompactAck_ok m \<Longrightarrow> DecodeCompactAckMessage (EncodeCompactAckMessage m) = Some (Inr m)"
  by (cases "caError m = []") (auto simp: DecodeCompactAckMessage_def EncodeCompactAckMessage_def CompactAck_ok_def loop_simps wire_simps)

lemma CompactAck_total: "\<exists>y. DecodeCompactAckMessage p = Some y"
  unfolding DecodeCompactAckMessage_def by (rule fields_loop_total) (auto intro!: progress)

interpretation CompactAck_wire: wire_codec EncodeCompactAckMessage DecodeCompactAckMessage CompactAck_ok
  by (unfold_locales; (erule CompactAck_roundtrip | rule CompactAck_total))

subsection \<open>\<open>ErrorMessage\<close>\<close>

record ErrorMessage =
  erCode :: u32
  erMessage :: gostring

definition EncodeErrorMessage :: "ErrorMessage \<Rightarrow> bytes" where
  "EncodeErrorMessage m =
     encodeUint32 0x01 (erCode m) @
     encodeString 0x02 (erMessage m)"

definition DecodeErrorMessage :: "bytes \<Rightarrow> (wire_error + ErrorMessage) option" where
  "DecodeErrorMessage payload =
     fields_loop
       [(0x01, store binRead32 (\<lambda>x m. m\<lparr>erCode := x\<rparr>)),
        (0x02, store readString (\<lambda>x m. m\<lparr>erMessage := x\<rparr>))]
       \<lparr>erCode = 0, erMessage = []\<rparr>
       payload"

definition Error_ok :: "ErrorMessage \<Rightarrow> bool" where
  "Error_ok m \<longleftrightarrow> length (erMessage m) < 2 ^ 32 \<and> erMessage m \<noteq> []"

lemma Error_roundtrip: "Error_ok m \<Longrightarrow> DecodeErrorMessage (EncodeErrorMessage m) = Some (Inr m)"
  by (cases m) (auto simp: DecodeErrorMessage_def EncodeErrorMessage_def Error_ok_def loop_simps wire_simps)

lemma Error_total: "\<exists>y. DecodeErrorMessage p = Some y"
  unfolding DecodeErrorMessage_def by (rule fields_loop_total) (auto intro!: progress)

interpretation Error_wire: wire_codec EncodeErrorMessage DecodeErrorMessage Error_ok
  by (unfold_locales; (erule Error_roundtrip | rule Error_total))

subsection \<open>\<open>CreateMeshMessage\<close>\<close>

record CreateMeshMessage =
  cmName :: gostring

definition EncodeCreateMeshMessage :: "CreateMeshMessage \<Rightarrow> bytes" where
  "EncodeCreateMeshMessage m =
     encodeString 0x01 (cmName m)"

definition DecodeCreateMeshMessage :: "bytes \<Rightarrow> (wire_error + CreateMeshMessage) option" where
  "DecodeCreateMeshMessage payload =
     fields_loop
       [(0x01, store readString (\<lambda>x m. m\<lparr>cmName := x\<rparr>))]
       \<lparr>cmName = []\<rparr>
       payload"

definition CreateMesh_ok :: "CreateMeshMessage \<Rightarrow> bool" where
  "CreateMesh_ok m \<longleftrightarrow> length (cmName m) < 2 ^ 32 \<and> cmName m \<noteq> []"

lemma CreateMesh_roundtrip: "CreateMesh_ok m \<Longrightarrow> DecodeCreateMeshMessage (EncodeCreateMeshMessage m) = Some (Inr m)"
  by (cases m) (auto simp: DecodeCreateMeshMessage_def EncodeCreateMeshMessage_def CreateMesh_ok_def loop_simps wire_simps)

lemma CreateMesh_total: "\<exists>y. DecodeCreateMeshMessage p = Some y"
  unfolding DecodeCreateMeshMessage_def by (rule fields_loop_total) (auto intro!: progress)

interpretation CreateMesh_wire: wire_codec EncodeCreateMeshMessage DecodeCreateMeshMessage CreateMesh_ok
  by (unfold_locales; (erule CreateMesh_roundtrip | rule CreateMesh_total))

subsection \<open>\<open>CreateMeshAckMessage\<close>\<close>

record CreateMeshAckMessage =
  ckSuccess :: bool
  ckMessage :: gostring
  ckMeshName :: gostring
  ckNodeID :: gostring
  ckIsFounder :: bool

definition EncodeCreateMeshAckMessage :: "CreateMeshAckMessage \<Rightarrow> bytes" where
  "EncodeCreateMeshAckMessage m =
     encodeBool 0x01 (ckSuccess m) @
     encodeString 0x02 (ckMessage m) @
     (if ckMeshName m \<noteq> [] then encodeString 0x03 (ckMeshName m) else []) @
     (if ckNodeID m \<noteq> [] then encodeString 0x04 (ckNodeID m) else []) @
     encodeBool 0x05 (ckIsFounder m)"

definition DecodeCreateMeshAckMessage :: "bytes \<Rightarrow> (wire_error + CreateMeshAckMessage) option" where
  "DecodeCreateMeshAckMessage payload =
     fields_loop
       [(0x01, store readBool (\<lambda>x m. m\<lparr>ckSuccess := x\<rparr>)),
        (0x02, store readString (\<lambda>x m. m\<lparr>ckMessage := x\<rparr>)),
        (0x03, store readString (\<lambda>x m. m\<lparr>ckMeshName := x\<rparr>)),
        (0x04, store readString (\<lambda>x m. m\<lparr>ckNodeID := x\<rparr>)),
        (0x05, store readBool (\<lambda>x m. m\<lparr>ckIsFounder := x\<rparr>))]
       \<lparr>ckSuccess = False, ckMessage = [], ckMeshName = [], ckNodeID = [], ckIsFounder = False\<rparr>
       payload"

definition CreateMeshAck_ok :: "CreateMeshAckMessage \<Rightarrow> bool" where
  "CreateMeshAck_ok m \<longleftrightarrow> length (ckMessage m) < 2 ^ 32 \<and> length (ckMeshName m) < 2 ^ 32 \<and> length (ckNodeID m) < 2 ^ 32"

lemma CreateMeshAck_roundtrip: "CreateMeshAck_ok m \<Longrightarrow> DecodeCreateMeshAckMessage (EncodeCreateMeshAckMessage m) = Some (Inr m)"
  by (cases "ckMeshName m = []"; cases "ckNodeID m = []") (auto simp: DecodeCreateMeshAckMessage_def EncodeCreateMeshAckMessage_def CreateMeshAck_ok_def loop_simps wire_simps)

lemma CreateMeshAck_total: "\<exists>y. DecodeCreateMeshAckMessage p = Some y"
  unfolding DecodeCreateMeshAckMessage_def by (rule fields_loop_total) (auto intro!: progress)

interpretation CreateMeshAck_wire: wire_codec EncodeCreateMeshAckMessage DecodeCreateMeshAckMessage CreateMeshAck_ok
  by (unfold_locales; (erule CreateMeshAck_roundtrip | rule CreateMeshAck_total))

subsection \<open>\<open>DiscoverMeshResponseMessage\<close>\<close>

record DiscoverMeshResponseMessage =
  drMeshName :: gostring
  drFounderIdentity :: gostring
  drMemberCount :: i64
  drZoneCount :: i64
  drRequiresAuth :: bool
  drFoundedAt :: i64

definition EncodeDiscoverMeshResponseMessage :: "DiscoverMeshResponseMessage \<Rightarrow> bytes" where
  "EncodeDiscoverMeshResponseMessage m =
     encodeString 0x01 (drMeshName m) @
     encodeString 0x02 (drFounderIdentity m) @
     encodeInt32 0x03 (ucast (drMemberCount m)) @
     encodeInt32 0x04 (ucast (drZoneCount m)) @
     encodeBool 0x05 (drRequiresAuth m) @
     encodeInt64 0x06 (drFoundedAt m)"

definition DecodeDiscoverMeshResponseMessage :: "bytes \<Rightarrow> (wire_error + DiscoverMeshResponseMessage) option" where
  "DecodeDiscoverMeshResponseMessage payload =
     fields_loop
       [(0x01, store readString (\<lambda>x m. m\<lparr>drMeshName := x\<rparr>)),
        (0x02, store readString (\<lambda>x m. m\<lparr>drFounderIdentity := x\<rparr>)),
        (0x03, store readInt32 (\<lambda>x m. m\<lparr>drMemberCount := x\<rparr>)),
        (0x04, store readInt32 (\<lambda>x m. m\<lparr>drZoneCount := x\<rparr>)),
        (0x05, store readBool (\<lambda>x m. m\<lparr>drRequiresAuth := x\<rparr>)),
        (0x06, store binRead64 (\<lambda>x m. m\<lparr>drFoundedAt := x\<rparr>))]
       \<lparr>drMeshName = [], drFounderIdentity = [], drMemberCount = 0, drZoneCount = 0, drRequiresAuth = False, drFoundedAt = 0\<rparr>
       payload"

definition DiscoverMeshResponse_ok :: "DiscoverMeshResponseMessage \<Rightarrow> bool" where
  "DiscoverMeshResponse_ok m \<longleftrightarrow> length (drMeshName m) < 2 ^ 32 \<and> length (drFounderIdentity m) < 2 ^ 32 \<and> fits_int32 (drMemberCount m) \<and> fits_int32 (drZoneCount m)"

lemma DiscoverMeshResponse_roundtrip: "DiscoverMeshResponse_ok m \<Longrightarrow> DecodeDiscoverMeshResponseMessage (EncodeDiscoverMeshResponseMessage m) = Some (Inr m)"
  by (cases m) (auto simp: DecodeDiscoverMeshResponseMessage_def EncodeDiscoverMeshResponseMessage_def DiscoverMeshResponse_ok_def loop_simps wire_simps)

lemma DiscoverMeshResponse_total: "\<exists>y. DecodeDiscoverMeshResponseMessage p = Some y"
  unfolding DecodeDiscoverMeshResponseMessage_def by (rule fields_loop_total) (auto intro!: progress)

interpretation DiscoverMeshResponse_wire: wire_codec EncodeDiscoverMeshResponseMessage DecodeDiscoverMeshResponseMessage DiscoverMeshResponse_ok
  by (unfold_locales; (erule DiscoverMeshResponse_roundtrip | rule DiscoverMeshResponse_total))

subsection \<open>\<open>JoinMeshMessage\<close>\<close>

record JoinMeshMessage =
  jmNodeIdentity :: gostring
  jmMeshName :: gostring

definition EncodeJoinMeshMessage :: "JoinMeshMessage \<Rightarrow> bytes" where
  "EncodeJoinMeshMessage m =
     encodeString 0x01 (jmNodeIdentity m) @
     encodeString 0x02 (jmMeshName m)"

definition DecodeJoinMeshMessage :: "bytes \<Rightarrow> (wire_error + JoinMeshMessage) option" where
  "DecodeJoinMeshMessage payload =
     fields_loop
       [(0x01, store readString (\<lambda>x m. m\<lparr>jmNodeIdentity := x\<rparr>)),
        (0x02, store readString (\<lambda>x m. m\<lparr>jmMeshName := x\<rparr>))]
       \<lparr>jmNodeIdentity = [], jmMeshName = []\<rparr>
       payload"

definition JoinMesh_ok :: "JoinMeshMessage \<Rightarrow> bool" where
  "JoinMesh_ok m \<longleftrightarrow> length (jmNodeIdentity m) < 2 ^ 32 \<and> length (jmMeshName m) < 2 ^ 32 \<and> jmMeshName m \<noteq> []"

lemma JoinMesh_roundtrip: "JoinMesh_ok m \<Longrightarrow> DecodeJoinMeshMessage (EncodeJoinMeshMessage m) = Some (Inr m)"
  by (cases m) (auto simp: DecodeJoinMeshMessage_def EncodeJoinMeshMessage_def JoinMesh_ok_def loop_simps wire_simps)

lemma JoinMesh_total: "\<exists>y. DecodeJoinMeshMessage p = Some y"
  unfolding DecodeJoinMeshMessage_def by (rule fields_loop_total) (auto intro!: progress)

interpretation JoinMesh_wire: wire_codec EncodeJoinMeshMessage DecodeJoinMeshMessage JoinMesh_ok
  by (unfold_locales; (erule JoinMesh_roundtrip | rule JoinMesh_total))

subsection \<open>\<open>JoinMeshAckMessage\<close>\<close>

record JoinMeshAckMessage =
  jkSuccess :: bool
  jkMessage :: gostring
  jkAssignedZone :: gostring
  jkMemberCount :: i64

definition EncodeJoinMeshAckMessage :: "JoinMeshAckMessage \<Rightarrow> bytes" where
  "EncodeJoinMeshAckMessage m =
     encodeBool 0x01 (jkSuccess m) @
     encodeString 0x02 (jkMessage m) @
     (if jkAssignedZone m \<noteq> [] then encodeString 0x03 (jkAssignedZone m) else []) @
     encodeInt32 0x04 (ucast (jkMemberCount m))"

definition DecodeJoinMeshAckMessage :: "bytes \<Rightarrow> (wire_error + JoinMeshAckMessage) option" where
  "DecodeJoinMeshAckMessage payload =
     fields_loop
       [(0x01, store readBool (\<lambda>x m. m\<lparr>jkSuccess := x\<rparr>)),
        (0x02, store readString (\<lambda>x m. m\<lparr>jkMessage := x\<rparr>)),
        (0x03, store readString (\<lambda>x m. m\<lparr>jkAssignedZone := x\<rparr>)),
        (0x04, store readInt32 (\<lambda>x m. m\<lparr>jkMemberCount := x\<rparr>))]
       \<lparr>jkSuccess = False, jkMessage = [], jkAssignedZone = [], jkMemberCount = 0\<rparr>
       payload"

definition JoinMeshAck_ok :: "JoinMeshAckMessage \<Rightarrow> bool" where
  "JoinMeshAck_ok m \<longleftrightarrow> length (jkMessage m) < 2 ^ 32 \<and> length (jkAssignedZone m) < 2 ^ 32 \<and> fits_int32 (jkMemberCount m)"

lemma JoinMeshAck_roundtrip: "JoinMeshAck_ok m \<Longrightarrow> DecodeJoinMeshAckMessage (EncodeJoinMeshAckMessage m) = Some (Inr m)"
  by (cases "jkAssignedZone m = []") (auto simp: DecodeJoinMeshAckMessage_def EncodeJoinMeshAckMessage_def JoinMeshAck_ok_def loop_simps wire_simps)

lemma JoinMeshAck_total: "\<exists>y. DecodeJoinMeshAckMessage p = Some y"
  unfolding DecodeJoinMeshAckMessage_def by (rule fields_loop_total) (auto intro!: progress)

interpretation JoinMeshAck_wire: wire_codec EncodeJoinMeshAckMessage DecodeJoinMeshAckMessage JoinMeshAck_ok
  by (unfold_locales; (erule JoinMeshAck_roundtrip | rule JoinMeshAck_total))

subsection \<open>\<open>CreateBridgeMessage\<close>\<close>

record CreateBridgeMessage =
  cbTargetAddress :: gostring
  cbNodeIdentity :: gostring

definition EncodeCreateBridgeMessage :: "CreateBridgeMessage \<Rightarrow> bytes" where
  "EncodeCreateBridgeMessage m =
     encodeString 0x01 (cbTargetAddress m) @
     encodeString 0x02 (cbNodeIdentity m)"

definition DecodeCreateBridgeMessage :: "bytes \<Rightarrow> (wire_error + CreateBridgeMessage) option" where
  "DecodeCreateBridgeMessage payload =
     fields_loop
       [(0x01, store readString (\<lambda>x m. m\<lparr>cbTargetAddress := x\<rparr>)),
        (0x02, store readString (\<lambda>x m. m\<lparr>cbNodeIdentity := x\<rparr>))]
       \<lparr>cbTargetAddress = [], cbNodeIdentity = []\<rparr>
       payload"

definition CreateBridge_ok :: "CreateBridgeMessage \<Rightarrow> bool" where
  "CreateBridge_ok m \<longleftrightarrow> length (cbTargetAddress m) < 2 ^ 32 \<and> length (cbNodeIdentity m) < 2 ^ 32 \<and> cbNodeIdentity m \<noteq> []"

lemma CreateBridge_roundtrip: "CreateBridge_ok m \<Longrightarrow> DecodeCreateBridgeMessage (EncodeCreateBridgeMessage m) = Some (Inr m)"
  by (cases m) (auto simp: DecodeCreateBridgeMessage_def EncodeCreateBridgeMessage_def CreateBridge_ok_def loop_simps wire_simps)

lemma CreateBridge_total: "\<exists>y. DecodeCreateBridgeMessage p = Some y"
  unfolding DecodeCreateBridgeMessage_def by (rule fields_loop_total) (auto intro!: progress)

interpretation CreateBridge_wire: wire_codec EncodeCreateBridgeMessage DecodeCreateBridgeMessage CreateBridge_ok
  by (unfold_locales; (erule CreateBridge_roundtrip | rule CreateBridge_total))

subsection \<open>\<open>CreateBridgeAckMessage\<close>\<close>

record CreateBridgeAckMessage =
  bkSuccess :: bool
  bkMessage :: gostring
  bkTargetMeshName :: gostring
  bkBridgeIdentity :: gostring
  bkBridgeStatus :: gostring

definition EncodeCreateBridgeAckMessage :: "CreateBridgeAckMessage \<Rightarrow> bytes" where
  "EncodeCreateBridgeAckMessage m =
     encodeBool 0x01 (bkSuccess m) @
     encodeString 0x02 (bkMessage m) @
     (if bkTargetMeshName m \<noteq> [] then encodeString 0x03 (bkTargetMeshName m) else []) @
     (if bkBridgeIdentity m \<noteq> [] then encodeString 0x04 (bkBridgeIdentity m) else []) @
     (if bkBridgeStatus m \<noteq> [] then encodeString 0x05 (bkBridgeStatus m) else [])"

definition DecodeCreateBridgeAckMessage :: "bytes \<Rightarrow> (wire_error + CreateBridgeAckMessage) option" where
  "DecodeCreateBridgeAckMessage payload =
     fields_loop
       [(0x01, store readBool (\<lambda>x m. m\<lparr>bkSuccess := x\<rparr>)),
        (0x02, store readString (\<lambda>x m. m\<lparr>bkMessage := x\<rparr>)),
        (0x03, store readString (\<lambda>x m. m\<lparr>bkTargetMeshName := x\<rparr>)),
        (0x04, store readString (\<lambda>x m. m\<lparr>bkBridgeIdentity := x\<rparr>)),
        (0x05, store readString (\<lambda>x m. m\<lparr>bkBridgeStatus := x\<rparr>))]
       \<lparr>bkSuccess = False, bkMessage = [], bkTargetMeshName = [], bkBridgeIdentity = [], bkBridgeStatus = []\<rparr>
       payload"

definition CreateBridgeAck_ok :: "CreateBridgeAckMessage \<Rightarrow> bool" where
  "CreateBridgeAck_ok m \<longleftrightarrow> length (bkMessage m) < 2 ^ 32 \<and> (bkMessage m \<noteq> [] \<or> bkTargetMeshName m \<noteq> [] \<or> bkBridgeIdentity m \<noteq> [] \<or> bkBridgeStatus m \<noteq> []) \<and> length (bkTargetMeshName m) < 2 ^ 32 \<and> length (bkBridgeIdentity m) < 2 ^ 32 \<and> length (bkBridgeStatus m) < 2 ^ 32"

lemma CreateBridgeAck_roundtrip: "CreateBridgeAck_ok m \<Longrightarrow> DecodeCreateBridgeAckMessage (EncodeCreateBridgeAckMessage m) = Some (Inr m)"
  by (cases "bkTargetMeshName m = []"; cases "bkBridgeIdentity m = []"; cases "bkBridgeStatus m = []") (auto simp: DecodeCreateBridgeAckMessage_def EncodeCreateBridgeAckMessage_def CreateBridgeAck_ok_def loop_simps wire_simps)

lemma CreateBridgeAck_total: "\<exists>y. DecodeCreateBridgeAckMessage p = Some y"
  unfolding DecodeCreateBridgeAckMessage_def by (rule fields_loop_total) (auto intro!: progress)

interpretation CreateBridgeAck_wire: wire_codec EncodeCreateBridgeAckMessage DecodeCreateBridgeAckMessage CreateBridgeAck_ok
  by (unfold_locales; (erule CreateBridgeAck_roundtrip | rule CreateBridgeAck_total))

subsection \<open>\<open>ExecuteMessage\<close>\<close>

record ExecuteMessage =
  exCode :: gostring

definition EncodeExecuteMessage :: "ExecuteMessage \<Rightarrow> bytes" where
  "EncodeExecuteMessage m =
     encodeString 0x01 (exCode m)"

definition DecodeExecuteMessage :: "bytes \<Rightarrow> (wire_error + ExecuteMessage) option" where
  "DecodeExecuteMessage payload =
     fields_loop
       [(0x01, store readString (\<lambda>x m. m\<lparr>exCode := x\<rparr>))]
       \<lparr>exCode = []\<rparr>
       payload"

definition Execute_ok :: "ExecuteMessage \<Rightarrow> bool" where
  "Execute_ok m \<longleftrightarrow> length (exCode m) < 2 ^ 32 \<and> exCode m \<noteq> []"

lemma Execute_roundtrip: "Execute_ok m \<Longrightarrow> DecodeExecuteMessage (EncodeExecuteMessage m) = Some (Inr m)"
  by (cases m) (auto simp: DecodeExecuteMessage_def EncodeExecuteMessage_def Execute_ok_def loop_simps wire_simps)

lemma Execute_total: "\<exists>y. DecodeExecuteMessage p = Some y"
  unfolding DecodeExecuteMessage_def by (rule fields_loop_total) (auto intro!: progress)

interpretation Execute_wire: wire_codec EncodeExecuteMessage DecodeExecuteMessage Execute_ok
  by (unfold_locales; (erule Execute_roundtrip | rule Execute_total))


subsection \<open>Messages of a single field\<close>

text \<open>Their decoders read one field after checking its tag, without a loop.\<close>

record ReadMessage = rdPath :: "gostring list"
record ReadResponseMessage = rsValue :: Value
record ReadAtResponseMessage = asValue :: Value
record ChildrenMessage = chPath :: "gostring list"

definition EncodeReadMessage :: "ReadMessage \<Rightarrow> bytes" where
  "EncodeReadMessage m = encodeStringSlice 0x01 (rdPath m)"

definition DecodeReadMessage :: "bytes \<Rightarrow> wire_error + ReadMessage" where
  "DecodeReadMessage payload = rmap (\<lambda>path. \<lparr>rdPath = path\<rparr>) (decodeStringSlice payload 0x01)"

definition EncodeReadResponseMessage :: "ReadResponseMessage \<Rightarrow> bytes" where
  "EncodeReadResponseMessage m = encodeValue 0x01 (rsValue m)"

definition DecodeReadResponseMessage :: "bytes \<Rightarrow> wire_error + ReadResponseMessage" where
  "DecodeReadResponseMessage payload = rmap (\<lambda>value. \<lparr>rsValue = value\<rparr>) (decodeValue payload 0x01)"

definition EncodeReadAtResponseMessage :: "ReadAtResponseMessage \<Rightarrow> bytes" where
  "EncodeReadAtResponseMessage m = encodeValue 0x01 (asValue m)"

definition DecodeReadAtResponseMessage :: "bytes \<Rightarrow> wire_error + ReadAtResponseMessage" where
  "DecodeReadAtResponseMessage payload = rmap (\<lambda>value. \<lparr>asValue = value\<rparr>) (decodeValue payload 0x01)"

definition EncodeChildrenMessage :: "ChildrenMessage \<Rightarrow> bytes" where
  "EncodeChildrenMessage m = encodeStringSlice 0x01 (chPath m)"

definition DecodeChildrenMessage :: "bytes \<Rightarrow> wire_error + ChildrenMessage" where
  "DecodeChildrenMessage payload = rmap (\<lambda>path. \<lparr>chPath = path\<rparr>) (decodeStringSlice payload 0x01)"

definition path_ok :: "gostring list \<Rightarrow> bool" where
  "path_ok path \<longleftrightarrow> strings_ok path \<and> (path = [] \<or> last path \<noteq> [])"

definition value_ok :: "Value \<Rightarrow> bool" where
  "value_ok v \<longleftrightarrow> vData v \<noteq> [] \<and> length (vData v) < 2 ^ 32"

lemma decodeStringSlice_encode: "path_ok path \<Longrightarrow> decodeStringSlice (encodeStringSlice tag path) tag = Inr path"
  by (simp add: path_ok_def decodeStringSlice_def encode_defs wire_simps)

lemma decodeValue_encode: "value_ok v \<Longrightarrow> decodeValue (encodeValue tag v) tag = Inr v"
  by (simp add: value_ok_def decodeValue_def encode_defs wire_simps)

text \<open>A value without data is written but cannot be read back.\<close>

lemma decodeValue_empty: "vData v = [] \<Longrightarrow> decodeValue (encodeValue tag v) tag = Inl ReaderEOF"
  by (simp add: decodeValue_def encode_defs wire_readValue_def wire_simps ReadExact_def)

interpretation Read_wire: wire_codec EncodeReadMessage "\<lambda>p. Some (DecodeReadMessage p)" "\<lambda>m. path_ok (rdPath m)"
  by unfold_locales (simp_all add: EncodeReadMessage_def DecodeReadMessage_def decodeStringSlice_encode)

interpretation ReadResponse_wire: wire_codec EncodeReadResponseMessage
  "\<lambda>p. Some (DecodeReadResponseMessage p)" "\<lambda>m. value_ok (rsValue m)"
  by unfold_locales (simp_all add: EncodeReadResponseMessage_def DecodeReadResponseMessage_def decodeValue_encode)

interpretation ReadAtResponse_wire: wire_codec EncodeReadAtResponseMessage
  "\<lambda>p. Some (DecodeReadAtResponseMessage p)" "\<lambda>m. value_ok (asValue m)"
  by unfold_locales (simp_all add: EncodeReadAtResponseMessage_def DecodeReadAtResponseMessage_def decodeValue_encode)

interpretation Children_wire: wire_codec EncodeChildrenMessage
  "\<lambda>p. Some (DecodeChildrenMessage p)" "\<lambda>m. path_ok (chPath m)"
  by unfold_locales (simp_all add: EncodeChildrenMessage_def DecodeChildrenMessage_def decodeStringSlice_encode)

subsection \<open>Messages without fields\<close>

definition EncodeStatusMessage :: "unit \<Rightarrow> bytes" where "EncodeStatusMessage m = []"
definition EncodeMeshStatusMessage :: "unit \<Rightarrow> bytes" where "EncodeMeshStatusMessage m = []"
definition EncodeDiscoverMeshMessage :: "unit \<Rightarrow> bytes" where "EncodeDiscoverMeshMessage m = []"

definition DecodeMeshStatusMessage :: "bytes \<Rightarrow> (wire_error + unit) option" where
  "DecodeMeshStatusMessage payload = fields_loop [] () payload"

definition DecodeDiscoverMeshMessage :: "bytes \<Rightarrow> (wire_error + unit) option" where
  "DecodeDiscoverMeshMessage payload = fields_loop [] () payload"

interpretation MeshStatus_wire: wire_codec EncodeMeshStatusMessage DecodeMeshStatusMessage "\<lambda>_. True"
  by unfold_locales (simp_all add: EncodeMeshStatusMessage_def DecodeMeshStatusMessage_def fields_loop_total)

interpretation DiscoverMesh_wire: wire_codec EncodeDiscoverMeshMessage DecodeDiscoverMeshMessage "\<lambda>_. True"
  by unfold_locales (simp_all add: EncodeDiscoverMeshMessage_def DecodeDiscoverMeshMessage_def fields_loop_total)

subsection \<open>\<open>PurgeAckMessage\<close>\<close>

text \<open>The decoder has no case for the error and skips it.\<close>

record PurgeAckMessage =
  paSuccess :: bool
  paError :: gostring

definition EncodePurgeAckMessage :: "PurgeAckMessage \<Rightarrow> bytes" where
  "EncodePurgeAckMessage m =
     encodeBool 0x01 (paSuccess m) @
     (if paError m \<noteq> [] then encodeString 0x02 (paError m) else [])"

definition DecodePurgeAckMessage :: "bytes \<Rightarrow> (wire_error + PurgeAckMessage) option" where
  "DecodePurgeAckMessage payload =
     fields_loop [(0x01, store readBool (\<lambda>x m. m\<lparr>paSuccess := x\<rparr>))]
       \<lparr>paSuccess = False, paError = []\<rparr> payload"

lemma PurgeAck_drops_error:
  "length (paError m) < 2 ^ 32 \<Longrightarrow>
   DecodePurgeAckMessage (EncodePurgeAckMessage m) = Some (Inr (m\<lparr>paError := []\<rparr>))"
  by (cases m) (auto simp: DecodePurgeAckMessage_def EncodePurgeAckMessage_def loop_simps wire_simps skipField_def)

lemma PurgeAck_total: "\<exists>y. DecodePurgeAckMessage p = Some y"
  unfolding DecodePurgeAckMessage_def by (rule fields_loop_total) (auto intro!: progress)

interpretation PurgeAck_wire: wire_codec EncodePurgeAckMessage DecodePurgeAckMessage "\<lambda>m. paError m = []"
  using PurgeAck_drops_error PurgeAck_total by unfold_locales (auto intro: PurgeAckMessage.equality)

subsection \<open>\<open>MeshStatusResponseMessage\<close>\<close>

record BridgeStatusInfo =
  bsAddress :: gostring
  bsStatus :: gostring
  bsIdentity :: gostring
  bsConnectedAt :: "i64 option"

record MeshStatusResponseMessage =
  msMeshName :: gostring
  msStatus :: gostring
  msIsFounder :: bool
  msNodeIdentity :: gostring
  msMemberCount :: i64
  msZoneCount :: i64
  msFoundedAt :: "i64 option"
  msBridges :: "gostring \<Rightarrow> BridgeStatusInfo option"

definition EncodeMeshStatusResponseMessage :: "MeshStatusResponseMessage \<Rightarrow> bytes" where
  "EncodeMeshStatusResponseMessage m =
     encodeString 0x01 (msMeshName m) @
     encodeString 0x02 (msStatus m) @
     encodeBool 0x03 (msIsFounder m) @
     encodeString 0x04 (msNodeIdentity m) @
     encodeInt32 0x05 (ucast (msMemberCount m)) @
     encodeInt32 0x06 (ucast (msZoneCount m)) @
     (case msFoundedAt m of None \<Rightarrow> [] | Some t \<Rightarrow> encodeInt64 0x07 t)"

definition DecodeMeshStatusResponseMessage :: "bytes \<Rightarrow> (wire_error + MeshStatusResponseMessage) option" where
  "DecodeMeshStatusResponseMessage payload =
     fields_loop
       [(0x01, store readString (\<lambda>x m. m\<lparr>msMeshName := x\<rparr>)),
        (0x02, store readString (\<lambda>x m. m\<lparr>msStatus := x\<rparr>)),
        (0x03, store readBool (\<lambda>x m. m\<lparr>msIsFounder := x\<rparr>)),
        (0x04, store readString (\<lambda>x m. m\<lparr>msNodeIdentity := x\<rparr>)),
        (0x05, store readInt32 (\<lambda>x m. m\<lparr>msMemberCount := x\<rparr>)),
        (0x06, store readInt32 (\<lambda>x m. m\<lparr>msZoneCount := x\<rparr>)),
        (0x07, store binRead64 (\<lambda>x m. m\<lparr>msFoundedAt := Some x\<rparr>))]
       \<lparr>msMeshName = [], msStatus = [], msIsFounder = False, msNodeIdentity = [], msMemberCount = 0,
        msZoneCount = 0, msFoundedAt = None, msBridges = Map.empty\<rparr>
       payload"

definition MeshStatusResponse_ok :: "MeshStatusResponseMessage \<Rightarrow> bool" where
  "MeshStatusResponse_ok m \<longleftrightarrow>
     length (msMeshName m) < 2 ^ 32 \<and> length (msStatus m) < 2 ^ 32 \<and> length (msNodeIdentity m) < 2 ^ 32 \<and>
     fits_int32 (msMemberCount m) \<and> fits_int32 (msZoneCount m) \<and> msBridges m = Map.empty"

lemma MeshStatusResponse_roundtrip:
  "MeshStatusResponse_ok m \<Longrightarrow>
   DecodeMeshStatusResponseMessage (EncodeMeshStatusResponseMessage m) = Some (Inr m)"
  by (cases "msFoundedAt m") (auto simp: DecodeMeshStatusResponseMessage_def EncodeMeshStatusResponseMessage_def
      MeshStatusResponse_ok_def loop_simps wire_simps)

lemma MeshStatusResponse_total: "\<exists>y. DecodeMeshStatusResponseMessage p = Some y"
  unfolding DecodeMeshStatusResponseMessage_def by (rule fields_loop_total) (auto intro!: progress)

interpretation MeshStatusResponse_wire: wire_codec EncodeMeshStatusResponseMessage
  DecodeMeshStatusResponseMessage MeshStatusResponse_ok
  by (unfold_locales; (erule MeshStatusResponse_roundtrip | rule MeshStatusResponse_total))

subsection \<open>Results of scripts\<close>

record ExecuteResponseMessage =
  xrSuccess :: bool
  xrResult :: Value
  xrError :: gostring

definition EncodeExecuteResponseMessage :: "ExecuteResponseMessage \<Rightarrow> bytes" where
  "EncodeExecuteResponseMessage m =
     encodeBool 0x01 (xrSuccess m) @
     (if xrSuccess m \<and> (0 < length (vData (xrResult m)) \<or> vTypeTag (xrResult m) \<noteq> 0)
      then encodeValue 0x02 (xrResult m) else []) @
     (if \<not> xrSuccess m \<and> xrError m \<noteq> [] then encodeString 0x03 (xrError m) else [])"

definition DecodeExecuteResponseMessage :: "bytes \<Rightarrow> (wire_error + ExecuteResponseMessage) option" where
  "DecodeExecuteResponseMessage payload =
     fields_loop
       [(0x01, store readBool (\<lambda>x m. m\<lparr>xrSuccess := x\<rparr>)),
        (0x02, store wire_readValue (\<lambda>x m. m\<lparr>xrResult := x\<rparr>)),
        (0x03, store readString (\<lambda>x m. m\<lparr>xrError := x\<rparr>))]
       \<lparr>xrSuccess = False, xrResult = \<lparr>vTypeTag = 0, vData = []\<rparr>, xrError = []\<rparr>
       payload"

text \<open>A success carries a result and no error, a failure an error and no result.\<close>

definition ExecuteResponse_ok :: "ExecuteResponseMessage \<Rightarrow> bool" where
  "ExecuteResponse_ok m \<longleftrightarrow>
     (if xrSuccess m then value_ok (xrResult m) \<and> xrError m = []
      else xrResult m = \<lparr>vTypeTag = 0, vData = []\<rparr> \<and> length (xrError m) < 2 ^ 32)"

lemma ExecuteResponse_roundtrip:
  "ExecuteResponse_ok m \<Longrightarrow> DecodeExecuteResponseMessage (EncodeExecuteResponseMessage m) = Some (Inr m)"
  by (cases "xrSuccess m"; cases "xrError m = []") (auto simp: DecodeExecuteResponseMessage_def
      EncodeExecuteResponseMessage_def ExecuteResponse_ok_def value_ok_def loop_simps wire_simps)

lemma ExecuteResponse_total: "\<exists>y. DecodeExecuteResponseMessage p = Some y"
  unfolding DecodeExecuteResponseMessage_def by (rule fields_loop_total) (auto intro!: progress)

interpretation ExecuteResponse_wire: wire_codec EncodeExecuteResponseMessage
  DecodeExecuteResponseMessage ExecuteResponse_ok
  by (unfold_locales; (erule ExecuteResponse_roundtrip | rule ExecuteResponse_total))

record ExtractMessage = etPath :: "gostring list"

definition EncodeExtractMessage :: "ExtractMessage \<Rightarrow> bytes" where
  "EncodeExtractMessage m = encodeStringSlice 0x01 (etPath m)"

definition DecodeExtractMessage :: "bytes \<Rightarrow> (wire_error + ExtractMessage) option" where
  "DecodeExtractMessage payload =
     fields_loop [(0x01, store readStringSlice (\<lambda>x m. m\<lparr>etPath := x\<rparr>))] \<lparr>etPath = []\<rparr> payload"

lemma Extract_roundtrip:
  "path_ok (etPath m) \<Longrightarrow> DecodeExtractMessage (EncodeExtractMessage m) = Some (Inr m)"
  by (cases m) (simp add: DecodeExtractMessage_def EncodeExtractMessage_def path_ok_def loop_simps wire_simps)

lemma Extract_total: "\<exists>y. DecodeExtractMessage p = Some y"
  unfolding DecodeExtractMessage_def by (rule fields_loop_total) (auto intro!: progress)

interpretation Extract_wire: wire_codec EncodeExtractMessage DecodeExtractMessage "\<lambda>m. path_ok (etPath m)"
  by (unfold_locales; (erule Extract_roundtrip | rule Extract_total))

record ExtractResponseMessage =
  epSuccess :: bool
  epScript :: gostring
  epError :: gostring

definition EncodeExtractResponseMessage :: "ExtractResponseMessage \<Rightarrow> bytes" where
  "EncodeExtractResponseMessage m =
     encodeBool 0x01 (epSuccess m) @
     (if epSuccess m then encodeString 0x02 (epScript m) else encodeString 0x03 (epError m))"

definition DecodeExtractResponseMessage :: "bytes \<Rightarrow> (wire_error + ExtractResponseMessage) option" where
  "DecodeExtractResponseMessage payload =
     fields_loop
       [(0x01, store readBool (\<lambda>x m. m\<lparr>epSuccess := x\<rparr>)),
        (0x02, store readString (\<lambda>x m. m\<lparr>epScript := x\<rparr>)),
        (0x03, store readString (\<lambda>x m. m\<lparr>epError := x\<rparr>))]
       \<lparr>epSuccess = False, epScript = [], epError = []\<rparr>
       payload"

definition ExtractResponse_ok :: "ExtractResponseMessage \<Rightarrow> bool" where
  "ExtractResponse_ok m \<longleftrightarrow>
     (if epSuccess m then epScript m \<noteq> [] \<and> length (epScript m) < 2 ^ 32 \<and> epError m = []
      else epError m \<noteq> [] \<and> length (epError m) < 2 ^ 32 \<and> epScript m = [])"

lemma ExtractResponse_roundtrip:
  "ExtractResponse_ok m \<Longrightarrow> DecodeExtractResponseMessage (EncodeExtractResponseMessage m) = Some (Inr m)"
  by (cases "epSuccess m") (auto simp: DecodeExtractResponseMessage_def EncodeExtractResponseMessage_def
      ExtractResponse_ok_def loop_simps wire_simps)

lemma ExtractResponse_total: "\<exists>y. DecodeExtractResponseMessage p = Some y"
  unfolding DecodeExtractResponseMessage_def by (rule fields_loop_total) (auto intro!: progress)

interpretation ExtractResponse_wire: wire_codec EncodeExtractResponseMessage
  DecodeExtractResponseMessage ExtractResponse_ok
  by (unfold_locales; (erule ExtractResponse_roundtrip | rule ExtractResponse_total))

end
