(* ===== verification/Wire_Children.thy ===== *)
theory Wire_Children
  imports Wire_Messages StorageTree
begin

text \<open>
  The list of named children (\<open>ChildrenResponseMessage\<close>), which does not use tagged fields:
  a count, then four 64-bit fields and a name for each child. The decoder refuses a count that
  the remaining payload cannot hold.
\<close>

record ChildrenResponseMessage =
  crChildren :: "NamedAttribute list"

definition encodeChild :: "NamedAttribute \<Rightarrow> bytes" where
  "encodeChild child =
     put_be 8 (aID (naAttribute child)) @ put_be 8 (aLabelValueID (naAttribute child)) @
     put_be 8 (aFirstInstanceID (naAttribute child)) @ put_be 8 (aNextAttributeID (naAttribute child)) @
     put_be 4 (of_nat (length (naName child)) :: u32) @ naName child"

definition EncodeChildrenResponseMessage :: "ChildrenResponseMessage \<Rightarrow> bytes" where
  "EncodeChildrenResponseMessage msg =
     0x01 # put_be 4 (of_nat (length (crChildren msg)) :: u32) @ concat (map encodeChild (crChildren msg))"

definition decodeChild :: "NamedAttribute reader" where
  "decodeChild r0 =
     rbind (binRead64 r0) (\<lambda>(id, r1).
     rbind (binRead64 r1) (\<lambda>(labelValueID, r2).
     rbind (binRead64 r2) (\<lambda>(firstInstanceID, r3).
     rbind (binRead64 r3) (\<lambda>(nextAttributeID, r4).
     rbind (binRead32 r4) (\<lambda>(nameLen, r5).
       if length r5 < unat nameLen then Inl (ChildNameTooLong nameLen)
       else rmap (\<lambda>(name, r6).
              (\<lparr>naAttribute = \<lparr>aID = id, aLabelValueID = labelValueID, aFirstInstanceID = firstInstanceID,
                 aNextAttributeID = nextAttributeID\<rparr>, naName = name\<rparr>, r6))
            (ReadFull (unat nameLen) r5))))))"

fun decodeChildren :: "nat \<Rightarrow> NamedAttribute list \<Rightarrow> NamedAttribute list reader" where
  "decodeChildren 0 children r = Inr (children, r)"
| "decodeChildren (Suc n) children r =
     rbind (decodeChild r) (\<lambda>(child, r'). decodeChildren n (children @ [child]) r')"

definition DecodeChildrenResponseMessage :: "bytes \<Rightarrow> wire_error + ChildrenResponseMessage" where
  "DecodeChildrenResponseMessage payload =
     rbind (ReadByte payload) (\<lambda>(tag, r1).
       if tag \<noteq> 0x01 then Inl (UnexpectedTag 0x01 tag)
       else rbind (binRead32 r1) (\<lambda>(count, r2).
         if length r2 < unat count * 36 then Inl (ChildrenCountTooLarge count)
         else rmap (\<lambda>(children, r3). \<lparr>crChildren = children\<rparr>) (decodeChildren (unat count) [] r2)))"

subsection \<open>The list survives the trip\<close>

definition ChildrenResponse_ok :: "ChildrenResponseMessage \<Rightarrow> bool" where
  "ChildrenResponse_ok msg \<longleftrightarrow>
     length (crChildren msg) < 2 ^ 32 \<and> (\<forall>c\<in>set (crChildren msg). length (naName c) < 2 ^ 32)"

lemma ReadFull_put: "ReadFull (length d) (d @ r) = Inr (d, r)"
  by (simp add: ReadFull_def)

lemma decodeChild_encodeChild:
  "length (naName c) < 2 ^ 32 \<Longrightarrow> decodeChild (encodeChild c @ r) = Inr (c, r)"
  by (simp add: decodeChild_def encodeChild_def binRead_put ReadFull_put unat_of_nat_u32)

lemma decodeChildren_encode:
  "\<forall>c\<in>set cs. length (naName c) < 2 ^ 32 \<Longrightarrow>
   decodeChildren (length cs) acc (concat (map encodeChild cs) @ r) = Inr (acc @ cs, r)"
  by (induction cs arbitrary: acc) (simp_all add: decodeChild_encodeChild)

lemma length_encodeChildren: "length cs * 36 \<le> length (concat (map encodeChild cs))"
  by (induction cs) (simp_all add: encodeChild_def)

lemma ChildrenResponse_roundtrip:
  assumes "ChildrenResponse_ok msg"
  shows "DecodeChildrenResponseMessage (EncodeChildrenResponseMessage msg) = Inr msg"
proof -
  have "decodeChildren (length (crChildren msg)) [] (concat (map encodeChild (crChildren msg))) =
      Inr (crChildren msg, [])"
    using decodeChildren_encode [of "crChildren msg" "[]" "[]"] assms by (simp add: ChildrenResponse_ok_def)
  then show ?thesis
    using assms length_encodeChildren [of "crChildren msg"]
    by (cases msg) (simp add: DecodeChildrenResponseMessage_def EncodeChildrenResponseMessage_def
        ChildrenResponse_ok_def ReadByte_Cons binRead_put unat_of_nat_u32 not_less)
qed

interpretation ChildrenResponse_wire: wire_codec EncodeChildrenResponseMessage
  "\<lambda>p. Some (DecodeChildrenResponseMessage p)" ChildrenResponse_ok
  by unfold_locales (auto simp: ChildrenResponse_roundtrip)

subsection \<open>What a decoded list can cost\<close>

lemma binRead_length: "binRead64 r = Inr (x, r') \<Longrightarrow> length r = 8 + length r'"
    "binRead32 r = Inr (y, r') \<Longrightarrow> length r = 4 + length r'"
  by (auto simp: binRead64_def binRead32_def ReadFull_def split: if_splits)

lemma decodeChild_length:
  "decodeChild r = Inr (c, r') \<Longrightarrow> length r = 36 + length (naName c) + length r'"
  by (auto simp: decodeChild_def result_iff ReadFull_def dest!: binRead_length split: if_splits)

lemma decodeChildren_length:
  "decodeChildren n acc r = Inr (cs, r') \<Longrightarrow>
   \<exists>new. cs = acc @ new \<and> length new = n \<and>
     length r = sum_list (map (\<lambda>c. 36 + length (naName c)) new) + length r'"
proof (induction n arbitrary: acc r)
  case (Suc n)
  then obtain c r1 where c: "decodeChild r = Inr (c, r1)" "decodeChildren n (acc @ [c]) r1 = Inr (cs, r')"
    by (auto simp: result_iff)
  from Suc.IH [OF c(2)] obtain new where "cs = (acc @ [c]) @ new" "length new = n"
      "length r1 = sum_list (map (\<lambda>c. 36 + length (naName c)) new) + length r'" by blast
  then show ?case using decodeChild_length [OF c(1)] by (intro exI [of _ "c # new"]) simp
qed simp

end
