(* ===== verification/Wire_Properties.thy ===== *)
theory Wire_Properties
  imports Wire_Children
begin

text \<open>
  The properties of the wire protocol: which frames are accepted, which corruptions are
  detected, that messages arrive as they were sent, and that every decoder returns on every
  payload.
\<close>

subsection \<open>Frames\<close>

text \<open>
  C10. The frame decoder accepts exactly the frames that the encoder writes for messages of the
  supported version with the right checksum, and returns the message they were written for.
\<close>

theorem DecodeMessage_iff:
  "DecodeMessage data = Inr msg \<longleftrightarrow>
     EncodeMessage msg = Inr data \<and> mChecksum msg = ChecksumIEEE (mPayload msg) \<and> mVersion msg = Version"
proof
  assume r: "EncodeMessage msg = Inr data \<and> mChecksum msg = ChecksumIEEE (mPayload msg) \<and> mVersion msg = Version"
  then have l: "length (mPayload msg) = unat (mPayloadLength msg)"
    by (auto simp: EncodeMessage_def split: if_splits)
  then have "msg = CreateMessage (mType msg) (mSequence msg) (mPayload msg)"
    using r by (cases msg) (simp add: CreateMessage_def)
  moreover have "length (mPayload msg) < 2 ^ 32" using l by simp
  ultimately show "DecodeMessage data = Inr msg"
    using r Decode_Create [of "mPayload msg" "mType msg" "mSequence msg"] by auto
qed (use DecodeMessage_sound in blast)

text \<open>
  C11. A frame in which one byte was changed is refused, wherever the byte lies in the version,
  the length, the payload or the checksum; only the type and the sequence number, which no
  checksum covers, can change unnoticed.
\<close>

theorem corrupted_byte_detected:
  assumes "DecodeMessage data = Inr msg" "i < length data" "b \<noteq> data ! i" "i < 1 \<or> 5 < i"
  shows "\<exists>e. DecodeMessage (data[i := b]) = Inl e"
  using assms by (rule DecodeMessage_update)

definition frame1 :: bytes where
  "frame1 = [1, 1, 0, 0, 0, 7, 0, 0, 0, 2, 104, 105, 0xd8, 0x93, 0x2a, 0xac]"

lemma frame1_decodes: "DecodeMessage frame1 = Inr (CreateMessage 1 7 [104, 105])"
  by code_simp

theorem corrupted_byte_detected_witness:
  "(\<exists>e. DecodeMessage (frame1[10 := 105]) = Inl e) \<and>
   DecodeMessage (frame1[1 := 2]) = Inr (CreateMessage 2 7 [104, 105])"
proof
  have "10 < length frame1" "(105 :: u8) \<noteq> frame1 ! 10" by (simp_all add: frame1_def)
  then show "\<exists>e. DecodeMessage (frame1[10 := 105]) = Inl e"
    using corrupted_byte_detected [OF frame1_decodes, of 10 105] by simp
  show "DecodeMessage (frame1[1 := 2]) = Inr (CreateMessage 2 7 [104, 105])" by code_simp
qed

subsection \<open>Messages\<close>

text \<open>
  A write request arrives as it was sent: encoded, framed, unframed and decoded again it
  gives the same path, value and author under the same sequence number.
\<close>

theorem write_request_delivered:
  assumes "Write_ok m" "length (EncodeWriteMessage m) < 2 ^ 32"
  shows "\<exists>data msg. EncodeMessage (CreateMessage ty sq (EncodeWriteMessage m)) = Inr data \<and>
    DecodeMessage data = Inr msg \<and> mType msg = ty \<and> mSequence msg = sq \<and>
    DecodeWriteMessage (mPayload msg) = Some (Inr m)"
  by (rule Write_wire.delivered [OF assms])

theorem write_request_delivered_witness:
  "\<exists>data msg. EncodeMessage (CreateMessage 3 9 (EncodeWriteMessage
        \<lparr>wrPath = [[97], []], wrValue = \<lparr>vTypeTag = 6, vData = []\<rparr>, wrAuthor = 4\<rparr>)) = Inr data \<and>
    DecodeMessage data = Inr msg \<and> mType msg = 3 \<and> mSequence msg = 9 \<and>
    DecodeWriteMessage (mPayload msg) =
      Some (Inr \<lparr>wrPath = [[97], []], wrValue = \<lparr>vTypeTag = 6, vData = []\<rparr>, wrAuthor = 4\<rparr>)"
  by (rule write_request_delivered)
    (simp_all add: Write_ok_def strings_ok_def EncodeWriteMessage_def encode_defs put_strings_def)



text \<open>
  C13. The messages of authentication, registration and the mesh survive their encoding under the
  stated conditions: lengths and counts fit their 32 bit fields, a string that is the last thing
  written without a tag is not empty, and a mesh status has no bridges, which are not sent.
\<close>

theorem mesh_messages_roundtrip:
  "(AuthInit_ok ai \<longrightarrow> DecodeAuthInitMessage (EncodeAuthInitMessage ai) = Some (Inr ai)) \<and>
   (AuthChallenge_ok ac \<longrightarrow> DecodeAuthChallengeMessage (EncodeAuthChallengeMessage ac) = Some (Inr ac)) \<and>
   (AuthResponse_ok ar \<longrightarrow> DecodeAuthResponseMessage (EncodeAuthResponseMessage ar) = Some (Inr ar)) \<and>
   (AuthResult_ok au \<longrightarrow> DecodeAuthResultMessage (EncodeAuthResultMessage au) = Some (Inr au)) \<and>
   (Register_ok rg \<longrightarrow> DecodeRegisterMessage (EncodeRegisterMessage rg) = Some (Inr rg)) \<and>
   (RegisterResult_ok rt \<longrightarrow> DecodeRegisterResultMessage (EncodeRegisterResultMessage rt) = Some (Inr rt)) \<and>
   (InviteCreateResult_ok ic \<longrightarrow> DecodeInviteCreateResultMessage (EncodeInviteCreateResultMessage ic) = Some (Inr ic)) \<and>
   (WhoAmIResponse_ok wi \<longrightarrow> DecodeWhoAmIResponseMessage (EncodeWhoAmIResponseMessage wi) = Some (Inr wi)) \<and>
   (StopAck_ok sa \<longrightarrow> DecodeStopAckMessage (EncodeStopAckMessage sa) = Some (Inr sa)) \<and>
   (CreateMesh_ok cm \<longrightarrow> DecodeCreateMeshMessage (EncodeCreateMeshMessage cm) = Some (Inr cm)) \<and>
   (CreateMeshAck_ok cma \<longrightarrow> DecodeCreateMeshAckMessage (EncodeCreateMeshAckMessage cma) = Some (Inr cma)) \<and>
   (DiscoverMeshResponse_ok dm \<longrightarrow> DecodeDiscoverMeshResponseMessage (EncodeDiscoverMeshResponseMessage dm) = Some (Inr dm)) \<and>
   (JoinMesh_ok jm \<longrightarrow> DecodeJoinMeshMessage (EncodeJoinMeshMessage jm) = Some (Inr jm)) \<and>
   (JoinMeshAck_ok jma \<longrightarrow> DecodeJoinMeshAckMessage (EncodeJoinMeshAckMessage jma) = Some (Inr jma)) \<and>
   (CreateBridge_ok cb \<longrightarrow> DecodeCreateBridgeMessage (EncodeCreateBridgeMessage cb) = Some (Inr cb)) \<and>
   (CreateBridgeAck_ok cba \<longrightarrow> DecodeCreateBridgeAckMessage (EncodeCreateBridgeAckMessage cba) = Some (Inr cba)) \<and>
   (MeshStatusResponse_ok ms \<longrightarrow> DecodeMeshStatusResponseMessage (EncodeMeshStatusResponseMessage ms) = Some (Inr ms))"
  using AuthInit_wire.roundtrip [of ai] AuthChallenge_wire.roundtrip [of ac]
    AuthResponse_wire.roundtrip [of ar] AuthResult_wire.roundtrip [of au]
    Register_wire.roundtrip [of rg] RegisterResult_wire.roundtrip [of rt]
    InviteCreateResult_wire.roundtrip [of ic] WhoAmIResponse_wire.roundtrip [of wi]
    StopAck_wire.roundtrip [of sa] CreateMesh_wire.roundtrip [of cm]
    CreateMeshAck_wire.roundtrip [of cma] DiscoverMeshResponse_wire.roundtrip [of dm]
    JoinMesh_wire.roundtrip [of jm] JoinMeshAck_wire.roundtrip [of jma]
    CreateBridge_wire.roundtrip [of cb] CreateBridgeAck_wire.roundtrip [of cba]
    MeshStatusResponse_wire.roundtrip [of ms]
  by simp

theorem mesh_messages_roundtrip_witness:
  "DecodeAuthInitMessage (EncodeAuthInitMessage \<lparr>aiIdentity = [97]\<rparr>) = Some (Inr \<lparr>aiIdentity = [97]\<rparr>)"
  using mesh_messages_roundtrip [where ai = "\<lparr>aiIdentity = [97]\<rparr>"] by (simp add: AuthInit_ok_def)

text \<open>
  C14. No payload makes a decoder of tagged fields run forever: each returns a message or an
  error on every sequence of bytes.
\<close>

theorem decoders_total:
  "(\<exists>y. DecodeReadAtMessage p = Some y) \<and>
   (\<exists>y. DecodeWriteMessage p = Some y) \<and>
   (\<exists>y. DecodeWriteAckMessage p = Some y) \<and>
   (\<exists>y. DecodePurgeMessage p = Some y) \<and>
   (\<exists>y. DecodeCompactAckMessage p = Some y) \<and>
   (\<exists>y. DecodeErrorMessage p = Some y) \<and>
   (\<exists>y. DecodeStatusResponseMessage p = Some y) \<and>
   (\<exists>y. DecodeExecuteMessage p = Some y) \<and>
   (\<exists>y. DecodeExecuteResponseMessage p = Some y) \<and>
   (\<exists>y. DecodeExtractMessage p = Some y) \<and>
   (\<exists>y. DecodeExtractResponseMessage p = Some y) \<and>
   (\<exists>y. DecodeAuthInitMessage p = Some y) \<and>
   (\<exists>y. DecodeAuthChallengeMessage p = Some y) \<and>
   (\<exists>y. DecodeAuthResponseMessage p = Some y) \<and>
   (\<exists>y. DecodeAuthResultMessage p = Some y) \<and>
   (\<exists>y. DecodeRegisterMessage p = Some y) \<and>
   (\<exists>y. DecodeRegisterResultMessage p = Some y) \<and>
   (\<exists>y. DecodeInviteCreateResultMessage p = Some y) \<and>
   (\<exists>y. DecodeWhoAmIResponseMessage p = Some y) \<and>
   (\<exists>y. DecodeStopAckMessage p = Some y) \<and>
   (\<exists>y. DecodeCreateMeshMessage p = Some y) \<and>
   (\<exists>y. DecodeCreateMeshAckMessage p = Some y) \<and>
   (\<exists>y. DecodeDiscoverMeshResponseMessage p = Some y) \<and>
   (\<exists>y. DecodeJoinMeshMessage p = Some y) \<and>
   (\<exists>y. DecodeJoinMeshAckMessage p = Some y) \<and>
   (\<exists>y. DecodeCreateBridgeMessage p = Some y) \<and>
   (\<exists>y. DecodeCreateBridgeAckMessage p = Some y) \<and>
   (\<exists>y. DecodeMeshStatusResponseMessage p = Some y) \<and>
   (\<exists>y. DecodePurgeAckMessage p = Some y) \<and>
   (\<exists>y. DecodeMeshStatusMessage p = Some y) \<and>
   (\<exists>y. DecodeDiscoverMeshMessage p = Some y)"
  using ReadAt_wire.total [of p] Write_wire.total [of p] WriteAck_wire.total [of p]
    Purge_wire.total [of p] CompactAck_wire.total [of p] Error_wire.total [of p]
    StatusResponse_wire.total [of p] Execute_wire.total [of p]
    ExecuteResponse_wire.total [of p] Extract_wire.total [of p]
    ExtractResponse_wire.total [of p] AuthInit_wire.total [of p]
    AuthChallenge_wire.total [of p] AuthResponse_wire.total [of p] AuthResult_wire.total [of p]
    Register_wire.total [of p] RegisterResult_wire.total [of p]
    InviteCreateResult_wire.total [of p] WhoAmIResponse_wire.total [of p]
    StopAck_wire.total [of p] CreateMesh_wire.total [of p] CreateMeshAck_wire.total [of p]
    DiscoverMeshResponse_wire.total [of p] JoinMesh_wire.total [of p]
    JoinMeshAck_wire.total [of p] CreateBridge_wire.total [of p]
    CreateBridgeAck_wire.total [of p] MeshStatusResponse_wire.total [of p]
    PurgeAck_wire.total [of p] MeshStatus_wire.total [of p] DiscoverMesh_wire.total [of p]
  by blast

text \<open>
  A reader of the protocol may be older than the writer: a field with a tag it does not know,
  in the range of the length-prefixed fields, is skipped and changes nothing in the decoded
  request.
\<close>

theorem unknown_field_skipped:
  assumes "Write_ok m" "0x04 \<le> tag" "tag \<le> 0x10" "length s < 2 ^ 32"
  shows "DecodeWriteMessage (EncodeWriteMessage m @ encodeString tag s) = Some (Inr m)"
proof -
  have "tag \<noteq> 1" "tag \<noteq> 2" "tag \<noteq> 3" "1 \<le> tag" using assms(2) by (auto simp: word_le_nat_alt)
  then show ?thesis
    using assms(1,3,4) by (cases m) (auto simp: DecodeWriteMessage_def EncodeWriteMessage_def Write_ok_def
      loop_simps wire_simps skipField_def)
qed

theorem unknown_field_skipped_witness:
  "DecodeWriteMessage (EncodeWriteMessage \<lparr>wrPath = [[97]], wrValue = \<lparr>vTypeTag = 6, vData = [1]\<rparr>, wrAuthor = 4\<rparr>
      @ encodeString 5 [9, 9]) =
   Some (Inr \<lparr>wrPath = [[97]], wrValue = \<lparr>vTypeTag = 6, vData = [1]\<rparr>, wrAuthor = 4\<rparr>)"
  by (rule unknown_field_skipped) (simp_all add: Write_ok_def strings_ok_def)

text \<open>
  C15. A listing of children survives its encoding, and what the decoder builds is paid for by
  the payload: five bytes, and for each child 36 bytes and its name.
\<close>

theorem children_response_exact:
  "(ChildrenResponse_ok msg \<longrightarrow>
      DecodeChildrenResponseMessage (EncodeChildrenResponseMessage msg) = Inr msg) \<and>
   (DecodeChildrenResponseMessage payload = Inr msg \<longrightarrow>
      5 + (\<Sum>c\<leftarrow>crChildren msg. 36 + length (naName c)) \<le> length payload)"
proof -
  have "5 + (\<Sum>c\<leftarrow>crChildren msg. 36 + length (naName c)) \<le> length payload"
    if d: "DecodeChildrenResponseMessage payload = Inr msg"
  proof -
    obtain r1 count r2 r3 where "payload = 1 # r1" "binRead32 r1 = Inr (count, r2)"
        "decodeChildren (unat count) [] r2 = Inr (crChildren msg, r3)"
      using d by (cases payload) (auto simp: DecodeChildrenResponseMessage_def ReadByte_def result_iff
          split: if_splits)
    then show ?thesis using binRead_length(2) decodeChildren_length by fastforce
  qed
  then show ?thesis using ChildrenResponse_roundtrip by blast
qed

theorem children_response_exact_witness:
  "DecodeChildrenResponseMessage (EncodeChildrenResponseMessage \<lparr>crChildren =
      [\<lparr>naAttribute = \<lparr>aID = 1, aLabelValueID = 2, aFirstInstanceID = 3, aNextAttributeID = 0\<rparr>, naName = []\<rparr>]\<rparr>) =
   Inr \<lparr>crChildren =
      [\<lparr>naAttribute = \<lparr>aID = 1, aLabelValueID = 2, aFirstInstanceID = 3, aNextAttributeID = 0\<rparr>, naName = []\<rparr>]\<rparr>"
  using children_response_exact [where msg = "\<lparr>crChildren =
      [\<lparr>naAttribute = \<lparr>aID = 1, aLabelValueID = 2, aFirstInstanceID = 3, aNextAttributeID = 0\<rparr>, naName = []\<rparr>]\<rparr>"]
  by (simp add: ChildrenResponse_ok_def)

subsection \<open>What is lost on the wire\<close>

text \<open>
  A reply to a read whose value has no data, such as the value of a node without content, is
  written but not understood: the reader reports the end of the payload. The same value in a
  write request is understood, since another field follows.
\<close>

theorem empty_value_reply_refused:
  assumes "vData v = []"
  shows "DecodeReadResponseMessage (EncodeReadResponseMessage \<lparr>rsValue = v\<rparr>) = Inl ReaderEOF \<and>
    DecodeWriteMessage (EncodeWriteMessage \<lparr>wrPath = [], wrValue = v, wrAuthor = w\<rparr>) =
      Some (Inr \<lparr>wrPath = [], wrValue = v, wrAuthor = w\<rparr>)"
  using decodeValue_empty [OF assms] assms
  by (auto simp: DecodeReadResponseMessage_def EncodeReadResponseMessage_def Write_ok_def strings_ok_def
      intro!: Write_roundtrip)

theorem empty_value_reply_refused_witness:
  "DecodeReadResponseMessage (EncodeReadResponseMessage \<lparr>rsValue = \<lparr>vTypeTag = 0, vData = []\<rparr>\<rparr>) =
     Inl ReaderEOF"
  using empty_value_reply_refused [of "\<lparr>vTypeTag = 0, vData = []\<rparr>" 0] by simp

text \<open>
  The acknowledgement of a purge arrives without its error: the encoder writes it, the
  decoder skips it, and everything else arrives.
\<close>

theorem purge_error_lost:
  assumes "length (paError m) < 2 ^ 32"
  shows "DecodePurgeAckMessage (EncodePurgeAckMessage m) = Some (Inr (m\<lparr>paError := []\<rparr>))"
  using assms by (rule PurgeAck_drops_error)

theorem purge_error_lost_witness:
  "DecodePurgeAckMessage (EncodePurgeAckMessage \<lparr>paSuccess = False, paError = [110, 111]\<rparr>) =
     Some (Inr \<lparr>paSuccess = False, paError = []\<rparr>)"
  using purge_error_lost [of "\<lparr>paSuccess = False, paError = [110, 111]\<rparr>"] by simp

end
