(* ===== verification/Go_Float.thy ===== *)
theory Go_Float
  imports Prelude
begin

text \<open>
  Go's \<open>float64\<close> as its 64 bits (\<open>math.Float64bits\<close>). Every finite number is a whole multiple
  of the smallest subnormal \<open>2 powi - 1074\<close>, so a float is read as an integer in these units;
  an infinity reads as an integer above all finite ones. Arithmetic computes exactly on these
  integers and rounds once, to the nearest with ties to even, as IEEE 754 prescribes.
\<close>

type_synonym f64 = u64

definition f64_neg :: "f64 \<Rightarrow> bool" where "f64_neg w \<longleftrightarrow> 2 ^ 63 \<le> uint w"
definition f64_exp :: "f64 \<Rightarrow> int" where "f64_exp w = uint w div 2 ^ 52 mod 2 ^ 11"
definition f64_man :: "f64 \<Rightarrow> int" where "f64_man w = uint w mod 2 ^ 52"

definition IsNaN :: "f64 \<Rightarrow> bool" where "IsNaN w \<longleftrightarrow> f64_exp w = 2047 \<and> f64_man w \<noteq> 0"
definition IsInf :: "f64 \<Rightarrow> bool" where "IsInf w \<longleftrightarrow> f64_exp w = 2047 \<and> f64_man w = 0"

text \<open>Magnitude and value in units of the smallest subnormal.\<close>

definition f64_mag :: "f64 \<Rightarrow> int" where
  "f64_mag w = (if f64_exp w = 0 then f64_man w else (2 ^ 52 + f64_man w) * 2 ^ nat (f64_exp w - 1))"

definition f64_units :: "f64 \<Rightarrow> int" where
  "f64_units w = (if f64_neg w then - f64_mag w else f64_mag w)"

definition f64_less :: "f64 \<Rightarrow> f64 \<Rightarrow> bool" where
  "f64_less a b \<longleftrightarrow> \<not> IsNaN a \<and> \<not> IsNaN b \<and> f64_units a < f64_units b"

definition f64_eq :: "f64 \<Rightarrow> f64 \<Rightarrow> bool" where
  "f64_eq a b \<longleftrightarrow> \<not> IsNaN a \<and> \<not> IsNaN b \<and> f64_units a = f64_units b"

subsection \<open>Rounding\<close>

fun bit_length :: "int \<Rightarrow> nat" where
  "bit_length n = (if n \<le> 0 then 0 else Suc (bit_length (n div 2)))"

declare bit_length.simps [simp del]

definition f64_inf :: int where "f64_inf = 2047 * 2 ^ 52"
definition f64_nan :: f64 where "f64_nan = of_int (2047 * 2 ^ 52 + 2 ^ 51)"

text \<open>
  The bits of the float nearest to \<open>num / den\<close> units. With a quotient of at most 53 bits no
  bit is dropped before rounding; otherwise \<open>e\<close> bits are, and the exponent field is \<open>e + 1\<close>.
  The carry of a mantissa rounded up to \<open>2 ^ 53\<close> moves into the exponent by itself.
\<close>

definition f64_round_bits :: "int \<Rightarrow> int \<Rightarrow> int" where
  "f64_round_bits num den =
     (let e = bit_length (num div den) - 53;
          d = den * 2 ^ e;
          m = num div d;
          r = num mod d;
          m' = (if d < 2 * r \<or> (2 * r = d \<and> odd m) then m + 1 else m)
      in min f64_inf (int e * 2 ^ 52 + m'))"

definition f64_signed :: "bool \<Rightarrow> int \<Rightarrow> f64" where
  "f64_signed neg b = of_int ((if neg then 2 ^ 63 else 0) + b)"

definition f64_round :: "bool \<Rightarrow> int \<Rightarrow> int \<Rightarrow> f64" where
  "f64_round neg num den = f64_signed neg (f64_round_bits num den)"

definition f64_one :: int where "f64_one = 2 ^ 1074"

text \<open>Conversions \<open>float64(n)\<close> from the integer types.\<close>

definition f64_of_int :: "int \<Rightarrow> f64" where
  "f64_of_int i = f64_round (i < 0) (\<bar>i\<bar> * f64_one) 1"

text \<open>
  The conversion \<open>float64(x)\<close> from \<open>float32\<close> is exact: \<open>2 ^ 925\<close> units of \<open>float64\<close> are one of \<open>float32\<close>. It
  makes every NaN a quiet one.
\<close>

definition f64_of_f32 :: "32 word \<Rightarrow> f64" where
  "f64_of_f32 w =
     (let neg = 2 ^ 31 \<le> uint w; e = uint w div 2 ^ 23 mod 2 ^ 8; m = uint w mod 2 ^ 23 in
      if e = 255 then f64_signed neg (f64_inf + (if m = 0 then 0 else (m * 2 ^ 29) OR 2 ^ 51))
      else f64_round neg ((if e = 0 then m else (2 ^ 23 + m) * 2 ^ nat (e - 1)) * 2 ^ 925) 1)"

subsection \<open>Arithmetic\<close>

definition f64_add :: "f64 \<Rightarrow> f64 \<Rightarrow> f64" where
  "f64_add a b =
     (if IsNaN a \<or> IsNaN b then f64_nan
      else if IsInf a then (if IsInf b \<and> f64_neg a \<noteq> f64_neg b then f64_nan else a)
      else if IsInf b then b
      else let s = f64_units a + f64_units b in
           if s = 0 then f64_signed (f64_neg a \<and> f64_neg b) 0 else f64_round (s < 0) \<bar>s\<bar> 1)"

definition f64_negate :: "f64 \<Rightarrow> f64" where
  "f64_negate a = f64_signed (\<not> f64_neg a) (uint a mod 2 ^ 63)"

definition f64_sub :: "f64 \<Rightarrow> f64 \<Rightarrow> f64" where
  "f64_sub a b = (if IsNaN b then f64_nan else f64_add a (f64_negate b))"

definition f64_mul :: "f64 \<Rightarrow> f64 \<Rightarrow> f64" where
  "f64_mul a b =
     (let neg = (f64_neg a \<noteq> f64_neg b) in
      if IsNaN a \<or> IsNaN b then f64_nan
      else if IsInf a \<or> IsInf b then
        (if f64_mag a = 0 \<or> f64_mag b = 0 then f64_nan else f64_signed neg f64_inf)
      else f64_round neg (f64_mag a * f64_mag b) f64_one)"

definition f64_div :: "f64 \<Rightarrow> f64 \<Rightarrow> f64" where
  "f64_div a b =
     (let neg = (f64_neg a \<noteq> f64_neg b) in
      if IsNaN a \<or> IsNaN b \<or> IsInf a \<and> IsInf b then f64_nan
      else if IsInf a then f64_signed neg f64_inf
      else if IsInf b then f64_signed neg 0
      else if f64_mag b = 0 then (if f64_mag a = 0 then f64_nan else f64_signed neg f64_inf)
      else f64_round neg (f64_mag a * f64_one) (f64_mag b))"

text \<open>\<open>math.Mod\<close>: the remainder has the sign of the dividend.\<close>

definition f64_mod :: "f64 \<Rightarrow> f64 \<Rightarrow> f64" where
  "f64_mod a b =
     (if f64_mag b = 0 \<or> IsInf a \<or> IsNaN a \<or> IsNaN b then f64_nan
      else if IsInf b then a
      else f64_round (f64_neg a) (f64_mag a mod f64_mag b) 1)"

subsection \<open>Small integers are exact\<close>

lemma f64_parts:
  assumes "0 \<le> e" "e < 2047" "0 \<le> m" "m < 2 ^ 52" "w = of_int (e * 2 ^ 52 + m)"
  shows "f64_exp w = e" "f64_man w = m" "\<not> f64_neg w"
proof -
  have b: "0 \<le> e * 2 ^ 52 + m" "e * 2 ^ 52 + m < 2 ^ 63" using assms by simp_all
  then have u: "uint w = e * 2 ^ 52 + m" 
    unfolding assms(5) by (simp only: unsigned_of_int) (simp add: take_bit_int_eq_self)
  have ed: "(e * 2 ^ 52 + m) div 2 ^ 52 = e"
    using div_mult_self3 [of "2 ^ 52" e m] assms(3,4) by (simp add: div_pos_pos_trivial)
  show "f64_exp w = e" unfolding f64_exp_def u ed using assms(1,2) by (simp add: mod_pos_pos_trivial)
  show "f64_man w = m" unfolding f64_man_def u using assms by (simp add: mod_pos_pos_trivial)
  show "\<not> f64_neg w" unfolding f64_neg_def u using b by simp
qed

lemma bit_length_mult_2: "0 < n \<Longrightarrow> bit_length (n * 2) = Suc (bit_length n)"
  by (subst bit_length.simps) simp

lemma bit_length_pow: "0 < n \<Longrightarrow> bit_length (n * 2 ^ k) = bit_length n + k"
proof (induction k)
  case (Suc k)
  then have "bit_length (n * 2 ^ k * 2) = Suc (bit_length (n * 2 ^ k))" by (intro bit_length_mult_2) simp
  with Suc show ?case by (simp add: ac_simps)
qed simp

lemma bit_length_pos: "0 < n \<Longrightarrow> 0 < bit_length n"
  by (subst bit_length.simps) simp

lemma bit_length_bounds:
  assumes "0 < n"
  shows "2 ^ (bit_length n - 1) \<le> n \<and> n < 2 ^ bit_length n"
  using assms
proof (induction n rule: bit_length.induct)
  case (1 n)
  show ?case
  proof (cases "n = 1")
    case True
    then show ?thesis by (simp add: bit_length.simps)
  next
    case False
    then have h: "0 < n div 2" using 1(2) by linarith
    have bl: "bit_length n = Suc (bit_length (n div 2))" using 1(2) by (subst bit_length.simps) simp
    have "2 ^ (bit_length (n div 2) - 1) \<le> n div 2" "n div 2 < 2 ^ bit_length (n div 2)"
      using 1(1) h 1(2) by auto
    moreover have "(2 :: int) ^ bit_length (n div 2) = 2 * 2 ^ (bit_length (n div 2) - 1)"
      using bit_length_pos [OF h] by (metis power_Suc Suc_diff_1)
    moreover have "2 * p \<le> n \<and> n < 4 * p" if "p \<le> n div 2" "n div 2 < 2 * p" for p using that by linarith
    ultimately show ?thesis unfolding bl by simp
  qed
qed

text \<open>Every integer below \<open>2 ^ 53\<close> has a float of its own.\<close>

lemma f64_of_int_exact:
  assumes "0 \<le> n" "n < 2 ^ 53"
  shows "f64_units (f64_of_int n) = n * f64_one" "\<not> IsNaN (f64_of_int n)"
proof -
  have "f64_units (f64_of_int n) = n * f64_one \<and> \<not> IsNaN (f64_of_int n)"
  proof (cases "n = 0")
    case True
    then show ?thesis
      by (simp add: f64_of_int_def f64_round_def f64_signed_def f64_round_bits_def Let_def f64_units_def
          f64_mag_def f64_exp_def f64_man_def f64_neg_def IsNaN_def bit_length.simps f64_inf_def)
  next
    case False
    then have pos: "0 < n" using assms by simp
    have le53: "bit_length n \<le> 53"
    proof (rule ccontr)
      assume "\<not> ?thesis"
      then have "(2 :: int) ^ 53 \<le> 2 ^ (bit_length n - 1)" by (intro power_increasing) auto
      also have "\<dots> \<le> n" using bit_length_bounds pos by simp
      finally show False using assms by simp
    qed
    define k where "k = 53 - bit_length n"
    define e where "e = 1021 + bit_length n"
    define m where "m = n * 2 ^ k"
    have k: "bit_length n + k = 53" using le53 by (simp add: k_def)
    have ek: "k + e = 1074" using k by (simp add: e_def)
    have "bit_length (n * f64_one) - 53 = e"
      using bit_length_pow [OF pos, of 1074] unfolding f64_one_def e_def by linarith
    moreover have nd: "n * f64_one = m * 2 ^ e"
      unfolding f64_one_def m_def ek [symmetric] power_add by (simp only: mult.assoc)
    ultimately have bits: "f64_round_bits (n * f64_one) 1 = min f64_inf (int e * 2 ^ 52 + m)"
      by (simp add: f64_round_bits_def Let_def)
    have "n < 2 ^ bit_length n" "2 ^ (bit_length n - 1) \<le> n" using bit_length_bounds pos by auto
    then have "n * 2 ^ k < 2 ^ bit_length n * 2 ^ k" "2 ^ (bit_length n - 1) * 2 ^ k \<le> n * 2 ^ k"
      by simp_all
    moreover have "bit_length n - 1 + k = 52" using k bit_length_pos [OF pos] by simp
    ultimately have m: "2 ^ 52 \<le> m" "m < 2 ^ 53" by (simp_all add: m_def k flip: power_add)
    have e: "e < 1100" using le53 by (simp add: e_def)
    define m0 where "m0 = m - 2 ^ 52"
    have m0: "0 \<le> m0" "m0 < 2 ^ 52" "int e * 2 ^ 52 + m = (int e + 1) * 2 ^ 52 + m0"
      using m by (simp_all add: m0_def)
    have "int e * 2 ^ 52 + m < f64_inf" using e m by (simp add: f64_inf_def)
    then have w: "f64_of_int n = of_int ((int e + 1) * 2 ^ 52 + m0)"
      unfolding f64_of_int_def f64_round_def f64_signed_def using bits m0(3) pos by simp
    have p: "f64_exp (f64_of_int n) = int e + 1" "f64_man (f64_of_int n) = m0" "\<not> f64_neg (f64_of_int n)"
      using f64_parts [OF _ _ m0(1,2) w] e by auto
    have "f64_mag (f64_of_int n) = n * f64_one"
      unfolding f64_mag_def p nd by (simp add: m0_def)
    moreover have "f64_exp (f64_of_int n) \<noteq> 2047" using p(1) e by simp
    ultimately show ?thesis using p(3) by (simp only: f64_units_def IsNaN_def if_False simp_thms)
  qed
  then show "f64_units (f64_of_int n) = n * f64_one" "\<not> IsNaN (f64_of_int n)" by simp_all
qed

lemma f64_of_int_inj:
  assumes "0 \<le> m" "m < 2 ^ 53" "0 \<le> n" "n < 2 ^ 53"
  shows "f64_eq (f64_of_int m) (f64_of_int n) \<longleftrightarrow> m = n"
proof -
  have "f64_one \<noteq> 0" by (simp add: f64_one_def)
  then show ?thesis
    using f64_of_int_exact [OF assms(1,2)] f64_of_int_exact [OF assms(3,4)] by (simp only: f64_eq_def) auto
qed

end
