(* ===== verification/Mbl_Values.thy ===== *)
theory Mbl_Values
  imports Value_Format Go_Text Go_Float
begin

text \<open>
  The MBL value types and their binary form (\<open>src/internal/types/types.go\<close> and
  \<open>serialize.go\<close>). \<open>goany\<close> are the dynamic types that occur behind \<open>interface{}\<close>: the MBL
  types themselves and the Go values that \<open>CreateValue\<close> accepts. A \<open>time.Time\<close> is its number of
  nanoseconds since 1970 in UTC. The fields of a record are listed in the order in which an
  iteration visits them, which Go leaves open. Pointers to MBL values are not modelled.
\<close>

definition TypeBoolean :: u8 where "TypeBoolean = 0x0A"
definition TypeList :: u8 where "TypeList = 0x0B"
definition TypeRecord :: u8 where "TypeRecord = 0x0C"

definition PrecisionYear :: u8 where "PrecisionYear = 1"
definition PrecisionMonth :: u8 where "PrecisionMonth = 2"
definition PrecisionDay :: u8 where "PrecisionDay = 3"
definition PrecisionHour :: u8 where "PrecisionHour = 4"
definition PrecisionMinute :: u8 where "PrecisionMinute = 5"
definition PrecisionSecond :: u8 where "PrecisionSecond = 6"
definition PrecisionSubsecond :: u8 where "PrecisionSubsecond = 7"

lemmas precision_defs = PrecisionYear_def PrecisionMonth_def PrecisionDay_def PrecisionHour_def
  PrecisionMinute_def PrecisionSecond_def PrecisionSubsecond_def

lemmas mbl_tag_defs = type_tag_defs TypeBoolean_def TypeList_def TypeRecord_def

datatype goany =
    Text gostring
  | Number f64
  | Time int u8
  | Money f64 gostring
  | Picture u32 u32 bytes
  | Reference u64
  | Nothing
  | Unknown gostring
  | Anything
  | Boolean bool
  | MblList "goany list"
  | MblRecord "(gostring \<times> goany) list"
  | GoString gostring
  | GoFloat64 f64
  | GoFloat32 u32
  | GoInt i64
  | GoInt64 i64
  | GoInt32 i32
  | GoUint u64
  | GoUint32 u32
  | GoUint64 u64
  | GoBool bool
  | GoSlice "goany list"
  | GoMap "(gostring \<times> goany) list"
  | GoMapBool "(gostring \<times> bool) list"
  | GoNil

datatype type_error =
    TypeTooShort
  | TypeTruncated
  | TypeInvalidUTF8
  | TypeWrongSize nat
  | TypeInvalidPrecision u8
  | TypeUnknownTag u8
  | TypeUnsupported
  | SlicePanic

subsection \<open>Type tags and \<open>CreateValue\<close>\<close>

text \<open>Go's \<open>Value\<close> interface is implemented by the MBL types only.\<close>

fun isMblValue :: "goany \<Rightarrow> bool" where
  "isMblValue (Text s) = True"
| "isMblValue (Number x) = True"
| "isMblValue (Time t p) = True"
| "isMblValue (Money a c) = True"
| "isMblValue (Picture w h d) = True"
| "isMblValue (Reference i) = True"
| "isMblValue Nothing = True"
| "isMblValue (Unknown r) = True"
| "isMblValue Anything = True"
| "isMblValue (Boolean b) = True"
| "isMblValue (MblList xs) = True"
| "isMblValue (MblRecord fs) = True"
| "isMblValue _ = False"

fun TypeTag :: "goany \<Rightarrow> u8" where
  "TypeTag (Text s) = TypeText"
| "TypeTag (Number x) = TypeNumber"
| "TypeTag (Time t p) = TypeTime"
| "TypeTag (Money a c) = TypeMoney"
| "TypeTag (Picture w h d) = TypePicture"
| "TypeTag (Reference i) = TypeReference"
| "TypeTag Nothing = TypeNothing"
| "TypeTag (Unknown r) = TypeUnknown"
| "TypeTag Anything = TypeAnything"
| "TypeTag (Boolean b) = TypeBoolean"
| "TypeTag (MblList xs) = TypeList"
| "TypeTag (MblRecord fs) = TypeRecord"
| "TypeTag _ = 0"

definition CreateValue :: "goany \<Rightarrow> type_error + goany" where
  "CreateValue x =
     (if isMblValue x then Inr x
      else case x of
        GoString s \<Rightarrow> Inr (Text s)
      | GoFloat64 v \<Rightarrow> Inr (Number v)
      | GoFloat32 v \<Rightarrow> Inr (Number (f64_of_f32 v))
      | GoInt v \<Rightarrow> Inr (Number (f64_of_int (sint v)))
      | GoInt64 v \<Rightarrow> Inr (Number (f64_of_int (sint v)))
      | GoInt32 v \<Rightarrow> Inr (Number (f64_of_int (sint v)))
      | GoUint v \<Rightarrow> Inr (Number (f64_of_int (uint v)))
      | GoUint32 v \<Rightarrow> Inr (Number (f64_of_int (uint v)))
      | GoUint64 v \<Rightarrow> Inr (Number (f64_of_int (uint v)))
      | GoBool b \<Rightarrow> Inr (Boolean b)
      | _ \<Rightarrow> Inl TypeUnsupported)"

lemma CreateValue_mbl [simp]: "isMblValue x \<Longrightarrow> CreateValue x = Inr x"
  by (simp add: CreateValue_def)

lemma CreateValue_isMbl: "CreateValue x = Inr v \<Longrightarrow> isMblValue v"
  by (cases x) (auto simp: CreateValue_def)

subsection \<open>Serialisation\<close>

text \<open>\<open>Time.UnixMicro\<close> truncated to 64 bits.\<close>

definition UnixMicro :: "int \<Rightarrow> i64" where
  "UnixMicro t = word_of_int (t div 1000)"

text \<open>
  The three currency bytes: the slice \<open>[]byte(code)[:3]\<close> of a shorter code reaches into the zeroed
  rest of its buffer.
\<close>

definition currency3 :: "gostring \<Rightarrow> bytes" where
  "currency3 c = take 3 (c @ [0, 0, 0])"

definition lengthPrefixed :: "bytes \<Rightarrow> bytes" where
  "lengthPrefixed d = put_le 4 (of_nat (length d) :: u32) @ d"

lemma size_CreateValue: "CreateValue x = Inr v \<Longrightarrow> size v \<le> size x"
  by (cases x) (auto simp: CreateValue_def)

text \<open>No other type implements the interface; the last equation is never used.\<close>

function (sequential) Serialize :: "goany \<Rightarrow> bytes" where
  "Serialize (Text s) = lengthPrefixed s"
| "Serialize (Number x) = put_le 8 x"
| "Serialize (Time t p) = put_le 8 (UnixMicro t) @ [p]"
| "Serialize (Money a c) = put_le 8 a @ currency3 c"
| "Serialize (Picture w h d) = put_le 4 w @ put_le 4 h @ d"
| "Serialize (Reference i) = put_le 8 i"
| "Serialize Nothing = []"
| "Serialize (Unknown r) = lengthPrefixed r"
| "Serialize Anything = []"
| "Serialize (Boolean b) = [if b then 1 else 0]"
| "Serialize (MblList xs) =
     put_le 4 (of_nat (length xs) :: u32) @
     concat (map (\<lambda>x. case CreateValue x of
                         Inl e \<Rightarrow> []
                       | Inr v \<Rightarrow> TypeTag v # lengthPrefixed (Serialize v)) xs)"
| "Serialize (MblRecord fs) =
     put_le 4 (of_nat (length fs) :: u32) @
     concat (map (\<lambda>(k, x). case CreateValue x of
                              Inl e \<Rightarrow> []
                            | Inr v \<Rightarrow>
                                lengthPrefixed (lengthPrefixed k) @
                                TypeTag v # lengthPrefixed (Serialize v)) fs)"
| "Serialize x = []"
  by pat_completeness auto
termination
proof (relation "measure size", goal_cases)
  case (2 xs x v)
  then have "size v \<le> size x" "size x \<le> size_list size xs"
    using size_CreateValue size_list_estimation' [of x xs "size x" size] by auto
  then show ?case by simp
next
  case (3 fs z k x v)
  then have "size v \<le> size x" "size x \<le> size_prod (\<lambda>k. 0) size z"
    using size_CreateValue by auto
  moreover have "size x \<le> size_list (size_prod (\<lambda>k. 0) size) fs"
    using calculation(2) 3(1) by (rule size_list_estimation' [rotated])
  ultimately show ?case using 3 by simp
qed simp


subsection \<open>Deserialisation\<close>

text \<open>
  The end of the text is computed in 32 bits, so \<open>4 + length\<close> wraps around for the four largest
  lengths; the slice expression then panics.
\<close>

definition deserializeString :: "bytes \<Rightarrow> type_error + gostring" where
  "deserializeString data =
     (if length data < 4 then Inl TypeTooShort
      else let e = 4 + get_le (take 4 data) :: u32 in
           if length data < unat e then Inl TypeTruncated
           else if unat e < 4 then Inl SlicePanic
           else let textBytes = drop 4 (take (unat e) data) in
                if utf8_valid textBytes then Inr textBytes else Inl TypeInvalidUTF8)"

definition DeserializeText :: "bytes \<Rightarrow> type_error + goany" where
  "DeserializeText data = rmap Text (deserializeString data)"

definition DeserializeUnknown :: "bytes \<Rightarrow> type_error + goany" where
  "DeserializeUnknown data = rmap Unknown (deserializeString data)"

definition DeserializeNumber :: "bytes \<Rightarrow> type_error + goany" where
  "DeserializeNumber data = (if length data \<noteq> 8 then Inl (TypeWrongSize 8) else Inr (Number (get_le data)))"

definition DeserializeTime :: "bytes \<Rightarrow> type_error + goany" where
  "DeserializeTime data =
     (if length data \<noteq> 9 then Inl (TypeWrongSize 9)
      else let precision = data ! 8 in
           if precision < PrecisionYear \<or> PrecisionSubsecond < precision then Inl (TypeInvalidPrecision precision)
           else Inr (Time (sint (get_le (take 8 data) :: i64) * 1000) precision))"

definition DeserializeMoney :: "bytes \<Rightarrow> type_error + goany" where
  "DeserializeMoney data =
     (if length data \<noteq> 11 then Inl (TypeWrongSize 11) else Inr (Money (get_le (take 8 data)) (drop 8 data)))"

definition DeserializePicture :: "bytes \<Rightarrow> type_error + goany" where
  "DeserializePicture data =
     (if length data < 8 then Inl TypeTooShort
      else Inr (Picture (get_le (take 4 data)) (get_le (take 4 (drop 4 data))) (drop 8 data)))"

definition DeserializeReference :: "bytes \<Rightarrow> type_error + goany" where
  "DeserializeReference data = (if length data \<noteq> 8 then Inl (TypeWrongSize 8) else Inr (Reference (get_le data)))"

definition DeserializeNothing :: "bytes \<Rightarrow> type_error + goany" where
  "DeserializeNothing data = (if length data \<noteq> 0 then Inl (TypeWrongSize 0) else Inr Nothing)"

definition DeserializeAnything :: "bytes \<Rightarrow> type_error + goany" where
  "DeserializeAnything data = (if length data \<noteq> 0 then Inl (TypeWrongSize 0) else Inr Anything)"

definition DeserializeBoolean :: "bytes \<Rightarrow> type_error + goany" where
  "DeserializeBoolean data = (if length data \<noteq> 1 then Inl (TypeWrongSize 1) else Inr (Boolean (data ! 0 \<noteq> 0)))"

text \<open>
  Lists and records. The loops run while elements are expected and bytes are left; \<open>r\<close> is
  \<open>data[offset:]\<close>.
\<close>

function DeserializeValue :: "u8 \<Rightarrow> bytes \<Rightarrow> type_error + goany"
  and list_loop :: "nat \<Rightarrow> bytes \<Rightarrow> goany list \<Rightarrow> type_error + goany list"
  and record_loop :: "nat \<Rightarrow> bytes \<Rightarrow> (gostring \<times> goany) list \<Rightarrow> type_error + (gostring \<times> goany) list"
  where
  "DeserializeValue tag data =
     (if tag = TypeText then DeserializeText data
      else if tag = TypeNumber then DeserializeNumber data
      else if tag = TypeTime then DeserializeTime data
      else if tag = TypeMoney then DeserializeMoney data
      else if tag = TypePicture then DeserializePicture data
      else if tag = TypeReference then DeserializeReference data
      else if tag = TypeNothing then DeserializeNothing data
      else if tag = TypeUnknown then DeserializeUnknown data
      else if tag = TypeAnything then DeserializeAnything data
      else if tag = TypeBoolean then DeserializeBoolean data
      else if tag = TypeList then
        (if length data < 4 then Inl TypeTooShort
         else rmap MblList (list_loop (unat (get_le (take 4 data) :: u32)) (drop 4 data) []))
      else if tag = TypeRecord then
        (if length data < 4 then Inl TypeTooShort
         else rmap MblRecord (record_loop (unat (get_le (take 4 data) :: u32)) (drop 4 data) []))
      else Inl (TypeUnknownTag tag))"
| "list_loop n r elements =
     (if n = 0 \<or> r = [] then Inr elements
      else if length r < 5 then Inl TypeTruncated
      else let len = unat (get_le (take 4 (tl r)) :: u32); r' = drop 5 r in
           if length r' < len then Inl TypeTruncated
           else case DeserializeValue (hd r) (take len r') of
                  Inl e \<Rightarrow> Inl e
                | Inr x \<Rightarrow> list_loop (n - 1) (drop len r') (elements @ [x]))"
| "record_loop n r flds =
     (if n = 0 \<or> r = [] then Inr flds
      else if length r < 4 then Inl TypeTruncated
      else let klen = unat (get_le (take 4 r) :: u32); r1 = drop 4 r in
           if length r1 < klen then Inl TypeTruncated
           else case deserializeString (take klen r1) of
                  Inl e \<Rightarrow> Inl e
                | Inr k \<Rightarrow>
                    let r2 = drop klen r1 in
                    if length r2 < 5 then Inl TypeTruncated
                    else let vlen = unat (get_le (take 4 (tl r2)) :: u32); r3 = drop 5 r2 in
                         if length r3 < vlen then Inl TypeTruncated
                         else case DeserializeValue (hd r2) (take vlen r3) of
                                Inl e \<Rightarrow> Inl e
                              | Inr x \<Rightarrow> record_loop (n - 1) (drop vlen r3) (aset k x flds))"
  by pat_completeness auto
termination
  by (relation "measure (case_sum (\<lambda>(t, d). length d) (case_sum (\<lambda>(n, r, e). length r) (\<lambda>(n, r, f). length r)))")
    auto

declare DeserializeValue.simps [simp del] list_loop.simps [simp del] record_loop.simps [simp del]

definition DeserializeList :: "bytes \<Rightarrow> type_error + goany" where
  "DeserializeList data = DeserializeValue TypeList data"

definition DeserializeRecord :: "bytes \<Rightarrow> type_error + goany" where
  "DeserializeRecord data = DeserializeValue TypeRecord data"

subsection \<open>Storage values\<close>

definition ToSerializedValue :: "goany \<Rightarrow> Value" where
  "ToSerializedValue v = \<lparr>vTypeTag = TypeTag v, vData = Serialize v\<rparr>"

text \<open>\<open>SerializeValue\<close> of \<open>serialize.go\<close>; the JSON of the types it does not know is a parameter.\<close>

fun SerializeValue :: "(goany \<Rightarrow> bytes) \<Rightarrow> goany \<Rightarrow> bytes" where
  "SerializeValue json (GoString s) = Serialize (Text s)"
| "SerializeValue json (GoFloat64 x) = Serialize (Number x)"
| "SerializeValue json (GoInt v) = Serialize (Number (f64_of_int (sint v)))"
| "SerializeValue json (GoInt64 v) = Serialize (Number (f64_of_int (sint v)))"
| "SerializeValue json (GoInt32 v) = Serialize (Number (f64_of_int (sint v)))"
| "SerializeValue json (GoUint v) = Serialize (Number (f64_of_int (uint v)))"
| "SerializeValue json (GoUint32 v) = Serialize (Number (f64_of_int (uint v)))"
| "SerializeValue json (GoUint64 v) = Serialize (Number (f64_of_int (uint v)))"
| "SerializeValue json (GoBool b) = Serialize (Boolean b)"
| "SerializeValue json (GoSlice xs) = Serialize (MblList xs)"
| "SerializeValue json (GoMap fs) = Serialize (MblRecord fs)"
| "SerializeValue json GoNil = Serialize Nothing"
| "SerializeValue json (GoMapBool m) = json (GoMapBool m)"
| "SerializeValue json (GoFloat32 x) = json (GoFloat32 x)"
| "SerializeValue json v = Serialize v"

end
