(* ===== verification/Mbl_Codec.thy ===== *)
theory Mbl_Codec
  imports Mbl_Values
begin

text \<open>
  Correctness of the binary form of MBL values: a well-formed value is read back as it was
  written, nested lists and records included, and which inputs make the decoders panic.
\<close>

subsection \<open>Round trips\<close>

text \<open>
  Values that survive: text is valid UTF-8 and its length with the prefix fits 32 bits, times are
  whole microseconds in range with a valid precision, currency codes have three bytes, the keys
  of a record differ, and nested values have at most \<open>2 ^ 32 - 1\<close> bytes.
\<close>

definition text_ok :: "gostring \<Rightarrow> bool" where
  "text_ok s \<longleftrightarrow> utf8_valid s \<and> length s + 4 < 2 ^ 32"

definition time_ok :: "int \<Rightarrow> u8 \<Rightarrow> bool" where
  "time_ok t p \<longleftrightarrow> 1 \<le> p \<and> p \<le> 7 \<and> 1000 dvd t \<and> - (2 ^ 63) \<le> t div 1000 \<and> t div 1000 < 2 ^ 63"

fun mbl_ok :: "goany \<Rightarrow> bool" where
  "mbl_ok (Text s) = text_ok s"
| "mbl_ok (Number x) = True"
| "mbl_ok (Time t p) = time_ok t p"
| "mbl_ok (Money a c) = (length c = 3)"
| "mbl_ok (Picture w h d) = True"
| "mbl_ok (Reference i) = True"
| "mbl_ok Nothing = True"
| "mbl_ok (Unknown r) = text_ok r"
| "mbl_ok Anything = True"
| "mbl_ok (Boolean b) = True"
| "mbl_ok (MblList xs) =
     (length xs < 2 ^ 32 \<and> (\<forall>x \<in> set xs. mbl_ok x \<and> length (Serialize x) < 2 ^ 32))"
| "mbl_ok (MblRecord fs) =
     (length fs < 2 ^ 32 \<and> distinct (map fst fs) \<and>
      (\<forall>(k, x) \<in> set fs. text_ok k \<and> mbl_ok x \<and> length (Serialize x) < 2 ^ 32))"
| "mbl_ok x = False"

lemma mbl_ok_isMbl: "mbl_ok v \<Longrightarrow> isMblValue v"
  by (cases v) auto

lemma deserializeString_prefixed:
  assumes "text_ok s"
  shows "deserializeString (lengthPrefixed s) = Inr s"
proof -
  have l: "length s + 4 < 2 ^ 32" "utf8_valid s" using assms by (auto simp: text_ok_def)
  then have u: "unat (4 + of_nat (length s) :: u32) = length s + 4"
    by (metis Abs_fnat_hom_add add.commute of_nat_numeral unat_of_nat_u32)
  show ?thesis
    using l u by (simp add: deserializeString_def lengthPrefixed_def Let_def)
qed

lemma list_loop_step:
  assumes "length d < 2 ^ 32" "DeserializeValue tag d = Inr x"
  shows "list_loop (Suc n) (tag # lengthPrefixed d @ r) acc = list_loop n r (acc @ [x])"
  using assms by (subst list_loop.simps) (simp add: lengthPrefixed_def)

lemma record_loop_step:
  assumes "text_ok k" "length d < 2 ^ 32" "DeserializeValue tag d = Inr x"
  shows "record_loop (Suc n) (lengthPrefixed (lengthPrefixed k) @ tag # lengthPrefixed d @ r) acc =
    record_loop n r (aset k x acc)"
proof -
  have "length (lengthPrefixed k) < 2 ^ 32" using assms(1) by (simp add: text_ok_def lengthPrefixed_def)
  then show ?thesis
    using assms deserializeString_prefixed [OF assms(1)]
    by (subst record_loop.simps) (simp add: lengthPrefixed_def [of d] lengthPrefixed_def [of "lengthPrefixed k"])
qed

definition element_bytes :: "goany \<Rightarrow> bytes" where
  "element_bytes x = TypeTag x # lengthPrefixed (Serialize x)"

definition field_bytes :: "gostring \<times> goany \<Rightarrow> bytes" where
  "field_bytes f = lengthPrefixed (lengthPrefixed (fst f)) @ element_bytes (snd f)"

lemma Serialize_list:
  "\<forall>x \<in> set xs. isMblValue x \<Longrightarrow>
   Serialize (MblList xs) = put_le 4 (of_nat (length xs) :: u32) @ concat (map element_bytes xs)"
  by (auto simp: element_bytes_def intro!: arg_cong [of _ _ concat])

lemma Serialize_record:
  "\<forall>f \<in> set fs. isMblValue (snd f) \<Longrightarrow>
   Serialize (MblRecord fs) = put_le 4 (of_nat (length fs) :: u32) @ concat (map field_bytes fs)"
  by (force simp: field_bytes_def element_bytes_def intro!: arg_cong [of _ _ concat])

lemma list_loop_elements:
  assumes "\<forall>x \<in> set xs. DeserializeValue (TypeTag x) (Serialize x) = Inr x \<and> length (Serialize x) < 2 ^ 32"
  shows "list_loop (length xs) (concat (map element_bytes xs)) acc = Inr (acc @ xs)"
  using assms
proof (induction xs arbitrary: acc)
  case Nil
  then show ?case by (simp add: list_loop.simps)
next
  case (Cons x xs)
  then show ?case
    using list_loop_step [of "Serialize x" "TypeTag x" x "length xs" "concat (map element_bytes xs)" acc]
    by (simp add: element_bytes_def [of x])
qed

lemma record_loop_fields:
  assumes "\<forall>(k, x) \<in> set fs. text_ok k \<and> DeserializeValue (TypeTag x) (Serialize x) = Inr x \<and>
      length (Serialize x) < 2 ^ 32"
    and "distinct (map fst (acc @ fs))"
  shows "record_loop (length fs) (concat (map field_bytes fs)) acc = Inr (acc @ fs)"
  using assms
proof (induction fs arbitrary: acc)
  case Nil
  then show ?case by (simp add: record_loop.simps)
next
  case (Cons f fs)
  obtain k x where f: "f = (k, x)" by force
  have "aset k x acc = acc @ [(k, x)]" using Cons.prems(2) f by (intro aset_new) auto
  then have "record_loop (length (f # fs)) (concat (map field_bytes (f # fs))) acc =
      record_loop (length fs) (concat (map field_bytes fs)) (acc @ [f])"
    using Cons.prems(1) f record_loop_step [of k "Serialize x" "TypeTag x" x "length fs"
        "concat (map field_bytes fs)" acc]
    by (simp add: field_bytes_def [of "(k, x)"] element_bytes_def [of x])
  with Cons f show ?case by simp
qed

lemma UnixMicro_back:
  assumes "time_ok t p"
  shows "sint (UnixMicro t) * 1000 = t"
proof -
  have "sint (word_of_int (t div 1000) :: i64) = t div 1000"
    using assms by (simp add: time_ok_def signed_of_int signed_take_bit_int_eq_self)
  then show ?thesis using assms by (simp add: UnixMicro_def time_ok_def)
qed

theorem Deserialize_Serialize: "mbl_ok v \<Longrightarrow> DeserializeValue (TypeTag v) (Serialize v) = Inr v"
proof (induction v)
  case (Text s)
  then show ?case
    by (simp add: DeserializeValue.simps DeserializeText_def deserializeString_prefixed)
next
  case (Number x)
  then show ?case by (simp add: DeserializeValue.simps mbl_tag_defs DeserializeNumber_def)
next
  case (Time t p)
  then have "1 \<le> p" "p \<le> 7" by (auto simp: time_ok_def)
  then have "p \<noteq> 0" by auto
  with Time \<open>p \<le> 7\<close> show ?case
    by (simp add: DeserializeValue.simps mbl_tag_defs DeserializeTime_def UnixMicro_back precision_defs
        nth_append not_less)
next
  case (Money a c)
  then show ?case by (simp add: DeserializeValue.simps mbl_tag_defs DeserializeMoney_def currency3_def)
next
  case (Picture w h d)
  then show ?case by (simp add: DeserializeValue.simps mbl_tag_defs DeserializePicture_def)
next
  case (Reference i)
  then show ?case by (simp add: DeserializeValue.simps mbl_tag_defs DeserializeReference_def)
next
  case (Unknown r)
  then show ?case
    by (simp add: DeserializeValue.simps mbl_tag_defs DeserializeUnknown_def deserializeString_prefixed)
next
  case (MblList xs)
  have "list_loop (length xs) (concat (map element_bytes xs)) [] = Inr ([] @ xs)"
    using MblList by (intro list_loop_elements) auto
  moreover have "Serialize (MblList xs) = put_le 4 (of_nat (length xs) :: u32) @ concat (map element_bytes xs)"
    using MblList by (intro Serialize_list) (auto intro: mbl_ok_isMbl)
  ultimately show ?case
    using MblList(2) by (simp add: DeserializeValue.simps mbl_tag_defs del: Serialize.simps)
next
  case (MblRecord fs)
  have "\<forall>(k, x) \<in> set fs. text_ok k \<and> DeserializeValue (TypeTag x) (Serialize x) = Inr x \<and>
      length (Serialize x) < 2 ^ 32"
    using MblRecord by fastforce
  then have "record_loop (length fs) (concat (map field_bytes fs)) [] = Inr ([] @ fs)"
    using MblRecord(2) by (intro record_loop_fields) auto
  moreover have "Serialize (MblRecord fs) = put_le 4 (of_nat (length fs) :: u32) @ concat (map field_bytes fs)"
    using MblRecord by (intro Serialize_record) (force intro: mbl_ok_isMbl)
  ultimately show ?case
    using MblRecord(2) by (simp add: DeserializeValue.simps mbl_tag_defs del: Serialize.simps)
qed (simp_all add: DeserializeValue.simps mbl_tag_defs DeserializeNothing_def DeserializeAnything_def
    DeserializeBoolean_def)


subsection \<open>Decoded values are well formed\<close>

lemma unat_u32_less: "unat (w :: u32) < 2 ^ 32"
  using unat_u32_bound [of w] by simp

lemma deserializeString_ok:
  assumes "deserializeString data = Inr s"
  shows "text_ok s" "length (lengthPrefixed s) \<le> length data"
proof -
  let ?e = "4 + get_le (take 4 data) :: u32"
  have e: "4 \<le> unat ?e" "unat ?e \<le> length data" "utf8_valid s" "s = drop 4 (take (unat ?e) data)"
    using assms by (auto simp: deserializeString_def Let_def split: if_splits)
  then have "length s + 4 = unat ?e" by simp
  moreover have "unat ?e < 2 ^ 32" by (rule unat_u32_less)
  ultimately show "text_ok s" "length (lengthPrefixed s) \<le> length data"
    using e by (auto simp: text_ok_def lengthPrefixed_def)
qed

lemma sint_bounds_i64: "- (2 ^ 63) \<le> sint (w :: i64)" "sint w < 2 ^ 63"
  using sint_range_size [of w] by (auto simp: word_size)

lemma fixed_size_ok:
  "DeserializeNumber d = Inr v \<Longrightarrow> mbl_ok v \<and> TypeTag v = TypeNumber \<and> length (Serialize v) \<le> length d"
  "DeserializeMoney d = Inr v \<Longrightarrow> mbl_ok v \<and> TypeTag v = TypeMoney \<and> length (Serialize v) \<le> length d"
  "DeserializePicture d = Inr v \<Longrightarrow> mbl_ok v \<and> TypeTag v = TypePicture \<and> length (Serialize v) \<le> length d"
  "DeserializeReference d = Inr v \<Longrightarrow> mbl_ok v \<and> TypeTag v = TypeReference \<and> length (Serialize v) \<le> length d"
  "DeserializeNothing d = Inr v \<Longrightarrow> mbl_ok v \<and> TypeTag v = TypeNothing \<and> length (Serialize v) \<le> length d"
  "DeserializeAnything d = Inr v \<Longrightarrow> mbl_ok v \<and> TypeTag v = TypeAnything \<and> length (Serialize v) \<le> length d"
  "DeserializeBoolean d = Inr v \<Longrightarrow> mbl_ok v \<and> TypeTag v = TypeBoolean \<and> length (Serialize v) \<le> length d"
  by (auto simp: DeserializeNumber_def DeserializeMoney_def DeserializePicture_def DeserializeReference_def
      DeserializeNothing_def DeserializeAnything_def DeserializeBoolean_def currency3_def split: if_splits)

lemma DeserializeTime_ok:
  "DeserializeTime d = Inr v \<Longrightarrow> mbl_ok v \<and> TypeTag v = TypeTime \<and> length (Serialize v) \<le> length d"
  using sint_bounds_i64
  by (auto simp: DeserializeTime_def Let_def time_ok_def precision_defs not_less word_le_nat_alt Suc_le_eq unat_gt_0
      split: if_splits)

lemma DeserializeString_types_ok:
  "DeserializeText d = Inr v \<Longrightarrow> mbl_ok v \<and> TypeTag v = TypeText \<and> length (Serialize v) \<le> length d"
  "DeserializeUnknown d = Inr v \<Longrightarrow> mbl_ok v \<and> TypeTag v = TypeUnknown \<and> length (Serialize v) \<le> length d"
  using deserializeString_ok by (auto simp: DeserializeText_def DeserializeUnknown_def result_iff)

lemmas scalar_ok = fixed_size_ok DeserializeTime_ok DeserializeString_types_ok

lemma length_element_bytes: "length (element_bytes x) = 5 + length (Serialize x)"
  by (simp add: element_bytes_def lengthPrefixed_def)

lemma length_concat_field_aset:
  "length (concat (map field_bytes (aset k x fs))) \<le>
   length (concat (map field_bytes fs)) + length (field_bytes (k, x))"
  by (induction fs) auto

definition elems_ok :: "goany list \<Rightarrow> bool" where
  "elems_ok xs \<longleftrightarrow> (\<forall>x \<in> set xs. mbl_ok x \<and> length (Serialize x) < 2 ^ 32)"

definition fields_ok :: "(gostring \<times> goany) list \<Rightarrow> bool" where
  "fields_ok fs \<longleftrightarrow> distinct (map fst fs) \<and>
     (\<forall>(k, x) \<in> set fs. text_ok k \<and> mbl_ok x \<and> length (Serialize x) < 2 ^ 32)"

lemma fields_ok_aset:
  "fields_ok fs \<Longrightarrow> text_ok k \<Longrightarrow> mbl_ok x \<Longrightarrow> length (Serialize x) < 2 ^ 32 \<Longrightarrow> fields_ok (aset k x fs)"
  using set_aset [of k x fs] by (fastforce simp: fields_ok_def)

lemma length_aset: "length (aset k x fs) \<le> Suc (length fs)"
  by (induction fs) auto


definition decoded_ok :: "u8 \<Rightarrow> nat \<Rightarrow> goany \<Rightarrow> bool" where
  "decoded_ok tag n v \<longleftrightarrow> mbl_ok v \<and> TypeTag v = tag \<and> length (Serialize v) \<le> n"

lemma decoded_ok_list:
  assumes "elems_ok xs" "length xs < 2 ^ 32" "length (concat (map element_bytes xs)) \<le> n - 4" "4 \<le> n"
  shows "decoded_ok TypeList n (MblList xs)"
proof -
  have "\<forall>x \<in> set xs. isMblValue x" using assms(1) by (auto simp: elems_ok_def intro: mbl_ok_isMbl)
  then show ?thesis
    using assms by (simp add: decoded_ok_def elems_ok_def Serialize_list del: Serialize.simps)
qed

lemma decoded_ok_record:
  assumes "fields_ok fs" "length fs < 2 ^ 32" "length (concat (map field_bytes fs)) \<le> n - 4" "4 \<le> n"
  shows "decoded_ok TypeRecord n (MblRecord fs)"
proof -
  have "\<forall>f \<in> set fs. isMblValue (snd f)" using assms(1) by (fastforce simp: fields_ok_def intro: mbl_ok_isMbl)
  then show ?thesis
    using assms by (simp add: decoded_ok_def fields_ok_def Serialize_record del: Serialize.simps)
qed

lemma list_loop_inv:
  assumes "list_loop n r acc = Inr xs" "n \<noteq> 0" "r \<noteq> []"
  obtains len x where "len = unat (get_le (take 4 (tl r)) :: u32)" "5 + len \<le> length r"
    "DeserializeValue (hd r) (take len (drop 5 r)) = Inr x"
    "list_loop (n - 1) (drop len (drop 5 r)) (acc @ [x]) = Inr xs"
  using assms by (subst (asm) list_loop.simps) (auto simp: Let_def not_less split: if_splits sum.splits)

lemma record_loop_inv:
  assumes "record_loop n r acc = Inr fs" "n \<noteq> 0" "r \<noteq> []"
  obtains klen k vlen x where "klen = unat (get_le (take 4 r) :: u32)"
    "deserializeString (take klen (drop 4 r)) = Inr k"
    "vlen = unat (get_le (take 4 (tl (drop klen (drop 4 r)))) :: u32)" "9 + klen + vlen \<le> length r"
    "DeserializeValue (hd (drop klen (drop 4 r))) (take vlen (drop 5 (drop klen (drop 4 r)))) = Inr x"
    "record_loop (n - 1) (drop vlen (drop 5 (drop klen (drop 4 r)))) (aset k x acc) = Inr fs"
  using assms by (subst (asm) record_loop.simps) (auto simp: Let_def not_less split: if_splits sum.splits)


text \<open>The invariants of the two loops and of the decoder, by induction on the calls.\<close>

definition list_inv :: "nat \<Rightarrow> bytes \<Rightarrow> goany list \<Rightarrow> goany list \<Rightarrow> bool" where
  "list_inv n r acc xs \<longleftrightarrow> elems_ok xs \<and> length xs \<le> length acc + n \<and>
     length (concat (map element_bytes xs)) \<le> length (concat (map element_bytes acc)) + length r"

definition record_inv :: "nat \<Rightarrow> bytes \<Rightarrow> (gostring \<times> goany) list \<Rightarrow> (gostring \<times> goany) list \<Rightarrow> bool" where
  "record_inv n r acc fs \<longleftrightarrow> fields_ok fs \<and> length fs \<le> length acc + n \<and>
     length (concat (map field_bytes fs)) \<le> length (concat (map field_bytes acc)) + length r"

lemma list_inv_step:
  assumes "decoded_ok tag len x" "5 + len \<le> length r" "n \<noteq> 0" "list_inv (n - 1) (drop len (drop 5 r)) (acc @ [x]) xs"
  shows "list_inv n r acc xs"
  using assms by (auto simp: list_inv_def decoded_ok_def length_element_bytes)

lemma record_inv_step:
  assumes "decoded_ok tag vlen x" "length (lengthPrefixed k) \<le> klen" "9 + klen + vlen \<le> length r" "n \<noteq> 0"
    "record_inv (n - 1) (drop vlen (drop 5 (drop klen (drop 4 r)))) (aset k x acc) fs"
  shows "record_inv n r acc fs"
proof -
  have "length (field_bytes (k, x)) \<le> 9 + klen + vlen"
    using assms(1,2) by (simp add: field_bytes_def length_element_bytes decoded_ok_def lengthPrefixed_def [of "lengthPrefixed k"])
  moreover have "length fs \<le> length (aset k x acc) + (n - 1)" "fields_ok fs"
    "length (concat (map field_bytes fs)) \<le> length (concat (map field_bytes (aset k x acc))) +
       (length r - 4 - klen - 5 - vlen)"
    using assms(5) unfolding record_inv_def by (auto simp: diff_diff_eq ac_simps)
  ultimately show ?thesis
    using assms(3,4) length_concat_field_aset [of k x acc] length_aset [of k x acc]
    unfolding record_inv_def by linarith
qed

lemma elems_ok_snoc:
  assumes "elems_ok acc" "decoded_ok tag len x" "len < 2 ^ 32"
  shows "elems_ok (acc @ [x])"
  using assms by (auto simp: elems_ok_def decoded_ok_def)

lemma fields_ok_snoc:
  assumes "fields_ok acc" "text_ok k" "decoded_ok tag len x" "len < 2 ^ 32"
  shows "fields_ok (aset k x acc)"
  using assms by (auto simp: decoded_ok_def intro!: fields_ok_aset)

lemma decoded_inv:
  "\<forall>v. DeserializeValue tag d = Inr v \<longrightarrow> decoded_ok tag (length d) v"
  "\<forall>xs. list_loop n r acc = Inr xs \<longrightarrow> elems_ok acc \<longrightarrow> list_inv n r acc xs"
  "\<forall>fs. record_loop n r facc = Inr fs \<longrightarrow> fields_ok facc \<longrightarrow> record_inv n r facc fs"
proof (induction tag d and n r acc and n r facc rule: DeserializeValue_list_loop_record_loop.induct)
  case (1 tag d)
  show ?case
  proof (intro allI impI)
    fix v assume v: "DeserializeValue tag d = Inr v"
    let ?n = "unat (get_le (take 4 d) :: u32)"
    consider (list) "tag = TypeList" | (rec) "tag = TypeRecord" | (other) "tag \<noteq> TypeList" "tag \<noteq> TypeRecord" by blast
    then show "decoded_ok tag (length d) v"
    proof cases
      case list
      with v obtain xs where xs: "v = MblList xs" "list_loop ?n (drop 4 d) [] = Inr xs" "4 \<le> length d"
        by (subst (asm) DeserializeValue.simps) (auto simp: mbl_tag_defs result_iff not_less split: if_splits)
      have i: "list_inv ?n (drop 4 d) [] xs"
        using 1(1) list xs by (simp add: mbl_tag_defs elems_ok_def)
      moreover have "length xs < 2 ^ 32" using i le_less_trans [OF _ unat_u32_less] by (auto simp: list_inv_def)
      ultimately show ?thesis using decoded_ok_list [of xs "length d"] xs list by (simp add: list_inv_def)
    next
      case rec
      with v obtain fs where fs: "v = MblRecord fs" "record_loop ?n (drop 4 d) [] = Inr fs" "4 \<le> length d"
        by (subst (asm) DeserializeValue.simps) (auto simp: mbl_tag_defs result_iff not_less split: if_splits)
      have i: "record_inv ?n (drop 4 d) [] fs"
        using 1(2) rec fs by (simp add: mbl_tag_defs fields_ok_def)
      moreover have "length fs < 2 ^ 32" using i le_less_trans [OF _ unat_u32_less] by (auto simp: record_inv_def)
      ultimately show ?thesis using decoded_ok_record [of fs "length d"] fs rec by (simp add: record_inv_def)
    next
      case other
      with v show ?thesis
        by (subst (asm) DeserializeValue.simps) (auto simp: decoded_ok_def dest: scalar_ok split: if_splits)
    qed
  qed
next
  case (2 n r acc)
  show ?case
  proof (intro allI impI)
    fix xs assume xs: "list_loop n r acc = Inr xs" and acc: "elems_ok acc"
    show "list_inv n r acc xs"
    proof (cases "n = 0 \<or> r = []")
      case True
      then show ?thesis using xs acc by (auto simp: list_loop.simps [of n r] list_inv_def)
    next
      case False
      then obtain len x where s: "len = unat (get_le (take 4 (tl r)) :: u32)" "5 + len \<le> length r"
          "DeserializeValue (hd r) (take len (drop 5 r)) = Inr x"
          "list_loop (n - 1) (drop len (drop 5 r)) (acc @ [x]) = Inr xs"
        using list_loop_inv [OF xs] by blast
      have d: "decoded_ok (hd r) len x" using 2(1) False s by fastforce
      have "list_inv (n - 1) (drop len (drop 5 r)) (acc @ [x]) xs"
        using 2(2) False s elems_ok_snoc [OF acc d] unat_u32_less by (simp add: not_less)
      then show ?thesis using list_inv_step [OF d s(2)] False by blast
    qed
  qed
next
  case (3 n r facc)
  show ?case
  proof (intro allI impI)
    fix fs assume fs: "record_loop n r facc = Inr fs" and acc: "fields_ok facc"
    show "record_inv n r facc fs"
    proof (cases "n = 0 \<or> r = []")
      case True
      then show ?thesis using fs acc by (auto simp: record_loop.simps [of n r] record_inv_def)
    next
      case False
      then obtain klen k vlen x where s: "klen = unat (get_le (take 4 r) :: u32)"
          "deserializeString (take klen (drop 4 r)) = Inr k"
          "vlen = unat (get_le (take 4 (tl (drop klen (drop 4 r)))) :: u32)" "9 + klen + vlen \<le> length r"
          "DeserializeValue (hd (drop klen (drop 4 r))) (take vlen (drop 5 (drop klen (drop 4 r)))) = Inr x"
          "record_loop (n - 1) (drop vlen (drop 5 (drop klen (drop 4 r)))) (aset k x facc) = Inr fs"
        using record_loop_inv [OF fs] by blast
      have d: "decoded_ok (hd (drop klen (drop 4 r))) vlen x" using 3(1) False s by fastforce
      have k: "text_ok k" "length (lengthPrefixed k) \<le> klen" using deserializeString_ok [OF s(2)] s(4) by auto
      have "record_inv (n - 1) (drop vlen (drop 5 (drop klen (drop 4 r)))) (aset k x facc) fs"
        using 3(2) False s fields_ok_snoc [OF acc k(1) d] unat_u32_less by (simp add: not_less)
      then show ?thesis using record_inv_step [OF d k(2) s(4)] False by blast
    qed
  qed
qed

end
