(* ===== verification/Go_Time.thy ===== *)
theory Go_Time
  imports Main
begin

text \<open>
  The calendar of Go's \<open>time\<close> package in UTC. A time is its number of nanoseconds since 1970;
  \<open>civil_year\<close>, \<open>civil_yday\<close>, \<open>Month\<close> and \<open>Day\<close> split the day number along the cycles of 400,
  100, 4 and 1 years, and \<open>Date\<close> composes a time and normalises the month. The theorems state that
  \<open>Date\<close> inverts the splitting.
\<close>

definition ns_second :: int where "ns_second = 1000000000"
definition ns_minute :: int where "ns_minute = 60 * ns_second"
definition ns_hour :: int where "ns_hour = 3600 * ns_second"
definition ns_day :: int where "ns_day = 86400 * ns_second"

lemmas ns_defs = ns_second_def ns_minute_def ns_hour_def ns_day_def

text \<open>Day 0 is 1 January of year 1; the Unix epoch is day 719162.\<close>

definition day_number :: "int \<Rightarrow> int" where "day_number t = t div ns_day + 719162"

text \<open>The four cycles: the remainders and the counts, the last of which are cut to 3.\<close>

definition cycle400 :: "int \<Rightarrow> int \<times> int" where "cycle400 d = (d div 146097, d mod 146097)"
definition cycle100 :: "int \<Rightarrow> int \<times> int" where
  "cycle100 d = (let n = min 3 (d div 36524) in (n, d - 36524 * n))"
definition cycle4 :: "int \<Rightarrow> int \<times> int" where "cycle4 d = (d div 1461, d mod 1461)"
definition cycle1 :: "int \<Rightarrow> int \<times> int" where
  "cycle1 d = (let n = min 3 (d div 365) in (n, d - 365 * n))"

definition civil :: "int \<Rightarrow> int \<times> int" where
  "civil d =
     (let (a, d1) = cycle400 d; (b, d2) = cycle100 d1; (c, d3) = cycle4 d2; (e, d4) = cycle1 d3
      in (1 + 400 * a + 100 * b + 4 * c + e, d4))"

definition isLeap :: "int \<Rightarrow> bool" where
  "isLeap y \<longleftrightarrow> 4 dvd y \<and> (\<not> 100 dvd y \<or> 400 dvd y)"

definition year_start :: "int \<Rightarrow> int" where
  "year_start y = 365 * (y - 1) + (y - 1) div 4 - (y - 1) div 100 + (y - 1) div 400"

definition days_before :: "bool \<Rightarrow> int \<Rightarrow> int" where
  "days_before leap m =
     (if m \<le> 1 then 0 else if m = 2 then 31
      else (if m = 3 then 59 else if m = 4 then 90 else if m = 5 then 120 else if m = 6 then 151
            else if m = 7 then 181 else if m = 8 then 212 else if m = 9 then 243
            else if m = 10 then 273 else if m = 11 then 304 else if m = 12 then 334 else 365)
           + (if leap then 1 else 0))"

definition month_of :: "bool \<Rightarrow> int \<Rightarrow> int" where
  "month_of leap yday =
     (if yday < days_before leap 2 then 1 else if yday < days_before leap 3 then 2
      else if yday < days_before leap 4 then 3 else if yday < days_before leap 5 then 4
      else if yday < days_before leap 6 then 5 else if yday < days_before leap 7 then 6
      else if yday < days_before leap 8 then 7 else if yday < days_before leap 9 then 8
      else if yday < days_before leap 10 then 9 else if yday < days_before leap 11 then 10
      else if yday < days_before leap 12 then 11 else 12)"

definition Year :: "int \<Rightarrow> int" where "Year t = fst (civil (day_number t))"
definition YearDay :: "int \<Rightarrow> int" where "YearDay t = snd (civil (day_number t))"
definition Month :: "int \<Rightarrow> int" where "Month t = month_of (isLeap (Year t)) (YearDay t)"
definition Day :: "int \<Rightarrow> int" where "Day t = YearDay t - days_before (isLeap (Year t)) (Month t) + 1"
definition Hour :: "int \<Rightarrow> int" where "Hour t = t mod ns_day div ns_hour"
definition Minute :: "int \<Rightarrow> int" where "Minute t = t mod ns_hour div ns_minute"
definition Second :: "int \<Rightarrow> int" where "Second t = t mod ns_minute div ns_second"

definition Date :: "int \<Rightarrow> int \<Rightarrow> int \<Rightarrow> int \<Rightarrow> int \<Rightarrow> int \<Rightarrow> int" where
  "Date y m d h mi s =
     (let y' = y + (m - 1) div 12; m' = (m - 1) mod 12 + 1
      in (year_start y' + days_before (isLeap y') m' + (d - 1) - 719162) * ns_day
         + h * ns_hour + mi * ns_minute + s * ns_second)"

definition Unix :: "int \<Rightarrow> int" where "Unix t = t div ns_second"

text \<open>The zero \<open>time.Time\<close>: the start of year 1.\<close>

definition zero_time :: int where "zero_time = - 719162 * ns_day"

subsection \<open>The splitting is exact\<close>

lemma cycle_bounds:
  "cycle400 d = (a, d1) \<Longrightarrow> d = 146097 * a + d1 \<and> 0 \<le> d1 \<and> d1 \<le> 146096"
  "0 \<le> d1 \<Longrightarrow> d1 \<le> 146096 \<Longrightarrow> cycle100 d1 = (b, d2) \<Longrightarrow>
     d1 = 36524 * b + d2 \<and> 0 \<le> b \<and> b \<le> 3 \<and> 0 \<le> d2 \<and> (d2 \<le> 36523 \<or> d2 = 36524 \<and> b = 3)"
  "0 \<le> d2 \<Longrightarrow> cycle4 d2 = (c, d3) \<Longrightarrow> d2 = 1461 * c + d3 \<and> 0 \<le> c \<and> 0 \<le> d3 \<and> d3 \<le> 1460"
  "0 \<le> d3 \<Longrightarrow> d3 \<le> 1460 \<Longrightarrow> cycle1 d3 = (e, d4) \<Longrightarrow>
     d3 = 365 * e + d4 \<and> 0 \<le> e \<and> e \<le> 3 \<and> 0 \<le> d4 \<and> (d4 \<le> 364 \<or> d4 = 365 \<and> e = 3)"
proof (goal_cases)
  case 1 then show ?case by (auto simp: cycle400_def)
next
  case 2
  then have "b = min 3 (d1 div 36524)" "d2 = d1 - 36524 * b" by (auto simp: cycle100_def Let_def)
  with 2 show ?case by (auto simp: min_def split: if_splits)
next
  case 3 then show ?case by (auto simp: cycle4_def)
next
  case 4
  then have "e = min 3 (d3 div 365)" "d4 = d3 - 365 * e" by (auto simp: cycle1_def Let_def)
  with 4 show ?case by (auto simp: min_def split: if_splits)
qed

lemma civil_parts:
  assumes "civil d = (y, yday)"
  obtains a b c e where "y = 1 + 400 * a + 100 * b + 4 * c + e" "0 \<le> b" "b \<le> 3" "0 \<le> c" "c \<le> 24" "0 \<le> e" "e \<le> 3"
    "d = 146097 * a + 36524 * b + 1461 * c + 365 * e + yday" "0 \<le> yday"
    "yday \<le> 364 \<or> yday = 365 \<and> e = 3 \<and> (c < 24 \<or> b = 3)"
proof -
  obtain a d1 where 1: "cycle400 d = (a, d1)" by force
  obtain b d2 where 2: "cycle100 d1 = (b, d2)" by force
  obtain c d3 where 3: "cycle4 d2 = (c, d3)" by force
  obtain e d4 where 4: "cycle1 d3 = (e, d4)" by force
  have y: "y = 1 + 400 * a + 100 * b + 4 * c + e" "yday = d4"
    using assms 1 2 3 4 by (auto simp: civil_def)
  note b1 = cycle_bounds(1) [OF 1]
  have b2: "d1 = 36524 * b + d2 \<and> 0 \<le> b \<and> b \<le> 3 \<and> 0 \<le> d2 \<and> (d2 \<le> 36523 \<or> d2 = 36524 \<and> b = 3)"
    using b1 2 by (intro cycle_bounds(2)) auto
  have b3: "d2 = 1461 * c + d3 \<and> 0 \<le> c \<and> 0 \<le> d3 \<and> d3 \<le> 1460"
    using b2 3 by (intro cycle_bounds(3)) auto
  have b4: "d3 = 365 * e + d4 \<and> 0 \<le> e \<and> e \<le> 3 \<and> 0 \<le> d4 \<and> (d4 \<le> 364 \<or> d4 = 365 \<and> e = 3)"
    using b3 4 by (intro cycle_bounds(4)) auto
  have "c \<le> 24" using b2 b3 by linarith
  moreover have "d4 = 365 \<longrightarrow> c < 24 \<or> b = 3" using b2 b3 b4 by linarith
  moreover have "d = 146097 * a + 36524 * b + 1461 * c + 365 * e + d4" using b1 b2 b3 b4 by linarith
  ultimately show ?thesis using that y b2 b3 b4 by auto
qed

lemma cycle_divs:
  fixes a b c e :: int
  assumes "z = 400 * a + 100 * b + 4 * c + e" "0 \<le> b" "b \<le> 3" "0 \<le> c" "c \<le> 24" "0 \<le> e" "e \<le> 3"
  shows "z div 400 = a" "z div 100 = 4 * a + b" "z div 4 = 100 * a + 25 * b + c"
  using assms by (auto intro!: int_div_pos_eq [where r = "100 * b + 4 * c + e"]
      int_div_pos_eq [where r = "4 * c + e"] int_div_pos_eq [where r = e])

lemma year_start_civil:
  assumes "civil d = (y, yday)"
  shows "year_start y + yday = d" "0 \<le> yday" "yday < 365 + (if isLeap y then 1 else 0)"
proof -
  obtain a b c e where p: "y = 1 + 400 * a + 100 * b + 4 * c + e" "0 \<le> b" "b \<le> 3" "0 \<le> c" "c \<le> 24" "0 \<le> e" "e \<le> 3"
    "d = 146097 * a + 36524 * b + 1461 * c + 365 * e + yday" "0 \<le> yday"
    "yday \<le> 364 \<or> yday = 365 \<and> e = 3 \<and> (c < 24 \<or> b = 3)" by (rule civil_parts [OF assms])
  have "y - 1 = 400 * a + 100 * b + 4 * c + e" using p(1) by simp
  note dv = cycle_divs [OF this p(2-7)]
  show "year_start y + yday = d" unfolding year_start_def dv using p by simp
  show "0 \<le> yday" by fact
  have "isLeap y" if "yday = 365"
  proof -
    have e: "e = 3" "c < 24 \<or> b = 3" using p that by auto
    then have y: "y = 4 * (100 * a + 25 * b + c + 1)" using p(1) by simp
    show ?thesis
    proof (cases "c = 24")
      case True
      then have "y = 400 * (a + 1)" using y e p(4,5) by simp
      then show ?thesis unfolding isLeap_def by simp
    next
      case False
      have "y mod 100 = 4 * (c + 1)" using y False p(4,5) by (intro int_mod_pos_eq [where q = "4 * a + b"]) auto
      then have "\<not> 100 dvd y" using p(4) by (simp add: dvd_eq_mod_eq_0)
      then show ?thesis using y by (simp add: isLeap_def)
    qed
  qed
  then show "yday < 365 + (if isLeap y then 1 else 0)" using p by auto
qed

lemma year_start_Suc: "year_start (y + 1) = year_start y + 365 + (if isLeap y then 1 else 0)"
proof -
  have step: "y div k = (y - 1) div k + (if k dvd y then 1 else 0)" if "0 < k" for k :: int
  proof (cases "k dvd y")
    case True
    then obtain q where q: "y = k * q" by blast
    have "(k * q - 1) div k = q - 1" using that by (intro int_div_pos_eq [where r = "k - 1"]) (auto simp: algebra_simps)
    then show ?thesis using q True that by simp
  next
    case False
    then have "0 < y mod k" using that by (metis dvd_eq_mod_eq_0 order_le_less pos_mod_sign)
    moreover have "y mod k < k" using that by simp
    ultimately have "(y - 1) div k = y div k"
      by (intro int_div_pos_eq [where r = "y mod k - 1"]) (auto simp: algebra_simps)
    then show ?thesis using False by simp
  qed
  have imp: "400 dvd y \<longrightarrow> 100 dvd y" "100 dvd y \<longrightarrow> 4 dvd y"
    using dvd_trans [of 100 400 y] dvd_trans [of 4 100 y] by simp_all
  have eqs: "year_start (y + 1) = 365 * y + y div 4 - y div 100 + y div 400"
    "year_start y = 365 * y - 365 + (y - 1) div 4 - (y - 1) div 100 + (y - 1) div 400"
    by (simp_all add: year_start_def)
  define q4 q100 q400 where "q4 = (y - 1) div 4" "q100 = (y - 1) div 100" "q400 = (y - 1) div 400"
  have "y div 4 = q4 + (if 4 dvd y then 1 else 0)" "y div 100 = q100 + (if 100 dvd y then 1 else 0)"
    "y div 400 = q400 + (if 400 dvd y then 1 else 0)"
    using step [of 4] step [of 100] step [of 400] by (simp_all add: q4_q100_q400_def)
  then show ?thesis
    unfolding eqs isLeap_def q4_q100_q400_def [symmetric]
    using imp by (cases "4 dvd y"; cases "100 dvd y"; cases "400 dvd y") simp_all
qed


lemma month_of_bounds:
  assumes "0 \<le> yday" "yday < 365 + (if leap then 1 else 0)"
  shows "1 \<le> month_of leap yday" "month_of leap yday \<le> 12"
    "days_before leap (month_of leap yday) \<le> yday" "yday < days_before leap (month_of leap yday + 1)"
  using assms by (auto simp: month_of_def days_before_def)

lemma calendar:
  shows "year_start (Year t) + YearDay t = day_number t" "0 \<le> YearDay t"
    "YearDay t < 365 + (if isLeap (Year t) then 1 else 0)"
  using year_start_civil [of "day_number t" "Year t" "YearDay t"] by (auto simp: Year_def YearDay_def)

lemmas month_bounds = month_of_bounds [OF calendar(2,3), folded Month_def]

lemma Date_day: "Date (Year t) (Month t) (Day t) h mi s =
    t div ns_day * ns_day + h * ns_hour + mi * ns_minute + s * ns_second"
proof -
  have "(Month t - 1) div 12 = 0" "(Month t - 1) mod 12 = Month t - 1"
    using month_bounds [of t] by (auto simp: div_pos_pos_trivial)
  moreover have "year_start (Year t) + days_before (isLeap (Year t)) (Month t) + (Day t - 1) - 719162 = t div ns_day"
    using calendar(1) [of t] by (simp add: Day_def day_number_def)
  ultimately show ?thesis by (simp add: Date_def Let_def)
qed

lemma split_day: "t mod ns_day = Hour t * ns_hour + t mod ns_hour"
proof -
  have "t mod ns_day mod ns_hour = t mod ns_hour" by (rule mod_mod_cancel) (simp add: ns_defs)
  then show ?thesis using div_mult_mod_eq [of "t mod ns_day" ns_hour] by (simp add: Hour_def)
qed

lemma split_hour: "t mod ns_hour = Minute t * ns_minute + t mod ns_minute"
proof -
  have "t mod ns_hour mod ns_minute = t mod ns_minute" by (rule mod_mod_cancel) (simp add: ns_defs)
  then show ?thesis using div_mult_mod_eq [of "t mod ns_hour" ns_minute] by (simp add: Minute_def)
qed

lemma split_minute: "t mod ns_minute = Second t * ns_second + t mod ns_second"
proof -
  have "t mod ns_minute mod ns_second = t mod ns_second" by (rule mod_mod_cancel) (simp add: ns_defs)
  then show ?thesis using div_mult_mod_eq [of "t mod ns_minute" ns_second] by (simp add: Second_def)
qed

text \<open>Composing the parts of a time down to a unit gives the start of that unit.\<close>

lemma Date_units:
  "Date (Year t) (Month t) (Day t) 0 0 0 = t - t mod ns_day"
  "Date (Year t) (Month t) (Day t) (Hour t) 0 0 = t - t mod ns_hour"
  "Date (Year t) (Month t) (Day t) (Hour t) (Minute t) 0 = t - t mod ns_minute"
  "Date (Year t) (Month t) (Day t) (Hour t) (Minute t) (Second t) = t - t mod ns_second"
  using div_mult_mod_eq [of t ns_day] split_day [of t] split_hour [of t] split_minute [of t]
  unfolding Date_day by linarith+

text \<open>The start of a month or a year, and of the next one, enclose the time.\<close>

lemma day_bounds: "t div ns_day * ns_day \<le> t" "t < (t div ns_day + 1) * ns_day"
proof -
  have "0 < ns_day" by (simp add: ns_defs)
  then have "0 \<le> t mod ns_day" "t mod ns_day < ns_day" by simp_all
  moreover have "t div ns_day * ns_day + t mod ns_day = t" "(t div ns_day + 1) * ns_day = t div ns_day * ns_day + ns_day"
    by (simp_all add: distrib_right)
  ultimately show "t div ns_day * ns_day \<le> t" "t < (t div ns_day + 1) * ns_day" by linarith+
qed

lemma days_le: "x \<le> y \<Longrightarrow> x * ns_day \<le> y * ns_day"
  by (simp add: ns_defs)

lemma Date_first: "1 \<le> m \<Longrightarrow> m \<le> 12 \<Longrightarrow>
  Date y m 1 0 0 0 = (year_start y + days_before (isLeap y) m - 719162) * ns_day"
  by (simp add: Date_def Let_def div_pos_pos_trivial mod_pos_pos_trivial)

lemma Date_next_month:
  assumes "1 \<le> m" "m \<le> 12"
  shows "Date y (m + 1) 1 0 0 0 = (year_start y + days_before (isLeap y) (m + 1) - 719162) * ns_day"
proof (cases "m = 12")
  case True
  then show ?thesis using year_start_Suc [of y] by (simp add: Date_def Let_def days_before_def)
qed (use assms Date_first [of "m + 1" y] in simp)

lemma in_month: "Date (Year t) (Month t) 1 0 0 0 \<le> t" "t < Date (Year t) (Month t + 1) 1 0 0 0"
proof -
  let ?L = "isLeap (Year t)"
  have m: "1 \<le> Month t" "Month t \<le> 12" "days_before ?L (Month t) \<le> YearDay t" "YearDay t < days_before ?L (Month t + 1)"
    using month_bounds by auto
  have d: "year_start (Year t) + YearDay t - 719162 = t div ns_day" using calendar(1) [of t] by (simp add: day_number_def)
  have "(year_start (Year t) + days_before ?L (Month t) - 719162) * ns_day \<le> t div ns_day * ns_day"
    using m(3) d by (intro days_le) linarith
  then show "Date (Year t) (Month t) 1 0 0 0 \<le> t" using day_bounds(1) [of t] Date_first [OF m(1,2)] by simp
  have "(t div ns_day + 1) * ns_day \<le> (year_start (Year t) + days_before ?L (Month t + 1) - 719162) * ns_day"
    using m(4) d by (intro days_le) linarith
  then show "t < Date (Year t) (Month t + 1) 1 0 0 0" using day_bounds(2) [of t] Date_next_month [OF m(1,2)] by simp
qed

lemma in_year: "Date (Year t) 1 1 0 0 0 \<le> t" "t < Date (Year t + 1) 1 1 0 0 0"
proof -
  have d: "year_start (Year t) + YearDay t - 719162 = t div ns_day" using calendar(1) [of t] by (simp add: day_number_def)
  have "(year_start (Year t) - 719162) * ns_day \<le> t div ns_day * ns_day"
    using calendar(2) [of t] d by (intro days_le) linarith
  then show "Date (Year t) 1 1 0 0 0 \<le> t" using day_bounds(1) [of t] Date_first [of 1 "Year t"] by (simp add: days_before_def)
  have "(t div ns_day + 1) * ns_day \<le> (year_start (Year t + 1) - 719162) * ns_day"
    using calendar(3) [of t] d year_start_Suc [of "Year t"] by (intro days_le) (auto split: if_splits)
  then show "t < Date (Year t + 1) 1 1 0 0 0"
    using day_bounds(2) [of t] Date_first [of 1 "Year t + 1"] by (simp add: days_before_def)
qed

end
