(* ===== verification/Mbl_Compare.thy ===== *)
theory Mbl_Compare
  imports Mbl_Values Go_Time
begin

text \<open>
  Comparison of MBL values (\<open>src/internal/types/compare.go\<close>). A time stands for the window its
  precision leaves open; times of different precision compare by the window of the less precise
  one.
\<close>

datatype ComparisonResult = ComparisonLess | ComparisonEqual | ComparisonGreater | ComparisonInvalid

subsection \<open>Texts, numbers and times\<close>

fun bytes_less :: "bytes \<Rightarrow> bytes \<Rightarrow> bool" where
  "bytes_less s [] = False"
| "bytes_less [] (c # t) = True"
| "bytes_less (b # s) (c # t) = (b < c \<or> b = c \<and> bytes_less s t)"

definition compareTexts :: "gostring \<Rightarrow> gostring \<Rightarrow> ComparisonResult" where
  "compareTexts l r = (if bytes_less l r then ComparisonLess else if bytes_less r l then ComparisonGreater else ComparisonEqual)"

definition compareUnknowns :: "gostring \<Rightarrow> gostring \<Rightarrow> ComparisonResult" where
  "compareUnknowns l r = (if bytes_less l r then ComparisonLess else if bytes_less r l then ComparisonGreater else ComparisonEqual)"

definition compareNumbers :: "f64 \<Rightarrow> f64 \<Rightarrow> ComparisonResult" where
  "compareNumbers l r =
     (if IsNaN l \<or> IsNaN r then ComparisonInvalid
      else if f64_less l r then ComparisonLess else if f64_less r l then ComparisonGreater else ComparisonEqual)"

definition compareMoneys :: "f64 \<Rightarrow> gostring \<Rightarrow> f64 \<Rightarrow> gostring \<Rightarrow> ComparisonResult" where
  "compareMoneys l lc r rc =
     (if lc \<noteq> rc then ComparisonInvalid
      else if f64_less l r then ComparisonLess else if f64_less r l then ComparisonGreater else ComparisonEqual)"

definition compareReferences :: "u64 \<Rightarrow> u64 \<Rightarrow> ComparisonResult" where
  "compareReferences l r = (if l < r then ComparisonLess else if r < l then ComparisonGreater else ComparisonEqual)"

definition compareBooleans :: "bool \<Rightarrow> bool \<Rightarrow> ComparisonResult" where
  "compareBooleans l r = (if l = r then ComparisonEqual else if \<not> l \<and> r then ComparisonLess else ComparisonGreater)"

text \<open>\<open>AddDate\<close> and \<open>Add\<close> on a start that is already normalised.\<close>

definition getTimeRange :: "int \<Rightarrow> u8 \<Rightarrow> int \<times> int" where
  "getTimeRange t p =
     (if p = PrecisionYear then (Date (Year t) 1 1 0 0 0, Date (Year t + 1) 1 1 0 0 0 - 1)
      else if p = PrecisionMonth then (Date (Year t) (Month t) 1 0 0 0, Date (Year t) (Month t + 1) 1 0 0 0 - 1)
      else if p = PrecisionDay then
        (let start = Date (Year t) (Month t) (Day t) 0 0 0 in (start, Date (Year t) (Month t) (Day t + 1) 0 0 0 - 1))
      else if p = PrecisionHour then
        (let start = Date (Year t) (Month t) (Day t) (Hour t) 0 0 in (start, start + ns_hour - 1))
      else if p = PrecisionMinute then
        (let start = Date (Year t) (Month t) (Day t) (Hour t) (Minute t) 0 in (start, start + ns_minute - 1))
      else if p = PrecisionSecond then
        (let start = Date (Year t) (Month t) (Day t) (Hour t) (Minute t) (Second t) in (start, start + ns_second - 1))
      else if p = PrecisionSubsecond then (t, t)
      else (zero_time, zero_time))"

definition TimeRange :: "int \<Rightarrow> u8 \<Rightarrow> int \<times> int" where
  "TimeRange t p = getTimeRange t p"

definition swap :: "ComparisonResult \<Rightarrow> ComparisonResult" where
  "swap r = (case r of ComparisonLess \<Rightarrow> ComparisonGreater | ComparisonGreater \<Rightarrow> ComparisonLess | _ \<Rightarrow> r)"

definition compareTimes :: "int \<Rightarrow> u8 \<Rightarrow> int \<Rightarrow> u8 \<Rightarrow> ComparisonResult" where
  "compareTimes l lp r rp =
     (if lp = rp then (if l < r then ComparisonLess else if r < l then ComparisonGreater else ComparisonEqual)
      else
        let (more, less, lessP) = (if rp < lp then (l, r, rp) else (r, l, lp));
            (rangeStart, rangeEnd) = getTimeRange less lessP;
            result = (if more < rangeStart then ComparisonLess
                      else if rangeEnd < more then ComparisonGreater else ComparisonEqual)
        in if lp < rp then swap result else result)"

definition timeEquals :: "int \<Rightarrow> u8 \<Rightarrow> int \<Rightarrow> u8 \<Rightarrow> bool" where
  "timeEquals l lp r rp =
     (if lp = rp then l = r
      else
        let (more, less, lessP) = (if rp < lp then (l, r, rp) else (r, l, lp));
            (rangeStart, rangeEnd) = getTimeRange less lessP
        in \<not> more < rangeStart \<and> \<not> rangeEnd < more)"

subsection \<open>\<open>Compare\<close>\<close>

text \<open>
  The loops over the elements of two lists, up to the shorter length, and over the fields of the
  left record in iteration order.
\<close>

function Compare :: "goany \<Rightarrow> goany \<Rightarrow> ComparisonResult"
  and elements_loop :: "goany list \<Rightarrow> goany list \<Rightarrow> ComparisonResult"
  and fields_compare :: "(gostring \<times> goany) list \<Rightarrow> (gostring \<times> goany) list \<Rightarrow> ComparisonResult"
  where
  "Compare left right =
     (case left of
        Text l \<Rightarrow> (case right of Text r \<Rightarrow> compareTexts l r | _ \<Rightarrow> ComparisonInvalid)
      | Number l \<Rightarrow> (case right of Number r \<Rightarrow> compareNumbers l r | _ \<Rightarrow> ComparisonInvalid)
      | Time l lp \<Rightarrow> (case right of Time r rp \<Rightarrow> compareTimes l lp r rp | _ \<Rightarrow> ComparisonInvalid)
      | Money l lc \<Rightarrow> (case right of Money r rc \<Rightarrow> compareMoneys l lc r rc | _ \<Rightarrow> ComparisonInvalid)
      | Reference l \<Rightarrow> (case right of Reference r \<Rightarrow> compareReferences l r | _ \<Rightarrow> ComparisonInvalid)
      | Nothing \<Rightarrow> (case right of Nothing \<Rightarrow> ComparisonEqual | _ \<Rightarrow> ComparisonInvalid)
      | Anything \<Rightarrow> (case right of Anything \<Rightarrow> ComparisonEqual | _ \<Rightarrow> ComparisonInvalid)
      | Unknown l \<Rightarrow> (case right of Unknown r \<Rightarrow> compareUnknowns l r | _ \<Rightarrow> ComparisonInvalid)
      | Boolean l \<Rightarrow> (case right of Boolean r \<Rightarrow> compareBooleans l r | _ \<Rightarrow> ComparisonInvalid)
      | MblList l \<Rightarrow>
          (case right of
             MblList r \<Rightarrow>
               (let result = elements_loop l r in
                if result \<noteq> ComparisonEqual then result
                else if length l < length r then ComparisonLess
                else if length r < length l then ComparisonGreater
                else ComparisonEqual)
           | _ \<Rightarrow> ComparisonInvalid)
      | MblRecord l \<Rightarrow>
          (case right of
             MblRecord r \<Rightarrow>
               (if length l \<noteq> length r then (if length l < length r then ComparisonLess else ComparisonGreater)
                else fields_compare l r)
           | _ \<Rightarrow> ComparisonInvalid)
      | _ \<Rightarrow> ComparisonInvalid)"
| "elements_loop xs ys =
     (case xs of
        [] \<Rightarrow> ComparisonEqual
      | x # xs' \<Rightarrow>
          (case ys of
             [] \<Rightarrow> ComparisonEqual
           | y # ys' \<Rightarrow>
               let result = Compare x y in
               if result \<noteq> ComparisonEqual then result else elements_loop xs' ys'))"
| "fields_compare l r =
     (case l of
        [] \<Rightarrow> ComparisonEqual
      | (k, x) # l' \<Rightarrow>
          (case map_of r k of
             None \<Rightarrow> ComparisonInvalid
           | Some y \<Rightarrow>
               let result = Compare x y in
               if result \<noteq> ComparisonEqual then result else fields_compare l' r))"
  by pat_completeness auto
termination
  by (relation "measure (case_sum (\<lambda>(l, r). size l)
        (case_sum (\<lambda>(xs, ys). size_list size xs) (\<lambda>(l, r). size_list (size_prod (\<lambda>k. 0) size) l)))")
    auto

declare Compare.simps [simp del] elements_loop.simps [simp del] fields_compare.simps [simp del]

definition Equal :: "goany \<Rightarrow> goany \<Rightarrow> bool" where
  "Equal l r =
     (case (l, r) of
        (Time a p, Time b q) \<Rightarrow> timeEquals a p b q
      | _ \<Rightarrow> Compare l r = ComparisonEqual)"

definition Less :: "goany \<Rightarrow> goany \<Rightarrow> bool" where "Less l r \<longleftrightarrow> Compare l r = ComparisonLess"
definition Greater :: "goany \<Rightarrow> goany \<Rightarrow> bool" where "Greater l r \<longleftrightarrow> Compare l r = ComparisonGreater"

definition LessEqual :: "goany \<Rightarrow> goany \<Rightarrow> bool" where
  "LessEqual l r \<longleftrightarrow> (let result = Compare l r in result = ComparisonLess \<or> result = ComparisonEqual)"

definition GreaterEqual :: "goany \<Rightarrow> goany \<Rightarrow> bool" where
  "GreaterEqual l r \<longleftrightarrow> (let result = Compare l r in result = ComparisonGreater \<or> result = ComparisonEqual)"

subsection \<open>Windows\<close>

lemma getTimeRange_units:
  "getTimeRange t PrecisionDay = (t - t mod ns_day, t - t mod ns_day + ns_day - 1)"
  "getTimeRange t PrecisionHour = (t - t mod ns_hour, t - t mod ns_hour + ns_hour - 1)"
  "getTimeRange t PrecisionMinute = (t - t mod ns_minute, t - t mod ns_minute + ns_minute - 1)"
  "getTimeRange t PrecisionSecond = (t - t mod ns_second, t - t mod ns_second + ns_second - 1)"
  "getTimeRange t PrecisionSubsecond = (t, t)"
proof -
  have "Date (Year t) (Month t) (Day t + 1) 0 0 0 = Date (Year t) (Month t) (Day t) 0 0 0 + ns_day"
    by (simp add: Date_def Let_def algebra_simps)
  then show "getTimeRange t PrecisionDay = (t - t mod ns_day, t - t mod ns_day + ns_day - 1)"
    by (simp add: getTimeRange_def precision_defs Date_units)
qed (simp_all add: getTimeRange_def precision_defs Date_units Let_def)

definition window :: "int \<Rightarrow> u8 \<Rightarrow> int set" where
  "window t p = {fst (getTimeRange t p) .. snd (getTimeRange t p)}"

lemma mod_window:
  assumes "0 < u" "0 < v" "u dvd (v :: int)"
  shows "t mod u \<le> t mod v" "t mod v + u \<le> t mod u + v"
proof -
  have tm: "t mod v mod u = t mod u" by (rule mod_mod_cancel [OF assms(3)])
  then show "t mod u \<le> t mod v" using zmod_le_nonneg_dividend [of "t mod v" u] assms(2) by simp
  obtain k where k: "v = u * k" using assms(3) by blast
  have eq: "t mod v = u * (t mod v div u) + t mod u" using mult_div_mod_eq [of u "t mod v"] tm by simp
  have "t mod v div u < k"
  proof (rule ccontr)
    assume "\<not> ?thesis"
    then have "u * k \<le> u * (t mod v div u)" using assms(1) by simp
    then have "v \<le> t mod v" using eq k pos_mod_sign [OF assms(1), of t] by linarith
    then show False using pos_mod_bound [OF assms(2), of t] by simp
  qed
  then have "u * (t mod v div u + 1) \<le> u * k" using assms(1) by (intro mult_left_mono) auto
  then show "t mod v + u \<le> t mod u + v" using eq k by (simp add: distrib_left)
qed

lemma unit_window_subset:
  assumes "0 < u" "0 < v" "u dvd (v :: int)"
  shows "{t - t mod u .. t - t mod u + u - 1} \<subseteq> {t - t mod v .. t - t mod v + v - 1}"
  using mod_window [OF assms, of t] by auto

text \<open>A window of whole days contains a day as soon as it contains one of its times.\<close>

lemma day_in_days:
  assumes "a * ns_day \<le> t" "t < b * ns_day"
  shows "{t - t mod ns_day .. t - t mod ns_day + ns_day - 1} \<subseteq> {a * ns_day .. b * ns_day - 1}"
proof -
  have pos: "0 < ns_day" by (simp add: ns_defs)
  have "a * ns_day < (t div ns_day + 1) * ns_day" "t div ns_day * ns_day < b * ns_day"
    using assms day_bounds [of t] by linarith+
  then have "a \<le> t div ns_day" "t div ns_day + 1 \<le> b" using pos by simp_all
  then have "a * ns_day \<le> t div ns_day * ns_day" "(t div ns_day + 1) * ns_day \<le> b * ns_day"
    using pos by (auto intro!: mult_right_mono)
  moreover have "t div ns_day * ns_day = t - t mod ns_day" by (simp add: minus_mod_eq_div_mult)
  ultimately show ?thesis by (auto simp: distrib_right)
qed

lemma month_in_year:
  "{Date (Year t) (Month t) 1 0 0 0 .. Date (Year t) (Month t + 1) 1 0 0 0 - 1} \<subseteq>
   {Date (Year t) 1 1 0 0 0 .. Date (Year t + 1) 1 1 0 0 0 - 1}"
proof -
  let ?L = "isLeap (Year t)"
  have m: "1 \<le> Month t" "Month t \<le> 12" using month_bounds by auto
  have b: "0 \<le> days_before ?L (Month t)" "days_before ?L (Month t + 1) \<le> 365 + (if ?L then 1 else 0)"
    using m by (auto simp: days_before_def)
  have "(year_start (Year t) - 719162) * ns_day \<le> (year_start (Year t) + days_before ?L (Month t) - 719162) * ns_day"
    "(year_start (Year t) + days_before ?L (Month t + 1) - 719162) * ns_day \<le> (year_start (Year t + 1) - 719162) * ns_day"
    using b year_start_Suc [of "Year t"] by (intro days_le; linarith)+
  then show ?thesis
    using Date_first [OF m, of "Year t"] Date_next_month [OF m, of "Year t"] Date_first [of 1 "Year t"]
      Date_first [of 1 "Year t + 1"] by (simp add: days_before_def [of _ 1])
qed

lemma day_in_month:
  "{t - t mod ns_day .. t - t mod ns_day + ns_day - 1} \<subseteq>
   {Date (Year t) (Month t) 1 0 0 0 .. Date (Year t) (Month t + 1) 1 0 0 0 - 1}"
proof -
  have m: "1 \<le> Month t" "Month t \<le> 12" using month_bounds by auto
  show ?thesis
    using in_month [of t] unfolding Date_first [OF m] Date_next_month [OF m] by (rule day_in_days)
qed

definition valid_precision :: "u8 \<Rightarrow> bool" where
  "valid_precision p \<longleftrightarrow> PrecisionYear \<le> p \<and> p \<le> PrecisionSubsecond"

lemma valid_precision_cases:
  assumes "valid_precision p"
  obtains "p = PrecisionYear" | "p = PrecisionMonth" | "p = PrecisionDay" | "p = PrecisionHour"
    | "p = PrecisionMinute" | "p = PrecisionSecond" | "p = PrecisionSubsecond"
proof -
  have "unat p \<in> {1..7}" using assms by (simp add: valid_precision_def precision_defs word_le_nat_alt)
  then have "unat p = 1 \<or> unat p = 2 \<or> unat p = 3 \<or> unat p = 4 \<or> unat p = 5 \<or> unat p = 6 \<or> unat p = 7" by auto
  then have "p = 1 \<or> p = 2 \<or> p = 3 \<or> p = 4 \<or> p = 5 \<or> p = 6 \<or> p = 7" by (simp add: word_unat_eq_iff)
  then show ?thesis using that by (auto simp: precision_defs)
qed


lemma window_chain:
  "t \<in> window t PrecisionSubsecond" "window t PrecisionSubsecond \<subseteq> window t PrecisionSecond"
  "window t PrecisionSecond \<subseteq> window t PrecisionMinute" "window t PrecisionMinute \<subseteq> window t PrecisionHour"
  "window t PrecisionHour \<subseteq> window t PrecisionDay" "window t PrecisionDay \<subseteq> window t PrecisionMonth"
  "window t PrecisionMonth \<subseteq> window t PrecisionYear"
proof -
  have "0 \<le> t mod ns_second" "t mod ns_second < ns_second" by (simp_all add: ns_defs)
  then show "window t PrecisionSubsecond \<subseteq> window t PrecisionSecond" by (simp add: window_def getTimeRange_units)
  show "window t PrecisionSecond \<subseteq> window t PrecisionMinute" "window t PrecisionMinute \<subseteq> window t PrecisionHour"
    "window t PrecisionHour \<subseteq> window t PrecisionDay"
    unfolding window_def getTimeRange_units fst_conv snd_conv
    by (rule unit_window_subset; simp add: ns_defs)+
  have ym: "getTimeRange t PrecisionMonth = (Date (Year t) (Month t) 1 0 0 0, Date (Year t) (Month t + 1) 1 0 0 0 - 1)"
    "getTimeRange t PrecisionYear = (Date (Year t) 1 1 0 0 0, Date (Year t + 1) 1 1 0 0 0 - 1)"
    by (simp_all add: getTimeRange_def precision_defs)
  show "window t PrecisionDay \<subseteq> window t PrecisionMonth"
    unfolding window_def getTimeRange_units ym fst_conv snd_conv by (rule day_in_month)
  show "window t PrecisionMonth \<subseteq> window t PrecisionYear"
    unfolding window_def ym fst_conv snd_conv by (rule month_in_year)
qed (simp add: window_def getTimeRange_units)

lemma window_mono:
  assumes "valid_precision p" "valid_precision q" "p \<le> q"
  shows "t \<in> window t q" "window t q \<subseteq> window t p"
proof -
  note c = window_chain [of t]
  show "t \<in> window t q" using assms(2) by (cases rule: valid_precision_cases) (use c in blast)+
  show "window t q \<subseteq> window t p"
    using assms(1)
  proof (cases rule: valid_precision_cases)
    case 1
    show ?thesis using assms(2) by (cases rule: valid_precision_cases) (use 1 c assms(3) in \<open>auto simp: precision_defs word_le_nat_alt\<close>)
  next
    case 2
    show ?thesis using assms(2) by (cases rule: valid_precision_cases) (use 2 c assms(3) in \<open>auto simp: precision_defs word_le_nat_alt\<close>)
  next
    case 3
    show ?thesis using assms(2) by (cases rule: valid_precision_cases) (use 3 c assms(3) in \<open>auto simp: precision_defs word_le_nat_alt\<close>)
  next
    case 4
    show ?thesis using assms(2) by (cases rule: valid_precision_cases) (use 4 c assms(3) in \<open>auto simp: precision_defs word_le_nat_alt\<close>)
  next
    case 5
    show ?thesis using assms(2) by (cases rule: valid_precision_cases) (use 5 c assms(3) in \<open>auto simp: precision_defs word_le_nat_alt\<close>)
  next
    case 6
    show ?thesis using assms(2) by (cases rule: valid_precision_cases) (use 6 c assms(3) in \<open>auto simp: precision_defs word_le_nat_alt\<close>)
  next
    case 7
    show ?thesis using assms(2) by (cases rule: valid_precision_cases) (use 7 c assms(3) in \<open>auto simp: precision_defs word_le_nat_alt\<close>)
  qed
qed

subsection \<open>Swapping the operands\<close>

lemma bytes_less_linear: "bytes_less s t \<or> s = t \<or> bytes_less t s"
proof (induction s t rule: bytes_less.induct)
  case (1 s)
  show ?case by (cases s) auto
qed (auto simp: not_less_iff_gr_or_eq)

lemma bytes_less_asym: "bytes_less s t \<Longrightarrow> \<not> bytes_less t s"
  by (induction s t rule: bytes_less.induct) auto

lemma f64_less_asym: "f64_less a b \<Longrightarrow> \<not> f64_less b a"
  by (simp add: f64_less_def)

lemma swap_simps [simp]:
  "swap ComparisonLess = ComparisonGreater" "swap ComparisonGreater = ComparisonLess"
  "swap ComparisonEqual = ComparisonEqual" "swap ComparisonInvalid = ComparisonInvalid"
  "swap (swap r) = r" "swap r = ComparisonEqual \<longleftrightarrow> r = ComparisonEqual"
  by (simp_all add: swap_def split: ComparisonResult.splits)

lemma scalar_swap:
  "compareTexts r l = swap (compareTexts l r)" "compareUnknowns r l = swap (compareUnknowns l r)"
  "compareNumbers b a = swap (compareNumbers a b)" "compareMoneys b bc a ac = swap (compareMoneys a ac b bc)"
  "compareReferences j i = swap (compareReferences i j)" "compareBooleans y x = swap (compareBooleans x y)"
  using bytes_less_asym [of l r] f64_less_asym [of a b]
  by (auto simp: compareTexts_def compareUnknowns_def compareNumbers_def compareMoneys_def compareReferences_def
      compareBooleans_def)

lemma compareTimes_swap: "compareTimes r rp l lp = swap (compareTimes l lp r rp)"
proof -
  consider "lp = rp" | "lp < rp" | "rp < lp" by fastforce
  then show ?thesis
    by cases (auto simp: compareTimes_def Let_def split: prod.splits)
qed

text \<open>Values without records: what a comparison finds does not depend on an iteration order.\<close>

fun record_free :: "goany \<Rightarrow> bool" where
  "record_free (MblList xs) = (\<forall>x \<in> set xs. record_free x)"
| "record_free (MblRecord fs) = False"
| "record_free x = True"

lemma Compare_swap:
  "record_free l \<Longrightarrow> Compare r l = swap (Compare l r)"
proof (induction l arbitrary: r)
  case (MblList xs)
  have loop: "elements_loop ys xs = swap (elements_loop xs ys)" for ys
    using MblList
  proof (induction xs arbitrary: ys)
    case Nil
    then show ?case by (simp add: elements_loop.simps [of ys] elements_loop.simps [of "[]"] split: list.splits)
  next
    case (Cons x xs)
    then show ?case
      by (cases ys) (auto simp: elements_loop.simps [of "_ # _"] elements_loop.simps [of "[]"] Let_def)
  qed
  show ?case
  proof (cases r)
    case (MblList ys)
    then show ?thesis using loop [of ys] by (auto simp: Compare.simps [of "MblList _"] Let_def)
  qed (simp_all add: Compare.simps)
next
  case (Text a)
  show ?case by (cases r) (simp_all add: Compare.simps scalar_swap(1) [where l = a])
next
  case (Number x)
  show ?case by (cases r) (simp_all add: Compare.simps scalar_swap(3) [where a = x])
next
  case (Time t p)
  show ?case by (cases r) (simp_all add: Compare.simps compareTimes_swap [where l = t and lp = p])
next
  case (Money x c)
  show ?case by (cases r) (simp_all add: Compare.simps scalar_swap(4) [where a = x and ac = c])
next
  case (Reference n)
  show ?case by (cases r) (simp_all add: Compare.simps scalar_swap(5) [where i = n])
next
  case (Unknown a)
  show ?case by (cases r) (simp_all add: Compare.simps scalar_swap(2) [where l = a])
next
  case (Boolean b)
  show ?case by (cases r) (simp_all add: Compare.simps scalar_swap(6) [where x = b])
qed (case_tac r; simp add: Compare.simps)+

lemma timeEquals_compareTimes: "timeEquals l lp r rp \<longleftrightarrow> compareTimes l lp r rp = ComparisonEqual"
  by (auto simp: timeEquals_def compareTimes_def Let_def split: prod.splits)

lemma Equal_Compare: "Equal l r \<longleftrightarrow> Compare l r = ComparisonEqual"
proof (cases l)
  case (Time t p)
  then show ?thesis by (cases r) (simp_all add: Equal_def timeEquals_compareTimes Compare.simps)
qed (simp_all add: Equal_def)

end
