(* ===== verification/Mbl_Coerce.thy ===== *)
theory Mbl_Coerce
  imports Mbl_Values Go_Time
begin

text \<open>
  Coercion, arithmetic and truth of MBL values (\<open>src/internal/types/coerce.go\<close>). The conversions
  between floats and decimal text, \<open>math.Pow\<close> and the default formatting of other Go values are
  the record \<open>float_lib\<close>, a parameter; the arithmetic itself is that of \<open>Go_Float\<close>.
\<close>

record float_lib =
  ParseFloat :: "gostring \<Rightarrow> f64 option"
  FormatFloat :: "f64 \<Rightarrow> gostring"
  Format2f :: "f64 \<Rightarrow> gostring"
  Sprint :: "goany \<Rightarrow> gostring"
  Pow :: "f64 \<Rightarrow> f64 \<Rightarrow> f64"

record CoercionResult =
  crValue :: goany
  crOk :: bool

definition ok_result :: "goany \<Rightarrow> CoercionResult" where "ok_result v = \<lparr>crValue = v, crOk = True\<rparr>"
definition fail_result :: "gostring \<Rightarrow> CoercionResult" where
  "fail_result s = \<lparr>crValue = Unknown s, crOk = False\<rparr>"

text \<open>The name \<open>%T\<close> prints.\<close>

fun type_name :: "goany \<Rightarrow> gostring" where
  "type_name (Text s) = str ''types.Text''"
| "type_name (Number x) = str ''types.Number''"
| "type_name (Time t p) = str ''types.Time''"
| "type_name (Money a c) = str ''types.Money''"
| "type_name (Picture w h d) = str ''types.Picture''"
| "type_name (Reference i) = str ''types.Reference''"
| "type_name Nothing = str ''types.Nothing''"
| "type_name (Unknown r) = str ''types.Unknown''"
| "type_name Anything = str ''types.Anything''"
| "type_name (Boolean b) = str ''types.Boolean''"
| "type_name (MblList xs) = str ''types.List''"
| "type_name (MblRecord fs) = str ''types.Record''"
| "type_name (GoString s) = str ''string''"
| "type_name (GoFloat64 x) = str ''float64''"
| "type_name (GoFloat32 x) = str ''float32''"
| "type_name (GoInt v) = str ''int''"
| "type_name (GoInt64 v) = str ''int64''"
| "type_name (GoInt32 v) = str ''int32''"
| "type_name (GoUint v) = str ''uint''"
| "type_name (GoUint32 v) = str ''uint32''"
| "type_name (GoUint64 v) = str ''uint64''"
| "type_name (GoBool b) = str ''bool''"
| "type_name (GoSlice xs) = str ''[]interface {}''"
| "type_name (GoMap fs) = str ''map[string]interface {}''"
| "type_name (GoMapBool m) = str ''map[string]bool''"
| "type_name GoNil = str ''<nil>''"

definition CoerceToNumber :: "float_lib \<Rightarrow> goany \<Rightarrow> CoercionResult" where
  "CoerceToNumber lib v =
     (case v of
        Number x \<Rightarrow> ok_result (Number x)
      | Text s \<Rightarrow>
          (case ParseFloat lib s of
             Some x \<Rightarrow> ok_result (Number x)
           | None \<Rightarrow> fail_result (str ''cannot convert text to number: '' @ s))
      | Money a c \<Rightarrow> ok_result (Number a)
      | Time t p \<Rightarrow> ok_result (Number (f64_of_int (Unix t)))
      | _ \<Rightarrow> fail_result (str ''cannot coerce '' @ type_name v @ str '' to number''))"

subsection \<open>Text\<close>

text \<open>\<open>%02d\<close> and \<open>%04d\<close> for the parts of a date.\<close>

definition pad :: "nat \<Rightarrow> int \<Rightarrow> gostring" where
  "pad w n = (let d = dec (nat \<bar>n\<bar>); sign = (if n < 0 then [45] else [])
              in sign @ replicate (w - length sign - length d) 48 @ d)"

definition formatTimeByPrecision :: "int \<Rightarrow> u8 \<Rightarrow> gostring" where
  "formatTimeByPrecision t p =
     (let y = pad 4 (Year t); ym = y @ str ''-'' @ pad 2 (Month t); ymd = ym @ str ''-'' @ pad 2 (Day t);
          h = ymd @ str '' '' @ pad 2 (Hour t); hm = h @ str '':'' @ pad 2 (Minute t);
          hms = hm @ str '':'' @ pad 2 (Second t)
      in if p = PrecisionYear then y
         else if p = PrecisionMonth then ym
         else if p = PrecisionDay then ymd
         else if p = PrecisionHour then h @ str '':00''
         else if p = PrecisionMinute then hm
         else if p = PrecisionSecond then hms
         else hms @ str ''.'' @ pad 6 (t mod ns_second div 1000))"

text \<open>
  Every type coerces to text. The elements of a list are joined with a comma, as are the fields of a
  record in iteration order.
\<close>

definition comma_join :: "gostring list \<Rightarrow> gostring" where
  "comma_join ss = (case ss of [] \<Rightarrow> [] | s # r \<Rightarrow> s @ concat (map (\<lambda>t. str '', '' @ t) r))"

fun coerceText :: "float_lib \<Rightarrow> goany \<Rightarrow> gostring" where
  "coerceText lib (Text s) = s"
| "coerceText lib (Number x) = FormatFloat lib x"
| "coerceText lib (Money a c) = Format2f lib a @ str '' '' @ c"
| "coerceText lib (Time t p) = formatTimeByPrecision t p"
| "coerceText lib (Reference i) = str ''@'' @ dec (unat i)"
| "coerceText lib Nothing = []"
| "coerceText lib (Unknown r) = str ''Unknown: '' @ r"
| "coerceText lib Anything = str ''Anything''"
| "coerceText lib (MblList xs) = str ''['' @ comma_join (map (coerceText lib) xs) @ str '']''"
| "coerceText lib (MblRecord fs) =
     str ''{'' @ comma_join (map (\<lambda>(k, x). k @ str '': '' @ coerceText lib x) fs) @ str ''}''"
| "coerceText lib (Boolean b) = (if b then str ''true'' else str ''false'')"
| "coerceText lib (Picture w h d) =
     str ''Picture('' @ dec (unat w) @ str ''x'' @ dec (unat h) @ str '')''"
| "coerceText lib x = Sprint lib x"

definition CoerceToText :: "float_lib \<Rightarrow> goany \<Rightarrow> CoercionResult" where
  "CoerceToText lib v = ok_result (Text (coerceText lib v))"

definition Concatenate :: "float_lib \<Rightarrow> goany \<Rightarrow> goany \<Rightarrow> goany" where
  "Concatenate lib l r = Text (coerceText lib l @ coerceText lib r)"

subsection \<open>Arithmetic\<close>

definition isUnknown :: "goany \<Rightarrow> bool" where
  "isUnknown v = (case v of Unknown r \<Rightarrow> True | _ \<Rightarrow> False)"

text \<open>The part the six operations share: unknown operands and failed coercions are returned.\<close>

definition arith :: "float_lib \<Rightarrow> (f64 \<Rightarrow> f64 \<Rightarrow> goany) \<Rightarrow> goany \<Rightarrow> goany \<Rightarrow> goany" where
  "arith lib op left right =
     (if isUnknown left then left
      else if isUnknown right then right
      else let leftNum = CoerceToNumber lib left; rightNum = CoerceToNumber lib right in
           if \<not> crOk leftNum then crValue leftNum
           else if \<not> crOk rightNum then crValue rightNum
           else (case (crValue leftNum, crValue rightNum) of
                   (Number l, Number r) \<Rightarrow> op l r
                 | _ \<Rightarrow> Nothing))"

definition Add :: "float_lib \<Rightarrow> goany \<Rightarrow> goany \<Rightarrow> goany" where
  "Add lib = arith lib (\<lambda>l r. Number (f64_add l r))"

definition Subtract :: "float_lib \<Rightarrow> goany \<Rightarrow> goany \<Rightarrow> goany" where
  "Subtract lib = arith lib (\<lambda>l r. Number (f64_sub l r))"

definition Multiply :: "float_lib \<Rightarrow> goany \<Rightarrow> goany \<Rightarrow> goany" where
  "Multiply lib = arith lib (\<lambda>l r. Number (f64_mul l r))"

definition Power :: "float_lib \<Rightarrow> goany \<Rightarrow> goany \<Rightarrow> goany" where
  "Power lib = arith lib (\<lambda>l r.
     let result = Pow lib l r in
     if IsInf result \<or> IsNaN result then Unknown (str ''exponentiation result out of range'') else Number result)"

definition Divide :: "float_lib \<Rightarrow> goany \<Rightarrow> goany \<Rightarrow> goany" where
  "Divide lib = arith lib (\<lambda>l r.
     if f64_eq r 0 then Unknown (str ''division by zero'') else Number (f64_div l r))"

definition Modulo :: "float_lib \<Rightarrow> goany \<Rightarrow> goany \<Rightarrow> goany" where
  "Modulo lib = arith lib (\<lambda>l r.
     if f64_eq r 0 then Unknown (str ''modulo by zero'') else Number (f64_mod l r))"

subsection \<open>Truth\<close>

definition isTruthy :: "goany \<Rightarrow> bool" where
  "isTruthy v =
     (case v of
        Number x \<Rightarrow> \<not> f64_eq x 0
      | Text s \<Rightarrow> s \<noteq> []
      | Boolean b \<Rightarrow> b
      | Nothing \<Rightarrow> False
      | Unknown r \<Rightarrow> False
      | Time t p \<Rightarrow> t \<noteq> zero_time \<and> Unix t \<noteq> 0
      | Anything \<Rightarrow> True
      | MblList xs \<Rightarrow> 0 < length xs
      | MblRecord fs \<Rightarrow> 0 < length fs
      | _ \<Rightarrow> True)"

definition LogicalAnd :: "goany \<Rightarrow> goany \<Rightarrow> bool" where "LogicalAnd l r \<longleftrightarrow> isTruthy l \<and> isTruthy r"
definition LogicalOr :: "goany \<Rightarrow> goany \<Rightarrow> bool" where "LogicalOr l r \<longleftrightarrow> isTruthy l \<or> isTruthy r"
definition LogicalNot :: "goany \<Rightarrow> bool" where "LogicalNot v \<longleftrightarrow> \<not> isTruthy v"

subsection \<open>What arithmetic returns\<close>

definition num_or_unknown :: "goany \<Rightarrow> bool" where
  "num_or_unknown v = (case v of Number x \<Rightarrow> True | Unknown r \<Rightarrow> True | _ \<Rightarrow> False)"

lemma CoerceToNumber_cases:
  "(\<exists>x. CoerceToNumber lib v = ok_result (Number x)) \<or> (\<exists>r. CoerceToNumber lib v = fail_result r)"
  by (cases v) (auto simp: CoerceToNumber_def split: option.splits)

lemma isUnknown_iff: "isUnknown v \<longleftrightarrow> (\<exists>r. v = Unknown r)"
  by (cases v) (simp_all add: isUnknown_def)

lemma arith_cases:
  obtains (unknown) r where "arith lib op l r' = Unknown r"
  | (num) x y where "CoerceToNumber lib l = ok_result (Number x)" "CoerceToNumber lib r' = ok_result (Number y)"
      "arith lib op l r' = op x y"
proof (cases "isUnknown l \<or> isUnknown r'")
  case True
  then have "\<exists>r. arith lib op l r' = Unknown r"
    by (auto simp: arith_def isUnknown_iff)
  then show ?thesis using unknown by blast
next
  case False
  consider x y where "CoerceToNumber lib l = ok_result (Number x)" "CoerceToNumber lib r' = ok_result (Number y)"
    | e where "CoerceToNumber lib l = fail_result e"
    | x e where "CoerceToNumber lib l = ok_result (Number x)" "CoerceToNumber lib r' = fail_result e"
    using CoerceToNumber_cases [of lib l] CoerceToNumber_cases [of lib r'] by blast
  then show ?thesis
    by cases (use False num unknown in \<open>simp_all add: arith_def ok_result_def fail_result_def\<close>)
qed

lemma arith_num_or_unknown:
  "(\<And>x y. num_or_unknown (op x y)) \<Longrightarrow> num_or_unknown (arith lib op l r)"
  by (cases rule: arith_cases [of lib op l r]) (auto simp: num_or_unknown_def)

lemma arith_numbers: "arith lib op (Number x) (Number y) = op x y"
  by (simp add: arith_def isUnknown_def CoerceToNumber_def ok_result_def)

lemmas arith_op_defs = Add_def Subtract_def Multiply_def Power_def Divide_def Modulo_def

subsection \<open>Whole numbers\<close>

lemma f64_not_inf_small:
  assumes "0 \<le> n" "n < 2 ^ 53"
  shows "\<not> IsInf (f64_of_int n)"
proof
  assume i: "IsInf (f64_of_int n)"
  then have "f64_mag (f64_of_int n) = 2 ^ 52 * 2 ^ 2046"
    by (simp add: IsInf_def f64_mag_def)
  moreover have "\<bar>f64_units (f64_of_int n)\<bar> = f64_mag (f64_of_int n)"
    using i by (simp add: f64_units_def IsInf_def f64_mag_def)
  ultimately have "(2 :: int) ^ 52 * 2 ^ 2046 = n * f64_one"
    using f64_of_int_exact(1) [OF assms] assms(1) by (simp add: f64_one_def)
  moreover have "n * f64_one < 2 ^ 53 * 2 ^ 1074"
    unfolding f64_one_def using assms(2) by (intro mult_strict_right_mono) simp_all
  ultimately show False by (simp flip: power_add)
qed


lemma f64_of_int_0 [simp]: "f64_of_int 0 = 0"
  by (simp add: f64_of_int_def f64_round_def f64_signed_def f64_round_bits_def Let_def bit_length.simps f64_inf_def)

lemma f64_mag_nonneg: "0 \<le> f64_mag w"
  by (simp add: f64_mag_def f64_man_def)

lemma f64_one_pos: "0 < f64_one"
  unfolding f64_one_def by (rule zero_less_power) simp

lemma f64_of_int_mag:
  assumes "0 \<le> n" "n < 2 ^ 53"
  shows "\<not> f64_neg (f64_of_int n)" "f64_mag (f64_of_int n) = n * f64_one"
proof -
  have u: "f64_units (f64_of_int n) = n * f64_one" by (rule f64_of_int_exact(1) [OF assms])
  show neg: "\<not> f64_neg (f64_of_int n)"
  proof (cases "n = 0")
    case True then show ?thesis by (simp add: f64_neg_def)
  next
    case False
    then have "0 < f64_units (f64_of_int n)" using u f64_one_pos assms(1) by simp
    then show ?thesis using f64_mag_nonneg [of "f64_of_int n"] by (auto simp: f64_units_def split: if_splits)
  qed
  then show "f64_mag (f64_of_int n) = n * f64_one" using u by (simp add: f64_units_def)
qed

lemma f64_round_bits_scale:
  assumes "0 < c"
  shows "f64_round_bits (a * c) c = f64_round_bits a 1"
proof -
  let ?e = "bit_length a - 53"
  have "a * c mod (c * 2 ^ ?e) = c * (a mod 2 ^ ?e)" "a * c div (c * 2 ^ ?e) = a div 2 ^ ?e"
    using assms mult_mod_right [of c a "2 ^ ?e"] by (simp_all add: ac_simps)
  moreover have "c * 2 ^ ?e < 2 * (c * (a mod 2 ^ ?e)) \<longleftrightarrow> 2 ^ ?e < 2 * (a mod 2 ^ ?e)"
    "2 * (c * (a mod 2 ^ ?e)) = c * 2 ^ ?e \<longleftrightarrow> 2 * (a mod 2 ^ ?e) = 2 ^ ?e"
    using assms mult_less_cancel_left_pos [OF assms, of "2 ^ ?e" "2 * (a mod 2 ^ ?e)"] by (auto simp: ac_simps)
  ultimately show ?thesis using assms by (simp add: f64_round_bits_def Let_def)
qed

text \<open>Sums and products of whole numbers below \<open>2 ^ 53\<close> are rounded once, from the exact result.\<close>

lemma whole_arith:
  assumes "0 \<le> m" "m < 2 ^ 53" "0 \<le> n" "n < 2 ^ 53"
  shows "f64_add (f64_of_int m) (f64_of_int n) = f64_of_int (m + n)"
    "f64_mul (f64_of_int m) (f64_of_int n) = f64_of_int (m * n)"
proof -
  note e = f64_of_int_exact [OF assms(1,2)] f64_of_int_exact [OF assms(3,4)]
    f64_not_inf_small [OF assms(1,2)] f64_not_inf_small [OF assms(3,4)]
    f64_of_int_mag [OF assms(1,2)] f64_of_int_mag [OF assms(3,4)]
  have s: "f64_units (f64_of_int m) + f64_units (f64_of_int n) = (m + n) * f64_one" using e by (simp add: distrib_right)
  show "f64_add (f64_of_int m) (f64_of_int n) = f64_of_int (m + n)"
  proof (cases "m + n = 0")
    case True
    then have "m = 0" "n = 0" using assms by auto
    then show ?thesis by (simp add: f64_add_def IsNaN_def IsInf_def f64_exp_def f64_units_def f64_mag_def f64_man_def
          f64_neg_def f64_signed_def)
  next
    case False
    then have "(m + n) * f64_one \<noteq> 0" "\<not> (m + n) * f64_one < 0" "\<bar>(m + n) * f64_one\<bar> = \<bar>m + n\<bar> * f64_one"
      using assms f64_one_pos by (auto simp: abs_mult mult_less_0_iff)
    then show ?thesis using e assms unfolding f64_add_def Let_def s by (simp add: f64_of_int_def)
  qed
  have "f64_round_bits (m * f64_one * (n * f64_one)) f64_one = f64_round_bits (m * n * f64_one) 1"
    using f64_round_bits_scale [OF f64_one_pos, of "m * n * f64_one"] by (simp add: ac_simps)
  moreover have "\<not> m * n < 0" using assms by (simp add: not_less)
  ultimately show "f64_mul (f64_of_int m) (f64_of_int n) = f64_of_int (m * n)"
    using e assms by (simp add: f64_mul_def Let_def f64_round_def f64_of_int_def [of "m * n"])
qed

end
