(* ===== verification/Types_Properties.thy ===== *)
theory Types_Properties
  imports Mbl_Codec Mbl_Compare Mbl_Coerce
begin

text \<open>
  The properties of the MBL value types: their binary form, the comparison and its time windows,
  and the arithmetic.
\<close>

subsection \<open>The binary form\<close>

text \<open>
  C16. A well-formed MBL value, however deeply its lists and records are nested, is read back
  from the storage value that \<open>ToSerializedValue\<close> makes of it.
\<close>

theorem stored_value_read_back:
  assumes "mbl_ok v"
  shows "DeserializeValue (vTypeTag (ToSerializedValue v)) (vData (ToSerializedValue v)) = Inr v"
  using Deserialize_Serialize [OF assms] by (simp add: ToSerializedValue_def)

definition sample_value :: goany where
  "sample_value = MblRecord
     [(str ''name'', Text (str ''Ada'')),
      (str ''log'', MblList [Time 1000000 PrecisionDay, MblList [Nothing, Boolean True], Money 0 (str ''EUR'')])]"

lemma sample_value_ok: "mbl_ok sample_value"
  by (simp add: sample_value_def text_ok_def time_ok_def str_def utf8_valid_ascii precision_defs lengthPrefixed_def currency3_def)

theorem stored_value_read_back_witness:
  "mbl_ok sample_value \<and>
   DeserializeValue (vTypeTag (ToSerializedValue sample_value)) (vData (ToSerializedValue sample_value)) = Inr sample_value"
  using stored_value_read_back [OF sample_value_ok] sample_value_ok by simp

text \<open>
  C17. Whatever bytes arrive, a value that the decoder returns is well-formed at every level, has
  the type of the tag it was decoded under, has an encoding no longer than the bytes it came
  from, and that encoding decodes to the same value.
\<close>

theorem decoded_value_well_formed:
  assumes "DeserializeValue tag data = Inr v"
  shows "mbl_ok v \<and> TypeTag v = tag \<and> length (Serialize v) \<le> length data \<and>
    DeserializeValue tag (Serialize v) = Inr v"
proof -
  have "decoded_ok tag (length data) v" using assms decoded_inv(1) by blast
  then show ?thesis using Deserialize_Serialize [of v] by (auto simp: decoded_ok_def)
qed

theorem decoded_value_well_formed_witness:
  "DeserializeValue 0x0B [2, 0, 0, 0, 0x0A, 1, 0, 0, 0, 7, 0x0A, 1, 0, 0, 0, 0, 99] =
     Inr (MblList [Boolean True, Boolean False]) \<and> mbl_ok (MblList [Boolean True, Boolean False])"
proof -
  have d: "DeserializeValue 0x0B [2, 0, 0, 0, 0x0A, 1, 0, 0, 0, 7, 0x0A, 1, 0, 0, 0, 0, 99] =
     Inr (MblList [Boolean True, Boolean False])"
    by code_simp
  then show ?thesis using decoded_value_well_formed [OF d] by blast
qed

text \<open>
  C18. The decoder of texts computes the end of the text in 32 bits. It returns a text or an error
  except for the four largest length prefixes: there \<open>4 + length\<close> wraps around and the slice
  expression panics, whatever follows the prefix.
\<close>

theorem DeserializeText_panics_iff:
  "DeserializeText data = Inl SlicePanic \<longleftrightarrow>
     4 \<le> length data \<and> 2 ^ 32 - 4 \<le> unat (get_le (take 4 data) :: u32)"
proof -
  define n where "n = unat (get_le (take 4 data) :: u32)"
  have l: "n < 2 ^ 32" unfolding n_def by (rule unat_u32_less)
  have "unat (4 + get_le (take 4 data) :: u32) = (4 + n) mod 2 ^ 32" by (simp add: unat_word_ariths n_def)
  then have u: "unat (4 + get_le (take 4 data) :: u32) = (if 2 ^ 32 - 4 \<le> n then 4 + n - 2 ^ 32 else 4 + n)"
    using l by (simp add: mod_if)
  show ?thesis
    unfolding DeserializeText_def deserializeString_def Let_def u n_def [symmetric] using l
    by (auto simp: rmap_def)
qed

subsection \<open>Comparison\<close>

text \<open>
  C19. \<open>Equal\<close>, which has its own routine for times, agrees with \<open>Compare\<close> on all values; for
  values without records the comparison in the other direction is the mirrored one; and a time
  equals a less precise one iff it lies in the window that one stands for, where the windows of a
  time contain it and shrink as the precision grows.
\<close>

theorem Equal_agrees_with_Compare:
  "(Equal l r \<longleftrightarrow> Compare l r = ComparisonEqual) \<and>
   (record_free l \<longrightarrow> Compare r l = swap (Compare l r)) \<and>
   (valid_precision p \<and> valid_precision q \<and> p < q \<longrightarrow>
     (Equal (Time s q) (Time t p) \<longleftrightarrow> s \<in> window t p) \<and> t \<in> window t q \<and> window t q \<subseteq> window t p)"
proof (intro conjI impI)
  assume p: "valid_precision p \<and> valid_precision q \<and> p < q"
  then have "p \<noteq> q" by auto
  with p show "Equal (Time s q) (Time t p) \<longleftrightarrow> s \<in> window t p"
    by (auto simp: Equal_def timeEquals_def window_def Let_def not_less split: prod.splits)
  show "t \<in> window t q" "window t q \<subseteq> window t p" using window_mono [of p q t] p by (auto simp: order_less_imp_le)
qed (simp_all only: Equal_Compare Compare_swap)

theorem Equal_agrees_with_Compare_witness:
  "Equal (Time 86400000000000 PrecisionDay) (Time 0 PrecisionYear) \<and>
   Compare (MblList [Text (str ''b'')]) (MblList [Text (str ''a'')]) = ComparisonGreater"
proof -
  have "valid_precision PrecisionYear \<and> valid_precision PrecisionDay \<and> PrecisionYear < PrecisionDay" by code_simp
  moreover have "getTimeRange 0 PrecisionYear = (0, 31535999999999999)" by code_simp
  then have "86400000000000 \<in> window 0 PrecisionYear" by (simp add: window_def)
  moreover have "record_free (MblList [Text (str ''a'')])" by simp
  moreover have "Compare (MblList [Text (str ''a'')]) (MblList [Text (str ''b'')]) = ComparisonLess" by code_simp
  ultimately show ?thesis
    using Equal_agrees_with_Compare [of "MblList [Text (str ''a'')]" "MblList [Text (str ''b'')]"
        PrecisionYear PrecisionDay 86400000000000 0] by simp
qed

text \<open>Two orders in which the fields of the same record can be visited, with opposite outcomes.\<close>

lemma record_comparison_depends_on_order:
  "Compare (MblRecord [(str ''a'', Boolean False), (str ''b'', Boolean True)])
           (MblRecord [(str ''a'', Boolean True), (str ''b'', Boolean False)]) = ComparisonLess"
  "Compare (MblRecord [(str ''b'', Boolean True), (str ''a'', Boolean False)])
           (MblRecord [(str ''a'', Boolean True), (str ''b'', Boolean False)]) = ComparisonGreater"
  by code_simp+

subsection \<open>Arithmetic\<close>

text \<open>
  C20. Arithmetic on any two values returns a number or an unknown; dividing a number by a number that
  is either zero, or taking the remainder, is an unknown; and on whole numbers below \<open>2 ^ 53\<close> sums
  and products are the true result rounded once to a float, which is the true result itself when
  that is below \<open>2 ^ 53\<close> as well (\<open>f64_units\<close> counts a float in multiples of the smallest one).
\<close>

theorem arithmetic_results:
  "num_or_unknown (Add lib l r) \<and> num_or_unknown (Subtract lib l r) \<and> num_or_unknown (Multiply lib l r) \<and>
   num_or_unknown (Power lib l r) \<and> num_or_unknown (Divide lib l r) \<and> num_or_unknown (Modulo lib l r) \<and>
   (f64_eq z 0 \<longrightarrow> (\<exists>e. Divide lib (Number x) (Number z) = Unknown e) \<and>
     (\<exists>e. Modulo lib (Number x) (Number z) = Unknown e)) \<and>
   (0 \<le> m \<and> m < 2 ^ 53 \<and> 0 \<le> n \<and> n < 2 ^ 53 \<longrightarrow>
     Add lib (Number (f64_of_int m)) (Number (f64_of_int n)) = Number (f64_of_int (m + n)) \<and>
     Multiply lib (Number (f64_of_int m)) (Number (f64_of_int n)) = Number (f64_of_int (m * n)) \<and>
     (m + n < 2 ^ 53 \<longrightarrow> f64_units (f64_of_int (m + n)) = (m + n) * f64_one) \<and>
     (m * n < 2 ^ 53 \<longrightarrow> f64_units (f64_of_int (m * n)) = (m * n) * f64_one))"
  unfolding arith_op_defs arith_numbers
  by (intro conjI impI arith_num_or_unknown) (auto simp: num_or_unknown_def Let_def whole_arith f64_of_int_exact)

definition no_floats :: float_lib where
  "no_floats = \<lparr>ParseFloat = (\<lambda>s. None), FormatFloat = (\<lambda>x. []), Format2f = (\<lambda>x. []),
     Sprint = (\<lambda>v. []), Pow = (\<lambda>x y. 0)\<rparr>"

theorem arithmetic_results_witness:
  "Add no_floats
     (Number (f64_of_int 2)) (Number (f64_of_int 3)) = Number (f64_of_int 5) \<and>
   (\<exists>e. Divide no_floats
     (Number (f64_of_int 2)) (Number 0) = Unknown e)"
proof -
  have "f64_eq 0 0" by code_simp
  then show ?thesis
    using arithmetic_results [of no_floats
        Nothing Nothing 0 "f64_of_int 2" 2 3] by simp
qed

end
