(* ===== verification/Secure_Store.thy ===== *)
theory Secure_Store
  imports StorageTree
begin

text \<open>
  The store of security metadata (\<open>src/internal/storage/hash.go\<close>): instances by attribute hash
  and agent, values by hash. \<open>TreeAdapter\<close> adds it to a storage tree, \<open>MemoryTree\<close> to a map of
  paths. SHA-256 is the parameter \<open>sha\<close>. The locale \<open>secure_metadata\<close> is the contract that
  permissions, stamps and filters rely on: what is stored for an attribute and an agent is what is
  found, as long as the hash does not confuse the strings concerned.
\<close>

subsection \<open>Hashes and instances\<close>

type_synonym hash = bytes

datatype secure_error = InstanceNotFound hash u64 | ValueNotFound hash

record SecurityInstance =
  siAttributeHash :: hash
  siValueHash :: hash
  siAgent :: u64
  siTimestamp :: i64
  siPreviousHash :: hash

text \<open>The zero value of the hash type.\<close>

definition zero_hash :: hash where "zero_hash = replicate 32 0"

text \<open>The loop that separates the components with dots.\<close>

fun path_str :: "nat \<Rightarrow> gostring list \<Rightarrow> gostring" where
  "path_str i [] = []"
| "path_str i (component # path) = (if 0 < i then [dot] else []) @ component @ path_str (Suc i) path"

definition HashPath :: "(bytes \<Rightarrow> hash) \<Rightarrow> gostring list \<Rightarrow> hash" where
  "HashPath sha path = sha (path_str 0 path)"

definition HashValue :: "(bytes \<Rightarrow> hash) \<Rightarrow> bytes \<Rightarrow> hash" where
  "HashValue sha data = sha data"

lemma path_str_Suc: "path_str (Suc i) path = concat (map (\<lambda>c. dot # c) path)"
  by (induction path arbitrary: i) auto

lemma join_dots: "join (c # path) = c @ concat (map (\<lambda>c. dot # c) path)"
  by (induction path arbitrary: c) auto

lemma path_str_join: "path_str 0 path = join path"
  by (cases path) (simp_all add: path_str_Suc join_dots)

subsection \<open>The tree adapter\<close>

record TreeAdapter =
  taTree :: StorageTree
  taInstances :: "hash \<times> u64 \<Rightarrow> SecurityInstance option"
  taValues :: "hash \<Rightarrow> bytes option"

definition NewTreeAdapter :: "StorageTree \<Rightarrow> TreeAdapter" where
  "NewTreeAdapter tree = \<lparr>taTree = tree, taInstances = Map.empty, taValues = Map.empty\<rparr>"

definition ta_Read :: "(bytes \<Rightarrow> hash) \<Rightarrow> TreeAdapter \<Rightarrow> gostring list \<Rightarrow> (tree_error + Value) \<times> TreeAdapter" where
  "ta_Read sha ta path = (let (r, t) = tree_Read sha (taTree ta) path in (r, ta\<lparr>taTree := t\<rparr>))"

definition ta_Write ::
  "(bytes \<Rightarrow> hash) \<Rightarrow> i64 \<Rightarrow> TreeAdapter \<Rightarrow> gostring list \<Rightarrow> Value \<Rightarrow> u64 \<Rightarrow> (tree_error + unit) \<times> TreeAdapter" where
  "ta_Write sha now ta path value author =
     (let (r, t) = tree_Write sha now (taTree ta) path value author in (r, ta\<lparr>taTree := t\<rparr>))"

definition ta_WriteReportingChange ::
  "(bytes \<Rightarrow> hash) \<Rightarrow> i64 \<Rightarrow> TreeAdapter \<Rightarrow> gostring list \<Rightarrow> Value \<Rightarrow> u64 \<Rightarrow> (tree_error + bool) \<times> TreeAdapter" where
  "ta_WriteReportingChange sha now ta path value author =
     (let (r, t) = WriteReportingChange sha now (taTree ta) path value author in (r, ta\<lparr>taTree := t\<rparr>))"

definition ta_ReadAt ::
  "(bytes \<Rightarrow> hash) \<Rightarrow> TreeAdapter \<Rightarrow> gostring list \<Rightarrow> i64 \<Rightarrow> ((tree_error + Value) \<times> TreeAdapter) option" where
  "ta_ReadAt sha ta path timestamp =
     map_option (\<lambda>(r, t). (r, ta\<lparr>taTree := t\<rparr>)) (tree_ReadAt sha (taTree ta) path timestamp)"

definition ta_Children :: "(bytes \<Rightarrow> hash) \<Rightarrow> TreeAdapter \<Rightarrow> gostring list \<Rightarrow> Attribute list \<times> TreeAdapter" where
  "ta_Children sha ta path = (let (r, t) = tree_Children sha (taTree ta) path in (r, ta\<lparr>taTree := t\<rparr>))"

definition ta_ChildrenWithNames ::
  "(bytes \<Rightarrow> hash) \<Rightarrow> TreeAdapter \<Rightarrow> gostring list \<Rightarrow> NamedAttribute list \<times> TreeAdapter" where
  "ta_ChildrenWithNames sha ta path = (let (r, t) = ChildrenWithNames sha (taTree ta) path in (r, ta\<lparr>taTree := t\<rparr>))"

definition ta_ListLeafPaths :: "TreeAdapter \<Rightarrow> gostring list \<Rightarrow> (tree_error + gostring list) \<times> TreeAdapter" where
  "ta_ListLeafPaths ta prefix = (let (r, t) = ListLeafPaths (taTree ta) prefix in (r, ta\<lparr>taTree := t\<rparr>))"

definition ta_ResolveAttributePath :: "TreeAdapter \<Rightarrow> u64 \<Rightarrow> (tree_error + gostring) \<times> TreeAdapter" where
  "ta_ResolveAttributePath ta attributeID =
     (let (r, t) = ResolveAttributePath (taTree ta) attributeID in (r, ta\<lparr>taTree := t\<rparr>))"

definition ta_GetInstance :: "TreeAdapter \<Rightarrow> hash \<Rightarrow> u64 \<Rightarrow> secure_error + SecurityInstance" where
  "ta_GetInstance ta attrHash agentID =
     (case taInstances ta (attrHash, agentID) of
        Some instance \<Rightarrow> Inr instance
      | None \<Rightarrow> Inl (InstanceNotFound attrHash agentID))"

definition ta_GetValue :: "TreeAdapter \<Rightarrow> hash \<Rightarrow> secure_error + bytes" where
  "ta_GetValue ta valueHash =
     (case taValues ta valueHash of Some value \<Rightarrow> Inr value | None \<Rightarrow> Inl (ValueNotFound valueHash))"

definition ta_PutValue :: "hash \<Rightarrow> bytes \<Rightarrow> TreeAdapter \<Rightarrow> TreeAdapter" where
  "ta_PutValue valueHash value ta = ta\<lparr>taValues := (taValues ta)(valueHash \<mapsto> value)\<rparr>"

definition ta_PutInstance :: "hash \<Rightarrow> SecurityInstance \<Rightarrow> TreeAdapter \<Rightarrow> TreeAdapter" where
  "ta_PutInstance attrHash instance ta =
     ta\<lparr>taInstances := (taInstances ta)((attrHash, siAgent instance) \<mapsto> instance)\<rparr>"

subsection \<open>The in-memory tree\<close>

datatype memory_error = MemoryPathNotFound gostring

record MemoryTree =
  mtData :: "gostring \<Rightarrow> Value option"
  mtInstances :: "hash \<times> u64 \<Rightarrow> SecurityInstance option"
  mtValues :: "hash \<Rightarrow> bytes option"

definition NewMemoryTree :: MemoryTree where
  "NewMemoryTree = \<lparr>mtData = Map.empty, mtInstances = Map.empty, mtValues = Map.empty\<rparr>"

definition joinPath :: "gostring list \<Rightarrow> gostring" where
  "joinPath path =
     (if length path = 0 then [] else fold (\<lambda>c result. result @ dot # c) (tl path) (hd path))"

definition mt_Read :: "MemoryTree \<Rightarrow> gostring list \<Rightarrow> memory_error + Value" where
  "mt_Read mt path =
     (case mtData mt (joinPath path) of Some value \<Rightarrow> Inr value | None \<Rightarrow> Inl (MemoryPathNotFound (joinPath path)))"

definition mt_Write :: "gostring list \<Rightarrow> Value \<Rightarrow> u64 \<Rightarrow> MemoryTree \<Rightarrow> MemoryTree" where
  "mt_Write path value author mt = mt\<lparr>mtData := (mtData mt)(joinPath path \<mapsto> value)\<rparr>"

definition mt_ReadAt :: "MemoryTree \<Rightarrow> gostring list \<Rightarrow> i64 \<Rightarrow> memory_error + Value" where
  "mt_ReadAt mt path timestamp = mt_Read mt path"

definition mt_Children :: "MemoryTree \<Rightarrow> gostring list \<Rightarrow> Attribute list" where
  "mt_Children mt path = []"

definition mt_Purge :: "gostring list \<Rightarrow> i64 \<Rightarrow> i64 \<Rightarrow> u64 \<Rightarrow> MemoryTree \<Rightarrow> MemoryTree" where
  "mt_Purge path from to author mt = mt\<lparr>mtData := (mtData mt)(joinPath path := None)\<rparr>"

definition mt_GetInstance :: "MemoryTree \<Rightarrow> hash \<Rightarrow> u64 \<Rightarrow> secure_error + SecurityInstance" where
  "mt_GetInstance mt attrHash agentID =
     (case mtInstances mt (attrHash, agentID) of
        Some instance \<Rightarrow> Inr instance
      | None \<Rightarrow> Inl (InstanceNotFound attrHash agentID))"

definition mt_GetValue :: "MemoryTree \<Rightarrow> hash \<Rightarrow> secure_error + bytes" where
  "mt_GetValue mt valueHash =
     (case mtValues mt valueHash of Some value \<Rightarrow> Inr value | None \<Rightarrow> Inl (ValueNotFound valueHash))"

definition mt_PutValue :: "hash \<Rightarrow> bytes \<Rightarrow> MemoryTree \<Rightarrow> MemoryTree" where
  "mt_PutValue valueHash value mt = mt\<lparr>mtValues := (mtValues mt)(valueHash \<mapsto> value)\<rparr>"

definition mt_PutInstance :: "hash \<Rightarrow> SecurityInstance \<Rightarrow> MemoryTree \<Rightarrow> MemoryTree" where
  "mt_PutInstance attrHash instance mt =
     mt\<lparr>mtInstances := (mtInstances mt)((attrHash, siAgent instance) \<mapsto> instance)\<rparr>"

lemma joinPath_join: "joinPath path = join path"
proof -
  have "fold (\<lambda>c result. result @ dot # c) cs c = c @ concat (map (\<lambda>c. dot # c) cs)" for cs c
    by (induction cs arbitrary: c) auto
  then show ?thesis by (cases path) (simp_all add: joinPath_def join_dots)
qed

text \<open>The in-memory tree returns what was last written at a path and not purged since.\<close>

lemma mt_Read_after:
  assumes "dotless p" "dotless q" "p \<noteq> []" "q \<noteq> []"
  shows "mt_Read (mt_Write p v a mt) q = (if q = p then Inr v else mt_Read mt q)"
    "isOk (mt_Read (mt_Purge p from to a mt) q) \<longleftrightarrow> q \<noteq> p \<and> isOk (mt_Read mt q)"
  using join_inj [OF assms] by (auto simp: mt_Read_def mt_Write_def mt_Purge_def joinPath_join)

subsection \<open>The contract\<close>

text \<open>The value that is found for an attribute hash and an agent.\<close>

definition found ::
  "('s \<Rightarrow> hash \<Rightarrow> u64 \<Rightarrow> secure_error + SecurityInstance) \<Rightarrow> ('s \<Rightarrow> hash \<Rightarrow> secure_error + bytes) \<Rightarrow>
     's \<Rightarrow> hash \<Rightarrow> u64 \<Rightarrow> bytes option" where
  "found get_inst get_val s h a =
     (case get_inst s h a of
        Inl e \<Rightarrow> None
      | Inr i \<Rightarrow> (case get_val s (siValueHash i) of Inl e \<Rightarrow> None | Inr v \<Rightarrow> Some v))"

locale secure_metadata =
  fixes get_inst :: "'s \<Rightarrow> hash \<Rightarrow> u64 \<Rightarrow> secure_error + SecurityInstance"
    and get_val :: "'s \<Rightarrow> hash \<Rightarrow> secure_error + bytes"
    and put_val :: "hash \<Rightarrow> bytes \<Rightarrow> 's \<Rightarrow> 's"
    and put_inst :: "hash \<Rightarrow> SecurityInstance \<Rightarrow> 's \<Rightarrow> 's"
  assumes inst_after_inst: "get_inst (put_inst h i s) h' a = (if h' = h \<and> a = siAgent i then Inr i else get_inst s h' a)"
    and val_after_inst: "get_val (put_inst h i s) g = get_val s g"
    and inst_after_val: "get_inst (put_val g v s) h a = get_inst s h a"
    and val_after_val: "get_val (put_val g v s) g' = (if g' = g then Inr v else get_val s g')"
begin

text \<open>
  The store holds the table \<open>M\<close> for the attributes \<open>K\<close>: every value is stored under its own hash.
\<close>

definition entry :: "(bytes \<Rightarrow> hash) \<Rightarrow> bytes set \<Rightarrow> 's \<Rightarrow> hash \<Rightarrow> u64 \<Rightarrow> bytes option \<Rightarrow> bool" where
  "entry sha V s h a m \<longleftrightarrow>
     (case m of
        None \<Rightarrow> \<exists>e. get_inst s h a = Inl e
      | Some v \<Rightarrow> v \<in> V \<and> get_val s (sha v) = Inr v \<and> (\<exists>i. get_inst s h a = Inr i \<and> siValueHash i = sha v))"

definition holds :: "(bytes \<Rightarrow> hash) \<Rightarrow> gostring set \<Rightarrow> bytes set \<Rightarrow> 's \<Rightarrow> (gostring \<times> u64 \<Rightarrow> bytes option) \<Rightarrow> bool" where
  "holds sha K V s M \<longleftrightarrow> (\<forall>k \<in> K. \<forall>a. entry sha V s (sha k) a (M (k, a)))"

lemma entry_found: "entry sha V s h a m \<Longrightarrow> found get_inst get_val s h a = m"
  by (cases m) (auto simp: entry_def found_def)

lemma holds_found: "holds sha K V s M \<Longrightarrow> k \<in> K \<Longrightarrow> found get_inst get_val s (sha k) a = M (k, a)"
  by (rule entry_found) (auto simp: holds_def)

lemma entry_other:
  assumes "entry sha V s h a m" "inj_on sha V" "v \<in> V" "\<not> (h = h' \<and> a = siAgent i)"
  shows "entry sha V (put_inst h' i (put_val (sha v) v s)) h a m"
  using assms
  by (auto simp: entry_def inst_after_inst val_after_inst inst_after_val val_after_val inj_on_eq_iff split: option.splits)

lemma holds_put:
  assumes h: "holds sha K V s M" and K: "inj_on sha K" "k \<in> K" and V: "inj_on sha V" "v \<in> V"
    and i: "siValueHash i = sha v"
  shows "holds sha K V (put_inst (sha k) i (put_val (sha v) v s)) (M((k, siAgent i) \<mapsto> v))"
  unfolding holds_def
proof (intro ballI allI)
  fix k' a assume k': "k' \<in> K"
  show "entry sha V (put_inst (sha k) i (put_val (sha v) v s)) (sha k') a ((M((k, siAgent i) \<mapsto> v)) (k', a))"
  proof (cases "k' = k \<and> a = siAgent i")
    case True
    then show ?thesis using V(2) i
      by (simp add: entry_def inst_after_inst val_after_inst inst_after_val val_after_val)
  next
    case False
    then have "\<not> (sha k' = sha k \<and> a = siAgent i)" using inj_on_eq_iff [OF K(1) k' K(2)] by simp
    moreover have "(M((k, siAgent i) \<mapsto> v)) (k', a) = M (k', a)" using False by auto
    ultimately show ?thesis using entry_other [OF _ V] h k' by (simp add: holds_def)
  qed
qed

end

interpretation adapter: secure_metadata ta_GetInstance ta_GetValue ta_PutValue ta_PutInstance
  by unfold_locales
    (auto simp: ta_GetInstance_def ta_GetValue_def ta_PutValue_def ta_PutInstance_def split: option.splits)

interpretation memory: secure_metadata mt_GetInstance mt_GetValue mt_PutValue mt_PutInstance
  by unfold_locales
    (auto simp: mt_GetInstance_def mt_GetValue_def mt_PutValue_def mt_PutInstance_def split: option.splits)

text \<open>A new adapter holds nothing, and writes to the tree leave the metadata alone.\<close>

lemma new_adapter_holds: "adapter.holds sha K V (NewTreeAdapter tree) Map.empty"
  by (simp add: adapter.holds_def adapter.entry_def NewTreeAdapter_def ta_GetInstance_def)

lemma ta_Write_metadata:
  "ta_GetInstance (snd (ta_Write sha now ta path v author)) = ta_GetInstance ta"
  "ta_GetValue (snd (ta_Write sha now ta path v author)) = ta_GetValue ta"
  by (auto simp: ta_Write_def ta_GetInstance_def ta_GetValue_def fun_eq_iff split: prod.splits)

end
