(* ===== verification/Permissions.thy ===== *)
theory Permissions
  imports Secure_Store Mbl_Codec
begin

text \<open>
  Permissions (\<open>src/internal/security/permissions.go\<close>). A condition is stored as the attribute
  \<open>@read\<close>, \<open>@write\<close>, ... below a path; the condition nearest to a path, searching from the path up
  to the root, decides. The specification is a table of conditions by path and permission type,
  and \<open>perm_run\<close> relates runs of the operations to it.
\<close>

subsection \<open>Agents and conditions\<close>

type_synonym PermissionType = gostring

definition ReadPermission :: PermissionType where "ReadPermission = str ''read''"
definition WritePermission :: PermissionType where "WritePermission = str ''write''"
definition ExpandPermission :: PermissionType where "ExpandPermission = str ''expand''"
definition GrantPermission :: PermissionType where "GrantPermission = str ''grant''"
definition PurgePermission :: PermissionType where "PurgePermission = str ''purge''"

record Agent =
  agIdentity :: gostring
  agStamp :: "(gostring \<times> goany) list"
  agAgentID :: u64

definition GetProperty :: "Agent \<Rightarrow> gostring \<Rightarrow> goany" where
  "GetProperty a name =
     (if name = str ''identity'' then Text (agIdentity a)
      else case map_of (agStamp a) name of Some value \<Rightarrow> value | None \<Rightarrow> Nothing)"

datatype permission_error =
    StoredValueTooShort
  | CannotDeserialize type_error
  | UnsupportedCondition

text \<open>The attribute that holds a permission.\<close>

definition permAttr :: "PermissionType \<Rightarrow> gostring" where
  "permAttr permType = str ''@'' @ permType"

definition evaluateCondition :: "goany \<Rightarrow> Agent \<Rightarrow> permission_error + bool" where
  "evaluateCondition condition agent =
     (case condition of
        Boolean b \<Rightarrow> Inr b
      | Text t \<Rightarrow>
          Inr (if t = str ''(Anything)'' then True
               else if t = str ''(Nothing)'' then False
               else agIdentity agent = t)
      | MblList elements \<Rightarrow>
          Inr (\<exists>element \<in> set elements. case element of Text t \<Rightarrow> agIdentity agent = t | _ \<Rightarrow> False)
      | Nothing \<Rightarrow> Inr False
      | _ \<Rightarrow> Inl UnsupportedCondition)"

definition getDefaultPermission :: "gostring list \<Rightarrow> PermissionType \<Rightarrow> Agent \<Rightarrow> bool" where
  "getDefaultPermission path permType agent =
     (if 3 \<le> length path \<and> path ! 0 = str ''world'' \<and> path ! 1 = str ''agent'' \<and>
         path ! 2 = dec (unat (agAgentID agent)) then True
      else if 0 < length path \<and> path ! 0 = str ''world'' \<and> permType = ReadPermission then True
      else False)"

subsection \<open>The evaluator\<close>

text \<open>The loop from the path up to the root: \<open>i\<close> is the number of components looked at.\<close>

primrec permission_loop ::
  "(bytes \<Rightarrow> hash) \<Rightarrow> TreeAdapter \<Rightarrow> gostring list \<Rightarrow> PermissionType \<Rightarrow> nat \<Rightarrow> permission_error + goany option" where
  "permission_loop sha ta path permType 0 =
     (case ta_GetInstance ta (HashPath sha [permAttr permType]) 0 of
        Inl e \<Rightarrow> Inr None
      | Inr instance \<Rightarrow>
          (case ta_GetValue ta (siValueHash instance) of
             Inl e \<Rightarrow> Inr None
           | Inr value \<Rightarrow>
               if length value < 1 then Inl StoredValueTooShort
               else case DeserializeValue (hd value) (tl value) of
                      Inl e \<Rightarrow> Inl (CannotDeserialize e)
                    | Inr condition \<Rightarrow> Inr (Some condition)))"
| "permission_loop sha ta path permType (Suc i) =
     (case ta_GetInstance ta (HashPath sha (take (Suc i) path @ [permAttr permType])) 0 of
        Inl e \<Rightarrow> permission_loop sha ta path permType i
      | Inr instance \<Rightarrow>
          (case ta_GetValue ta (siValueHash instance) of
             Inl e \<Rightarrow> permission_loop sha ta path permType i
           | Inr value \<Rightarrow>
               if length value < 1 then Inl StoredValueTooShort
               else case DeserializeValue (hd value) (tl value) of
                      Inl e \<Rightarrow> Inl (CannotDeserialize e)
                    | Inr condition \<Rightarrow> Inr (Some condition)))"

definition getEffectivePermission ::
  "(bytes \<Rightarrow> hash) \<Rightarrow> TreeAdapter \<Rightarrow> gostring list \<Rightarrow> PermissionType \<Rightarrow> u64 \<Rightarrow> permission_error + goany option" where
  "getEffectivePermission sha ta path permType agentID = permission_loop sha ta path permType (length path)"

definition CheckPermission ::
  "(bytes \<Rightarrow> hash) \<Rightarrow> TreeAdapter \<Rightarrow> Agent \<Rightarrow> gostring list \<Rightarrow> PermissionType \<Rightarrow> permission_error + bool" where
  "CheckPermission sha ta agent path permType =
     (case getEffectivePermission sha ta path permType (agAgentID agent) of
        Inl e \<Rightarrow> Inl e
      | Inr None \<Rightarrow> Inr (getDefaultPermission path permType agent)
      | Inr (Some condition) \<Rightarrow> evaluateCondition condition agent)"

definition HasPermission :: "(bytes \<Rightarrow> hash) \<Rightarrow> TreeAdapter \<Rightarrow> Agent \<Rightarrow> gostring list \<Rightarrow> PermissionType \<Rightarrow> bool" where
  "HasPermission sha ta agent path permType =
     (case CheckPermission sha ta agent path permType of Inl e \<Rightarrow> False | Inr result \<Rightarrow> result)"

definition CanRead :: "(bytes \<Rightarrow> hash) \<Rightarrow> TreeAdapter \<Rightarrow> Agent \<Rightarrow> gostring list \<Rightarrow> bool" where
  "CanRead sha ta agent path = HasPermission sha ta agent path ReadPermission"
definition CanWrite :: "(bytes \<Rightarrow> hash) \<Rightarrow> TreeAdapter \<Rightarrow> Agent \<Rightarrow> gostring list \<Rightarrow> bool" where
  "CanWrite sha ta agent path = HasPermission sha ta agent path WritePermission"
definition CanExpand :: "(bytes \<Rightarrow> hash) \<Rightarrow> TreeAdapter \<Rightarrow> Agent \<Rightarrow> gostring list \<Rightarrow> bool" where
  "CanExpand sha ta agent path = HasPermission sha ta agent path ExpandPermission"
definition CanGrant :: "(bytes \<Rightarrow> hash) \<Rightarrow> TreeAdapter \<Rightarrow> Agent \<Rightarrow> gostring list \<Rightarrow> bool" where
  "CanGrant sha ta agent path = HasPermission sha ta agent path GrantPermission"
definition CanPurge :: "(bytes \<Rightarrow> hash) \<Rightarrow> TreeAdapter \<Rightarrow> Agent \<Rightarrow> gostring list \<Rightarrow> bool" where
  "CanPurge sha ta agent path = HasPermission sha ta agent path PurgePermission"

definition condition_bytes :: "goany \<Rightarrow> permission_error + bytes" where
  "condition_bytes condition =
     (case condition of
        Text t \<Rightarrow> Inr (TypeText # Serialize (Text t))
      | Boolean b \<Rightarrow> Inr (TypeBoolean # Serialize (Boolean b))
      | MblList elements \<Rightarrow> Inr (TypeList # Serialize (MblList elements))
      | Nothing \<Rightarrow> Inr (TypeNothing # Serialize Nothing)
      | _ \<Rightarrow> Inl UnsupportedCondition)"

definition SetPermission ::
  "(bytes \<Rightarrow> hash) \<Rightarrow> i64 \<Rightarrow> TreeAdapter \<Rightarrow> gostring list \<Rightarrow> PermissionType \<Rightarrow> goany \<Rightarrow> u64 \<Rightarrow>
     (permission_error + unit) \<times> TreeAdapter" where
  "SetPermission sha now ta path permType condition agentID =
     (case condition_bytes condition of
        Inl e \<Rightarrow> (Inl e, ta)
      | Inr value \<Rightarrow>
          (let attrHash = HashPath sha (path @ [permAttr permType]);
               valueHash = HashValue sha value;
               instance = \<lparr>siAttributeHash = attrHash, siValueHash = valueHash, siAgent = 0,
                           siTimestamp = now, siPreviousHash = zero_hash\<rparr>
           in (Inr (), ta_PutInstance attrHash instance (ta_PutValue valueHash value ta))))"

subsection \<open>Specification: a table of conditions\<close>

type_synonym permissions = "gostring list \<times> PermissionType \<Rightarrow> goany option"

text \<open>The condition at the longest prefix of the path that has one.\<close>

primrec nearest :: "permissions \<Rightarrow> gostring list \<Rightarrow> PermissionType \<Rightarrow> nat \<Rightarrow> goany option" where
  "nearest P path permType 0 = P ([], permType)"
| "nearest P path permType (Suc i) =
     (case P (take (Suc i) path, permType) of Some c \<Rightarrow> Some c | None \<Rightarrow> nearest P path permType i)"

definition check_spec :: "permissions \<Rightarrow> Agent \<Rightarrow> gostring list \<Rightarrow> PermissionType \<Rightarrow> permission_error + bool" where
  "check_spec P agent path permType =
     (case nearest P path permType (length path) of
        None \<Rightarrow> Inr (getDefaultPermission path permType agent)
      | Some condition \<Rightarrow> evaluateCondition condition agent)"

definition set_spec :: "permissions \<Rightarrow> gostring list \<Rightarrow> PermissionType \<Rightarrow> goany \<Rightarrow> permissions" where
  "set_spec P path permType c = (if isOk (condition_bytes c) then P((path, permType) \<mapsto> c) else P)"

lemma nearest_Some_iff:
  "nearest P path permType i = Some c \<longleftrightarrow>
     (\<exists>j \<le> i. P (take j path, permType) = Some c \<and> (\<forall>k. j < k \<and> k \<le> i \<longrightarrow> P (take k path, permType) = None))"
proof (induction i)
  case 0
  then show ?case by simp
next
  case (Suc i)
  show ?case
  proof (cases "P (take (Suc i) path, permType)")
    case None
    then show ?thesis using Suc by (auto simp: le_Suc_eq)
  next
    case (Some d)
    then show ?thesis by (auto simp: le_Suc_eq)
  qed
qed

subsection \<open>Refinement\<close>

text \<open>The attribute names a check or a change of a permission touches.\<close>

definition perm_key :: "gostring list \<Rightarrow> PermissionType \<Rightarrow> gostring" where
  "perm_key path permType = join (path @ [permAttr permType])"

definition plain :: "gostring list \<Rightarrow> PermissionType \<Rightarrow> bool" where
  "plain path permType \<longleftrightarrow> dotless (path @ [permType])"

lemma perm_key_inj:
  assumes "plain p s" "plain q t"
  shows "perm_key p s = perm_key q t \<longleftrightarrow> p = q \<and> s = t"
proof -
  have "dotless (p @ [permAttr s])" "dotless (q @ [permAttr t])"
    using assms by (auto simp: plain_def dotless_def permAttr_def str_def dot_def)
  then show ?thesis
    using join_inj [of "p @ [permAttr s]" "q @ [permAttr t]"] by (auto simp: perm_key_def permAttr_def)
qed

lemma HashPath_perm_key: "HashPath sha (path @ [permAttr permType]) = sha (perm_key path permType)"
  by (simp add: HashPath_def path_str_join perm_key_def)

lemma plain_take: "plain path permType \<Longrightarrow> plain (take i path) permType"
  by (auto simp: plain_def dotless_def dest: in_set_takeD)

text \<open>
  The metadata \<open>M\<close> agrees with the table \<open>P\<close> on plain paths. Other attributes may be stored beside
  the permissions.
\<close>

definition perm_entry :: "goany option \<Rightarrow> bytes option \<Rightarrow> bool" where
  "perm_entry p m \<longleftrightarrow>
     (case p of None \<Rightarrow> m = None | Some c \<Rightarrow> mbl_ok c \<and> m = Some (TypeTag c # Serialize c))"

definition perm_table :: "(gostring \<times> u64 \<Rightarrow> bytes option) \<Rightarrow> permissions \<Rightarrow> bool" where
  "perm_table M P \<longleftrightarrow>
     (\<forall>path permType. plain path permType \<longrightarrow> perm_entry (P (path, permType)) (M (perm_key path permType, 0)))"

lemma condition_bytes_eq: "condition_bytes c = Inr v \<Longrightarrow> v = TypeTag c # Serialize c"
  by (cases c) (simp_all add: condition_bytes_def)

lemma permission_loop_step:
  "permission_loop sha ta path permType 0 =
     (case found ta_GetInstance ta_GetValue ta (sha (perm_key [] permType)) 0 of
        None \<Rightarrow> Inr None
      | Some value \<Rightarrow>
          if length value < 1 then Inl StoredValueTooShort
          else case DeserializeValue (hd value) (tl value) of
                 Inl e \<Rightarrow> Inl (CannotDeserialize e) | Inr c \<Rightarrow> Inr (Some c))"
  "permission_loop sha ta path permType (Suc i) =
     (case found ta_GetInstance ta_GetValue ta (sha (perm_key (take (Suc i) path) permType)) 0 of
        None \<Rightarrow> permission_loop sha ta path permType i
      | Some value \<Rightarrow>
          if length value < 1 then Inl StoredValueTooShort
          else case DeserializeValue (hd value) (tl value) of
                 Inl e \<Rightarrow> Inl (CannotDeserialize e) | Inr c \<Rightarrow> Inr (Some c))"
  using HashPath_perm_key [of sha "[]" permType]
  by (auto simp: found_def HashPath_perm_key simp del: append_take_drop_id split: sum.splits)

declare permission_loop.simps [simp del]

lemma permission_loop_nearest:
  assumes "adapter.holds sha K V ta M" "perm_table M P" "plain path permType"
    and "\<forall>j \<le> i. perm_key (take j path) permType \<in> K"
  shows "permission_loop sha ta path permType i = Inr (nearest P path permType i)"
  using assms(4)
proof (induction i)
  have t: "perm_entry (P (take j path, permType)) (M (perm_key (take j path) permType, 0))" for j
    using assms(2) plain_take [OF assms(3)] by (simp add: perm_table_def)
  note d = Deserialize_Serialize adapter.holds_found [OF assms(1)]
  {
    case 0
    then show ?case using t [of 0] d by (auto simp: permission_loop_step perm_entry_def split: option.splits)
  next
    case (Suc i)
    then show ?case using t [of "Suc i"] d by (auto simp: permission_loop_step perm_entry_def split: option.splits)
  }
qed

lemma CheckPermission_spec:
  assumes "adapter.holds sha K V ta M" "perm_table M P" "plain path permType"
    and "\<forall>j \<le> length path. perm_key (take j path) permType \<in> K"
  shows "CheckPermission sha ta agent path permType = check_spec P agent path permType"
  using permission_loop_nearest [OF assms]
  by (simp add: CheckPermission_def getEffectivePermission_def check_spec_def split: option.splits)

lemma SetPermission_spec:
  assumes h: "adapter.holds sha K V ta M" and t: "perm_table M P" and p: "plain path permType" and c: "mbl_ok c"
    and K: "inj_on sha K" "perm_key path permType \<in> K"
    and V: "inj_on sha V" "\<forall>v. condition_bytes c = Inr v \<longrightarrow> v \<in> V"
  obtains M' r ta' where "SetPermission sha now ta path permType c agentID = (r, ta')"
    "rmap (\<lambda>_. ()) (condition_bytes c) = r"
    "adapter.holds sha K V ta' M'" "perm_table M' (set_spec P path permType c)"
proof (cases "condition_bytes c")
  case (Inl e)
  then show ?thesis using that h t by (simp add: SetPermission_def set_spec_def)
next
  case (Inr v)
  let ?i = "\<lparr>siAttributeHash = sha (perm_key path permType), siValueHash = sha v, siAgent = 0,
     siTimestamp = now, siPreviousHash = zero_hash\<rparr>"
  have "adapter.holds sha K V (ta_PutInstance (sha (perm_key path permType)) ?i (ta_PutValue (sha v) v ta))
      (M((perm_key path permType, siAgent ?i) \<mapsto> v))"
    by (rule adapter.holds_put [OF h K V(1)]) (use Inr V(2) in auto)
  moreover have "perm_table (M((perm_key path permType, 0) \<mapsto> v)) (P((path, permType) \<mapsto> c))"
    using t c condition_bytes_eq [OF Inr] perm_key_inj [OF _ p] by (simp add: perm_table_def perm_entry_def [of "Some c"])
  ultimately show ?thesis
    using that Inr by (simp add: SetPermission_def set_spec_def HashPath_perm_key HashValue_def Let_def)
qed

subsection \<open>Runs\<close>

datatype perm_op =
    SetPerm i64 "gostring list" PermissionType goany u64
  | CheckPerm Agent "gostring list" PermissionType

datatype perm_answer =
    SetAnswer "permission_error + unit"
  | CheckAnswer "permission_error + bool"

primrec perm_run :: "(bytes \<Rightarrow> hash) \<Rightarrow> TreeAdapter \<Rightarrow> perm_op list \<Rightarrow> perm_answer list" where
  "perm_run sha ta [] = []"
| "perm_run sha ta (op # ops) =
     (case op of
        SetPerm now path permType c agentID \<Rightarrow>
          (let (r, ta') = SetPermission sha now ta path permType c agentID in SetAnswer r # perm_run sha ta' ops)
      | CheckPerm agent path permType \<Rightarrow> CheckAnswer (CheckPermission sha ta agent path permType) # perm_run sha ta ops)"

primrec perm_spec :: "permissions \<Rightarrow> perm_op list \<Rightarrow> perm_answer list" where
  "perm_spec P [] = []"
| "perm_spec P (op # ops) =
     (case op of
        SetPerm now path permType c agentID \<Rightarrow>
          SetAnswer (rmap (\<lambda>_. ()) (condition_bytes c)) # perm_spec (set_spec P path permType c) ops
      | CheckPerm agent path permType \<Rightarrow> CheckAnswer (check_spec P agent path permType) # perm_spec P ops)"

fun op_keys :: "perm_op \<Rightarrow> gostring set" where
  "op_keys (SetPerm now path permType c agentID) = {perm_key path permType}"
| "op_keys (CheckPerm agent path permType) = (\<lambda>j. perm_key (take j path) permType) ` {..length path}"

fun op_bytes :: "perm_op \<Rightarrow> bytes set" where
  "op_bytes (SetPerm now path permType c agentID) = {TypeTag c # Serialize c}"
| "op_bytes (CheckPerm agent path permType) = {}"

fun perm_op_ok :: "perm_op \<Rightarrow> bool" where
  "perm_op_ok (SetPerm now path permType c agentID) = (plain path permType \<and> mbl_ok c)"
| "perm_op_ok (CheckPerm agent path permType) = plain path permType"

lemma perm_run_spec:
  assumes "adapter.holds sha K V ta M" "perm_table M P" "inj_on sha K" "inj_on sha V"
    and "\<forall>op \<in> set ops. perm_op_ok op \<and> op_keys op \<subseteq> K \<and> op_bytes op \<subseteq> V"
  shows "perm_run sha ta ops = perm_spec P ops"
  using assms(1,2,5)
proof (induction ops arbitrary: ta M P)
  case (Cons op ops)
  show ?case
  proof (cases op)
    case (SetPerm now path permType c agentID)
    have p: "plain path permType" "mbl_ok c" "perm_key path permType \<in> K"
      "\<forall>v. condition_bytes c = Inr v \<longrightarrow> v \<in> V"
      using Cons.prems(3) condition_bytes_eq SetPerm by auto
    obtain M' r ta' where "SetPermission sha now ta path permType c agentID = (r, ta')"
      "rmap (\<lambda>_. ()) (condition_bytes c) = r"
      "adapter.holds sha K V ta' M'" "perm_table M' (set_spec P path permType c)"
      using SetPermission_spec [OF Cons.prems(1,2) p(1,2) assms(3) p(3) assms(4) p(4)] by blast
    then show ?thesis using Cons SetPerm by simp
  next
    case (CheckPerm agent path permType)
    have "\<forall>j \<le> length path. perm_key (take j path) permType \<in> K" "plain path permType"
      using Cons.prems(3) CheckPerm by auto
    then show ?thesis using Cons CheckPerm CheckPermission_spec [OF Cons.prems(1,2)] by simp
  qed
qed simp

end
