(* ===== verification/Stamps.thy ===== *)
theory Stamps
  imports Secure_Store Mbl_Codec
begin

text \<open>
  Stamps (\<open>src/internal/security/stamps.go\<close>): attributes that are attached to what an agent
  writes. A personal stamp belongs to the agent, a hierarchical stamp to a path. The iteration
  order of a Go map is the parameter \<open>order\<close>, the JSON of foreign types is \<open>json\<close>.
\<close>

subsection \<open>Snapshots\<close>

type_synonym stamp_fields = "(gostring \<times> goany) list"

record StampSnapshot =
  snAttributes :: stamp_fields
  snHash :: hash

record StampManager =
  smTree :: TreeAdapter
  smStampCache :: "(gostring \<times> StampSnapshot) list"
  smSnapshotCache :: "(gostring \<times> hash) list"

definition NewStampManager :: "TreeAdapter \<Rightarrow> StampManager" where
  "NewStampManager tree = \<lparr>smTree = tree, smStampCache = [], smSnapshotCache = []\<rparr>"

text \<open>\<open>StampPanicked\<close> is a run-time panic inside the decoder.\<close>

datatype stamp_error = StampMissing secure_error | StampPanicked | SnapshotNotFound

subsection \<open>Storing and finding stamps\<close>

definition putStamp :: "(bytes \<Rightarrow> hash) \<Rightarrow> i64 \<Rightarrow> hash \<Rightarrow> u64 \<Rightarrow> stamp_fields \<Rightarrow> TreeAdapter \<Rightarrow> TreeAdapter" where
  "putStamp sha now attrHash agent stampFields ta =
     (let value = Serialize (MblRecord stampFields);
          valueHash = HashValue sha value;
          instance = \<lparr>siAttributeHash = attrHash, siValueHash = valueHash, siAgent = agent,
                      siTimestamp = now, siPreviousHash = zero_hash\<rparr>
      in ta_PutInstance attrHash instance (ta_PutValue valueHash value ta))"

definition SetPersonalStamp :: "(bytes \<Rightarrow> hash) \<Rightarrow> i64 \<Rightarrow> stamp_fields \<Rightarrow> u64 \<Rightarrow> StampManager \<Rightarrow> StampManager" where
  "SetPersonalStamp sha now stampFields agentID sm =
     sm\<lparr>smTree := putStamp sha now (HashPath sha [str ''stamp'']) agentID stampFields (smTree sm)\<rparr>"

definition SetHierarchicalStamp ::
  "(bytes \<Rightarrow> hash) \<Rightarrow> i64 \<Rightarrow> gostring list \<Rightarrow> stamp_fields \<Rightarrow> u64 \<Rightarrow> StampManager \<Rightarrow> StampManager" where
  "SetHierarchicalStamp sha now path stampFields agentID sm =
     sm\<lparr>smTree := putStamp sha now (HashPath sha (path @ [str ''@stamp''])) 0 stampFields (smTree sm)\<rparr>"

text \<open>A record that cannot be decoded is the empty record: the error is dropped.\<close>

definition getStamp :: "TreeAdapter \<Rightarrow> hash \<Rightarrow> u64 \<Rightarrow> stamp_error + stamp_fields" where
  "getStamp ta attrHash agent =
     (case ta_GetInstance ta attrHash agent of
        Inl e \<Rightarrow> Inl (StampMissing e)
      | Inr instance \<Rightarrow>
          (case ta_GetValue ta (siValueHash instance) of
             Inl e \<Rightarrow> Inl (StampMissing e)
           | Inr value \<Rightarrow>
               (case DeserializeValue TypeRecord value of
                  Inl e \<Rightarrow> if e = SlicePanic then Inl StampPanicked else Inr []
                | Inr stampValue \<Rightarrow> (case stampValue of MblRecord flds \<Rightarrow> Inr flds | _ \<Rightarrow> Inr []))))"

definition getPersonalStamp :: "(bytes \<Rightarrow> hash) \<Rightarrow> TreeAdapter \<Rightarrow> u64 \<Rightarrow> stamp_error + stamp_fields" where
  "getPersonalStamp sha ta agentID = getStamp ta (HashPath sha [str ''stamp'']) agentID"

definition getHierarchicalStamp ::
  "(bytes \<Rightarrow> hash) \<Rightarrow> TreeAdapter \<Rightarrow> gostring list \<Rightarrow> u64 \<Rightarrow> stamp_error + stamp_fields" where
  "getHierarchicalStamp sha ta path agentID = getStamp ta (HashPath sha (path @ [str ''@stamp''])) 0"

subsection \<open>The effective stamp\<close>

definition merge :: "stamp_fields \<Rightarrow> stamp_fields \<Rightarrow> stamp_fields" where
  "merge flds effectiveStamp = fold (\<lambda>(key, value). aset key value) flds effectiveStamp"

text \<open>Merging what a lookup returned: an error leaves the stamp alone, a panic ends the call.\<close>

definition merge_result :: "stamp_error + stamp_fields \<Rightarrow> stamp_fields \<Rightarrow> stamp_error + stamp_fields" where
  "merge_result r effectiveStamp =
     (case r of
        Inl e \<Rightarrow> if e = StampPanicked then Inl e else Inr effectiveStamp
      | Inr flds \<Rightarrow> Inr (merge flds effectiveStamp))"

primrec hierarchy_loop ::
  "(bytes \<Rightarrow> hash) \<Rightarrow> TreeAdapter \<Rightarrow> gostring list \<Rightarrow> u64 \<Rightarrow> nat \<Rightarrow> stamp_fields \<Rightarrow> stamp_error + stamp_fields" where
  "hierarchy_loop sha ta writePath agentID 0 effectiveStamp =
     merge_result (getHierarchicalStamp sha ta [] agentID) effectiveStamp"
| "hierarchy_loop sha ta writePath agentID (Suc i) effectiveStamp =
     rbind (merge_result (getHierarchicalStamp sha ta (take (Suc i) writePath) agentID) effectiveStamp)
       (hierarchy_loop sha ta writePath agentID i)"

definition effective_stamp ::
  "(bytes \<Rightarrow> hash) \<Rightarrow> TreeAdapter \<Rightarrow> gostring list \<Rightarrow> u64 \<Rightarrow> stamp_error + stamp_fields" where
  "effective_stamp sha ta writePath agentID =
     rbind (merge_result (getPersonalStamp sha ta agentID) [(str ''@author'', GoUint64 agentID)])
       (hierarchy_loop sha ta writePath agentID (length writePath))"

definition hashStamp ::
  "(bytes \<Rightarrow> hash) \<Rightarrow> (goany \<Rightarrow> bytes) \<Rightarrow> (stamp_fields \<Rightarrow> stamp_fields) \<Rightarrow> stamp_fields \<Rightarrow> gostring" where
  "hashStamp sha json order stamp = hex (sha (SerializeValue json (GoMap (order stamp))))"

definition getSnapshot :: "StampManager \<Rightarrow> hash \<Rightarrow> stamp_error + StampSnapshot" where
  "getSnapshot sm snapshotHash =
     (case find (\<lambda>snapshot. snHash snapshot = snapshotHash) (map snd (smStampCache sm)) of
        Some snapshot \<Rightarrow> Inr snapshot
      | None \<Rightarrow> Inl SnapshotNotFound)"

definition CollectStamps ::
  "(bytes \<Rightarrow> hash) \<Rightarrow> (goany \<Rightarrow> bytes) \<Rightarrow> (stamp_fields \<Rightarrow> stamp_fields) \<Rightarrow> (stamp_fields \<Rightarrow> stamp_fields) \<Rightarrow>
     StampManager \<Rightarrow> gostring list \<Rightarrow> u64 \<Rightarrow> (stamp_error + StampSnapshot) \<times> StampManager" where
  "CollectStamps sha json order order' sm writePath agentID =
     (case effective_stamp sha (smTree sm) writePath agentID of
        Inl e \<Rightarrow> (Inl e, sm)
      | Inr effectiveStamp \<Rightarrow>
          (let stampHash = hashStamp sha json order effectiveStamp in
           case map_of (smSnapshotCache sm) stampHash of
             Some snapshotHash \<Rightarrow> (getSnapshot sm snapshotHash, sm)
           | None \<Rightarrow>
               (let snapshot = \<lparr>snAttributes = effectiveStamp,
                      snHash = HashValue sha (SerializeValue json (GoMap (order' effectiveStamp)))\<rparr>
                in (Inr snapshot,
                    sm\<lparr>smStampCache := aset stampHash snapshot (smStampCache sm),
                       smSnapshotCache := aset stampHash (snHash snapshot) (smSnapshotCache sm)\<rparr>))))"

definition invalidateStampCache :: "StampManager \<Rightarrow> StampManager" where
  "invalidateStampCache sm = sm\<lparr>smStampCache := [], smSnapshotCache := []\<rparr>"

subsection \<open>Embedding\<close>

definition isProtectedAttribute :: "goany \<Rightarrow> bool" where
  "isProtectedAttribute value =
     (case value of
        GoMap valueMap \<Rightarrow>
          (case map_of valueMap (str ''@protected'') of
             Some protected \<Rightarrow> (case protected of GoBool b \<Rightarrow> b | _ \<Rightarrow> False)
           | None \<Rightarrow> False)
      | _ \<Rightarrow> False)"

definition embedded_key :: gostring where "embedded_key = str ''@embedded_attrs''"

text \<open>The embedded attributes recorded in an instance, and whether any are recorded.\<close>

definition embedded_attrs :: "stamp_fields \<Rightarrow> (gostring \<times> bool) list \<times> bool" where
  "embedded_attrs instance =
     (case map_of instance embedded_key of
        Some embeddedMeta \<Rightarrow> (case embeddedMeta of GoMapBool embeddedMap \<Rightarrow> (embeddedMap, True) | _ \<Rightarrow> ([], False))
      | None \<Rightarrow> ([], False))"

definition embed_step ::
  "gostring \<times> goany \<Rightarrow> stamp_fields \<times> (gostring \<times> bool) list \<Rightarrow> stamp_fields \<times> (gostring \<times> bool) list" where
  "embed_step = (\<lambda>(key, value) (result, embedded).
     case map_of result key of
       Some existingValue \<Rightarrow>
         if isProtectedAttribute existingValue then (result, embedded)
         else if map_of embedded key = Some True then (aset key value result, aset key True embedded)
         else (result, embedded)
     | None \<Rightarrow> (aset key value result, aset key True embedded))"

definition EmbedStamp :: "stamp_fields \<Rightarrow> StampSnapshot \<Rightarrow> stamp_fields" where
  "EmbedStamp instance stamp =
     (let (embeddedAttrs, hadPreviousEmbeds) = embedded_attrs instance;
          result = filter (\<lambda>(key, value). key \<noteq> embedded_key) instance;
          (result, embeddedAttrs) = fold embed_step (snAttributes stamp) (result, embeddedAttrs)
      in if hadPreviousEmbeds \<or> (\<exists>(key, isEmbedded) \<in> set embeddedAttrs. isEmbedded)
         then aset embedded_key (GoMapBool embeddedAttrs) result
         else result)"

definition CreateProtectedAttribute :: "goany \<Rightarrow> goany" where
  "CreateProtectedAttribute value = GoMap [(str ''value'', value), (str ''@protected'', GoBool True)]"

definition GetAttributeValue :: "goany \<Rightarrow> goany" where
  "GetAttributeValue attr =
     (case attr of
        GoMap attrMap \<Rightarrow> (case map_of attrMap (str ''value'') of Some value \<Rightarrow> value | None \<Rightarrow> attr)
      | _ \<Rightarrow> attr)"

subsection \<open>Queries\<close>

definition stampValuesEqual :: "goany \<Rightarrow> goany \<Rightarrow> bool" where
  "stampValuesEqual a b =
     (case a of
        Text x \<Rightarrow> (case b of Text y \<Rightarrow> x = y | _ \<Rightarrow> False)
      | Number x \<Rightarrow> (case b of Number y \<Rightarrow> f64_eq x y | _ \<Rightarrow> False)
      | Boolean x \<Rightarrow> (case b of Boolean y \<Rightarrow> x = y | _ \<Rightarrow> False)
      | GoUint64 x \<Rightarrow> (case b of GoUint64 y \<Rightarrow> x = y | _ \<Rightarrow> False)
      | GoString x \<Rightarrow> (case b of GoString y \<Rightarrow> x = y | Text y \<Rightarrow> x = y | _ \<Rightarrow> False)
      | _ \<Rightarrow> False)"

definition QueryByStamp :: "stamp_fields \<Rightarrow> gostring \<Rightarrow> goany \<Rightarrow> stamp_fields" where
  "QueryByStamp data stampKey stampValue =
     filter (\<lambda>(key, value).
       case value of
         GoMap instanceWithStamp \<Rightarrow>
           (case map_of instanceWithStamp stampKey of
              Some actualStampValue \<Rightarrow> stampValuesEqual actualStampValue stampValue
            | None \<Rightarrow> False)
       | _ \<Rightarrow> False) data"

subsection \<open>Which stamp wins\<close>

lemma map_of_merge: "distinct (map fst flds) \<Longrightarrow> map_of (merge flds m) = map_of m ++ map_of flds"
  unfolding merge_def
proof (induction flds arbitrary: m)
  case (Cons x flds)
  obtain k v where x: "x = (k, v)" by (cases x)
  have "k \<notin> dom (map_of flds)" using Cons.prems x by (simp add: dom_map_of_conv_image_fst)
  then have "(map_of m)(k \<mapsto> v) ++ map_of flds = map_of m ++ map_of (x # flds)"
    using x by (auto simp: fun_eq_iff map_add_def split: option.splits)
  then show ?case using Cons x by (simp del: map_of.simps map_add_upd)
qed simp

lemma decoded_record_distinct:
  assumes "DeserializeValue TypeRecord d = Inr (MblRecord flds)"
  shows "distinct (map fst flds)"
proof -
  have "decoded_ok TypeRecord (length d) (MblRecord flds)" using assms decoded_inv(1) by blast
  then show ?thesis by (simp add: decoded_ok_def)
qed

lemma getStamp_distinct: "getStamp ta h a = Inr flds \<Longrightarrow> distinct (map fst flds)"
  by (auto simp: getStamp_def dest: decoded_record_distinct split: sum.splits if_splits goany.splits)

text \<open>Does the stamp at a level assign the key?\<close>

definition assigns :: "stamp_error + stamp_fields \<Rightarrow> gostring \<Rightarrow> goany option" where
  "assigns r k = (case r of Inl e \<Rightarrow> None | Inr flds \<Rightarrow> map_of flds k)"

lemma merge_result_assigns:
  assumes "merge_result r m = Inr m'" "\<And>flds. r = Inr flds \<Longrightarrow> distinct (map fst flds)"
  shows "map_of m' k = (case assigns r k of Some v \<Rightarrow> Some v | None \<Rightarrow> map_of m k)"
  using assms by (auto simp: merge_result_def assigns_def map_of_merge map_add_def split: sum.splits if_splits option.splits)

lemma hierarchical_merge:
  assumes "merge_result (getHierarchicalStamp sha ta p a) m = Inr m'"
  shows "map_of m' k = (case assigns (getHierarchicalStamp sha ta p a) k of Some v \<Rightarrow> Some v | None \<Rightarrow> map_of m k)"
  using merge_result_assigns [OF assms] getStamp_distinct by (simp add: getHierarchicalStamp_def)

lemma hierarchy_keeps:
  assumes "hierarchy_loop sha ta path agent i m = Inr m'"
    and "\<forall>j \<le> i. assigns (getHierarchicalStamp sha ta (take j path) agent) k = None"
  shows "map_of m' k = map_of m k"
  using assms
proof (induction i arbitrary: m)
  case 0
  then show ?case using hierarchical_merge [of sha ta "[]" agent m m' k] by simp
next
  case (Suc i)
  then obtain m1 where m1: "merge_result (getHierarchicalStamp sha ta (take (Suc i) path) agent) m = Inr m1"
    "hierarchy_loop sha ta path agent i m1 = Inr m'" by (auto simp: result_iff)
  then show ?case using Suc hierarchical_merge [OF m1(1), of k] by simp
qed

lemma hierarchy_shallowest:
  assumes "hierarchy_loop sha ta path agent i m = Inr m'" "j \<le> i"
    and "assigns (getHierarchicalStamp sha ta (take j path) agent) k = Some v"
    and "\<forall>j' < j. assigns (getHierarchicalStamp sha ta (take j' path) agent) k = None"
  shows "map_of m' k = Some v"
  using assms(1,2)
proof (induction i arbitrary: m)
  case 0
  then show ?case using hierarchical_merge [of sha ta "[]" agent m m' k] assms(3) by simp
next
  case (Suc i)
  then obtain m1 where m1: "merge_result (getHierarchicalStamp sha ta (take (Suc i) path) agent) m = Inr m1"
    "hierarchy_loop sha ta path agent i m1 = Inr m'" by (auto simp: result_iff)
  show ?case
  proof (cases "j = Suc i")
    case True
    then show ?thesis
      using hierarchy_keeps [OF m1(2), of k] hierarchical_merge [OF m1(1), of k] assms(3,4) by (simp add: less_Suc_eq_le)
  next
    case False
    then show ?thesis using Suc m1 by simp
  qed
qed

subsection \<open>Host attributes and later stamps\<close>

definition is_embedded :: "stamp_fields \<Rightarrow> gostring \<Rightarrow> bool" where
  "is_embedded instance k \<longleftrightarrow> map_of (fst (embedded_attrs instance)) k = Some True"

text \<open>What one embedding makes of an attribute: \<open>v\<close> is its value before, \<open>w\<close> the stamp's.\<close>

definition embed_spec :: "goany option \<Rightarrow> bool \<Rightarrow> goany option \<Rightarrow> goany option" where
  "embed_spec v emb w =
     (case (v, w) of
        (None, w) \<Rightarrow> w
      | (Some x, None) \<Rightarrow> Some x
      | (Some x, Some y) \<Rightarrow> if isProtectedAttribute x \<or> \<not> emb then Some x else Some y)"

lemma fold_embed_step:
  assumes "distinct (map fst st)" "fold embed_step st (res, emb) = (res', emb')"
  shows "map_of res' k = embed_spec (map_of res k) (map_of emb k = Some True) (map_of st k) \<and>
    (map_of emb' k = Some True \<longleftrightarrow> map_of emb k = Some True \<or> map_of res k = None \<and> map_of st k \<noteq> None)"
  using assms
proof (induction st arbitrary: res emb)
  case Nil
  then show ?case by (auto simp: embed_spec_def split: option.splits)
next
  case (Cons x st)
  obtain key w where x: "x = (key, w)" by (cases x)
  obtain r1 e1 where s: "embed_step x (res, emb) = (r1, e1)" by (cases "embed_step x (res, emb)")
  have n: "map_of st key = None" using Cons.prems(1) x by (simp add: map_of_eq_None_iff)
  have o: "map_of r1 k = (if k = key then embed_spec (map_of res k) (map_of emb k = Some True) (Some w) else map_of res k)"
    "map_of e1 k = Some True \<longleftrightarrow> map_of emb k = Some True \<or> k = key \<and> map_of res k = None"
    using s x by (auto simp: embed_step_def embed_spec_def split: option.splits if_splits)
  have IH: "map_of res' k = embed_spec (map_of r1 k) (map_of e1 k = Some True) (map_of st k) \<and>
    (map_of emb' k = Some True \<longleftrightarrow> map_of e1 k = Some True \<or> map_of r1 k = None \<and> map_of st k \<noteq> None)"
    using Cons s by simp
  show ?case
  proof (cases "k = key")
    case True
    then show ?thesis using IH o n x by (auto simp: embed_spec_def split: option.splits)
  next
    case False
    then show ?thesis using IH o x by simp
  qed
qed

lemma map_of_filter_key: "k \<noteq> j \<Longrightarrow> map_of (filter (\<lambda>(key, value). key \<noteq> j) m) k = map_of m k"
  by (induction m) auto

lemma map_of_filter_key_self: "map_of (filter (\<lambda>(key, value). key \<noteq> j) m) j = None"
  by (induction m) auto

lemma EmbedStamp_lookup:
  assumes d: "distinct (map fst (snAttributes stamp))" and e: "map_of (snAttributes stamp) embedded_key = None"
    and k: "k \<noteq> embedded_key"
  shows "map_of (EmbedStamp instance stamp) k =
      embed_spec (map_of instance k) (is_embedded instance k) (map_of (snAttributes stamp) k)"
    and "is_embedded (EmbedStamp instance stamp) k \<longleftrightarrow>
      is_embedded instance k \<or> map_of instance k = None \<and> map_of (snAttributes stamp) k \<noteq> None"
proof -
  let ?r = "filter (\<lambda>(key, value). key \<noteq> embedded_key) instance"
  obtain emb had where a: "embedded_attrs instance = (emb, had)" by (cases "embedded_attrs instance")
  obtain res' emb' where f: "fold embed_step (snAttributes stamp) (?r, emb) = (res', emb')"
    by (cases "fold embed_step (snAttributes stamp) (?r, emb)")
  note s = fold_embed_step [OF d f]
  have no: "map_of res' embedded_key = None"
    using s [of embedded_key] e by (simp add: map_of_filter_key_self embed_spec_def)
  have E: "EmbedStamp instance stamp =
      (if had \<or> (\<exists>(key, isEmbedded) \<in> set emb'. isEmbedded) then aset embedded_key (GoMapBool emb') res' else res')"
    by (simp add: EmbedStamp_def a f)
  show "map_of (EmbedStamp instance stamp) k =
      embed_spec (map_of instance k) (is_embedded instance k) (map_of (snAttributes stamp) k)"
    using s [of k] k by (simp add: E a is_embedded_def map_of_filter_key)
  have "fst (embedded_attrs (EmbedStamp instance stamp)) =
      (if had \<or> (\<exists>(key, isEmbedded) \<in> set emb'. isEmbedded) then emb' else [])"
    by (simp add: E embedded_attrs_def no)
  then have "is_embedded (EmbedStamp instance stamp) k \<longleftrightarrow> map_of emb' k = Some True"
    by (auto simp: is_embedded_def dest: map_of_SomeD)
  then show "is_embedded (EmbedStamp instance stamp) k \<longleftrightarrow>
      is_embedded instance k \<or> map_of instance k = None \<and> map_of (snAttributes stamp) k \<noteq> None"
    using s [of k] k a by (simp add: is_embedded_def map_of_filter_key)
qed

end
