(* ===== verification/Filters.thy ===== *)
theory Filters
  imports Permissions
begin

text \<open>
  Personal filters (\<open>src/internal/security/filters.go\<close>). A filter is a record; an instance whose
  stamp matches every field of it is hidden from the agent. The order of the fields of a record is
  the order in which an iteration visits them.
\<close>

subsection \<open>Strings\<close>

text \<open>\<open>strings.Trim\<close> with a cut set of ASCII characters.\<close>

definition Trim :: "gostring \<Rightarrow> gostring \<Rightarrow> gostring" where
  "Trim s cutset = rev (dropWhile (\<lambda>c. c \<in> set cutset) (rev (dropWhile (\<lambda>c. c \<in> set cutset) s)))"

text \<open>The text before and after the first \<open>?=\<close>.\<close>

fun cut_eq :: "gostring \<Rightarrow> (gostring \<times> gostring) option" where
  "cut_eq (a # b # s) =
     (if a = 63 \<and> b = 61 then Some ([], s)
      else map_option (\<lambda>(l, r). (a # l, r)) (cut_eq (b # s)))"
| "cut_eq s = None"

subsection \<open>Expressions\<close>

record FilterExpression =
  feAttribute :: gostring
  feOperator :: gostring
  feValue :: goany

datatype filter_error =
    FilterValueMissing secure_error
  | FilterUndecodable type_error
  | FilterPanicked
  | TextFilter
  | UnsupportedFilter
  | OrNotImplemented
  | AndNotImplemented
  | UnsupportedOperator gostring

definition op_eq :: gostring where "op_eq = str ''?=''"
definition op_in :: gostring where "op_in = str ''in''"

text \<open>
  A text with more than one \<open>?=\<close> splits into more than two parts and leaves the operator empty.
\<close>

definition parseFilterExpression :: "gostring \<Rightarrow> goany \<Rightarrow> FilterExpression" where
  "parseFilterExpression attribute value =
     (case value of
        MblList elements \<Rightarrow> \<lparr>feAttribute = attribute, feOperator = op_in, feValue = GoSlice elements\<rparr>
      | Text t \<Rightarrow>
          (case cut_eq t of
             Some (l, r) \<Rightarrow>
               if cut_eq r = None
               then \<lparr>feAttribute = TrimSpace l, feOperator = op_eq,
                     feValue = Text (Trim (TrimSpace r) [34, 39])\<rparr>
               else \<lparr>feAttribute = attribute, feOperator = [], feValue = GoNil\<rparr>
           | None \<Rightarrow> \<lparr>feAttribute = attribute, feOperator = op_eq, feValue = Text t\<rparr>)
      | v \<Rightarrow> \<lparr>feAttribute = attribute, feOperator = op_eq, feValue = v\<rparr>)"

definition parseFilterCondition :: "goany \<Rightarrow> filter_error + FilterExpression list" where
  "parseFilterCondition filterValue =
     (case filterValue of
        MblRecord flds \<Rightarrow> Inr (map (\<lambda>(key, value). parseFilterExpression key value) flds)
      | Text t \<Rightarrow> Inl TextFilter
      | _ \<Rightarrow> Inl UnsupportedFilter)"

definition numericValue :: "goany \<Rightarrow> f64 option" where
  "numericValue v =
     (case v of
        Number x \<Rightarrow> Some x
      | GoUint64 n \<Rightarrow> Some (f64_of_int (uint n))
      | GoUint32 n \<Rightarrow> Some (f64_of_int (uint n))
      | GoUint n \<Rightarrow> Some (f64_of_int (uint n))
      | GoInt n \<Rightarrow> Some (f64_of_int (sint n))
      | GoInt64 n \<Rightarrow> Some (f64_of_int (sint n))
      | GoFloat64 x \<Rightarrow> Some x
      | _ \<Rightarrow> None)"

definition numericEqual :: "goany \<Rightarrow> goany \<Rightarrow> bool" where
  "numericEqual a b =
     (case numericValue a of
        None \<Rightarrow> False
      | Some an \<Rightarrow> (case numericValue b of None \<Rightarrow> False | Some bn \<Rightarrow> f64_eq an bn))"

definition valuesEqual :: "goany \<Rightarrow> goany \<Rightarrow> bool" where
  "valuesEqual a b =
     (case a of
        Text x \<Rightarrow> (case b of Text y \<Rightarrow> x = y | _ \<Rightarrow> numericEqual a b)
      | Boolean x \<Rightarrow> (case b of Boolean y \<Rightarrow> x = y | _ \<Rightarrow> numericEqual a b)
      | _ \<Rightarrow> numericEqual a b)"

definition evaluateFilterExpression ::
  "FilterExpression \<Rightarrow> (gostring \<times> goany) list \<Rightarrow> filter_error + bool" where
  "evaluateFilterExpression expr instanceWithStamp =
     (case map_of instanceWithStamp (feAttribute expr) of
        None \<Rightarrow> Inr False
      | Some stampValue \<Rightarrow>
          if feOperator expr = op_eq then Inr (valuesEqual stampValue (feValue expr))
          else if feOperator expr = op_in then
            Inr (case feValue expr of GoSlice valueList \<Rightarrow> \<exists>v \<in> set valueList. valuesEqual stampValue v | _ \<Rightarrow> False)
          else if feOperator expr = str ''or'' then Inl OrNotImplemented
          else if feOperator expr = str ''and'' then Inl AndNotImplemented
          else Inl (UnsupportedOperator (feOperator expr)))"

subsection \<open>The filter manager\<close>

record FilterManager =
  fmTree :: TreeAdapter
  fmFilterCache :: "(u64 \<times> FilterExpression list) list"

definition NewFilterManager :: "TreeAdapter \<Rightarrow> FilterManager" where
  "NewFilterManager tree = \<lparr>fmTree = tree, fmFilterCache = []\<rparr>"

definition getFilterCondition ::
  "(bytes \<Rightarrow> hash) \<Rightarrow> FilterManager \<Rightarrow> u64 \<Rightarrow> (filter_error + FilterExpression list option) \<times> FilterManager" where
  "getFilterCondition sha fm agentID =
     (case map_of (fmFilterCache fm) agentID of
        Some condition \<Rightarrow> (Inr (Some condition), fm)
      | None \<Rightarrow>
          (case ta_GetInstance (fmTree fm) (HashPath sha [str ''filter'']) agentID of
             Inl e \<Rightarrow> (Inr None, fm)
           | Inr instance \<Rightarrow>
               (case ta_GetValue (fmTree fm) (siValueHash instance) of
                  Inl e \<Rightarrow> (Inl (FilterValueMissing e), fm)
                | Inr value \<Rightarrow>
                    (case DeserializeValue TypeRecord value of
                       Inl e \<Rightarrow>
                         if e = SlicePanic then (Inl FilterPanicked, fm)
                         else if isOk (DeserializeValue TypeNothing value) then (Inr None, fm)
                         else (Inl (FilterUndecodable e), fm)
                     | Inr filterValue \<Rightarrow>
                         (case parseFilterCondition filterValue of
                            Inl e \<Rightarrow> (Inl e, fm)
                          | Inr condition \<Rightarrow>
                              (Inr (Some condition), fm\<lparr>fmFilterCache := aset agentID condition (fmFilterCache fm)\<rparr>))))))"

text \<open>The loop over the expressions stops at the first one that does not match.\<close>

fun all_match :: "FilterExpression list \<Rightarrow> (gostring \<times> goany) list \<Rightarrow> filter_error + bool" where
  "all_match [] instanceWithStamp = Inr True"
| "all_match (expr # exprs) instanceWithStamp =
     (case evaluateFilterExpression expr instanceWithStamp of
        Inl e \<Rightarrow> Inl e
      | Inr match \<Rightarrow> if \<not> match then Inr False else all_match exprs instanceWithStamp)"

definition ApplyFilters ::
  "(bytes \<Rightarrow> hash) \<Rightarrow> FilterManager \<Rightarrow> Agent \<Rightarrow> (gostring \<times> goany) list \<Rightarrow> (filter_error + bool) \<times> FilterManager" where
  "ApplyFilters sha fm agent instanceWithStamp =
     (case getFilterCondition sha fm (agAgentID agent) of
        (Inl e, fm') \<Rightarrow> (Inl e, fm')
      | (Inr None, fm') \<Rightarrow> (Inr True, fm')
      | (Inr (Some exprs), fm') \<Rightarrow>
          if exprs = [] then (Inr True, fm')
          else (rmap Not (all_match exprs instanceWithStamp), fm'))"

definition putFilter :: "(bytes \<Rightarrow> hash) \<Rightarrow> i64 \<Rightarrow> bytes \<Rightarrow> u64 \<Rightarrow> FilterManager \<Rightarrow> FilterManager" where
  "putFilter sha now value agentID fm =
     (let attrHash = HashPath sha [str ''filter''];
          valueHash = HashValue sha value;
          instance = \<lparr>siAttributeHash = attrHash, siValueHash = valueHash, siAgent = agentID,
                      siTimestamp = now, siPreviousHash = zero_hash\<rparr>
      in fm\<lparr>fmTree := ta_PutInstance attrHash instance (ta_PutValue valueHash value (fmTree fm)),
            fmFilterCache := filter (\<lambda>(a, c). a \<noteq> agentID) (fmFilterCache fm)\<rparr>)"

definition SetFilter :: "(bytes \<Rightarrow> hash) \<Rightarrow> (goany \<Rightarrow> bytes) \<Rightarrow> i64 \<Rightarrow> goany \<Rightarrow> u64 \<Rightarrow> FilterManager \<Rightarrow> FilterManager" where
  "SetFilter sha json now filterCondition agentID fm = putFilter sha now (SerializeValue json filterCondition) agentID fm"

definition ClearFilter :: "(bytes \<Rightarrow> hash) \<Rightarrow> (goany \<Rightarrow> bytes) \<Rightarrow> i64 \<Rightarrow> u64 \<Rightarrow> FilterManager \<Rightarrow> FilterManager" where
  "ClearFilter sha json now agentID fm = putFilter sha now (SerializeValue json Nothing) agentID fm"

fun FilterVisible ::
  "(bytes \<Rightarrow> hash) \<Rightarrow> FilterManager \<Rightarrow> Agent \<Rightarrow> (gostring \<times> goany) list \<Rightarrow>
     (filter_error + (gostring \<times> goany) list) \<times> FilterManager" where
  "FilterVisible sha fm agent [] = (Inr [], fm)"
| "FilterVisible sha fm agent ((key, value) # data) =
     (let instanceWithStamp = (case value of GoMap valueMap \<Rightarrow> valueMap | _ \<Rightarrow> [(str ''value'', value)]) in
      case ApplyFilters sha fm agent instanceWithStamp of
        (Inl e, fm') \<Rightarrow> (Inl e, fm')
      | (Inr visible, fm') \<Rightarrow>
          (case FilterVisible sha fm' agent data of
             (Inl e, fm'') \<Rightarrow> (Inl e, fm'')
           | (Inr result, fm'') \<Rightarrow> (Inr (if visible then (key, value) # result else result), fm'')))"

definition CreateClearanceFilter :: "gostring list \<Rightarrow> goany" where
  "CreateClearanceFilter clearanceLevels = MblRecord [(str ''clearance'', MblList (map Text clearanceLevels))]"
definition CreateDepartmentFilter :: "gostring list \<Rightarrow> goany" where
  "CreateDepartmentFilter departments = MblRecord [(str ''department'', MblList (map Text departments))]"
definition CreateAuthorFilter :: "u64 list \<Rightarrow> goany" where
  "CreateAuthorFilter authorIDs = MblRecord [(str ''@author'', MblList (map GoUint64 authorIDs))]"

subsection \<open>What a filter hides\<close>

text \<open>
  A field that is not an expression of its own: it matches a stamp attribute that equals the value
  or, for a list, one of the elements.
\<close>

definition simple_field :: "gostring \<times> goany \<Rightarrow> bool" where
  "simple_field = (\<lambda>(k, v). case v of Text t \<Rightarrow> cut_eq t = None | _ \<Rightarrow> True)"

definition field_matches :: "(gostring \<times> goany) list \<Rightarrow> gostring \<times> goany \<Rightarrow> bool" where
  "field_matches inst = (\<lambda>(k, v).
     case map_of inst k of
       None \<Rightarrow> False
     | Some s \<Rightarrow> (case v of MblList xs \<Rightarrow> \<exists>x \<in> set xs. valuesEqual s x | _ \<Rightarrow> valuesEqual s v))"

lemma op_distinct [simp]: "op_in \<noteq> op_eq" "op_eq \<noteq> op_in"
  by (simp_all add: op_in_def op_eq_def str_def)

lemma evaluate_simple:
  assumes "simple_field (k, v)"
  shows "evaluateFilterExpression (parseFilterExpression k v) inst = Inr (field_matches inst (k, v))"
  using assms
  by (cases v) (simp_all add: simple_field_def parseFilterExpression_def evaluateFilterExpression_def field_matches_def
      split: option.splits)

lemma all_match_simple:
  assumes "\<forall>f \<in> set fs. simple_field f"
  shows "all_match (map (\<lambda>(k, v). parseFilterExpression k v) fs) inst = Inr (\<forall>f \<in> set fs. field_matches inst f)"
  using assms
proof (induction fs)
  case (Cons f fs)
  then show ?case by (cases f) (simp add: evaluate_simple)
qed simp

lemma map_of_filter_other: "b \<noteq> a \<Longrightarrow> map_of (filter (\<lambda>(x, c). x \<noteq> a) m) b = map_of m b"
  "map_of (filter (\<lambda>(x, c). x \<noteq> a) m) a = None"
  by (induction m) auto

lemma getFilterCondition_put:
  "getFilterCondition sha (putFilter sha now value agentID fm) agentID =
     (let fm' = putFilter sha now value agentID fm in
      case DeserializeValue TypeRecord value of
        Inl e \<Rightarrow>
          if e = SlicePanic then (Inl FilterPanicked, fm')
          else if isOk (DeserializeValue TypeNothing value) then (Inr None, fm')
          else (Inl (FilterUndecodable e), fm')
      | Inr filterValue \<Rightarrow>
          (case parseFilterCondition filterValue of
             Inl e \<Rightarrow> (Inl e, fm')
           | Inr condition \<Rightarrow>
               (Inr (Some condition), fm'\<lparr>fmFilterCache := aset agentID condition (fmFilterCache fm')\<rparr>)))"
  by (simp add: getFilterCondition_def putFilter_def Let_def map_of_filter_other adapter.inst_after_inst
      adapter.val_after_inst adapter.val_after_val)

lemma SetFilter_condition:
  assumes "mbl_ok (MblRecord fs)"
  shows "fst (getFilterCondition sha (SetFilter sha json now (MblRecord fs) agentID fm) agentID) =
    Inr (Some (map (\<lambda>(k, v). parseFilterExpression k v) fs))"
proof -
  have "DeserializeValue TypeRecord (Serialize (MblRecord fs)) = Inr (MblRecord fs)"
    using Deserialize_Serialize [OF assms] by (simp del: Serialize.simps)
  then show ?thesis
    by (simp add: SetFilter_def getFilterCondition_put parseFilterCondition_def Let_def del: Serialize.simps)
qed

lemma ClearFilter_condition:
  "fst (getFilterCondition sha (ClearFilter sha json now agentID fm) agentID) = Inr None"
proof -
  have "DeserializeValue TypeRecord [] = Inl TypeTooShort" "DeserializeValue TypeNothing [] = Inr Nothing"
    by (simp_all add: DeserializeValue.simps mbl_tag_defs DeserializeNothing_def)
  then show ?thesis by (simp add: ClearFilter_def getFilterCondition_put Let_def)
qed

text \<open>
  Changing the filter of one agent leaves the filter another agent gets alone, provided the new
  value does not take the place of the other agent's value.
\<close>

lemma putFilter_other:
  assumes "b \<noteq> a"
    and "\<And>i. ta_GetInstance (fmTree fm) (HashPath sha [str ''filter'']) b = Inr i \<Longrightarrow>
      siValueHash i = sha value \<Longrightarrow> ta_GetValue (fmTree fm) (sha value) = Inr value"
  shows "fst (getFilterCondition sha (putFilter sha now value a fm) b) = fst (getFilterCondition sha fm b)"
proof (cases "ta_GetInstance (fmTree fm) (HashPath sha [str ''filter'']) b")
  case (Inl e)
  then show ?thesis using assms(1)
    by (simp add: getFilterCondition_def putFilter_def Let_def map_of_filter_other adapter.inst_after_inst
        adapter.inst_after_val split: option.splits)
next
  case (Inr i)
  define fm' where "fm' = putFilter sha now value a fm"
  have "map_of (fmFilterCache fm') b = map_of (fmFilterCache fm) b"
    "ta_GetInstance (fmTree fm') (HashPath sha [str ''filter'']) b = Inr i"
    "ta_GetValue (fmTree fm') (siValueHash i) = ta_GetValue (fmTree fm) (siValueHash i)"
    using assms Inr
    by (auto simp: fm'_def putFilter_def Let_def map_of_filter_other HashValue_def adapter.inst_after_inst
        adapter.inst_after_val adapter.val_after_inst adapter.val_after_val)
  then show ?thesis
    using Inr unfolding fm'_def [symmetric]
    by (simp add: getFilterCondition_def split: option.splits sum.splits)
qed

end
