(* ===== verification/Security_Properties.thy ===== *)
theory Security_Properties
  imports Permissions Stamps Filters Versioned_Tree
begin

text \<open>
  The properties of access control: which condition decides about a permission, which stamp wins,
  what embedding keeps, and what filters hide.
\<close>

subsection \<open>Permissions\<close>

text \<open>
  C21. Any run of permission changes and checks answers as the table of conditions does: the last
  condition set at the nearest of the path and its ancestors decides, and without one the
  defaults; conditions of unsupported types are refused and change nothing. The components contain
  no dots, the conditions are well-formed, and SHA-256 does not collide on the names and values of
  the run.
\<close>

theorem permission_run_refines:
  assumes "\<forall>op \<in> set ops. perm_op_ok op"
    and "inj_on sha (\<Union> (op_keys ` set ops))" "inj_on sha (\<Union> (op_bytes ` set ops))"
  shows "perm_run sha (NewTreeAdapter tree) ops = perm_spec Map.empty ops"
  by (rule perm_run_spec [OF new_adapter_holds _ assms(2,3)])
    (use assms(1) in \<open>auto simp: perm_table_def perm_entry_def\<close>)

definition alice :: Agent where "alice = \<lparr>agIdentity = str ''alice'', agStamp = [], agAgentID = 7\<rparr>"

definition team :: "gostring list" where "team = [str ''world'', str ''team'']"

definition permission_sample :: "perm_op list" where
  "permission_sample =
     [SetPerm 1 team WritePermission (Text (str ''alice'')) 0,
      SetPerm 2 (team @ [str ''plan'']) WritePermission Nothing 0,
      SetPerm 3 team WritePermission (Number 0) 0,
      CheckPerm alice (team @ [str ''notes'', str ''today'']) WritePermission,
      CheckPerm alice (team @ [str ''plan'', str ''goal'']) WritePermission,
      CheckPerm alice [str ''world'', str ''agent'', str ''7'', str ''x''] PurgePermission,
      CheckPerm alice [str ''world'', str ''agent'', str ''8'', str ''x''] PurgePermission]"

theorem permission_run_refines_witness:
  "perm_run (\<lambda>b. b) (NewTreeAdapter empty_tree) permission_sample =
     [SetAnswer (Inr ()), SetAnswer (Inr ()), SetAnswer (Inl UnsupportedCondition),
      CheckAnswer (Inr True), CheckAnswer (Inr False), CheckAnswer (Inr True), CheckAnswer (Inr False)]"
proof -
  have "\<forall>op \<in> set permission_sample. perm_op_ok op"
    by (simp add: permission_sample_def plain_def dotless_def team_def str_def dot_def WritePermission_def
        PurgePermission_def text_ok_def utf8_valid_ascii)
  moreover have "perm_spec Map.empty permission_sample =
     [SetAnswer (Inr ()), SetAnswer (Inr ()), SetAnswer (Inl UnsupportedCondition),
      CheckAnswer (Inr True), CheckAnswer (Inr False), CheckAnswer (Inr True), CheckAnswer (Inr False)]"
    by (simp add: permission_sample_def check_spec_def set_spec_def condition_bytes_def getDefaultPermission_def
        evaluateCondition_def team_def alice_def str_def WritePermission_def PurgePermission_def ReadPermission_def
        dec.simps)
  ultimately show ?thesis
    using permission_run_refines [of permission_sample "\<lambda>b. b" empty_tree] by simp
qed

subsection \<open>Stamps\<close>

text \<open>
  When a stamp is collected for the first time, an attribute that several levels of the path
  assign gets the value of the level nearest to the root, and this holds for every attribute: a
  level that assigns \<open>@author\<close> replaces the author that the system put there. An attribute that no
  level and no personal stamp assigns keeps the system's value.
\<close>

lemma shallowest_stamp_wins:
  assumes "CollectStamps sha json order order' sm path agent = (Inr snapshot, sm')" "smSnapshotCache sm = []"
  shows "(j \<le> length path \<and>
      assigns (getHierarchicalStamp sha (smTree sm) (take j path) agent) k = Some v \<and>
      (\<forall>j' < j. assigns (getHierarchicalStamp sha (smTree sm) (take j' path) agent) k = None) \<longrightarrow>
      map_of (snAttributes snapshot) k = Some v) \<and>
    ((\<forall>j \<le> length path. assigns (getHierarchicalStamp sha (smTree sm) (take j path) agent) k = None) \<and>
      assigns (getPersonalStamp sha (smTree sm) agent) k = None \<longrightarrow>
      map_of (snAttributes snapshot) k = (if k = str ''@author'' then Some (GoUint64 agent) else None))"
proof -
  obtain m where m: "merge_result (getPersonalStamp sha (smTree sm) agent) [(str ''@author'', GoUint64 agent)] = Inr m"
    "hierarchy_loop sha (smTree sm) path agent (length path) m = Inr (snAttributes snapshot)"
    using assms by (auto simp: CollectStamps_def effective_stamp_def result_iff Let_def split: sum.splits)
  have "map_of m k = (if k = str ''@author'' then Some (GoUint64 agent) else None)"
    if "assigns (getPersonalStamp sha (smTree sm) agent) k = None"
    using merge_result_assigns [OF m(1), of k] getStamp_distinct that by (simp add: getPersonalStamp_def)
  then show ?thesis
    using hierarchy_shallowest [OF m(2)] hierarchy_keeps [OF m(2)] by auto
qed

definition stamped :: StampManager where
  "stamped =
     SetHierarchicalStamp (\<lambda>b. b) 1 [] [(str ''level'', Number 1)] 7
       (SetHierarchicalStamp (\<lambda>b. b) 2 [str ''w''] [(str ''level'', Number 2), (str ''@author'', Number 3)] 7
         (NewStampManager (NewTreeAdapter empty_tree)))"

lemma shallowest_stamp_wins_witness:
  "(\<exists>snapshot sm'. CollectStamps (\<lambda>b. b) (\<lambda>x. []) (\<lambda>m. m) (\<lambda>m. m) stamped [str ''w''] 7 = (Inr snapshot, sm') \<and>
     map_of (snAttributes snapshot) (str ''level'') = Some (Number 1) \<and>
     map_of (snAttributes snapshot) (str ''@author'') = Some (Number 3))"
proof -
  have h: "getHierarchicalStamp (\<lambda>b. b) (smTree stamped) [str ''w''] 7 =
      Inr [(str ''level'', Number 2), (str ''@author'', Number 3)]"
    "getHierarchicalStamp (\<lambda>b. b) (smTree stamped) [] 7 = Inr [(str ''level'', Number 1)]"
    "isOk (fst (CollectStamps (\<lambda>b. b) (\<lambda>x. []) (\<lambda>m. m) (\<lambda>m. m) stamped [str ''w''] 7))"
    "smSnapshotCache stamped = []"
    by code_simp+
  obtain snapshot sm' where c: "CollectStamps (\<lambda>b. b) (\<lambda>x. []) (\<lambda>m. m) (\<lambda>m. m) stamped [str ''w''] 7 = (Inr snapshot, sm')"
    using h(3) by (cases "CollectStamps (\<lambda>b. b) (\<lambda>x. []) (\<lambda>m. m) (\<lambda>m. m) stamped [str ''w''] 7") (auto simp: isOk_iff)
  have "str ''level'' \<noteq> str ''@author''" by (simp add: str_def)
  then have "map_of (snAttributes snapshot) (str ''level'') = Some (Number 1)"
    "map_of (snAttributes snapshot) (str ''@author'') = Some (Number 3)"
    using shallowest_stamp_wins [OF c h(4), of 0 "str ''level''" "Number 1"]
      shallowest_stamp_wins [OF c h(4), of 1 "str ''@author''" "Number 3"] h(1,2)
    by (simp_all add: assigns_def)
  with c show ?thesis by blast
qed

text \<open>
  C22. Two stamps embedded one after the other: an attribute of the host is never replaced, and of
  the two stamps the later one wins unless the earlier one's attribute is protected.
\<close>

theorem embed_twice:
  assumes "distinct (map fst (snAttributes s))" "distinct (map fst (snAttributes t))"
    and "embedded_key \<notin> fst ` set host" "embedded_key \<notin> fst ` set (snAttributes s)"
    and "embedded_key \<notin> fst ` set (snAttributes t)" "k \<noteq> embedded_key"
  shows "map_of (EmbedStamp (EmbedStamp host s) t) k =
    (case map_of host k of
       Some v \<Rightarrow> Some v
     | None \<Rightarrow>
         (case map_of (snAttributes s) k of
            None \<Rightarrow> map_of (snAttributes t) k
          | Some v \<Rightarrow>
              if isProtectedAttribute v then Some v
              else (case map_of (snAttributes t) k of None \<Rightarrow> Some v | Some w \<Rightarrow> Some w)))"
proof -
  have "map_of host embedded_key = None" "map_of (snAttributes s) embedded_key = None"
    "map_of (snAttributes t) embedded_key = None"
    using assms(3-5) by (simp_all add: map_of_eq_None_iff)
  moreover from this have "\<not> is_embedded host k" by (simp add: is_embedded_def embedded_attrs_def)
  ultimately show ?thesis
    using EmbedStamp_lookup [OF assms(1) _ assms(6)] EmbedStamp_lookup [OF assms(2) _ assms(6)]
    by (simp add: embed_spec_def split: option.splits)
qed

definition snapshot_of :: "stamp_fields \<Rightarrow> StampSnapshot" where
  "snapshot_of fs = \<lparr>snAttributes = fs, snHash = zero_hash\<rparr>"

theorem embed_twice_witness:
  "map_of (EmbedStamp (EmbedStamp [(str ''title'', Number 1)]
       (snapshot_of [(str ''title'', Number 2), (str ''by'', Number 3)])) (snapshot_of [(str ''by'', Number 4)]))
     (str ''by'') = Some (Number 4)"
  using embed_twice [of "snapshot_of [(str ''title'', Number 2), (str ''by'', Number 3)]"
      "snapshot_of [(str ''by'', Number 4)]" "[(str ''title'', Number 1)]" "str ''by''"]
  by (simp add: snapshot_of_def str_def embedded_key_def isProtectedAttribute_def)

subsection \<open>Filters\<close>



end
