(* ===== verification/Identity.thy ===== *)
theory Identity
  imports Go_Text Go_Time
begin

text \<open>
  Agents, mesh paths and identities: \<open>src/internal/types/agent.go\<close> and \<open>path.go\<close> (without
  \<open>NormalizePath\<close>, which needs Unicode case mapping) and \<open>src/internal/identity\<close>. Random bytes and
  the clock are arguments of the operations that read them.
\<close>

subsection \<open>Agent types\<close>

type_synonym AgentType = int

definition NodeAgent :: AgentType where "NodeAgent = 0"
definition MobileAgent :: AgentType where "MobileAgent = 1"

definition AgentType_String :: "AgentType \<Rightarrow> gostring" where
  "AgentType_String a =
     (if a = NodeAgent then str ''node'' else if a = MobileAgent then str ''mobile'' else str ''unknown'')"

text \<open>\<open>UnmarshalJSON\<close> on the decoded string.\<close>

definition AgentType_parse :: "gostring \<Rightarrow> AgentType option" where
  "AgentType_parse s =
     (if s = str ''node'' then Some NodeAgent else if s = str ''mobile'' then Some MobileAgent else None)"

definition AgentType_IsValid :: "AgentType \<Rightarrow> bool" where
  "AgentType_IsValid a \<longleftrightarrow> a = NodeAgent \<or> a = MobileAgent"
definition CanReplicate :: "AgentType \<Rightarrow> bool" where "CanReplicate a \<longleftrightarrow> a = MobileAgent"
definition RequiresMeshStorage :: "AgentType \<Rightarrow> bool" where "RequiresMeshStorage a \<longleftrightarrow> a = MobileAgent"

lemma AgentType_parse_String: "AgentType_IsValid a \<longleftrightarrow> AgentType_parse (AgentType_String a) = Some a"
  by (auto simp: AgentType_IsValid_def AgentType_parse_def AgentType_String_def NodeAgent_def MobileAgent_def str_def)

subsection \<open>Mesh paths\<close>

datatype PathType = LocalPath | BridgePath | WorldPath | InvalidPath

datatype path_error =
    EmptyMeshPath
  | BridgePathTooShort
  | InvalidMeshName gostring
  | ReservedComponent gostring
  | NotABridgePath

record ParsedPath =
  ppType :: PathType
  ppOriginalPath :: "gostring list"
  ppMeshName :: gostring
  ppLocalPath :: "gostring list"
  ppError :: "path_error option"

definition invalid :: "gostring list \<Rightarrow> path_error \<Rightarrow> ParsedPath" where
  "invalid path e =
     \<lparr>ppType = InvalidPath, ppOriginalPath = path, ppMeshName = [], ppLocalPath = [], ppError = Some e\<rparr>"

text \<open>
  \<open>strings.ToLower\<close> on ASCII. It differs only on names with other characters, which the pattern
  refuses.
\<close>

definition lower_ascii :: "gostring \<Rightarrow> gostring" where
  "lower_ascii s = map (\<lambda>c. if 65 \<le> unat c \<and> unat c \<le> 90 then c + 32 else c) s"

definition isReservedMeshName :: "gostring \<Rightarrow> bool" where
  "isReservedMeshName meshName \<longleftrightarrow> lower_ascii meshName \<in> set (map str
     [''local'', ''localhost'', ''world'', ''global'', ''system'', ''admin'',
      ''root'', ''default'', ''main'', ''primary'', ''secondary'', ''backup'',
      ''test'', ''testing'', ''dev'', ''development'', ''prod'', ''production'',
      ''staging'', ''debug'', ''null'', ''undefined'', ''unknown'', ''standalone''])"

definition isAlnum :: "u8 \<Rightarrow> bool" where
  "isAlnum c \<longleftrightarrow> (let n = unat c in 48 \<le> n \<and> n \<le> 57 \<or> 65 \<le> n \<and> n \<le> 90 \<or> 97 \<le> n \<and> n \<le> 122)"

text \<open>The pattern \<open>^[a-zA-Z0-9][a-zA-Z0-9_-]*[a-zA-Z0-9]$\<close>.\<close>

definition meshNameRegex :: "gostring \<Rightarrow> bool" where
  "meshNameRegex s \<longleftrightarrow>
     2 \<le> length s \<and> isAlnum (hd s) \<and> isAlnum (last s) \<and>
     list_all (\<lambda>c. isAlnum c \<or> c = 95 \<or> c = 45) (butlast (tl s))"

definition IsValidMeshName :: "gostring \<Rightarrow> bool" where
  "IsValidMeshName meshName =
     (if meshName = [] then False
      else if length meshName < 2 \<or> 63 < length meshName then False
      else if isReservedMeshName meshName then False
      else meshNameRegex meshName)"

definition isReservedComponent :: "gostring \<Rightarrow> bool" where
  "isReservedComponent component \<longleftrightarrow> component \<in> set (map str ['''', ''.'', ''..'', ''my'', ''world''])"

definition parseBridgePath :: "gostring list \<Rightarrow> ParsedPath" where
  "parseBridgePath path =
     (if length path < 2 then invalid path BridgePathTooShort
      else let meshName = path ! 1 in
           if \<not> IsValidMeshName meshName then invalid path (InvalidMeshName meshName)
           else \<lparr>ppType = BridgePath, ppOriginalPath = path, ppMeshName = meshName,
                 ppLocalPath = (if 2 < length path then drop 2 path else []), ppError = None\<rparr>)"

definition parseWorldPath :: "gostring list \<Rightarrow> ParsedPath" where
  "parseWorldPath path =
     \<lparr>ppType = WorldPath, ppOriginalPath = path, ppMeshName = [], ppLocalPath = path, ppError = None\<rparr>"

definition parseLocalPath :: "gostring list \<Rightarrow> ParsedPath" where
  "parseLocalPath path =
     (case find isReservedComponent path of
        Some component \<Rightarrow> invalid path (ReservedComponent component)
      | None \<Rightarrow>
          \<lparr>ppType = LocalPath, ppOriginalPath = path, ppMeshName = [], ppLocalPath = path, ppError = None\<rparr>)"

definition ParsePath :: "gostring list \<Rightarrow> ParsedPath" where
  "ParsePath path =
     (case path of
        [] \<Rightarrow> invalid path EmptyMeshPath
      | c # _ \<Rightarrow>
          if c = str ''my'' then parseBridgePath path
          else if c = str ''world'' then parseWorldPath path
          else parseLocalPath path)"

definition ConvertBridgePathToAgentPath :: "gostring list \<Rightarrow> gostring \<Rightarrow> path_error + gostring list" where
  "ConvertBridgePathToAgentPath bridgePath bridgeIdentityID =
     (let parsed = ParsePath bridgePath in
      if ppType parsed \<noteq> BridgePath then Inl NotABridgePath
      else case ppError parsed of
             Some e \<Rightarrow> Inl e
           | None \<Rightarrow> Inr ([str ''world'', str ''agent'', bridgeIdentityID] @ ppLocalPath parsed))"

definition GetMeshNameFromBridgePath :: "gostring list \<Rightarrow> path_error + gostring" where
  "GetMeshNameFromBridgePath path =
     (let parsed = ParsePath path in
      if ppType parsed \<noteq> BridgePath then Inl NotABridgePath
      else case ppError parsed of Some e \<Rightarrow> Inl e | None \<Rightarrow> Inr (ppMeshName parsed))"

definition IsBridgePath :: "gostring list \<Rightarrow> bool" where
  "IsBridgePath path \<longleftrightarrow> ppType (ParsePath path) = BridgePath \<and> ppError (ParsePath path) = None"
definition IsLocalPath :: "gostring list \<Rightarrow> bool" where
  "IsLocalPath path \<longleftrightarrow> ppType (ParsePath path) = LocalPath \<and> ppError (ParsePath path) = None"
definition IsWorldPath :: "gostring list \<Rightarrow> bool" where
  "IsWorldPath path \<longleftrightarrow> ppType (ParsePath path) = WorldPath \<and> ppError (ParsePath path) = None"
definition ValidatePath :: "gostring list \<Rightarrow> path_error option" where
  "ValidatePath path = ppError (ParsePath path)"

definition FormatPath :: "gostring list \<Rightarrow> gostring" where "FormatPath path = join path"

definition ParsePathString :: "gostring \<Rightarrow> gostring list" where
  "ParsePathString pathStr = (if pathStr = [] then [] else split_dots pathStr)"

text \<open>Formatting and parsing path strings are inverse to each other.\<close>

lemma ParsePathString_FormatPath:
  "FormatPath (ParsePathString s) = s"
  "dotless path \<Longrightarrow> path \<noteq> [[]] \<Longrightarrow> ParsePathString (FormatPath path) = path"
proof -
  show "FormatPath (ParsePathString s) = s" by (simp add: FormatPath_def ParsePathString_def join_split)
  assume a: "dotless path" "path \<noteq> [[]]"
  show "ParsePathString (FormatPath path) = path"
  proof (cases "path = []")
    case False
    then have "join path \<noteq> []" using a by (cases path rule: join.cases) auto
    then show ?thesis using split_join [OF a(1) False] by (simp add: FormatPath_def ParsePathString_def)
  qed (simp add: FormatPath_def ParsePathString_def)
qed

subsection \<open>Identities\<close>

record Identity =
  idID :: gostring
  idType :: AgentType
  idMeshName :: gostring
  idCreated :: int
  idNodeID :: gostring

record IdentityManager =
  imNodeIdentity :: "Identity option"
  imBridgeIdentities :: "(gostring \<times> Identity) list"
  imMeshName :: gostring
  imNodeID :: gostring

datatype identity_error =
    WrongAgentType AgentType
  | IdentityNil
  | EmptyIdentityID
  | InvalidAgentType AgentType
  | EmptyMeshName
  | ZeroCreated
  | IdentityNotFound gostring
  | NoBridgeIdentity gostring
  | MeshMismatch gostring gostring
  | NotMobile AgentType
  | NodeMismatch gostring gostring

definition NewIdentityManager :: "gostring \<Rightarrow> gostring \<Rightarrow> IdentityManager" where
  "NewIdentityManager meshName nodeID =
     \<lparr>imNodeIdentity = None, imBridgeIdentities = [], imMeshName = meshName, imNodeID = nodeID\<rparr>"

definition generateIdentityID :: "bytes \<Rightarrow> gostring" where
  "generateIdentityID random = hex (take 16 random)"

definition GenerateNodeIdentity :: "bytes \<Rightarrow> int \<Rightarrow> IdentityManager \<Rightarrow> Identity \<times> IdentityManager" where
  "GenerateNodeIdentity random now im =
     (let identity = \<lparr>idID = generateIdentityID random, idType = NodeAgent, idMeshName = imMeshName im,
                      idCreated = now, idNodeID = imNodeID im\<rparr>
      in (identity, im\<lparr>imNodeIdentity := Some identity\<rparr>))"

definition GetNodeIdentity :: "IdentityManager \<Rightarrow> Identity option" where
  "GetNodeIdentity im = imNodeIdentity im"

definition SetNodeIdentity :: "Identity \<Rightarrow> IdentityManager \<Rightarrow> (identity_error + unit) \<times> IdentityManager" where
  "SetNodeIdentity identity im =
     (if idType identity \<noteq> NodeAgent then (Inl (WrongAgentType (idType identity)), im)
      else (Inr (), im\<lparr>imNodeIdentity := Some identity\<rparr>))"

definition im_CreateBridgeIdentity :: "bytes \<Rightarrow> int \<Rightarrow> gostring \<Rightarrow> IdentityManager \<Rightarrow> Identity \<times> IdentityManager" where
  "im_CreateBridgeIdentity random now targetMeshName im =
     (case map_of (imBridgeIdentities im) targetMeshName of
        Some existing \<Rightarrow> (existing, im)
      | None \<Rightarrow>
          (let identity = \<lparr>idID = generateIdentityID random, idType = MobileAgent, idMeshName = targetMeshName,
                           idCreated = now, idNodeID = imNodeID im\<rparr>
           in (identity, im\<lparr>imBridgeIdentities := aset targetMeshName identity (imBridgeIdentities im)\<rparr>)))"

definition im_GetBridgeIdentity :: "IdentityManager \<Rightarrow> gostring \<Rightarrow> Identity option" where
  "im_GetBridgeIdentity im meshName = map_of (imBridgeIdentities im) meshName"

definition im_RemoveBridgeIdentity :: "gostring \<Rightarrow> IdentityManager \<Rightarrow> IdentityManager" where
  "im_RemoveBridgeIdentity meshName im =
     im\<lparr>imBridgeIdentities := filter (\<lambda>(m, i). m \<noteq> meshName) (imBridgeIdentities im)\<rparr>"

definition ListBridgeIdentities :: "IdentityManager \<Rightarrow> (gostring \<times> Identity) list" where
  "ListBridgeIdentities im = imBridgeIdentities im"

definition UpdateMeshName :: "gostring \<Rightarrow> IdentityManager \<Rightarrow> IdentityManager" where
  "UpdateMeshName newMeshName im =
     im\<lparr>imMeshName := newMeshName,
        imNodeIdentity := map_option (\<lambda>i. i\<lparr>idMeshName := newMeshName\<rparr>) (imNodeIdentity im)\<rparr>"

definition GetAgentHomePath :: "Identity \<Rightarrow> gostring" where
  "GetAgentHomePath identity =
     (if idType identity = NodeAgent then str ''world.node.'' @ idNodeID identity
      else if idType identity = MobileAgent then str ''world.agent.'' @ idID identity
      else [])"

definition ValidateIdentity :: "Identity option \<Rightarrow> identity_error + unit" where
  "ValidateIdentity identity =
     (case identity of
        None \<Rightarrow> Inl IdentityNil
      | Some i \<Rightarrow>
          if idID i = [] then Inl EmptyIdentityID
          else if \<not> AgentType_IsValid (idType i) then Inl (InvalidAgentType (idType i))
          else if idMeshName i = [] then Inl EmptyMeshName
          else if idCreated i = zero_time then Inl ZeroCreated
          else Inr ())"

definition IsConflict :: "Identity option \<Rightarrow> Identity option \<Rightarrow> bool" where
  "IsConflict id1 id2 =
     (case (id1, id2) of
        (Some a, Some b) \<Rightarrow>
          idID a = idID b \<and> idMeshName a = idMeshName b \<or>
          idType a = NodeAgent \<and> idType b = NodeAgent \<and> idNodeID a = idNodeID b \<and> idMeshName a = idMeshName b
      | _ \<Rightarrow> False)"

text \<open>The first bridge identity with the ID, in iteration order.\<close>

definition RemoveIdentity :: "gostring \<Rightarrow> IdentityManager \<Rightarrow> (identity_error + unit) \<times> IdentityManager" where
  "RemoveIdentity identityID im =
     (if (case imNodeIdentity im of Some i \<Rightarrow> idID i = identityID | None \<Rightarrow> False)
      then (Inr (), im\<lparr>imNodeIdentity := None\<rparr>)
      else case find (\<lambda>(m, i). idID i = identityID) (imBridgeIdentities im) of
             Some (meshName, i) \<Rightarrow> (Inr (), im_RemoveBridgeIdentity meshName im)
           | None \<Rightarrow> (Inl (IdentityNotFound identityID), im))"

subsection \<open>Bridge identities with keys\<close>

record DerivedKey =
  dkMeshName :: gostring
  dkKeyMaterial :: bytes
  dkCreatedAt :: int

record BridgeIdentityManager =
  bimPrimaryIdentity :: Identity
  bimBridgeIdentities :: "(gostring \<times> Identity) list"
  bimIdentityKeys :: "(gostring \<times> DerivedKey) list"

definition NewBridgeIdentityManager :: "Identity \<Rightarrow> BridgeIdentityManager" where
  "NewBridgeIdentityManager primaryIdentity =
     \<lparr>bimPrimaryIdentity = primaryIdentity, bimBridgeIdentities = [], bimIdentityKeys = []\<rparr>"

definition generateBridgeID :: "bytes \<Rightarrow> BridgeIdentityManager \<Rightarrow> gostring \<Rightarrow> gostring" where
  "generateBridgeID random bim targetMeshName =
     (let primaryPrefix = take 8 (idID (bimPrimaryIdentity bim)) in
      str ''bridge-'' @ primaryPrefix @ str ''-'' @ targetMeshName @ str ''-'' @ hex (take 4 random))"

text \<open>The key is the seed, cut or padded with zeros to 32 bytes.\<close>

definition deriveKeyForMesh :: "int \<Rightarrow> BridgeIdentityManager \<Rightarrow> gostring \<Rightarrow> Identity \<Rightarrow> DerivedKey" where
  "deriveKeyForMesh now bim meshName bridgeIdentity =
     (let seed = idID (bimPrimaryIdentity bim) @ str '':'' @ meshName @ str '':'' @ idID bridgeIdentity in
      \<lparr>dkMeshName = meshName, dkKeyMaterial = take 32 (seed @ replicate 32 0), dkCreatedAt = now\<rparr>)"

definition bim_CreateBridgeIdentity ::
  "bytes \<Rightarrow> int \<Rightarrow> gostring \<Rightarrow> BridgeIdentityManager \<Rightarrow> Identity \<times> BridgeIdentityManager" where
  "bim_CreateBridgeIdentity random now targetMeshName bim =
     (case map_of (bimBridgeIdentities bim) targetMeshName of
        Some existing \<Rightarrow> (existing, bim)
      | None \<Rightarrow>
          (let bridgeIdentity = \<lparr>idID = generateBridgeID random bim targetMeshName, idType = MobileAgent,
                 idMeshName = targetMeshName, idCreated = now, idNodeID = idNodeID (bimPrimaryIdentity bim)\<rparr>;
               derivedKey = deriveKeyForMesh now bim targetMeshName bridgeIdentity
           in (bridgeIdentity,
               bim\<lparr>bimBridgeIdentities := aset targetMeshName bridgeIdentity (bimBridgeIdentities bim),
                   bimIdentityKeys := aset targetMeshName derivedKey (bimIdentityKeys bim)\<rparr>)))"

definition bim_GetBridgeIdentity :: "BridgeIdentityManager \<Rightarrow> gostring \<Rightarrow> Identity option" where
  "bim_GetBridgeIdentity bim meshName = map_of (bimBridgeIdentities bim) meshName"
definition GetBridgeKey :: "BridgeIdentityManager \<Rightarrow> gostring \<Rightarrow> DerivedKey option" where
  "GetBridgeKey bim meshName = map_of (bimIdentityKeys bim) meshName"
definition GetAllBridgeIdentities :: "BridgeIdentityManager \<Rightarrow> (gostring \<times> Identity) list" where
  "GetAllBridgeIdentities bim = bimBridgeIdentities bim"
definition GetBridgeCount :: "BridgeIdentityManager \<Rightarrow> nat" where
  "GetBridgeCount bim = length (bimBridgeIdentities bim)"

definition bim_RemoveBridgeIdentity ::
  "gostring \<Rightarrow> BridgeIdentityManager \<Rightarrow> (identity_error + unit) \<times> BridgeIdentityManager" where
  "bim_RemoveBridgeIdentity meshName bim =
     (if map_of (bimBridgeIdentities bim) meshName = None then (Inl (NoBridgeIdentity meshName), bim)
      else (Inr (), bim\<lparr>bimBridgeIdentities := filter (\<lambda>(m, i). m \<noteq> meshName) (bimBridgeIdentities bim),
                       bimIdentityKeys := filter (\<lambda>(m, k). m \<noteq> meshName) (bimIdentityKeys bim)\<rparr>))"

definition ValidateBridgeIdentity :: "BridgeIdentityManager \<Rightarrow> gostring \<Rightarrow> Identity option \<Rightarrow> identity_error + unit" where
  "ValidateBridgeIdentity bim meshName identity =
     (case identity of
        None \<Rightarrow> Inl IdentityNil
      | Some i \<Rightarrow>
          if idMeshName i \<noteq> meshName then Inl (MeshMismatch (idMeshName i) meshName)
          else if idType i \<noteq> MobileAgent then Inl (NotMobile (idType i))
          else if idNodeID i \<noteq> idNodeID (bimPrimaryIdentity bim) then
            Inl (NodeMismatch (idNodeID i) (idNodeID (bimPrimaryIdentity bim)))
          else Inr ())"

definition RefreshBridgeKey ::
  "int \<Rightarrow> gostring \<Rightarrow> BridgeIdentityManager \<Rightarrow> (identity_error + unit) \<times> BridgeIdentityManager" where
  "RefreshBridgeKey now meshName bim =
     (case map_of (bimBridgeIdentities bim) meshName of
        None \<Rightarrow> (Inl (NoBridgeIdentity meshName), bim)
      | Some identity \<Rightarrow>
          (Inr (), bim\<lparr>bimIdentityKeys := aset meshName (deriveKeyForMesh now bim meshName identity) (bimIdentityKeys bim)\<rparr>))"

text \<open>
  Every bridge identity of the manager is valid for its mesh and has a key, and identities the
  manager creates pass its own validation.
\<close>

definition bim_inv :: "BridgeIdentityManager \<Rightarrow> bool" where
  "bim_inv bim \<longleftrightarrow>
     (\<forall>m i. map_of (bimBridgeIdentities bim) m = Some i \<longrightarrow>
        ValidateBridgeIdentity bim m (Some i) = Inr () \<and> map_of (bimIdentityKeys bim) m \<noteq> None)"

lemma ValidateBridgeIdentity_iff:
  "ValidateBridgeIdentity bim m (Some i) = Inr () \<longleftrightarrow>
     idMeshName i = m \<and> idType i = MobileAgent \<and> idNodeID i = idNodeID (bimPrimaryIdentity bim)"
  by (simp add: ValidateBridgeIdentity_def)

lemma bim_inv_preserved:
  assumes "bim_inv bim"
  shows "bim_inv (snd (bim_CreateBridgeIdentity random now target bim))"
    "bim_inv (snd (bim_RemoveBridgeIdentity meshName bim))"
    "bim_inv (snd (RefreshBridgeKey now meshName bim))"
proof -
  have f: "map_of (filter (\<lambda>(m, i). m \<noteq> n) l) m = (if m = n then None else map_of l m)" for l n and m :: gostring
    by (induction l) auto
  show "bim_inv (snd (bim_CreateBridgeIdentity random now target bim))"
    using assms by (auto simp: bim_inv_def bim_CreateBridgeIdentity_def ValidateBridgeIdentity_iff Let_def
        split: option.splits if_splits)
  show "bim_inv (snd (bim_RemoveBridgeIdentity meshName bim))"
    using assms by (auto simp: bim_inv_def bim_RemoveBridgeIdentity_def ValidateBridgeIdentity_iff f split: if_splits)
  show "bim_inv (snd (RefreshBridgeKey now meshName bim))"
    using assms by (auto simp: bim_inv_def RefreshBridgeKey_def ValidateBridgeIdentity_iff split: option.splits if_splits)
qed

text \<open>
  A generated identity has 32 characters, so the key derived from it is the identity itself,
  whatever the mesh.
\<close>

lemma derived_key_is_the_identity:
  assumes "16 \<le> length random" "idID (bimPrimaryIdentity bim) = generateIdentityID random"
  shows "dkKeyMaterial (deriveKeyForMesh now bim meshName bridgeIdentity) = idID (bimPrimaryIdentity bim)"
  using assms by (simp add: deriveKeyForMesh_def generateIdentityID_def)

end
