(* ===== verification/Directory.thy ===== *)
theory Directory
  imports Identity
begin

text \<open>
  The directory of authorities (\<open>src/internal/directory/directory.go\<close>) and the subscription
  registry (\<open>src/internal/subscription/subscription.go\<close>). Go maps are lists of their entries in
  iteration order. Nodes exchange snapshots of their directories and merge them by timestamp; the
  locale \<open>gossip_map\<close> is what makes such an exchange converge.
\<close>

subsection \<open>The directory\<close>

record DirectoryEntry =
  dePath :: gostring
  deAuthority :: "Identity option"
  deTimestamp :: int

type_synonym Directory = "(gostring \<times> DirectoryEntry) list"

definition NewDirectory :: Directory where "NewDirectory = []"

definition dir_Set :: "gostring \<Rightarrow> Identity option \<Rightarrow> int \<Rightarrow> Directory \<Rightarrow> Directory" where
  "dir_Set path authority timestamp d =
     aset path \<lparr>dePath = path, deAuthority = authority, deTimestamp = timestamp\<rparr> d"

text \<open>The loop over all entries keeps the longest ancestor seen so far.\<close>

definition best_step ::
  "gostring \<Rightarrow> gostring \<times> DirectoryEntry \<Rightarrow> DirectoryEntry option \<times> nat \<Rightarrow> DirectoryEntry option \<times> nat" where
  "best_step path = (\<lambda>(entryPath, entry) (bestMatch, bestLength).
     if HasPrefix path entryPath \<and> (path = entryPath \<or> HasPrefix (drop (length entryPath) path) [dot]) \<and>
        bestLength < length entryPath
     then (Some entry, length entryPath) else (bestMatch, bestLength))"

definition dir_Get :: "Directory \<Rightarrow> gostring \<Rightarrow> (Identity option \<times> int) option" where
  "dir_Get d path =
     (case map_of d path of
        Some entry \<Rightarrow> Some (deAuthority entry, deTimestamp entry)
      | None \<Rightarrow> map_option (\<lambda>entry. (deAuthority entry, deTimestamp entry)) (fst (fold (best_step path) d (None, 0))))"

definition dir_Delete :: "gostring \<Rightarrow> Directory \<Rightarrow> Directory" where
  "dir_Delete path d = adel path d"

definition Snapshot :: "Directory \<Rightarrow> DirectoryEntry list" where
  "Snapshot d = map snd d"

definition merge_step :: "DirectoryEntry \<Rightarrow> Directory \<Rightarrow> Directory" where
  "merge_step incomingEntry d =
     (case map_of d (dePath incomingEntry) of
        None \<Rightarrow> aset (dePath incomingEntry) incomingEntry d
      | Some existingEntry \<Rightarrow>
          if deTimestamp existingEntry < deTimestamp incomingEntry
          then aset (dePath incomingEntry) incomingEntry d else d)"

definition Merge :: "DirectoryEntry list \<Rightarrow> Directory \<Rightarrow> Directory" where
  "Merge entries d = fold merge_step entries d"

definition Size :: "Directory \<Rightarrow> nat" where "Size d = length d"

text \<open>Keys occur once, and an entry is filed under its own path.\<close>

definition dir_inv :: "Directory \<Rightarrow> bool" where
  "dir_inv d \<longleftrightarrow> distinct (map fst d) \<and> (\<forall>p e. map_of d p = Some e \<longrightarrow> dePath e = p)"

declare map_of_eq_Some_iff [simp del]

lemma dir_inv_ops:
  "dir_inv NewDirectory"
  "dir_inv d \<Longrightarrow> dir_inv (dir_Set path authority timestamp d)"
  "dir_inv d \<Longrightarrow> dir_inv (dir_Delete path d)"
  "dir_inv d \<Longrightarrow> dir_inv (merge_step e d)"
  by (auto simp: dir_inv_def NewDirectory_def dir_Set_def dir_Delete_def merge_step_def split: option.splits)

lemma dir_inv_Merge: "dir_inv d \<Longrightarrow> dir_inv (Merge es d)"
  unfolding Merge_def by (induction es arbitrary: d) (simp_all add: dir_inv_ops)

lemma dir_inv_entries:
  assumes "dir_inv d"
  shows "(p, e) \<in> set d \<longleftrightarrow> map_of d p = Some e" "map_of d p = Some e \<Longrightarrow> dePath e = p"
    "\<forall>(p, e) \<in> set d. dePath e = p"
proof -
  show m: "(p, e) \<in> set d \<longleftrightarrow> map_of d p = Some e" for p e
    using assms map_of_eq_Some_iff [of d p e] by (simp add: dir_inv_def)
  show k: "map_of d p = Some e \<Longrightarrow> dePath e = p" for p e using assms by (simp add: dir_inv_def)
  show "\<forall>(p, e) \<in> set d. dePath e = p" using m k by blast
qed

lemma set_Snapshot:
  assumes "dir_inv d"
  shows "e \<in> set (Snapshot d) \<longleftrightarrow> map_of d (dePath e) = Some e"
proof
  assume "e \<in> set (Snapshot d)"
  then obtain p where "(p, e) \<in> set d" by (auto simp: Snapshot_def)
  then have "map_of d p = Some e" using dir_inv_entries(1) [OF assms] by simp
  then show "map_of d (dePath e) = Some e" using dir_inv_entries(2) [OF assms] by simp
qed (force simp: Snapshot_def dest: map_of_SomeD)

subsection \<open>Longest prefix\<close>

text \<open>\<open>anc path p\<close>: \<open>p\<close> is the path or an ancestor of it.\<close>

definition anc :: "gostring \<Rightarrow> gostring \<Rightarrow> bool" where
  "anc path p \<longleftrightarrow> path = p \<or> HasPrefix path (p @ [dot])"

lemma best_step_cond:
  "HasPrefix path p \<and> (path = p \<or> HasPrefix (drop (length p) path) [dot]) \<longleftrightarrow> anc path p"
  by (auto simp: anc_def HasPrefix_iff)

definition best_ok :: "gostring \<Rightarrow> DirectoryEntry option \<Rightarrow> nat \<Rightarrow> bool" where
  "best_ok path b n \<longleftrightarrow>
     (case b of None \<Rightarrow> n = 0 | Some e \<Rightarrow> anc path (dePath e) \<and> n = length (dePath e) \<and> 0 < n)"

lemma fold_best_step:
  assumes "fold (best_step path) d (b, n) = (b', n')" "best_ok path b n"
    and "\<forall>(p, e) \<in> set d. dePath e = p"
  shows "best_ok path b' n' \<and> n \<le> n' \<and> (\<forall>(p, e) \<in> set d. anc path p \<longrightarrow> length p \<le> n') \<and>
    (b' = b \<or> b' \<in> Some ` snd ` set d)"
  using assms
proof (induction d arbitrary: b n)
  case Nil
  then show ?case by simp
next
  case (Cons x d)
  obtain p e where x: "x = (p, e)" by (cases x)
  have pe: "dePath e = p" using Cons.prems(3) x by auto
  show ?case
  proof (cases "anc path p \<and> n < length p")
    case True
    then have s: "best_step path x (b, n) = (Some e, length p)"
      using best_step_cond [of path p] by (simp add: best_step_def x)
    moreover have "best_ok path (Some e) (length p)" using True pe by (auto simp: best_ok_def)
    ultimately show ?thesis
      using Cons.IH [of "Some e" "length p"] Cons.prems True x by auto
  next
    case False
    then have s: "best_step path x (b, n) = (b, n)"
      using best_step_cond [of path p] by (auto simp: best_step_def x)
    then show ?thesis
      using Cons.IH [of b n] Cons.prems False x by auto
  qed
qed

lemma anc_length_unique: "anc path p \<Longrightarrow> anc path q \<Longrightarrow> length p = length q \<Longrightarrow> p = q"
  by (auto simp: anc_def HasPrefix_iff append_eq_append_conv)

text \<open>The entry for the longest non-empty ancestor, if there is one.\<close>

lemma dir_Get_longest:
  assumes i: "dir_inv d" and g: "dir_Get d path = Some r"
  obtains e where "map_of d (dePath e) = Some e" "r = (deAuthority e, deTimestamp e)" "anc path (dePath e)"
    "dePath e = path \<or> dePath e \<noteq> []"
    "\<And>q. map_of d q \<noteq> None \<Longrightarrow> anc path q \<Longrightarrow> length q \<le> length (dePath e)"
proof (cases "map_of d path")
  case (Some e)
  then have "dePath e = path" using i by (auto simp: dir_inv_def)
  moreover have "length q \<le> length path" if "anc path q" for q using that by (auto simp: anc_def HasPrefix_iff)
  ultimately show ?thesis using that Some g by (auto simp: dir_Get_def anc_def)
next
  case None
  note k = dir_inv_entries(3) [OF i]
  obtain b n where f: "fold (best_step path) d (None, 0) = (b, n)" by (cases "fold (best_step path) d (None, 0)")
  with g None obtain e where b: "b = Some e" "r = (deAuthority e, deTimestamp e)" by (auto simp: dir_Get_def)
  note s = fold_best_step [OF f _ k]
  have "e \<in> snd ` set d" "anc path (dePath e)" "n = length (dePath e)" "\<forall>(p, e) \<in> set d. anc path p \<longrightarrow> length p \<le> n"
    "dePath e \<noteq> []"
    using s b by (auto simp: image_iff best_ok_def)
  moreover from this have "map_of d (dePath e) = Some e" using dir_inv_entries(1) [OF i] k by auto
  moreover have "length q \<le> n" if "map_of d q \<noteq> None" "anc path q" for q
    using that calculation(4) by (auto dest: map_of_SomeD)
  ultimately show ?thesis using that b by blast
qed

lemma dir_Get_None:
  assumes i: "dir_inv d" and g: "dir_Get d path = None"
  shows "map_of d path = None" "\<And>q. q \<noteq> [] \<Longrightarrow> anc path q \<Longrightarrow> map_of d q = None"
proof -
  show n: "map_of d path = None" using g by (auto simp: dir_Get_def split: option.splits)
  fix q assume q: "q \<noteq> []" "anc path q"
  note k = dir_inv_entries(3) [OF i]
  obtain b m where f: "fold (best_step path) d (None, 0) = (b, m)" by (cases "fold (best_step path) d (None, 0)")
  then have "b = None" using g n by (simp add: dir_Get_def)
  then have "\<forall>(p, e) \<in> set d. anc path p \<longrightarrow> length p \<le> 0" using fold_best_step [OF f _ k] by (auto simp: best_ok_def)
  then show "map_of d q = None" using q by (auto simp: map_of_eq_None_iff)
qed

text \<open>What is found depends on the entries only, not on the order in which they are visited.\<close>

lemma dir_Get_cong:
  assumes d: "dir_inv d" and e: "dir_inv e" and m: "map_of d = map_of e"
  shows "dir_Get d path = dir_Get e path"
proof -
  have "dir_Get e path = Some r" if "dir_inv d" "dir_inv e" "map_of d = map_of e" "dir_Get d path = Some r" for d e r
  proof -
    note d = that(1) and e = that(2) and m = that(3)
    from d that(4) obtain x where x: "map_of d (dePath x) = Some x" "r = (deAuthority x, deTimestamp x)"
      "anc path (dePath x)" "dePath x = path \<or> dePath x \<noteq> []"
      "\<And>q. map_of d q \<noteq> None \<Longrightarrow> anc path q \<Longrightarrow> length q \<le> length (dePath x)" by (rule dir_Get_longest) blast
    have "map_of e (dePath x) = Some x" using x(1) m by simp
    then have "dir_Get e path \<noteq> None"
      using dir_Get_None(1) [OF e, of path] dir_Get_None(2) [OF e, of path "dePath x"] x(3,4) by (cases "dePath x = path") (auto simp del: not_None_eq)
    then obtain r' where "dir_Get e path = Some r'" by blast
    with e obtain y where y: "map_of e (dePath y) = Some y" "r' = (deAuthority y, deTimestamp y)" "anc path (dePath y)"
      "\<And>q. map_of e q \<noteq> None \<Longrightarrow> anc path q \<Longrightarrow> length q \<le> length (dePath y)" by (rule dir_Get_longest) blast
    have "length (dePath x) = length (dePath y)" using x(5) [of "dePath y"] y(4) [of "dePath x"] x(1,3) y(1,3) m by (intro order_antisym) auto
    then have "dePath x = dePath y" using anc_length_unique x(3) y(3) by blast
    then have "Some x = Some y" using trans [OF x(1) [symmetric] fun_cong [OF m]] y(1) by metis
    then have "x = y" by blast
    then show ?thesis using x(2) y(2) \<open>dir_Get e path = Some r'\<close> by simp
  qed
  from this [OF d e m] this [OF e d m [symmetric]] show ?thesis by (intro option_eqI) blast
qed

subsection \<open>Merging\<close>

text \<open>
  What a gossip exchange needs of a map: merging a list of timestamped entries leaves, for every
  key, an entry that is at least as new as all seen and one of them.
\<close>

locale gossip_map =
  fixes lookup :: "'s \<Rightarrow> 'k \<Rightarrow> 'e option"
    and merge :: "'e list \<Rightarrow> 's \<Rightarrow> 's"
    and entries :: "'s \<Rightarrow> 'e list"
    and key :: "'e \<Rightarrow> 'k"
    and stamp :: "'e \<Rightarrow> int"
    and inv :: "'s \<Rightarrow> bool"
  assumes merge_inv: "inv s \<Longrightarrow> inv (merge es s)"
    and merge_member: "inv s \<Longrightarrow> lookup (merge es s) k = Some e \<Longrightarrow> (e \<in> set es \<or> lookup s k = Some e) \<and> key e = k"
    and merge_newest: "inv s \<Longrightarrow> e \<in> set es \<or> lookup s (key e) = Some e \<Longrightarrow>
      \<exists>e'. lookup (merge es s) (key e) = Some e' \<and> stamp e \<le> stamp e'"
    and entries_lookup: "inv s \<Longrightarrow> e \<in> set (entries s) \<longleftrightarrow> lookup s (key e) = Some e"
begin

definition agree :: "'e set \<Rightarrow> bool" where
  "agree E \<longleftrightarrow> (\<forall>e \<in> E. \<forall>e' \<in> E. key e = key e' \<and> stamp e = stamp e' \<longrightarrow> e = e')"

text \<open>The result depends only on the entries seen.\<close>

lemma merge_determined:
  assumes "inv s" "inv t" "agree (set es \<union> set (entries s))"
    and "set es \<union> set (entries s) = set fs \<union> set (entries t)"
  shows "lookup (merge es s) k = lookup (merge fs t) k"
proof -
  have le: "\<exists>e'. lookup (merge gs u) k = Some e' \<and> stamp e \<le> stamp e'"
    if "inv u" "e \<in> set gs \<union> set (entries u)" "key e = k" for u gs e
    using merge_newest [OF that(1), of e gs] that entries_lookup by auto
  have mem: "e \<in> set gs \<union> set (entries u) \<and> key e = k" if "inv u" "lookup (merge gs u) k = Some e" for u gs e
    using merge_member [OF that(1), of gs k e] that entries_lookup [OF that(1)] by auto
  show ?thesis
  proof (rule option_eqI)
    have one: "lookup (merge gs' u') k = Some e"
      if a: "inv u" "inv u'" "lookup (merge gs u) k = Some e"
        "set gs \<union> set (entries u) = set gs' \<union> set (entries u')" "agree (set gs \<union> set (entries u))" for u u' gs gs' e
    proof -
      have e: "e \<in> set gs' \<union> set (entries u')" "key e = k" using mem [OF a(1,3)] a(4) by auto
      obtain e' where e': "lookup (merge gs' u') k = Some e'" "stamp e \<le> stamp e'" using le [OF a(2) e] by blast
      have m': "e' \<in> set gs \<union> set (entries u)" "key e' = k" using mem [OF a(2) e'(1)] a(4) by auto
      then obtain e'' where "lookup (merge gs u) k = Some e''" "stamp e' \<le> stamp e''" using le [OF a(1) m'] by blast
      then have "stamp e = stamp e'" using a(3) e'(2) by simp
      then have "e = e'" using a(5) e m' a(4) unfolding agree_def by metis
      then show ?thesis using e' by simp
    qed
    fix e
    show "lookup (merge es s) k = Some e \<longleftrightarrow> lookup (merge fs t) k = Some e"
      using one [of s t es e fs] one [of t s fs e es] assms by auto
  qed
qed

lemma exchange_converges:
  assumes "inv s" "inv t" "agree (set (entries s) \<union> set (entries t))"
  shows "lookup (merge (entries t) s) k = lookup (merge (entries s) t) k"
  by (rule merge_determined) (use assms in \<open>auto simp: Un_commute\<close>)

lemma order_irrelevant:
  assumes "inv s" "set es = set fs" "agree (set es \<union> set (entries s))"
  shows "lookup (merge es s) k = lookup (merge fs s) k"
  by (rule merge_determined) (use assms in auto)

end

lemma merge_step_lookup:
  assumes "dir_inv d"
  shows "map_of (merge_step e d) k =
    (if k = dePath e \<and> (case map_of d k of None \<Rightarrow> True | Some x \<Rightarrow> deTimestamp x < deTimestamp e)
     then Some e else map_of d k)"
  by (auto simp: merge_step_def split: option.splits)

lemma Merge_member:
  "dir_inv d \<Longrightarrow> map_of (Merge es d) k = Some e \<Longrightarrow> (e \<in> set es \<or> map_of d k = Some e) \<and> dePath e = k"
proof (induction es arbitrary: d)
  case Nil
  then show ?case by (simp add: Merge_def dir_inv_def)
next
  case (Cons x es)
  then have "e \<in> set es \<or> map_of (merge_step x d) k = Some e" "dePath e = k"
    using dir_inv_ops(4) by (auto simp: Merge_def)
  then show ?case using merge_step_lookup [OF Cons.prems(1)] by (auto split: if_splits)
qed

lemma Merge_newest:
  "dir_inv d \<Longrightarrow> e \<in> set es \<or> map_of d (dePath e) = Some e \<Longrightarrow>
     \<exists>e'. map_of (Merge es d) (dePath e) = Some e' \<and> deTimestamp e \<le> deTimestamp e'"
proof -
  have keep: "\<exists>e'. map_of (Merge es d) k = Some e' \<and> deTimestamp x \<le> deTimestamp e'"
    if "dir_inv d" "map_of d k = Some x" for es d k x
    using that
  proof (induction es arbitrary: d x)
    case Nil
    then show ?case by (simp add: Merge_def)
  next
    case (Cons y es)
    obtain x' where "map_of (merge_step y d) k = Some x'" "deTimestamp x \<le> deTimestamp x'"
      using merge_step_lookup [OF Cons.prems(1), of y k] Cons.prems(2) by (auto split: if_splits)
    then show ?case using Cons.IH [of "merge_step y d" x'] dir_inv_ops(4) [OF Cons.prems(1)] by (force simp: Merge_def)
  qed
  assume "dir_inv d" "e \<in> set es \<or> map_of d (dePath e) = Some e"
  then show ?thesis
  proof (induction es arbitrary: d)
    case Nil
    then show ?case by (simp add: Merge_def)
  next
    case (Cons y es)
    show ?case
    proof (cases "e \<in> set es")
      case True
      then show ?thesis using Cons.IH [of "merge_step y d"] dir_inv_ops(4) [OF Cons.prems(1)] by (simp add: Merge_def)
    next
      case False
      then obtain x where "map_of (merge_step y d) (dePath e) = Some x" "deTimestamp e \<le> deTimestamp x"
        using Cons.prems merge_step_lookup [OF Cons.prems(1), of y "dePath e"] by (auto split: option.splits if_splits)
      then show ?thesis
        using keep [of "merge_step y d" "dePath e" x es] dir_inv_ops(4) [OF Cons.prems(1)] by (force simp: Merge_def)
    qed
  qed
qed

interpretation dirs: gossip_map map_of Merge Snapshot dePath deTimestamp dir_inv
  by unfold_locales (use dir_inv_Merge Merge_member Merge_newest set_Snapshot in \<open>blast\<close>)+

subsection \<open>The subscription registry\<close>

record Subscription =
  suPath :: gostring
  suAuthority :: "Identity option"

record SubscriptionRegistry =
  srSubscriptions :: "(gostring \<times> Identity option) list"
  srSubscribers :: "(gostring \<times> (gostring \<times> Identity) list) list"

definition NewSubscriptionRegistry :: SubscriptionRegistry where
  "NewSubscriptionRegistry = \<lparr>srSubscriptions = [], srSubscribers = []\<rparr>"

definition Subscribe :: "gostring \<Rightarrow> Identity option \<Rightarrow> SubscriptionRegistry \<Rightarrow> SubscriptionRegistry" where
  "Subscribe path authorityNode sr = sr\<lparr>srSubscriptions := aset path authorityNode (srSubscriptions sr)\<rparr>"

definition Unsubscribe :: "gostring \<Rightarrow> SubscriptionRegistry \<Rightarrow> SubscriptionRegistry" where
  "Unsubscribe path sr = sr\<lparr>srSubscriptions := adel path (srSubscriptions sr)\<rparr>"

definition AddSubscriber :: "gostring \<Rightarrow> Identity \<Rightarrow> SubscriptionRegistry \<Rightarrow> SubscriptionRegistry" where
  "AddSubscriber path subscriberNode sr =
     (let pathSubscribers = (case map_of (srSubscribers sr) path of None \<Rightarrow> [] | Some m \<Rightarrow> m) in
      sr\<lparr>srSubscribers := aset path (aset (idID subscriberNode) subscriberNode pathSubscribers) (srSubscribers sr)\<rparr>)"

definition RemoveSubscriber :: "gostring \<Rightarrow> Identity \<Rightarrow> SubscriptionRegistry \<Rightarrow> SubscriptionRegistry" where
  "RemoveSubscriber path subscriberNode sr =
     (case map_of (srSubscribers sr) path of
        None \<Rightarrow> sr
      | Some pathSubscribers \<Rightarrow>
          (let rest = adel (idID subscriberNode) pathSubscribers in
           sr\<lparr>srSubscribers := (if length rest = 0 then adel path (srSubscribers sr) else aset path rest (srSubscribers sr))\<rparr>))"

definition Subscribers :: "SubscriptionRegistry \<Rightarrow> gostring \<Rightarrow> Identity list" where
  "Subscribers sr path = (case map_of (srSubscribers sr) path of None \<Rightarrow> [] | Some m \<Rightarrow> map snd m)"

definition Subscriptions :: "SubscriptionRegistry \<Rightarrow> Subscription list" where
  "Subscriptions sr = map (\<lambda>(path, authority). \<lparr>suPath = path, suAuthority = authority\<rparr>) (srSubscriptions sr)"

definition GetSubscriptionAuthority :: "SubscriptionRegistry \<Rightarrow> gostring \<Rightarrow> Identity option option" where
  "GetSubscriptionAuthority sr path = map_of (srSubscriptions sr) path"

definition IsSubscribed :: "SubscriptionRegistry \<Rightarrow> gostring \<Rightarrow> bool" where
  "IsSubscribed sr path \<longleftrightarrow> map_of (srSubscriptions sr) path \<noteq> None"

definition HasSubscribers :: "SubscriptionRegistry \<Rightarrow> gostring \<Rightarrow> bool" where
  "HasSubscribers sr path =
     (case map_of (srSubscribers sr) path of None \<Rightarrow> False | Some m \<Rightarrow> 0 < length m)"

definition SubscriptionCount :: "SubscriptionRegistry \<Rightarrow> nat" where
  "SubscriptionCount sr = length (srSubscriptions sr)"

definition SubscriberCount :: "SubscriptionRegistry \<Rightarrow> nat" where
  "SubscriberCount sr = sum_list (map (\<lambda>(path, m). length m) (srSubscribers sr))"

definition PathsWithSubscribers :: "SubscriptionRegistry \<Rightarrow> gostring list" where
  "PathsWithSubscribers sr = map fst (srSubscribers sr)"

text \<open>
  No path is listed without a subscriber, keys occur once, and subscribers are filed under their
  own IDs.
\<close>

definition subscribers_ok :: "(gostring \<times> Identity) list \<Rightarrow> bool" where
  "subscribers_ok m \<longleftrightarrow> m \<noteq> [] \<and> distinct (map fst m) \<and> (\<forall>(n, i) \<in> set m. idID i = n)"

definition sr_inv :: "SubscriptionRegistry \<Rightarrow> bool" where
  "sr_inv sr \<longleftrightarrow> distinct (map fst (srSubscriptions sr)) \<and> distinct (map fst (srSubscribers sr)) \<and>
     (\<forall>p m. map_of (srSubscribers sr) p = Some m \<longrightarrow> subscribers_ok m)"

lemma subscribers_ok_add: "subscribers_ok m \<or> m = [] \<Longrightarrow> subscribers_ok (aset (idID i) i m)"
  using set_aset [of "idID i" i m] by (fastforce simp: subscribers_ok_def)

lemma sr_inv_ops:
  assumes "sr_inv sr"
  shows "sr_inv NewSubscriptionRegistry" "sr_inv (Subscribe path authority sr)" "sr_inv (Unsubscribe path sr)"
    "sr_inv (AddSubscriber path i sr)" "sr_inv (RemoveSubscriber path i sr)"
proof -
  show "sr_inv NewSubscriptionRegistry" "sr_inv (Subscribe path authority sr)" "sr_inv (Unsubscribe path sr)"
    using assms by (simp_all add: sr_inv_def NewSubscriptionRegistry_def Subscribe_def Unsubscribe_def)
  show "sr_inv (AddSubscriber path i sr)"
    using assms subscribers_ok_add by (auto simp: sr_inv_def AddSubscriber_def Let_def split: option.splits)
  show "sr_inv (RemoveSubscriber path i sr)"
  proof (cases "map_of (srSubscribers sr) path")
    case (Some m)
    then have "subscribers_ok m" using assms by (simp add: sr_inv_def)
    then have "adel (idID i) m \<noteq> [] \<Longrightarrow> subscribers_ok (adel (idID i) m)"
      by (auto simp: subscribers_ok_def adel_def distinct_map_filter)
    then show ?thesis using assms Some by (auto simp: sr_inv_def RemoveSubscriber_def Let_def)
  qed (use assms in \<open>simp add: RemoveSubscriber_def\<close>)
qed

text \<open>The subscribers of a path after a change, by node ID.\<close>

definition subscriber :: "SubscriptionRegistry \<Rightarrow> gostring \<Rightarrow> gostring \<Rightarrow> Identity option" where
  "subscriber sr path n = (case map_of (srSubscribers sr) path of None \<Rightarrow> None | Some m \<Rightarrow> map_of m n)"

lemma subscriber_after:
  "subscriber (AddSubscriber path i sr) p n = (if p = path \<and> n = idID i then Some i else subscriber sr p n)"
  "subscriber (RemoveSubscriber path i sr) p n = (if p = path \<and> n = idID i then None else subscriber sr p n)"
proof -
  show "subscriber (AddSubscriber path i sr) p n = (if p = path \<and> n = idID i then Some i else subscriber sr p n)"
    by (auto simp: subscriber_def AddSubscriber_def Let_def split: option.splits)
  show "subscriber (RemoveSubscriber path i sr) p n = (if p = path \<and> n = idID i then None else subscriber sr p n)"
  proof (cases "map_of (srSubscribers sr) path")
    case (Some m)
    have "map_of m n = None" if "adel (idID i) m = []" "n \<noteq> idID i" for n
      using that map_of_adel [of "idID i" m n] by simp
    with Some show ?thesis by (auto simp: subscriber_def RemoveSubscriber_def Let_def split: option.splits)
  qed (auto simp: subscriber_def RemoveSubscriber_def)
qed

lemma HasSubscribers_iff:
  assumes "sr_inv sr"
  shows "HasSubscribers sr path \<longleftrightarrow> path \<in> set (PathsWithSubscribers sr)"
proof -
  have "m \<noteq> []" if "map_of (srSubscribers sr) path = Some m" for m
    using assms that by (auto simp: sr_inv_def subscribers_ok_def)
  then show ?thesis
    by (auto simp: HasSubscribers_def PathsWithSubscribers_def map_of_eq_None_iff split: option.splits)
      (metis map_of_SomeD fst_conv image_eqI)
qed

end
