(* ===== verification/Watchers.thy ===== *)
theory Watchers
  imports Mbl_Compare
begin

text \<open>
  The watcher engine and its heartbeat (\<open>src/internal/watcher/engine.go\<close> and \<open>heartbeat.go\<close>). A
  watcher runs MBL code when something changes at or below a path it watches; what it changes
  triggers other watchers in the next tick. Running the code (lexer, parser and interpreter), the
  commit coordinator and whether an item can be read from storage are the parameters \<open>env\<close>, over a
  state \<open>'s\<close>; times are nanoseconds read from the clock by the caller. Go maps are lists of their
  entries in iteration order.
\<close>

subsection \<open>Watchers and events\<close>

datatype TriggerType = TriggerTypeValueChange | TriggerTypeAppend

text \<open>\<open>'e\<close> are the parser's expressions.\<close>

record 'e AppendEvent =
  aePath :: gostring
  aeItems :: "gostring list"
  aeFilters :: "'e list"
  aeTimestamp :: int

record 'e Watcher =
  wName :: gostring
  wWatching :: "gostring list"
  wEnabled :: bool
  wCode :: gostring
  wAgentID :: u64
  wTriggerType :: TriggerType
  wBindingName :: gostring
  wFilters :: "'e list"

record 'e WatcherEngine =
  weWatchers :: "(gostring \<times> 'e Watcher) list"
  weChangeLog :: "(gostring \<times> int) list"
  weAppendLog :: "(gostring \<times> 'e AppendEvent) list"
  wePendingCascadePaths :: "(gostring \<times> bool) list"
  weCascadeRounds :: nat
  weAgentID :: u64
  weLastTickTime :: int

datatype watcher_error = EmptyWatcherName | NoBindingName | WatcherNotFound gostring

definition NewWatcherEngine :: "u64 \<Rightarrow> int \<Rightarrow> 'e WatcherEngine" where
  "NewWatcherEngine agentID now =
     \<lparr>weWatchers = [], weChangeLog = [], weAppendLog = [], wePendingCascadePaths = [], weCascadeRounds = 0,
      weAgentID = agentID, weLastTickTime = now\<rparr>"

definition RegisterWatcherWithType ::
  "gostring \<Rightarrow> gostring list \<Rightarrow> gostring \<Rightarrow> TriggerType \<Rightarrow> gostring \<Rightarrow> 'e list \<Rightarrow> 'e WatcherEngine \<Rightarrow>
     (watcher_error + unit) \<times> 'e WatcherEngine" where
  "RegisterWatcherWithType name watching code triggerType bindingName filters we =
     (if name = [] then (Inl EmptyWatcherName, we)
      else if triggerType = TriggerTypeAppend \<and> bindingName = [] then (Inl NoBindingName, we)
      else (Inr (), we\<lparr>weWatchers := aset name
              \<lparr>wName = name, wWatching = watching, wEnabled = True, wCode = code, wAgentID = weAgentID we,
               wTriggerType = triggerType, wBindingName = bindingName, wFilters = filters\<rparr> (weWatchers we)\<rparr>))"

definition RegisterWatcher ::
  "gostring \<Rightarrow> gostring list \<Rightarrow> gostring \<Rightarrow> 'e WatcherEngine \<Rightarrow> (watcher_error + unit) \<times> 'e WatcherEngine" where
  "RegisterWatcher name watching code we = RegisterWatcherWithType name watching code TriggerTypeValueChange [] [] we"

definition RegisterAppendWatcher ::
  "gostring \<Rightarrow> gostring list \<Rightarrow> gostring \<Rightarrow> gostring \<Rightarrow> 'e list \<Rightarrow> 'e WatcherEngine \<Rightarrow>
     (watcher_error + unit) \<times> 'e WatcherEngine" where
  "RegisterAppendWatcher name watching code bindingName filters we =
     RegisterWatcherWithType name watching code TriggerTypeAppend bindingName filters we"

definition RemoveWatcher :: "gostring \<Rightarrow> 'e WatcherEngine \<Rightarrow> 'e WatcherEngine" where
  "RemoveWatcher name we = we\<lparr>weWatchers := adel name (weWatchers we)\<rparr>"

definition EnableWatcher :: "gostring \<Rightarrow> bool \<Rightarrow> 'e WatcherEngine \<Rightarrow> (watcher_error + unit) \<times> 'e WatcherEngine" where
  "EnableWatcher name enabled we =
     (case map_of (weWatchers we) name of
        None \<Rightarrow> (Inl (WatcherNotFound name), we)
      | Some w \<Rightarrow> (Inr (), we\<lparr>weWatchers := aset name (w\<lparr>wEnabled := enabled\<rparr>) (weWatchers we)\<rparr>))"

definition agentRelativePath :: "gostring \<Rightarrow> u64 \<Rightarrow> gostring option" where
  "agentRelativePath pathStr agentID =
     (let prefix = str ''world.agent.'' @ dec (unat agentID) @ [dot] in
      if \<not> HasPrefix pathStr prefix then None else Some (str ''my.'' @ drop (length prefix) pathStr))"

definition RecordChange :: "int \<Rightarrow> gostring \<Rightarrow> 'e WatcherEngine \<Rightarrow> 'e WatcherEngine" where
  "RecordChange now path we = we\<lparr>weChangeLog := aset path now (weChangeLog we)\<rparr>"

definition RecordAppendWithFilters :: "int \<Rightarrow> gostring \<Rightarrow> gostring list \<Rightarrow> 'e list \<Rightarrow> 'e WatcherEngine \<Rightarrow> 'e WatcherEngine" where
  "RecordAppendWithFilters now path items filters we =
     we\<lparr>weAppendLog := aset path \<lparr>aePath = path, aeItems = items, aeFilters = filters, aeTimestamp = now\<rparr> (weAppendLog we)\<rparr>"

definition RecordAppend :: "int \<Rightarrow> gostring \<Rightarrow> gostring list \<Rightarrow> 'e WatcherEngine \<Rightarrow> 'e WatcherEngine" where
  "RecordAppend now path items we = RecordAppendWithFilters now path items [] we"

subsection \<open>Triggers\<close>

definition GetAppendEvent :: "'e WatcherEngine \<Rightarrow> gostring \<Rightarrow> 'e AppendEvent option" where
  "GetAppendEvent we path =
     (case map_of (weAppendLog we) path of
        Some event \<Rightarrow> if weLastTickTime we < aeTimestamp event then Some event else None
      | None \<Rightarrow> None)"

text \<open>The path is not split: storage joins the components with dots anyway.\<close>

definition we_parsePathString :: "gostring \<Rightarrow> gostring list" where
  "we_parsePathString path = (if path = [] then [] else [path])"

definition itemMatchesFilters :: "(gostring list \<Rightarrow> bool) \<Rightarrow> gostring \<Rightarrow> 'e list \<Rightarrow> bool" where
  "itemMatchesFilters readOk itemPath filters \<longleftrightarrow> readOk (we_parsePathString itemPath)"

definition filterAppendedItems :: "(gostring list \<Rightarrow> bool) \<Rightarrow> gostring list \<Rightarrow> 'e list \<Rightarrow> gostring list" where
  "filterAppendedItems readOk items filters =
     (if length filters = 0 then items else filter (\<lambda>itemPath. itemMatchesFilters readOk itemPath filters) items)"

definition GetFilteredAppendEvent ::
  "(gostring list \<Rightarrow> bool) \<Rightarrow> 'e WatcherEngine \<Rightarrow> gostring \<Rightarrow> 'e list \<Rightarrow> 'e AppendEvent option" where
  "GetFilteredAppendEvent readOk we path filters =
     (case GetAppendEvent we path of
        None \<Rightarrow> None
      | Some event \<Rightarrow>
          if length filters = 0 then Some event
          else let filteredItems = filterAppendedItems readOk (aeItems event) filters in
               if length filteredItems = 0 then None
               else Some \<lparr>aePath = aePath event, aeItems = filteredItems, aeFilters = filters,
                          aeTimestamp = aeTimestamp event\<rparr>)"

definition changedAtOrBelow :: "'e WatcherEngine \<Rightarrow> gostring \<Rightarrow> bool" where
  "changedAtOrBelow we watchedPath =
     (if (case map_of (weChangeLog we) watchedPath of
            Some changeTime \<Rightarrow> weLastTickTime we < changeTime | None \<Rightarrow> False)
      then True
      else \<exists>(changedPath, changeTime) \<in> set (weChangeLog we).
             HasPrefix changedPath (watchedPath @ [dot]) \<and> weLastTickTime we < changeTime)"

definition shouldTrigger :: "(gostring list \<Rightarrow> bool) \<Rightarrow> 'e WatcherEngine \<Rightarrow> 'e Watcher \<Rightarrow> bool" where
  "shouldTrigger readOk we watcher \<longleftrightarrow>
     (\<exists>watchedPath \<in> set (wWatching watcher).
        case wTriggerType watcher of
          TriggerTypeValueChange \<Rightarrow> changedAtOrBelow we watchedPath
        | TriggerTypeAppend \<Rightarrow> GetFilteredAppendEvent readOk we watchedPath (wFilters watcher) \<noteq> None)"

definition GetTriggeredWatchers :: "(gostring list \<Rightarrow> bool) \<Rightarrow> 'e WatcherEngine \<Rightarrow> 'e Watcher list" where
  "GetTriggeredWatchers readOk we =
     filter (\<lambda>watcher. wEnabled watcher \<and> shouldTrigger readOk we watcher) (map snd (weWatchers we))"

subsection \<open>Running watchers\<close>

datatype watcher_outcome =
    ParseFailed gostring
  | RunFailed gostring
  | Finished goany "gostring list list"

record ('e, 's) exec_env =
  exRun :: "'e Watcher \<Rightarrow> 's \<Rightarrow> watcher_outcome \<times> 's"
  exFlushAll :: "'s \<Rightarrow> (gostring + unit) \<times> 's"
  exDiscardAll :: "'s \<Rightarrow> 's"
  exReadOk :: "'s \<Rightarrow> gostring list \<Rightarrow> bool"

definition pathSliceToString :: "gostring list \<Rightarrow> gostring" where
  "pathSliceToString pathSlice = join pathSlice"

text \<open>Collecting one path that the watcher changed.\<close>

definition pend :: "u64 \<Rightarrow> gostring list \<Rightarrow> 'e WatcherEngine \<Rightarrow> 'e WatcherEngine" where
  "pend agentID pathSlice we =
     (if length pathSlice = 0 then we
      else let pathStr = pathSliceToString pathSlice;
               pending = aset pathStr True (wePendingCascadePaths we) in
           we\<lparr>wePendingCascadePaths :=
                (case agentRelativePath pathStr agentID of Some rel \<Rightarrow> aset rel True pending | None \<Rightarrow> pending)\<rparr>)"

definition ExecuteWatcher ::
  "('e, 's) exec_env \<Rightarrow> 'e Watcher \<Rightarrow> 'e WatcherEngine \<times> 's \<Rightarrow> (goany \<times> gostring option) \<times> 'e WatcherEngine \<times> 's" where
  "ExecuteWatcher env watcher st =
     (case st of (we, s) \<Rightarrow>
        (case exRun env watcher s of
           (ParseFailed e, s') \<Rightarrow> ((Unknown e, None), we, s')
         | (RunFailed e, s') \<Rightarrow> ((Unknown e, Some e), we, s')
         | (Finished result writtenPaths, s') \<Rightarrow>
             ((result, None), fold (pend (wAgentID watcher)) writtenPaths we, s')))"

definition Tick :: "int \<Rightarrow> 'e WatcherEngine \<Rightarrow> 'e WatcherEngine" where
  "Tick now we = we\<lparr>weLastTickTime := now\<rparr>"

definition ClearChangeLog :: "'e WatcherEngine \<Rightarrow> 'e WatcherEngine" where
  "ClearChangeLog we = we\<lparr>weChangeLog := [], weAppendLog := []\<rparr>"

definition clearPendingCascadePaths :: "'e WatcherEngine \<Rightarrow> 'e WatcherEngine" where
  "clearPendingCascadePaths we = we\<lparr>wePendingCascadePaths := []\<rparr>"

definition DiscardCascadeChanges :: "'e WatcherEngine \<Rightarrow> 'e WatcherEngine" where
  "DiscardCascadeChanges we = clearPendingCascadePaths we"

definition MaxCascadeRounds :: nat where "MaxCascadeRounds = 1000"

text \<open>\<open>sort.Strings\<close>.\<close>

fun insert_string :: "gostring \<Rightarrow> gostring list \<Rightarrow> gostring list" where
  "insert_string x [] = [x]"
| "insert_string x (y # ys) = (if bytes_less y x then y # insert_string x ys else x # y # ys)"

definition sort_strings :: "gostring list \<Rightarrow> gostring list" where
  "sort_strings xs = foldr insert_string xs []"

text \<open>\<open>now p\<close> is the time at which the change of \<open>p\<close> is recorded.\<close>

definition CommitCascadeChanges :: "(gostring \<Rightarrow> int) \<Rightarrow> 'e WatcherEngine \<Rightarrow> gostring list option \<times> 'e WatcherEngine" where
  "CommitCascadeChanges now we =
     (if wePendingCascadePaths we = [] then (None, clearPendingCascadePaths (we\<lparr>weCascadeRounds := 0\<rparr>))
      else
        let we1 = we\<lparr>weCascadeRounds := weCascadeRounds we + 1\<rparr>; pending = map fst (wePendingCascadePaths we1) in
        if MaxCascadeRounds < weCascadeRounds we1
        then (Some (sort_strings pending), clearPendingCascadePaths (we1\<lparr>weCascadeRounds := 0\<rparr>))
        else (None, clearPendingCascadePaths (fold (\<lambda>p. RecordChange (now p) p) pending we1)))"

subsection \<open>The heartbeat\<close>

datatype tick_issue =
    WatcherError gostring gostring
  | UnhandledUnknown gostring gostring
  | TickRolledBack
  | FlushFailed gostring
  | CascadeRunaway "gostring list"

record TickResult =
  trFired :: nat
  trSucceeded :: nat
  trFailed :: nat
  trErrors :: "tick_issue list"
  trRolledBack :: bool

text \<open>One turn of the loop over the triggered watchers, and whether an unknown came out.\<close>

definition run_step ::
  "('e, 's) exec_env \<Rightarrow> 'e Watcher \<Rightarrow> (TickResult \<times> bool) \<times> 'e WatcherEngine \<times> 's \<Rightarrow>
     (TickResult \<times> bool) \<times> 'e WatcherEngine \<times> 's" where
  "run_step env watcher = (\<lambda>((result, hasUnhandledUnknown), st).
     case ExecuteWatcher env watcher st of
       ((watcherResult, Some err), st') \<Rightarrow>
         ((result\<lparr>trFailed := trFailed result + 1, trErrors := trErrors result @ [WatcherError (wName watcher) err]\<rparr>,
           hasUnhandledUnknown), st')
     | ((watcherResult, None), st') \<Rightarrow>
         (case watcherResult of
            Unknown reason \<Rightarrow>
              ((result\<lparr>trErrors := trErrors result @ [UnhandledUnknown (wName watcher) reason],
                       trSucceeded := trSucceeded result + 1\<rparr>, True), st')
          | _ \<Rightarrow> ((result\<lparr>trSucceeded := trSucceeded result + 1\<rparr>, hasUnhandledUnknown), st')))"

definition run_watchers ::
  "('e, 's) exec_env \<Rightarrow> 'e Watcher list \<Rightarrow> 'e WatcherEngine \<times> 's \<Rightarrow> (TickResult \<times> bool) \<times> 'e WatcherEngine \<times> 's" where
  "run_watchers env ws st =
     fold (run_step env) ws
       ((\<lparr>trFired = length ws, trSucceeded = 0, trFailed = 0, trErrors = [], trRolledBack = False\<rparr>, False), st)"

definition rollback :: "('e, 's) exec_env \<Rightarrow> tick_issue \<Rightarrow> TickResult \<Rightarrow> 'e WatcherEngine \<times> 's \<Rightarrow> TickResult \<times> 'e WatcherEngine \<times> 's" where
  "rollback env issue result = (\<lambda>(we, s).
     (result\<lparr>trRolledBack := True, trErrors := trErrors result @ [issue]\<rparr>, DiscardCascadeChanges we, exDiscardAll env s))"

definition executeTick ::
  "('e, 's) exec_env \<Rightarrow> int \<Rightarrow> (gostring \<Rightarrow> int) \<Rightarrow> 'e WatcherEngine \<times> 's \<Rightarrow> TickResult \<times> 'e WatcherEngine \<times> 's" where
  "executeTick env tickNow cascadeNow st =
     (case st of (we, s) \<Rightarrow>
        let triggered = GetTriggeredWatchers (exReadOk env s) we in
        if length triggered = 0
        then (\<lparr>trFired = 0, trSucceeded = 0, trFailed = 0, trErrors = [], trRolledBack = False\<rparr>,
              ClearChangeLog (Tick tickNow we), s)
        else
          case run_watchers env triggered (we, s) of
            ((result, hasUnhandledUnknown), we1, s1) \<Rightarrow>
              if hasUnhandledUnknown then rollback env TickRolledBack result (we1, s1)
              else
                (case exFlushAll env s1 of
                   (Inl e, s2) \<Rightarrow> rollback env (FlushFailed e) result (we1, s2)
                 | (Inr u, s2) \<Rightarrow>
                     (case CommitCascadeChanges cascadeNow (ClearChangeLog (Tick tickNow we1)) of
                        (Some paths, we2) \<Rightarrow> (result\<lparr>trErrors := trErrors result @ [CascadeRunaway paths]\<rparr>, we2, s2)
                      | (None, we2) \<Rightarrow> (result, we2, s2))))"

end
