(* ===== verification/Watchers_Correct.thy ===== *)
theory Watchers_Correct
  imports Watchers
begin

text \<open>
  What a tick does to the watcher engine, the reachable states of an engine, and how long
  cascades can last.
\<close>

subsection \<open>What triggers\<close>

definition at_or_below :: "gostring \<Rightarrow> gostring \<Rightarrow> bool" where
  "at_or_below changed watched \<longleftrightarrow> changed = watched \<or> HasPrefix changed (watched @ [dot])"

text \<open>The paths whose change is newer than the last tick.\<close>

definition fresh :: "'e WatcherEngine \<Rightarrow> gostring set" where
  "fresh we = {p. \<exists>t. map_of (weChangeLog we) p = Some t \<and> weLastTickTime we < t}"

lemma changedAtOrBelow_fresh:
  assumes "distinct (map fst (weChangeLog we))"
  shows "changedAtOrBelow we p \<longleftrightarrow> (\<exists>q \<in> fresh we. at_or_below q p)"
proof -
  have s: "(q, t) \<in> set (weChangeLog we) \<longleftrightarrow> map_of (weChangeLog we) q = Some t" for q t
    using assms by (simp add: map_of_eq_Some_iff)
  have b: "(\<exists>(q, t) \<in> set (weChangeLog we). HasPrefix q (p @ [dot]) \<and> weLastTickTime we < t) \<longleftrightarrow>
      (\<exists>q \<in> fresh we. HasPrefix q (p @ [dot]))"
    using s by (auto simp: fresh_def)
  have e: "(case map_of (weChangeLog we) p of Some t \<Rightarrow> weLastTickTime we < t | None \<Rightarrow> False) \<longleftrightarrow> p \<in> fresh we"
    by (auto simp: fresh_def split: option.splits)
  show ?thesis unfolding changedAtOrBelow_def e b at_or_below_def by auto
qed

subsection \<open>Running watchers changes pending paths only\<close>

lemma pend_frame:
  "pend a p we = we\<lparr>wePendingCascadePaths := wePendingCascadePaths (pend a p we)\<rparr>"
  by (simp add: pend_def Let_def split: option.splits)

lemma pend_set:
  "fst ` set (wePendingCascadePaths (pend a p we)) =
     fst ` set (wePendingCascadePaths we) \<union>
     (if p = [] then {} else insert (join p) (set_option (agentRelativePath (join p) a)))"
  by (auto simp: pend_def Let_def fst_set_aset pathSliceToString_def split: option.splits)

lemma pend_distinct:
  "distinct (map fst (wePendingCascadePaths we)) \<Longrightarrow> distinct (map fst (wePendingCascadePaths (pend a p we)))"
  by (simp add: pend_def Let_def split: option.splits)

definition same_but_pending :: "'e WatcherEngine \<Rightarrow> 'e WatcherEngine \<Rightarrow> bool" where
  "same_but_pending we we' \<longleftrightarrow>
     we' = we\<lparr>wePendingCascadePaths := wePendingCascadePaths we'\<rparr> \<and>
     (distinct (map fst (wePendingCascadePaths we)) \<longrightarrow> distinct (map fst (wePendingCascadePaths we')))"

lemma same_refl: "same_but_pending we we"
  by (simp add: same_but_pending_def)

lemma same_trans: "same_but_pending a b \<Longrightarrow> same_but_pending b c \<Longrightarrow> same_but_pending a c"
  unfolding same_but_pending_def by (metis WatcherEngine.update_convs(4) WatcherEngine.surjective)

lemma fold_pend_same: "same_but_pending we (fold (pend a) ps we)"
proof (induction ps arbitrary: we)
  case (Cons p ps)
  have "same_but_pending we (pend a p we)"
    using pend_frame [of a p we] pend_distinct [of we a p] by (simp add: same_but_pending_def)
  then show ?case using Cons same_trans by auto
qed (simp add: same_refl)

lemma ExecuteWatcher_same:
  "ExecuteWatcher env w (we, s) = (r, we', s') \<Longrightarrow> same_but_pending we we'"
  by (auto simp: ExecuteWatcher_def same_refl fold_pend_same split: prod.splits watcher_outcome.splits)

lemma run_step_same:
  assumes "run_step env w (x, we, s) = (y, we', s')"
  shows "same_but_pending we we'"
proof -
  obtain r we1 s1 where "ExecuteWatcher env w (we, s) = (r, we1, s1)" by (metis prod_cases3)
  moreover from this have "we' = we1"
    using assms by (cases x; cases r; cases "fst r") (auto simp: run_step_def split: option.splits)
  ultimately show ?thesis using ExecuteWatcher_same by metis
qed

lemma fold_run_step_same:
  "fold (run_step env) ws (x, we, s) = (y, we', s') \<Longrightarrow> same_but_pending we we'"
proof (induction ws arbitrary: x we s)
  case (Cons w ws)
  obtain x1 we1 s1 where o: "run_step env w (x, we, s) = (x1, we1, s1)" by (metis prod_cases3)
  then show ?case using Cons.IH [of x1 we1 s1] Cons.prems run_step_same [OF o] same_trans by auto
qed (simp add: same_refl)

lemma run_watchers_same: "run_watchers env ws (we, s) = (y, we', s') \<Longrightarrow> same_but_pending we we'"
  unfolding run_watchers_def by (rule fold_run_step_same)

subsection \<open>Outcomes of a tick\<close>

definition triggered :: "('e, 's) exec_env \<Rightarrow> 'e WatcherEngine \<Rightarrow> 's \<Rightarrow> 'e Watcher list" where
  "triggered env we s = GetTriggeredWatchers (exReadOk env s) we"

text \<open>The paths that the watchers of a tick changed.\<close>

definition written :: "('e, 's) exec_env \<Rightarrow> 'e WatcherEngine \<Rightarrow> 's \<Rightarrow> gostring set" where
  "written env we s = fst ` set (wePendingCascadePaths (fst (snd (run_watchers env (triggered env we s) (we, s)))))"

datatype tick_kind = Quiet | RolledBack | Converged | Cascaded

definition kind :: "('e, 's) exec_env \<Rightarrow> int \<Rightarrow> (gostring \<Rightarrow> int) \<Rightarrow> 'e WatcherEngine \<Rightarrow> 's \<Rightarrow> tick_kind" where
  "kind env t c we s =
     (if triggered env we s = [] then Quiet
      else if trRolledBack (fst (executeTick env t c (we, s))) then RolledBack
      else if written env we s = {} then Converged
      else Cascaded)"

definition runaway :: "TickResult \<Rightarrow> bool" where
  "runaway r \<longleftrightarrow> (\<exists>ps. CascadeRunaway ps \<in> set (trErrors r))"

lemma run_step_result:
  "run_step env w ((r, u), st) = ((r1, u1), st1) \<Longrightarrow>
     trRolledBack r1 = trRolledBack r \<and> runaway r1 = runaway r \<and> trFired r1 = trFired r"
proof -
  assume a: "run_step env w ((r, u), st) = ((r1, u1), st1)"
  obtain res err st2 where "ExecuteWatcher env w st = ((res, err), st2)" by (metis prod.collapse)
  then show ?thesis using a by (cases err; cases res) (auto simp: run_step_def runaway_def)
qed

lemma fold_run_step_result:
  "fold (run_step env) ws ((r, u), st) = ((r1, u1), st1) \<Longrightarrow>
     trRolledBack r1 = trRolledBack r \<and> runaway r1 = runaway r \<and> trFired r1 = trFired r"
proof (induction ws arbitrary: r u st)
  case (Cons w ws)
  obtain r2 u2 st2 where o: "run_step env w ((r, u), st) = ((r2, u2), st2)" by (metis prod.collapse)
  then show ?case using Cons.IH [of r2 u2 st2] Cons.prems run_step_result [OF o] by simp
qed simp

lemma run_watchers_result:
  "run_watchers env ws st = ((r, u), st') \<Longrightarrow> \<not> trRolledBack r \<and> \<not> runaway r \<and> trFired r = length ws"
  unfolding run_watchers_def by (drule fold_run_step_result) (simp add: runaway_def)

lemma fold_RecordChange:
  "fold (\<lambda>p. RecordChange (now p) p) ps we =
     we\<lparr>weChangeLog := fold (\<lambda>p. aset p (now p)) ps (weChangeLog we)\<rparr>"
  by (induction ps arbitrary: we) (simp_all add: RecordChange_def)

lemma fold_aset_now:
  "map_of (fold (\<lambda>p. aset p (now p)) ps m) q = (if q \<in> set ps then Some (now q) else map_of m q)"
  "distinct (map fst m) \<Longrightarrow> distinct (map fst (fold (\<lambda>p. aset p (now p)) ps m))"
  by (induction ps arbitrary: m) auto

lemma CommitCascadeChanges_cases:
  assumes "CommitCascadeChanges c we = (o', we')" "weChangeLog we = []"
  obtains (nothing) "wePendingCascadePaths we = []" "o' = None" "we' = we\<lparr>weCascadeRounds := 0, wePendingCascadePaths := []\<rparr>"
  | (stopped) ps where "wePendingCascadePaths we \<noteq> []" "MaxCascadeRounds \<le> weCascadeRounds we" "o' = Some ps"
      "we' = we\<lparr>weCascadeRounds := 0, wePendingCascadePaths := []\<rparr>"
  | (recorded) log where "wePendingCascadePaths we \<noteq> []" "weCascadeRounds we < MaxCascadeRounds" "o' = None"
      "we' = we\<lparr>weChangeLog := log, weCascadeRounds := weCascadeRounds we + 1, wePendingCascadePaths := []\<rparr>"
      "distinct (map fst log)"
      "map_of log = (\<lambda>q. if q \<in> fst ` set (wePendingCascadePaths we) then Some (c q) else None)"
proof -
  let ?log = "fold (\<lambda>p. aset p (c p)) (map fst (wePendingCascadePaths we)) []"
  have l: "distinct (map fst ?log)"
    "map_of ?log = (\<lambda>q. if q \<in> fst ` set (wePendingCascadePaths we) then Some (c q) else None)"
    using fold_aset_now(2) [of "[]"] by (auto simp: fold_aset_now(1) fun_eq_iff)
  consider "wePendingCascadePaths we = []"
    | "wePendingCascadePaths we \<noteq> []" "MaxCascadeRounds \<le> weCascadeRounds we"
    | "wePendingCascadePaths we \<noteq> []" "weCascadeRounds we < MaxCascadeRounds" by linarith
  then show ?thesis
  proof cases
    case 1
    then show ?thesis using that(1) assms by (auto simp: CommitCascadeChanges_def clearPendingCascadePaths_def)
  next
    case 2
    then show ?thesis
      using that(2) assms by (auto simp: CommitCascadeChanges_def clearPendingCascadePaths_def Let_def)
  next
    case 3
    then show ?thesis
      using that(3) [of ?log] l assms
      by (auto simp: CommitCascadeChanges_def clearPendingCascadePaths_def Let_def fold_RecordChange)
  qed
qed

text \<open>The four ways a tick can end.\<close>

lemma executeTick_cases:
  assumes x: "executeTick env t c (we, s) = (r, we', s')" and p: "wePendingCascadePaths we = []"
  obtains (quiet) "triggered env we s = []" "trFired r = 0" "\<not> trRolledBack r" "\<not> runaway r"
      "we' = ClearChangeLog (Tick t we)"
  | (rolled_back) "triggered env we s \<noteq> []" "trRolledBack r" "\<not> runaway r" "we' = we"
  | (stopped) "triggered env we s \<noteq> []" "\<not> trRolledBack r" "runaway r" "written env we s \<noteq> {}"
      "MaxCascadeRounds \<le> weCascadeRounds we" "we' = (ClearChangeLog (Tick t we))\<lparr>weCascadeRounds := 0\<rparr>"
  | (committed) log where "triggered env we s \<noteq> []" "\<not> trRolledBack r" "\<not> runaway r"
      "written env we s \<noteq> {} \<Longrightarrow> weCascadeRounds we < MaxCascadeRounds"
      "we' = (ClearChangeLog (Tick t we))\<lparr>weChangeLog := log,
         weCascadeRounds := (if written env we s = {} then 0 else weCascadeRounds we + 1)\<rparr>"
      "distinct (map fst log)"
      "map_of log = (\<lambda>q. if q \<in> written env we s then Some (c q) else None)"
proof (cases "triggered env we s = []")
  case True
  then show ?thesis
    using quiet x by (auto simp: executeTick_def triggered_def runaway_def)
next
  case False
  obtain res u we1 s1 where rw: "run_watchers env (triggered env we s) (we, s) = ((res, u), we1, s1)" by (metis prod.collapse)
  note q = run_watchers_result [OF rw]
  obtain ps where we1: "we1 = we\<lparr>wePendingCascadePaths := ps\<rparr>"
    using run_watchers_same [OF rw] by (auto simp: same_but_pending_def)
  have w: "written env we s = fst ` set ps" by (simp add: written_def rw we1)
  have undo: "we\<lparr>wePendingCascadePaths := []\<rparr> = we" using p by (cases we) simp
  have "DiscardCascadeChanges we1 = we" by (simp add: DiscardCascadeChanges_def clearPendingCascadePaths_def we1 undo)
  then have roll: "trRolledBack r \<and> we' = we \<and> \<not> runaway r"
    if "(r, we', s') = rollback env issue res (we1, s2)" "\<And>ps. issue \<noteq> CascadeRunaway ps" for issue s2
    using that q by (auto simp: rollback_def runaway_def)
  obtain f s2 where fl: "exFlushAll env s1 = (f, s2)" by (cases "exFlushAll env s1")
  consider "u" | e where "\<not> u" "f = Inl e" | v where "\<not> u" "f = Inr v" by (cases f) auto
  then show ?thesis
  proof cases
    case 1
    then show ?thesis
      using x False rw roll [of TickRolledBack s1] rolled_back by (simp add: executeTick_def triggered_def)
  next
    case (2 e)
    then show ?thesis
      using x False rw fl roll [of "FlushFailed e" s2] rolled_back by (simp add: executeTick_def triggered_def)
  next
    case 3
    obtain o' we2 where cc: "CommitCascadeChanges c (ClearChangeLog (Tick t we1)) = (o', we2)"
      by (cases "CommitCascadeChanges c (ClearChangeLog (Tick t we1))")
    have r: "we' = we2" "r = (case o' of None \<Rightarrow> res | Some paths \<Rightarrow> res\<lparr>trErrors := trErrors res @ [CascadeRunaway paths]\<rparr>)"
      using x False rw fl 3 cc by (auto simp: executeTick_def triggered_def split: option.splits)
    have e: "weChangeLog (ClearChangeLog (Tick t we1)) = []" by (simp add: ClearChangeLog_def)
    have pr: "wePendingCascadePaths (ClearChangeLog (Tick t we1)) = ps" "weCascadeRounds (ClearChangeLog (Tick t we1)) = weCascadeRounds we"
      by (simp_all add: ClearChangeLog_def Tick_def we1)
    from cc e show ?thesis
    proof (cases rule: CommitCascadeChanges_cases)
      case nothing
      then show ?thesis
        using committed [of "[]"] False q r w pr p by (cases we) (simp add: ClearChangeLog_def Tick_def we1)
    next
      case (stopped paths)
      then show ?thesis
        using that(3) False q r w pr p by (cases we) (simp add: ClearChangeLog_def Tick_def we1 runaway_def)
    next
      case (recorded log)
      then show ?thesis
        using committed [of log] False q r w pr p by (cases we) (simp add: ClearChangeLog_def Tick_def we1)
    qed
  qed
qed

text \<open>When a tick is rolled back, and what becomes of the staged writes.\<close>

lemma executeTick_staged:
  assumes "executeTick env t c (we, s) = (r, we', s')" "triggered env we s \<noteq> []"
    and "run_watchers env (triggered env we s) (we, s) = ((res, u), we1, s1)" "exFlushAll env s1 = (f, s2)"
  shows "trRolledBack r \<longleftrightarrow> u \<or> isl f"
    and "s' = (if u then exDiscardAll env s1 else if isl f then exDiscardAll env s2 else s2)"
  using assms run_watchers_result [OF assms(3)]
  by (cases f; auto simp: executeTick_def triggered_def rollback_def Let_def split: if_splits option.splits prod.splits)+

subsection \<open>Reachable engines\<close>

text \<open>
  The steps of an engine: changes and appends are recorded, watchers come, go and are switched,
  the outside state changes, and ticks run.
\<close>

inductive engine_step ::
  "('e, 's) exec_env \<Rightarrow> 'e WatcherEngine \<times> 's \<Rightarrow> 'e WatcherEngine \<times> 's \<Rightarrow> bool" for env where
  change: "engine_step env (we, s) (RecordChange now p we, s)"
| append: "engine_step env (we, s) (RecordAppendWithFilters now p items filters we, s)"
| register: "RegisterWatcherWithType name watching code tt binding filters we = (r, we') \<Longrightarrow>
    engine_step env (we, s) (we', s)"
| remove: "engine_step env (we, s) (RemoveWatcher name we, s)"
| enable: "EnableWatcher name b we = (r, we') \<Longrightarrow> engine_step env (we, s) (we', s)"
| outside: "engine_step env (we, s) (we, s')"
| tick: "executeTick env t c (we, s) = (r, we', s') \<Longrightarrow> engine_step env (we, s) (we', s')"

inductive_cases engine_stepE: "engine_step env (we, s) (we', s')"

text \<open>
  Between ticks nothing is pending and the cascade counter is within its bound; the logs and the
  watchers have one entry per key, and watchers have a name and, for appends, a binding.
\<close>

definition watcher_ok :: "gostring \<Rightarrow> 'e Watcher \<Rightarrow> bool" where
  "watcher_ok n w \<longleftrightarrow> wName w = n \<and> n \<noteq> [] \<and> (wTriggerType w = TriggerTypeAppend \<longrightarrow> wBindingName w \<noteq> [])"

definition engine_inv :: "'e WatcherEngine \<Rightarrow> bool" where
  "engine_inv we \<longleftrightarrow>
     wePendingCascadePaths we = [] \<and> weCascadeRounds we \<le> MaxCascadeRounds \<and>
     distinct (map fst (weChangeLog we)) \<and> distinct (map fst (weWatchers we)) \<and>
     (\<forall>(n, w) \<in> set (weWatchers we). watcher_ok n w)"

lemma engine_inv_pending: "engine_inv we \<Longrightarrow> wePendingCascadePaths we = []"
  by (simp add: engine_inv_def)

lemma engine_inv_new: "engine_inv (NewWatcherEngine agentID now)"
  by (simp add: engine_inv_def NewWatcherEngine_def)

lemma watchers_aset:
  assumes "\<forall>(n, w) \<in> set ws. watcher_ok n w" "watcher_ok n w"
  shows "\<forall>(n, w) \<in> set (aset n w ws). watcher_ok n w"
  using assms set_aset [of n w ws] by blast

lemma engine_inv_tick:
  assumes "executeTick env t c (we, s) = (r, we', s')" "engine_inv we"
  shows "engine_inv we'"
proof -
  have p: "wePendingCascadePaths we = []" using assms(2) by (simp add: engine_inv_def)
  show ?thesis
    using assms(1) p
  proof (cases rule: executeTick_cases)
    case (committed log)
    then have "weCascadeRounds we' \<le> MaxCascadeRounds" by (cases "written env we s = {}") simp_all
    then show ?thesis using assms(2) committed by (simp add: engine_inv_def ClearChangeLog_def Tick_def)
  qed (use assms(2) in \<open>auto simp: engine_inv_def ClearChangeLog_def Tick_def\<close>)
qed

lemma engine_inv_register:
  assumes "RegisterWatcherWithType name watching code tt binding filters we = (r, we')" "engine_inv we"
  shows "engine_inv we'"
proof -
  let ?w = "\<lparr>wName = name, wWatching = watching, wEnabled = True, wCode = code, wAgentID = weAgentID we,
     wTriggerType = tt, wBindingName = binding, wFilters = filters\<rparr>"
  have "watcher_ok name ?w \<and> we' = we\<lparr>weWatchers := aset name ?w (weWatchers we)\<rparr> \<or> we' = we"
    using assms(1) by (auto simp: RegisterWatcherWithType_def watcher_ok_def split: if_splits)
  then show ?thesis
    using assms(2) watchers_aset [of "weWatchers we" name ?w] by (auto simp: engine_inv_def)
qed

lemma engine_inv_enable:
  assumes "EnableWatcher name b we = (r, we')" "engine_inv we"
  shows "engine_inv we'"
proof (cases "map_of (weWatchers we) name")
  case (Some w)
  then have "watcher_ok name w" using assms(2) map_of_SomeD by (fastforce simp: engine_inv_def)
  then have "watcher_ok name (w\<lparr>wEnabled := b\<rparr>)" by (simp add: watcher_ok_def)
  then show ?thesis
    using Some assms watchers_aset [of "weWatchers we" name "w\<lparr>wEnabled := b\<rparr>"] by (auto simp: EnableWatcher_def engine_inv_def)
qed (use assms in \<open>simp add: EnableWatcher_def\<close>)

lemma engine_inv_step:
  assumes "engine_step env (we, s) (we', s')" "engine_inv we"
  shows "engine_inv we'"
  using assms
  by (auto simp: engine_inv_tick engine_inv_register engine_inv_enable elim!: engine_stepE)
    (auto simp: engine_inv_def RecordChange_def RecordAppendWithFilters_def RemoveWatcher_def adel_def distinct_map_filter)

lemma engine_inv_reachable:
  assumes "(engine_step env)\<^sup>*\<^sup>* (NewWatcherEngine agentID now, s0) (we, s)"
  shows "engine_inv we"
  using assms
proof (induction "(we, s)" arbitrary: we s rule: rtranclp_induct)
  case base
  then show ?case by (simp add: engine_inv_new)
next
  case (step y)
  obtain we1 s1 where y: "y = (we1, s1)" by (cases y)
  show ?case by (rule engine_inv_step [of env we1 s1 we s]) (use step y in auto)
qed

subsection \<open>How long cascades last\<close>

text \<open>A run of ticks; before each one, changes are recorded from outside.\<close>

fun tick_run ::
  "('e, 's) exec_env \<Rightarrow> ((gostring \<times> int) list \<times> int \<times> (gostring \<Rightarrow> int)) list \<Rightarrow> 'e WatcherEngine \<times> 's \<Rightarrow>
     (tick_kind \<times> bool) list \<times> 'e WatcherEngine \<times> 's" where
  "tick_run env [] st = ([], st)"
| "tick_run env ((changes, t, c) # ins) (we, s) =
     (let we1 = fold (\<lambda>(p, now). RecordChange now p) changes we;
          (r, we2, s2) = executeTick env t c (we1, s);
          (ks, st') = tick_run env ins (we2, s2)
      in ((kind env t c we1 s, runaway r) # ks, st'))"

lemma record_changes_frame:
  "wePendingCascadePaths (fold (\<lambda>(p, now). RecordChange now p) changes we) = wePendingCascadePaths we"
  "weCascadeRounds (fold (\<lambda>(p, now). RecordChange now p) changes we) = weCascadeRounds we"
  by (induction changes arbitrary: we) (auto simp: RecordChange_def)

text \<open>The counter is the number of cascading ticks, however many quiet ticks lie between them.\<close>

lemma tick_run_rounds:
  assumes "tick_run env ins (we, s) = (ks, we', s')" "wePendingCascadePaths we = []"
    and "\<forall>(k, b) \<in> set ks. k \<noteq> Converged \<and> \<not> b"
  shows "weCascadeRounds we' = weCascadeRounds we + length (filter (\<lambda>(k, b). k = Cascaded) ks) \<and>
    (weCascadeRounds we \<le> MaxCascadeRounds \<longrightarrow> weCascadeRounds we' \<le> MaxCascadeRounds)"
  using assms
proof (induction ins arbitrary: we s ks)
  case Nil
  then show ?case by simp
next
  case (Cons x ins)
  obtain changes t c where x: "x = (changes, t, c)" by (cases x)
  define we1 where "we1 = fold (\<lambda>(p, now). RecordChange now p) changes we"
  obtain r we2 s2 where e: "executeTick env t c (we1, s) = (r, we2, s2)" by (metis prod_cases3)
  obtain ks2 st2 where i: "tick_run env ins (we2, s2) = (ks2, st2)" by (cases "tick_run env ins (we2, s2)")
  have ks: "ks = (kind env t c we1 s, runaway r) # ks2" "st2 = (we', s')"
    using Cons.prems(1) e i by (auto simp: x we1_def [symmetric])
  have p: "wePendingCascadePaths we1 = []" "weCascadeRounds we1 = weCascadeRounds we"
    using Cons.prems(2) by (simp_all add: we1_def record_changes_frame)
  have step: "wePendingCascadePaths we2 = [] \<and>
      weCascadeRounds we2 = weCascadeRounds we1 + (if kind env t c we1 s = Cascaded then 1 else 0) \<and>
      (weCascadeRounds we1 \<le> MaxCascadeRounds \<longrightarrow> weCascadeRounds we2 \<le> MaxCascadeRounds)"
    using e p(1)
  proof (cases rule: executeTick_cases)
    case stopped
    then show ?thesis using Cons.prems(3) ks by simp
  next
    case (committed log)
    then show ?thesis using Cons.prems(3) ks e p by (auto simp: kind_def ClearChangeLog_def Tick_def split: if_splits)
  qed (use p in \<open>auto simp: kind_def e ClearChangeLog_def Tick_def\<close>)
  then show ?case
    using Cons.IH [of we2 s2 ks2] i ks Cons.prems(3) p by auto
qed

text \<open>Consecutive cascading ticks count modulo the bound; a tick that converges starts the count again.\<close>

lemma engine_inv_change: "engine_inv we \<Longrightarrow> engine_inv (RecordChange now p we)"
  by (simp add: RecordChange_def engine_inv_def)

lemma engine_inv_changes:
  "engine_inv we \<Longrightarrow> engine_inv (fold (\<lambda>(p, now). RecordChange now p) changes we)"
  by (induction changes arbitrary: we) (auto simp: engine_inv_change)

lemma cascaded_tick:
  assumes "executeTick env t c (we, s) = (r, we', s')" "engine_inv we" "kind env t c we s = Cascaded"
  shows "runaway r \<longleftrightarrow> weCascadeRounds we = MaxCascadeRounds"
    and "weCascadeRounds we' = (weCascadeRounds we + 1) mod (MaxCascadeRounds + 1)"
proof -
  have p: "wePendingCascadePaths we = []" "weCascadeRounds we \<le> MaxCascadeRounds" using assms(2) by (simp_all add: engine_inv_def)
  have "(runaway r \<longleftrightarrow> weCascadeRounds we = MaxCascadeRounds) \<and>
      weCascadeRounds we' = (weCascadeRounds we + 1) mod (MaxCascadeRounds + 1)"
    using assms(1) p(1)
  proof (cases rule: executeTick_cases)
    case stopped
    then show ?thesis using p(2) by (simp add: ClearChangeLog_def Tick_def)
  next
    case (committed log)
    then show ?thesis using assms(1,3) by (auto simp: kind_def split: if_splits)
  qed (use assms(1,3) in \<open>auto simp: kind_def split: if_splits\<close>)
  then show "runaway r \<longleftrightarrow> weCascadeRounds we = MaxCascadeRounds"
    "weCascadeRounds we' = (weCascadeRounds we + 1) mod (MaxCascadeRounds + 1)" by simp_all
qed

lemma converged_tick:
  assumes "executeTick env t c (we, s) = (r, we', s')" "engine_inv we" "kind env t c we s = Converged"
  shows "\<not> runaway r" "weCascadeRounds we' = 0"
proof -
  have p: "wePendingCascadePaths we = []" using assms(2) by (simp add: engine_inv_def)
  have "\<not> runaway r \<and> weCascadeRounds we' = 0"
    using assms(1) p
    by (cases rule: executeTick_cases) (use assms(1,3) in \<open>auto simp: kind_def split: if_splits\<close>)
  then show "\<not> runaway r" "weCascadeRounds we' = 0" by simp_all
qed

lemma tick_run_cascading:
  assumes "tick_run env ins (we, s) = (ks, we', s')" "engine_inv we" "\<forall>x \<in> set ks. fst x = Cascaded"
  shows "(\<forall>i < length ks. snd (ks ! i) \<longleftrightarrow> (weCascadeRounds we + i) mod (MaxCascadeRounds + 1) = MaxCascadeRounds) \<and>
    weCascadeRounds we' = (weCascadeRounds we + length ks) mod (MaxCascadeRounds + 1)"
  using assms
proof (induction ins arbitrary: we s ks)
  case Nil
  then show ?case by (simp add: engine_inv_def)
next
  case (Cons x ins)
  obtain changes t c where x: "x = (changes, t, c)" by (cases x)
  define we1 where "we1 = fold (\<lambda>(p, now). RecordChange now p) changes we"
  obtain r we2 s2 where e: "executeTick env t c (we1, s) = (r, we2, s2)" by (metis prod_cases3)
  obtain ks2 st2 where i: "tick_run env ins (we2, s2) = (ks2, st2)" by (cases "tick_run env ins (we2, s2)")
  have ks: "ks = (kind env t c we1 s, runaway r) # ks2" "st2 = (we', s')"
    using Cons.prems(1) e i by (auto simp: x we1_def [symmetric])
  have w: "engine_inv we1" "weCascadeRounds we1 = weCascadeRounds we"
    using Cons.prems(2) by (simp_all add: we1_def record_changes_frame engine_inv_changes)
  have k: "kind env t c we1 s = Cascaded" using Cons.prems(3) ks by simp
  note step = cascaded_tick [OF e w(1) k, unfolded w(2)]
  have "engine_inv we2" using engine_inv_tick [OF e w(1)] .
  then have IH: "(\<forall>i < length ks2. snd (ks2 ! i) \<longleftrightarrow> (weCascadeRounds we2 + i) mod (MaxCascadeRounds + 1) = MaxCascadeRounds) \<and>
      weCascadeRounds we' = (weCascadeRounds we2 + length ks2) mod (MaxCascadeRounds + 1)"
    using Cons.IH [of we2 s2 ks2] i ks Cons.prems(3) by simp
  have m: "(weCascadeRounds we2 + j) mod (MaxCascadeRounds + 1) = (weCascadeRounds we + Suc j) mod (MaxCascadeRounds + 1)" for j
    unfolding step(2) mod_add_left_eq by simp
  have b: "weCascadeRounds we mod (MaxCascadeRounds + 1) = weCascadeRounds we"
    using Cons.prems(2) by (simp add: engine_inv_def)
  show ?case
    using IH step(1) b unfolding m ks(1) by (auto simp: nth_Cons split: nat.splits)
qed

subsection \<open>Watchers that always return an unknown\<close>

definition fails :: "('e, 's) exec_env \<Rightarrow> 'e Watcher \<Rightarrow> bool" where
  "fails env w \<longleftrightarrow>
     (\<forall>s. case fst (exRun env w s) of
        ParseFailed e \<Rightarrow> True | RunFailed e \<Rightarrow> False | Finished v ps \<Rightarrow> \<exists>e. v = Unknown e)"

lemma run_step_unknown:
  assumes "run_step env w ((r, u), st) = ((r', u'), st')"
  shows "u \<longrightarrow> u'" "fails env w \<Longrightarrow> u'"
proof -
  obtain we s where st: "st = (we, s)" by (cases st)
  obtain o' s1 where x: "exRun env w s = (o', s1)" by (cases "exRun env w s")
  have f: "fails env w \<Longrightarrow> (\<exists>e. o' = ParseFailed e) \<or> (\<exists>e ps. o' = Finished (Unknown e) ps)"
  proof -
    assume "fails env w"
    then have "case o' of ParseFailed e \<Rightarrow> True | RunFailed e \<Rightarrow> False | Finished v ps \<Rightarrow> \<exists>e. v = Unknown e"
      using x unfolding fails_def by (metis fst_conv)
    then show ?thesis by (auto split: watcher_outcome.splits)
  qed
  show "fails env w \<Longrightarrow> u'"
    using f assms x st by (auto simp: run_step_def ExecuteWatcher_def)
  show "u \<longrightarrow> u'"
  proof (cases o')
    case (Finished v ps)
    then show ?thesis using assms x st by (cases v) (auto simp: run_step_def ExecuteWatcher_def)
  qed (use assms x st in \<open>auto simp: run_step_def ExecuteWatcher_def\<close>)
qed

lemma fold_run_step_unknown:
  "fold (run_step env) ws ((r, u), st) = ((r', u'), st') \<Longrightarrow> u \<or> (\<exists>w \<in> set ws. fails env w) \<Longrightarrow> u'"
proof (induction ws arbitrary: r u st)
  case (Cons w ws)
  obtain r1 u1 st1 where o: "run_step env w ((r, u), st) = ((r1, u1), st1)" by (metis prod.collapse)
  have "u1 \<or> (\<exists>w \<in> set ws. fails env w)" using Cons.prems(2) run_step_unknown [OF o] by auto
  then show ?case using Cons.IH [of r1 u1 st1] Cons.prems(1) o by simp
qed auto

lemma failing_watcher_rolls_back:
  assumes "w \<in> set (triggered env we s)" "fails env w" "wePendingCascadePaths we = []"
    and "executeTick env t c (we, s) = (r, we', s')"
  shows "trRolledBack r" "we' = we"
proof -
  obtain r1 u we1 s1 where rw: "run_watchers env (triggered env we s) (we, s) = ((r1, u), we1, s1)" by (metis prod.collapse)
  then have u using fold_run_step_unknown assms(1,2) unfolding run_watchers_def by blast
  then show "trRolledBack r"
    using assms(1,4) rw by (auto simp: executeTick_def triggered_def rollback_def Let_def split: if_splits)
  with assms(4,3) show "we' = we" by (cases rule: executeTick_cases) auto
qed

text \<open>Recording newer changes keeps everything that was fresh.\<close>

lemma record_changes_fresh:
  assumes "distinct (map fst (weChangeLog we))" "\<forall>(p, now) \<in> set changes. weLastTickTime we < now"
  defines "we' \<equiv> fold (\<lambda>(p, now). RecordChange now p) changes we"
  shows "fresh we \<subseteq> fresh we' \<and> distinct (map fst (weChangeLog we')) \<and> weWatchers we' = weWatchers we \<and>
    weLastTickTime we' = weLastTickTime we"
  using assms(1,2) unfolding we'_def
proof (induction changes arbitrary: we)
  case (Cons x changes)
  obtain p now where x: "x = (p, now)" by (cases x)
  have a: "distinct (map fst (weChangeLog (RecordChange now p we)))"
    "\<forall>(p', now') \<in> set changes. weLastTickTime (RecordChange now p we) < now'"
    "fresh we \<subseteq> fresh (RecordChange now p we)"
    "weWatchers (RecordChange now p we) = weWatchers we" "weLastTickTime (RecordChange now p we) = weLastTickTime we"
    using Cons.prems x by (auto simp: RecordChange_def fresh_def)
  then show ?case using Cons.IH [OF a(1,2)] x by auto
qed simp

lemma triggered_by_fresh:
  assumes "(n, w) \<in> set (weWatchers we)" "wEnabled w" "wTriggerType w = TriggerTypeValueChange"
    and "p \<in> set (wWatching w)" "q \<in> fresh we" "at_or_below q p" "distinct (map fst (weChangeLog we))"
  shows "w \<in> set (triggered env we s)"
  using assms changedAtOrBelow_fresh [OF assms(7), of p]
  by (force simp: triggered_def GetTriggeredWatchers_def shouldTrigger_def)

text \<open>
  Once such a watcher is triggered no tick commits any more, for as long as it stays registered.
\<close>

lemma failing_watcher_blocks:
  assumes "(n, w) \<in> set (weWatchers we)" "wEnabled w" "wTriggerType w = TriggerTypeValueChange" "fails env w"
    and "p \<in> set (wWatching w)" "q \<in> fresh we" "at_or_below q p"
    and "engine_inv we" "\<forall>(changes, t, c) \<in> set ins. \<forall>(p, now) \<in> set changes. weLastTickTime we < now"
    and "tick_run env ins (we, s) = (ks, we', s')"
  shows "\<forall>(k, b) \<in> set ks. k = RolledBack"
  using assms(1,6,8-)
proof (induction ins arbitrary: we s ks)
  case (Cons x ins)
  obtain changes t c where x: "x = (changes, t, c)" by (cases x)
  define we1 where "we1 = fold (\<lambda>(p, now). RecordChange now p) changes we"
  have d: "distinct (map fst (weChangeLog we))" "\<forall>(p, now) \<in> set changes. weLastTickTime we < now"
    using Cons.prems(3,4) x by (auto simp: engine_inv_def)
  have rc: "fresh we \<subseteq> fresh we1" "distinct (map fst (weChangeLog we1))" "weWatchers we1 = weWatchers we"
    "weLastTickTime we1 = weLastTickTime we"
    using record_changes_fresh [OF d] by (simp_all add: we1_def)
  obtain r we2 s2 where e: "executeTick env t c (we1, s) = (r, we2, s2)" by (metis prod_cases3)
  have w: "w \<in> set (triggered env we1 s)"
    by (rule triggered_by_fresh [of n w we1 p q]) (use Cons.prems(1,2) rc assms(2,3,5,7) in auto)
  have pd: "wePendingCascadePaths we1 = []" using Cons.prems(3) by (simp add: we1_def record_changes_frame engine_inv_def)
  note f = failing_watcher_rolls_back [OF w assms(4) pd e]
  obtain ks2 st2 where i: "tick_run env ins (we2, s2) = (ks2, st2)" by (cases "tick_run env ins (we2, s2)")
  have ks: "ks = (kind env t c we1 s, runaway r) # ks2" "st2 = (we', s')"
    using Cons.prems(5) e i by (auto simp: x we1_def [symmetric])
  have inv: "engine_inv we1"
    using Cons.prems(3) rc(2,3) pd record_changes_frame(2) [of changes we, folded we1_def] by (simp add: engine_inv_def)
  have "\<forall>(k, b) \<in> set ks2. k = RolledBack"
    by (rule Cons.IH [of we1 s2 ks2]) (use Cons.prems rc inv f i ks in auto)
  then show ?case using ks f w by (auto simp: kind_def e)
qed simp

end
