(* ===== verification/Coordination_Properties.thy ===== *)
theory Coordination_Properties
  imports Directory Watchers_Correct
begin

text \<open>
  The properties of the parts that coordinate nodes and code: the directory of authorities that
  nodes gossip, and the watchers that react to changes.
\<close>

subsection \<open>Directories converge\<close>

text \<open>
  C24. Two nodes that merge each other's snapshots answer every lookup alike afterwards, in
  whatever order the entries arrive, provided that no two different entries for a path carry the
  same timestamp; and what they answer for a path is the newest entry of its longest ancestor.
\<close>

theorem directories_converge:
  assumes "dir_inv d" "dir_inv e" "set es = set (Snapshot e)" "set ds = set (Snapshot d)"
    and "\<And>x y. x \<in> set (Snapshot d) \<union> set (Snapshot e) \<Longrightarrow> y \<in> set (Snapshot d) \<union> set (Snapshot e) \<Longrightarrow>
      dePath x = dePath y \<Longrightarrow> deTimestamp x = deTimestamp y \<Longrightarrow> x = y"
  shows "dir_Get (Merge es d) path = dir_Get (Merge ds e) path \<and>
    (\<forall>x \<in> set (Snapshot d) \<union> set (Snapshot e).
       \<exists>y. map_of (Merge es d) (dePath x) = Some y \<and> deTimestamp x \<le> deTimestamp y)"
proof
  have "dirs.agree (set es \<union> set (Snapshot d))" using assms(3,5) by (auto simp: dirs.agree_def)
  then have "map_of (Merge es d) k = map_of (Merge ds e) k" for k
    using dirs.merge_determined [OF assms(1,2), of es ds k] assms(3,4) by auto
  then show "dir_Get (Merge es d) path = dir_Get (Merge ds e) path"
    by (intro dir_Get_cong) (auto simp: dir_inv_Merge assms(1,2))
  show "\<forall>x \<in> set (Snapshot d) \<union> set (Snapshot e).
       \<exists>y. map_of (Merge es d) (dePath x) = Some y \<and> deTimestamp x \<le> deTimestamp y"
    using dirs.merge_newest [OF assms(1), of _ es] assms(3) set_Snapshot [OF assms(1)] by auto
qed

definition sample_dir :: "int \<Rightarrow> int \<Rightarrow> Directory" where
  "sample_dir s t = dir_Set (str ''world.a'') None s (dir_Set (str ''world'') None t NewDirectory)"

lemma sample_dir_inv: "dir_inv (sample_dir s t)"
  by (simp add: sample_dir_def dir_inv_ops)

theorem directories_converge_witness:
  "dir_Get (Merge (Snapshot (sample_dir 1 4)) (sample_dir 3 2)) (str ''world.a.b'') =
   dir_Get (Merge (Snapshot (sample_dir 3 2)) (sample_dir 1 4)) (str ''world.a.b'')"
proof -
  have s: "set (Snapshot (sample_dir s t)) =
      {\<lparr>dePath = str ''world.a'', deAuthority = None, deTimestamp = s\<rparr>,
       \<lparr>dePath = str ''world'', deAuthority = None, deTimestamp = t\<rparr>}" for s t
    by (auto simp: sample_dir_def dir_Set_def NewDirectory_def Snapshot_def str_def)
  show ?thesis
    by (rule directories_converge [OF sample_dir_inv sample_dir_inv refl refl, THEN conjunct1])
      (auto simp: s str_def)
qed

subsection \<open>Ticks\<close>

text \<open>
  C25. A tick in which watchers are triggered is rolled back iff one of them returned an unknown or
  the staged writes could not be flushed, in particular whenever a triggered watcher can only
  fail; then the staged writes are discarded and the engine is as it was, so that the same changes
  trigger again. A tick that commits leaves the storage as flushed and keeps the watchers, and the
  next tick wakes a value watcher iff it is registered, enabled and watches a path at or above one
  that was changed and recorded after the tick, unless the cascade was stopped as runaway. A path
  is at or below another iff the components of that one are a prefix of its own.
\<close>

theorem tick_wakes_watchers:
  assumes "executeTick env t c (we, s) = (r, we', s')" "engine_inv we" "triggered env we s \<noteq> []"
    and "run_watchers env (triggered env we s) (we, s) = ((res, unknown), we1, s1)" "exFlushAll env s1 = (flushed, s2)"
  shows "(trRolledBack r \<longleftrightarrow> unknown \<or> isl flushed) \<and> ((\<exists>w \<in> set (triggered env we s). fails env w) \<longrightarrow> trRolledBack r) \<and>
    (trRolledBack r \<longrightarrow> we' = we \<and> s' = exDiscardAll env (if unknown then s1 else s2)) \<and>
    (\<not> trRolledBack r \<longrightarrow> s' = s2 \<and> weWatchers we' = weWatchers we \<and>
      (\<forall>w. wTriggerType w = TriggerTypeValueChange \<longrightarrow>
        (w \<in> set (GetTriggeredWatchers (exReadOk env s') we') \<longleftrightarrow>
          w \<in> snd ` set (weWatchers we) \<and> wEnabled w \<and> \<not> runaway r \<and>
          (\<exists>p \<in> set (wWatching w). \<exists>q \<in> written env we s. t < c q \<and> at_or_below q p)))) \<and>
    (\<forall>ps qs. dotless ps \<and> dotless qs \<and> ps \<noteq> [] \<and> qs \<noteq> [] \<longrightarrow>
      (at_or_below (join qs) (join ps) \<longleftrightarrow> (\<exists>rs. qs = ps @ rs)))"
proof -
  note p = engine_inv_pending [OF assms(2)] and state = executeTick_staged [OF assms(1,3,4,5)]
  have f: "(\<exists>w \<in> set (triggered env we s). fails env w) \<longrightarrow> trRolledBack r"
    using failing_watcher_rolls_back(1) [OF _ _ p assms(1)] by blast
  have roll: "trRolledBack r \<longrightarrow> we' = we"
    using assms(1) p by (cases rule: executeTick_cases) (use assms(3) in auto)
  have wake: "\<not> trRolledBack r \<longrightarrow> weWatchers we' = weWatchers we \<and> distinct (map fst (weChangeLog we')) \<and>
      fresh we' = {q \<in> written env we s. \<not> runaway r \<and> t < c q}"
    using assms(1) p
    by (cases rule: executeTick_cases) (use assms(3) in \<open>auto simp: fresh_def ClearChangeLog_def Tick_def split: if_splits\<close>)
  have "w \<in> set (GetTriggeredWatchers (exReadOk env s') we') \<longleftrightarrow>
      w \<in> snd ` set (weWatchers we) \<and> wEnabled w \<and> \<not> runaway r \<and>
      (\<exists>p \<in> set (wWatching w). \<exists>q \<in> written env we s. t < c q \<and> at_or_below q p)"
    if "\<not> trRolledBack r" "wTriggerType w = TriggerTypeValueChange" for w
    using that wake changedAtOrBelow_fresh [of we'] by (auto simp: GetTriggeredWatchers_def shouldTrigger_def)
  then show ?thesis using state f roll wake join_below by (auto simp: at_or_below_def)
qed

text \<open>A watcher on \<open>a\<close> that writes \<open>b.c\<close>.\<close>

definition sample_env :: "(unit, nat) exec_env" where
  "sample_env = \<lparr>exRun = (\<lambda>w s. (Finished Nothing [[str ''b'', str ''c'']], s + 1)), exFlushAll = (\<lambda>s. (Inr (), s)),
     exDiscardAll = (\<lambda>s. s), exReadOk = (\<lambda>s p. True)\<rparr>"

definition sample_engine :: "nat \<Rightarrow> unit WatcherEngine" where
  "sample_engine k =
     (RecordChange 5 (str ''a'') (snd (RegisterWatcher (str ''w'') [str ''a''] (str ''b.c = 1'')
        (NewWatcherEngine 7 0))))\<lparr>weCascadeRounds := k\<rparr>"

lemma sample_engine_inv: "k \<le> 1000 \<Longrightarrow> engine_inv (sample_engine k)"
  by (simp add: sample_engine_def engine_inv_def RecordChange_def RegisterWatcher_def RegisterWatcherWithType_def
      NewWatcherEngine_def watcher_ok_def MaxCascadeRounds_def str_def)

lemmas sample_tick = sample_engine_def sample_env_def RecordChange_def RegisterWatcher_def RegisterWatcherWithType_def
  NewWatcherEngine_def str_def executeTick_def triggered_def GetTriggeredWatchers_def shouldTrigger_def
  changedAtOrBelow_def run_watchers_def run_step_def ExecuteWatcher_def pend_def pathSliceToString_def
  agentRelativePath_def HasPrefix_def dec.simps

theorem tick_wakes_watchers_witness:
  "engine_inv (sample_engine 0) \<and> triggered sample_env (sample_engine 0) 0 \<noteq> [] \<and>
   (\<exists>r we'. executeTick sample_env 10 (\<lambda>p. 11) (sample_engine 0, 0) = (r, we', 1) \<and> \<not> trRolledBack r \<and>
      weWatchers we' = weWatchers (sample_engine 0))"
proof -
  obtain r we' s' where e: "executeTick sample_env 10 (\<lambda>p. 11) (sample_engine 0, 0) = (r, we', s')" by (metis prod_cases3)
  have t: "triggered sample_env (sample_engine 0) 0 \<noteq> []" by (simp add: sample_tick)
  obtain res u we1 s1 where w: "run_watchers sample_env (triggered sample_env (sample_engine 0) 0) (sample_engine 0, 0) = ((res, u), we1, s1)"
    by (metis prod.collapse)
  then have u: "\<not> u" "s1 = 1" by (auto simp: sample_tick)
  have "exFlushAll sample_env s1 = (Inr (), s1)" by (simp add: sample_env_def)
  then show ?thesis using tick_wakes_watchers [OF e sample_engine_inv t w] u e t sample_engine_inv [of 0] by simp
qed

text \<open>
  C26. In a run of ticks that all cascade, the first to be reported as runaway is the one after
  \<open>MaxCascadeRounds\<close> consecutive rounds, counted from where the counter stood, and from then on
  every one after that many; the counter never passes the bound. A tick in which watchers ran and
  changed nothing is not reported and resets the counter.
\<close>

theorem runaway_reported:
  assumes "tick_run env ins (we, s) = (ks, we', s')" "engine_inv we" "\<forall>x \<in> set ks. fst x = Cascaded"
  shows "(\<forall>i < length ks. snd (ks ! i) \<longleftrightarrow> (weCascadeRounds we + i) mod (MaxCascadeRounds + 1) = MaxCascadeRounds) \<and>
    weCascadeRounds we' = (weCascadeRounds we + length ks) mod (MaxCascadeRounds + 1) \<and>
    (\<forall>t c. kind env t c we s = Converged \<longrightarrow>
      (case executeTick env t c (we, s) of (r, we2, s2) \<Rightarrow> \<not> runaway r \<and> weCascadeRounds we2 = 0))"
proof -
  have "case executeTick env t c (we, s) of (r, we2, s2) \<Rightarrow> \<not> runaway r \<and> weCascadeRounds we2 = 0"
    if "kind env t c we s = Converged" for t c
    using converged_tick [OF _ assms(2) that] by (cases "executeTick env t c (we, s)") simp
  then show ?thesis using tick_run_cascading [OF assms] by simp
qed

theorem runaway_reported_witness:
  "fst (tick_run sample_env [([], 10, (\<lambda>p. 11))] (sample_engine 1000, 0)) = [(Cascaded, True)] \<and>
   weCascadeRounds (fst (snd (tick_run sample_env [([], 10, (\<lambda>p. 11))] (sample_engine 1000, 0)))) = 0"
proof -
  obtain ks we' s' where r: "tick_run sample_env [([], 10, (\<lambda>p. 11))] (sample_engine 1000, 0) = (ks, we', s')"
    by (metis prod_cases3)
  have "\<not> trRolledBack (fst (executeTick sample_env 10 (\<lambda>p. 11) (sample_engine 1000, 0)))"
    by (simp add: sample_tick CommitCascadeChanges_def MaxCascadeRounds_def ClearChangeLog_def Tick_def Let_def)
  moreover have "triggered sample_env (sample_engine 1000) 0 \<noteq> []" "written sample_env (sample_engine 1000) 0 \<noteq> {}"
    by (simp_all add: sample_tick written_def)
  ultimately have k: "kind sample_env 10 (\<lambda>p. 11) (sample_engine 1000) 0 = Cascaded" by (simp add: kind_def)
  then obtain b where ks: "ks = [(Cascaded, b)]" using r by (auto split: prod.splits)
  have "weCascadeRounds (sample_engine 1000) = 1000" by (simp add: sample_engine_def)
  then show ?thesis
    using runaway_reported [OF r sample_engine_inv] r ks by (simp add: MaxCascadeRounds_def)
qed

text \<open>
  Quiet and rolled back ticks do not reset the counter: over a run without a converging tick it
  counts all cascading ones, so that a runaway can be reported for rounds that were not consecutive.
\<close>

lemma quiet_ticks_keep_count:
  assumes "tick_run env ins (we, s) = (ks, st)" "engine_inv we" "Converged \<notin> fst ` set ks"
    and "MaxCascadeRounds < weCascadeRounds we + length (filter (\<lambda>(k, b). k = Cascaded) ks)"
  shows "\<exists>k. (k, True) \<in> set ks"
proof (rule ccontr)
  assume "\<not> ?thesis"
  then have "\<forall>(k, b) \<in> set ks. k \<noteq> Converged \<and> \<not> b" using assms(3) by force
  then have "weCascadeRounds (fst st) = weCascadeRounds we + length (filter (\<lambda>(k, b). k = Cascaded) ks)"
    "weCascadeRounds (fst st) \<le> MaxCascadeRounds"
    using tick_run_rounds [of env ins we s ks "fst st" "snd st"] assms(1,2) by (auto simp: engine_inv_def)
  then show False using assms(4) by simp
qed

end
