(* ===== verification/Mbl_Lexer.thy ===== *)
theory Mbl_Lexer
  imports Go_Text
begin

text \<open>
  The scanner of the query language (\<open>internal/mbl/lexer\<close>): the token types and keyword tables of
  \<open>tokens.go\<close>, and from \<open>lexer.go\<close> the cursor (\<open>readChar\<close>, \<open>peekChar\<close>), the readers of
  identifiers, numbers, text, time and money literals, comments and modifiers, the indentation
  handling that emits \<open>INDENT\<close> and \<open>DEDENT\<close>, and \<open>NextToken\<close>. Runes are natural numbers.
  The Unicode letter table beyond Latin-1 belongs to the Go release that builds the program and
  is the parameter \<open>U\<close>.
\<close>

subsection \<open>Tokens\<close>

text \<open>\<open>TokenType\<close> is an integer type whose constants are numbered by \<open>iota\<close>.\<close>

type_synonym TokenType = nat

abbreviation (input) ILLEGAL :: TokenType where "ILLEGAL \<equiv> 0"
abbreviation (input) EOF :: TokenType where "EOF \<equiv> 1"
abbreviation (input) NEWLINE :: TokenType where "NEWLINE \<equiv> 2"
abbreviation (input) IDENT :: TokenType where "IDENT \<equiv> 3"
abbreviation (input) TEXT :: TokenType where "TEXT \<equiv> 4"
abbreviation (input) INTERP_TEXT :: TokenType where "INTERP_TEXT \<equiv> 5"
abbreviation (input) NUMBER :: TokenType where "NUMBER \<equiv> 6"
abbreviation (input) TIME :: TokenType where "TIME \<equiv> 7"
abbreviation (input) MONEY :: TokenType where "MONEY \<equiv> 8"
abbreviation (input) IF :: TokenType where "IF \<equiv> 9"
abbreviation (input) ELSE :: TokenType where "ELSE \<equiv> 10"
abbreviation (input) WHILE :: TokenType where "WHILE \<equiv> 11"
abbreviation (input) FOR :: TokenType where "FOR \<equiv> 12"
abbreviation (input) IN :: TokenType where "IN \<equiv> 13"
abbreviation (input) CONSIDER :: TokenType where "CONSIDER \<equiv> 14"
abbreviation (input) WATCH :: TokenType where "WATCH \<equiv> 15"
abbreviation (input) APPEND :: TokenType where "APPEND \<equiv> 16"
abbreviation (input) AS :: TokenType where "AS \<equiv> 17"
abbreviation (input) RETURN :: TokenType where "RETURN \<equiv> 18"
abbreviation (input) BREAK :: TokenType where "BREAK \<equiv> 19"
abbreviation (input) PASS :: TokenType where "PASS \<equiv> 20"
abbreviation (input) NEW :: TokenType where "NEW \<equiv> 21"
abbreviation (input) CATCH :: TokenType where "CATCH \<equiv> 22"
abbreviation (input) PROCEDURE :: TokenType where "PROCEDURE \<equiv> 23"
abbreviation (input) AND_KW :: TokenType where "AND_KW \<equiv> 24"
abbreviation (input) OR_KW :: TokenType where "OR_KW \<equiv> 25"
abbreviation (input) NOT_KW :: TokenType where "NOT_KW \<equiv> 26"
abbreviation (input) TRUE :: TokenType where "TRUE \<equiv> 27"
abbreviation (input) FALSE :: TokenType where "FALSE \<equiv> 28"
abbreviation (input) MY :: TokenType where "MY \<equiv> 29"
abbreviation (input) WORLD :: TokenType where "WORLD \<equiv> 30"
abbreviation (input) QUOTE :: TokenType where "QUOTE \<equiv> 31"
abbreviation (input) TAB :: TokenType where "TAB \<equiv> 32"
abbreviation (input) NEWLINE_LITERAL :: TokenType where "NEWLINE_LITERAL \<equiv> 33"
abbreviation (input) EMPTY :: TokenType where "EMPTY \<equiv> 34"
abbreviation (input) PI :: TokenType where "PI \<equiv> 35"
abbreviation (input) EULER :: TokenType where "EULER \<equiv> 36"
abbreviation (input) NOTHING :: TokenType where "NOTHING \<equiv> 37"
abbreviation (input) UNKNOWN :: TokenType where "UNKNOWN \<equiv> 38"
abbreviation (input) ANYTHING :: TokenType where "ANYTHING \<equiv> 39"
abbreviation (input) EMBED :: TokenType where "EMBED \<equiv> 40"
abbreviation (input) SPREAD :: TokenType where "SPREAD \<equiv> 41"
abbreviation (input) PLUS :: TokenType where "PLUS \<equiv> 42"
abbreviation (input) MINUS :: TokenType where "MINUS \<equiv> 43"
abbreviation (input) MULTIPLY :: TokenType where "MULTIPLY \<equiv> 44"
abbreviation (input) DIVIDE :: TokenType where "DIVIDE \<equiv> 45"
abbreviation (input) MODULO :: TokenType where "MODULO \<equiv> 46"
abbreviation (input) POWER :: TokenType where "POWER \<equiv> 47"
abbreviation (input) CONCAT :: TokenType where "CONCAT \<equiv> 48"
abbreviation (input) EQUAL :: TokenType where "EQUAL \<equiv> 49"
abbreviation (input) NOT_EQUAL :: TokenType where "NOT_EQUAL \<equiv> 50"
abbreviation (input) GT :: TokenType where "GT \<equiv> 51"
abbreviation (input) LT :: TokenType where "LT \<equiv> 52"
abbreviation (input) GTE :: TokenType where "GTE \<equiv> 53"
abbreviation (input) LTE :: TokenType where "LTE \<equiv> 54"
abbreviation (input) ASSIGN :: TokenType where "ASSIGN \<equiv> 55"
abbreviation (input) RANGE :: TokenType where "RANGE \<equiv> 56"
abbreviation (input) DEFINE :: TokenType where "DEFINE \<equiv> 57"
abbreviation (input) LPAREN :: TokenType where "LPAREN \<equiv> 58"
abbreviation (input) RPAREN :: TokenType where "RPAREN \<equiv> 59"
abbreviation (input) LBRACKET :: TokenType where "LBRACKET \<equiv> 60"
abbreviation (input) RBRACKET :: TokenType where "RBRACKET \<equiv> 61"
abbreviation (input) LBRACE :: TokenType where "LBRACE \<equiv> 62"
abbreviation (input) RBRACE :: TokenType where "RBRACE \<equiv> 63"
abbreviation (input) COMMA :: TokenType where "COMMA \<equiv> 64"
abbreviation (input) DOT :: TokenType where "DOT \<equiv> 65"
abbreviation (input) SEMICOLON :: TokenType where "SEMICOLON \<equiv> 66"
abbreviation (input) INDENT :: TokenType where "INDENT \<equiv> 67"
abbreviation (input) DEDENT :: TokenType where "DEDENT \<equiv> 68"
abbreviation (input) COPY :: TokenType where "COPY \<equiv> 69"
abbreviation (input) LINK :: TokenType where "LINK \<equiv> 70"
abbreviation (input) RESET :: TokenType where "RESET \<equiv> 71"
abbreviation (input) EXCLUDE :: TokenType where "EXCLUDE \<equiv> 72"
abbreviation (input) PROTECTED :: TokenType where "PROTECTED \<equiv> 73"
abbreviation (input) CASCADE :: TokenType where "CASCADE \<equiv> 74"
abbreviation (input) QUIETLY :: TokenType where "QUIETLY \<equiv> 75"
abbreviation (input) COMMENT :: TokenType where "COMMENT \<equiv> 76"
abbreviation (input) BLOCK_COMMENT :: TokenType where "BLOCK_COMMENT \<equiv> 77"

record Token =
  Type :: TokenType
  Literal :: gostring
  Line :: nat
  Column :: nat
  Position :: nat

definition keyword_table :: "(gostring \<times> TokenType) list" where
  "keyword_table =
     [(str ''if'', IF), (str ''else'', ELSE), (str ''while'', WHILE), (str ''for'', FOR), (str ''in'', IN),
      (str ''consider'', CONSIDER), (str ''watch'', WATCH), (str ''append'', APPEND), (str ''as'', AS),
      (str ''return'', RETURN), (str ''break'', BREAK), (str ''pass'', PASS), (str ''new'', NEW),
      (str ''catch'', CATCH), (str ''procedure'', PROCEDURE), (str ''and'', AND_KW), (str ''or'', OR_KW),
      (str ''not'', NOT_KW), (str ''true'', TRUE), (str ''false'', FALSE), (str ''my'', MY),
      (str ''world'', WORLD), (str ''quote'', QUOTE), (str ''tab'', TAB),
      (str ''newline'', NEWLINE_LITERAL), (str ''empty'', EMPTY), (str ''pi'', PI), (str ''euler'', EULER),
      (str ''nothing'', NOTHING), (str ''unknown'', UNKNOWN), (str ''anything'', ANYTHING),
      (str ''embed'', EMBED), (str ''quietly'', QUIETLY)]"

definition LookupIdent :: "gostring \<Rightarrow> TokenType" where
  "LookupIdent ident = (case map_of keyword_table ident of Some t \<Rightarrow> t | None \<Rightarrow> IDENT)"

definition modifier_table :: "(gostring \<times> TokenType) list" where
  "modifier_table =
     [(str ''copy'', COPY), (str ''link'', LINK), (str ''reset'', RESET), (str ''exclude'', EXCLUDE),
      (str ''protected'', PROTECTED), (str ''cascade'', CASCADE), (str ''quietly'', QUIETLY)]"

definition LookupModifier :: "gostring \<Rightarrow> TokenType" where
  "LookupModifier word = (case map_of modifier_table word of Some t \<Rightarrow> t | None \<Rightarrow> IDENT)"

subsection \<open>Runes and strings\<close>

definition rune :: "char \<Rightarrow> nat" where
  "rune c = of_char c"

text \<open>\<open>utf8.DecodeRuneInString\<close>: an ill-formed byte is \<open>RuneError\<close> of width one.\<close>

definition rune_size :: "gostring \<Rightarrow> nat" where
  "rune_size s = (case utf8_width s of None \<Rightarrow> 1 | Some n \<Rightarrow> n)"

text \<open>\<open>string(r)\<close> of a rune; surrogates and values above \<open>10FFFF\<close> give \<open>RuneError\<close>.\<close>

definition string_rune :: "nat \<Rightarrow> gostring" where
  "string_rune r =
     (if r < 0x80 then [of_nat r]
      else if r < 0x800 then [of_nat (0xC0 + r div 64), of_nat (0x80 + r mod 64)]
      else if 0xD800 \<le> r \<and> r < 0xE000 \<or> 0x10FFFF < r then [0xEF, 0xBF, 0xBD]
      else if r < 0x10000 then
        [of_nat (0xE0 + r div 4096), of_nat (0x80 + r div 64 mod 64), of_nat (0x80 + r mod 64)]
      else
        [of_nat (0xF0 + r div 262144), of_nat (0x80 + r div 4096 mod 64), of_nat (0x80 + r div 64 mod 64),
         of_nat (0x80 + r mod 64)])"

text \<open>\<open>unicode.IsLetter\<close>: the letters of Latin-1, and the table \<open>U\<close> above it.\<close>

definition IsLetter :: "(nat \<Rightarrow> bool) \<Rightarrow> nat \<Rightarrow> bool" where
  "IsLetter U r \<longleftrightarrow>
     (if r \<le> 0xFF
      then rune CHR ''A'' \<le> r \<and> r \<le> rune CHR ''Z'' \<or> rune CHR ''a'' \<le> r \<and> r \<le> rune CHR ''z''
           \<or> r = 0xAA \<or> r = 0xB5 \<or> r = 0xBA \<or> 0xC0 \<le> r \<and> r \<noteq> 0xD7 \<and> r \<noteq> 0xF7
      else U r)"

text \<open>\<open>isLetter\<close> and \<open>isDigit\<close> of the scanner.\<close>

definition isLetter :: "(nat \<Rightarrow> bool) \<Rightarrow> nat \<Rightarrow> bool" where
  "isLetter U r \<longleftrightarrow> IsLetter U r \<or> r = rune CHR ''_''"

definition isDigit :: "nat \<Rightarrow> bool" where
  "isDigit r \<longleftrightarrow> rune CHR ''0'' \<le> r \<and> r \<le> rune CHR ''9''"

text \<open>The substr expression \<open>s[i:j]\<close>.\<close>

definition substr :: "gostring \<Rightarrow> nat \<Rightarrow> nat \<Rightarrow> gostring" where
  "substr s i j = take (j - i) (drop i s)"

subsection \<open>The cursor\<close>

record Lexer =
  input :: gostring
  position :: nat
  readPosition :: nat
  ch :: nat
  line :: nat
  column :: nat
  indentStack :: "nat list"
  pendingDedents :: nat
  atLineStart :: bool
  previousToken :: TokenType

definition fetch :: "Lexer \<Rightarrow> Lexer" where
  "fetch l =
     (if length (input l) \<le> readPosition l then l\<lparr>ch := 0, position := readPosition l\<rparr>
      else let s = drop (readPosition l) (input l)
           in l\<lparr>ch := rune_at s, position := readPosition l, readPosition := readPosition l + rune_size s\<rparr>)"

definition track :: "Lexer \<Rightarrow> Lexer" where
  "track l =
     (if ch l = 10 then l\<lparr>line := line l + 1, column := 0, atLineStart := True\<rparr>
      else if ch l \<noteq> 9 \<or> \<not> atLineStart l then
        let l1 = l\<lparr>column := column l + 1\<rparr>
        in if ch l1 \<noteq> 32 \<and> ch l1 \<noteq> 9 \<and> 1 < column l1 then l1\<lparr>atLineStart := False\<rparr> else l1
      else l)"

definition readChar :: "Lexer \<Rightarrow> Lexer" where
  "readChar l = track (fetch l)"

definition peekChar :: "Lexer \<Rightarrow> nat" where
  "peekChar l = (if length (input l) \<le> readPosition l then 0 else rune_at (drop (readPosition l) (input l)))"

definition New :: "gostring \<Rightarrow> Lexer" where
  "New s = readChar \<lparr>input = s, position = 0, readPosition = 0, ch = 0, line = 1, column = 0,
     indentStack = [0], pendingDedents = 0, atLineStart = True, previousToken = ILLEGAL\<rparr>"

text \<open>
  What the scanner never changes while it reads characters, and how far the cursor has moved. These
  facts hold of every state, so the loops below can be shown to end before any invariant is known.
\<close>

lemma rune_size_pos [simp]: "0 < rune_size s"
  using utf8_width_pos [of s] by (auto simp: rune_size_def split: option.splits)

lemma track_fields [simp]:
  "input (track l) = input l" "position (track l) = position l" "readPosition (track l) = readPosition l"
  "ch (track l) = ch l" "indentStack (track l) = indentStack l" "pendingDedents (track l) = pendingDedents l"
  "previousToken (track l) = previousToken l"
  by (simp_all add: track_def Let_def)

lemma readChar_fields [simp]:
  "input (readChar l) = input l" "indentStack (readChar l) = indentStack l"
  "pendingDedents (readChar l) = pendingDedents l" "previousToken (readChar l) = previousToken l"
  "position (readChar l) = readPosition l"
  by (simp_all add: readChar_def fetch_def Let_def)

lemma readChar_at_end: "length (input l) \<le> readPosition l \<Longrightarrow> ch (readChar l) = 0 \<and> readPosition (readChar l) = readPosition l"
  by (simp add: readChar_def fetch_def)

lemma readChar_inside:
  "readPosition l < length (input l) \<Longrightarrow>
     readPosition l < readPosition (readChar l)
     \<and> readPosition (readChar l) = readPosition l + rune_size (drop (readPosition l) (input l))
     \<and> ch (readChar l) = rune_at (drop (readPosition l) (input l))"
  by (simp add: readChar_def fetch_def Let_def)

text \<open>
  The loops \<open>for P(l.ch) { l.readChar() }\<close>. No condition of the scanner holds of the end marker 0,
  so the extra test leaves them as they are.
\<close>

abbreviation cursor_measure :: "(Lexer \<times> Lexer) set" where
  "cursor_measure \<equiv> measures [\<lambda>l. length (input l) - readPosition l, \<lambda>l. if ch l = 0 then 0 else 1,
     \<lambda>l. length (input l) - position l]"

lemma readChar_shrinks:
  "readPosition l < length (input l) \<Longrightarrow>
     length (input l) - readPosition (readChar l) < length (input l) - readPosition l"
  using readChar_inside [of l] by (simp add: diff_less_mono2 del: readChar_fields)

lemma readChar_cursor_measure: "ch l \<noteq> 0 \<Longrightarrow> (readChar l, l) \<in> cursor_measure"
  using readChar_at_end [of l] readChar_shrinks [of l]
  by (cases "readPosition l < length (input l)") simp_all

function skip_while :: "(nat \<Rightarrow> bool) \<Rightarrow> Lexer \<Rightarrow> Lexer" where
  "skip_while P l = (if ch l \<noteq> 0 \<and> P (ch l) then skip_while P (readChar l) else l)"
  by auto
termination
  by (relation "inv_image cursor_measure snd") (auto simp: readChar_cursor_measure simp del: in_measures)

declare skip_while.simps [simp del]

text \<open>The same loop counting its rounds, and with at most \<open>n\<close> rounds.\<close>

function count_while :: "(nat \<Rightarrow> bool) \<Rightarrow> nat \<Rightarrow> Lexer \<Rightarrow> nat \<times> Lexer" where
  "count_while P n l = (if ch l \<noteq> 0 \<and> P (ch l) then count_while P (n + 1) (readChar l) else (n, l))"
  by auto
termination
  by (relation "inv_image cursor_measure (snd \<circ> snd)") (auto simp: readChar_cursor_measure simp del: in_measures)

declare count_while.simps [simp del]

primrec read_up_to :: "nat \<Rightarrow> (nat \<Rightarrow> bool) \<Rightarrow> Lexer \<Rightarrow> nat \<times> Lexer" where
  "read_up_to 0 P l = (0, l)"
| "read_up_to (Suc n) P l =
     (if P (ch l) then let (k, l1) = read_up_to n P (readChar l) in (k + 1, l1) else (0, l))"

text \<open>\<open>for l.position < end { l.readChar() }\<close>, for an \<open>end\<close> inside the input.\<close>

function advance_to :: "nat \<Rightarrow> Lexer \<Rightarrow> Lexer" where
  "advance_to e l = (if position l < e \<and> position l < length (input l) then advance_to e (readChar l) else l)"
  by auto
termination
proof (relation "inv_image (measures [\<lambda>l. length (input l) - readPosition l, \<lambda>l. length (input l) - position l]) snd",
    goal_cases)
  case (2 e l)
  then show ?case
    using readChar_at_end [of l] readChar_shrinks [of l]
    by (cases "readPosition l < length (input l)") simp_all
qed simp

declare advance_to.simps [simp del]

subsection \<open>Literals\<close>

definition skipWhitespace :: "Lexer \<Rightarrow> Lexer" where
  "skipWhitespace l = skip_while (\<lambda>c. c = 32 \<or> c = 13) l"

definition MAX_IDENTIFIER_LENGTH :: nat where
  "MAX_IDENTIFIER_LENGTH = 255"

definition readIdentifier :: "(nat \<Rightarrow> bool) \<Rightarrow> Lexer \<Rightarrow> gostring \<times> Lexer" where
  "readIdentifier U l =
     (let (charCount, l1) = read_up_to MAX_IDENTIFIER_LENGTH (\<lambda>c. isLetter U c \<or> isDigit c \<or> c = rune CHR ''_'') l
      in (substr (input l) (position l) (position l1), l1))"

definition MAX_NUMBER_LENGTH :: nat where
  "MAX_NUMBER_LENGTH = 100"

text \<open>The digit loop of \<open>readNumber\<close>: underscores are consumed but neither written nor counted.\<close>

function read_digits :: "gostring \<times> nat \<times> Lexer \<Rightarrow> gostring \<times> nat \<times> Lexer" where
  "read_digits (result, digitCount, l) =
     (if (isDigit (ch l) \<or> ch l = rune CHR ''_'') \<and> digitCount < MAX_NUMBER_LENGTH then
        if ch l = rune CHR ''_'' then read_digits (result, digitCount, readChar l)
        else read_digits (result @ string_rune (ch l), digitCount + 1, readChar l)
      else (result, digitCount, l))"
  by auto
termination
  by (relation "inv_image cursor_measure (snd \<circ> snd)")
    (auto simp: isDigit_def rune_def intro: readChar_cursor_measure simp del: in_measures)

declare read_digits.simps [simp del]

text \<open>Writing the current character and consuming it.\<close>

definition take_char :: "gostring \<times> nat \<times> Lexer \<Rightarrow> gostring \<times> nat \<times> Lexer" where
  "take_char = (\<lambda>(result, digitCount, l). (result @ string_rune (ch l), digitCount + 1, readChar l))"

definition number_fraction :: "gostring \<times> nat \<times> Lexer \<Rightarrow> gostring \<times> nat \<times> Lexer" where
  "number_fraction = (\<lambda>(result, digitCount, l).
     if ch l = rune CHR ''.'' \<and> isDigit (peekChar l) \<and> digitCount < MAX_NUMBER_LENGTH
     then read_digits (take_char (result, digitCount, l))
     else (result, digitCount, l))"

definition number_sign :: "gostring \<times> nat \<times> Lexer \<Rightarrow> gostring \<times> nat \<times> Lexer" where
  "number_sign = (\<lambda>(result, digitCount, l).
     if (ch l = rune CHR ''+'' \<or> ch l = rune CHR ''-'') \<and> digitCount < MAX_NUMBER_LENGTH
     then take_char (result, digitCount, l) else (result, digitCount, l))"

definition number_exponent :: "gostring \<times> nat \<times> Lexer \<Rightarrow> gostring \<times> nat \<times> Lexer" where
  "number_exponent = (\<lambda>(result, digitCount, l).
     if (ch l = rune CHR ''e'' \<or> ch l = rune CHR ''E'') \<and> digitCount < MAX_NUMBER_LENGTH
     then read_digits (number_sign (take_char (result, digitCount, l)))
     else (result, digitCount, l))"

definition readNumber :: "Lexer \<Rightarrow> gostring \<times> Lexer" where
  "readNumber l =
     (let (result, digitCount, l1) = number_exponent (number_fraction (read_digits ([], 0, l)))
      in (result, l1))"

definition MaxConsecutiveQuotes :: nat where
  "MaxConsecutiveQuotes = 10"

definition lx_readString :: "Lexer \<Rightarrow> (gostring \<times> bool) \<times> Lexer" where
  "lx_readString l =
     (let l1 = skip_while (\<lambda>c. c \<noteq> rune CHR ''\"'') (readChar l)
      in if ch l1 \<noteq> 0
         then let l2 = readChar l1 in ((substr (input l) (position l) (position l2), True), l2)
         else ((substr (input l) (position l) (position l1), False), l1))"

text \<open>The number of quotes at the start of a string.\<close>

definition quote :: u8 where
  "quote = 0x22"

definition quote_run :: "gostring \<Rightarrow> nat" where
  "quote_run s = length (takeWhile (\<lambda>b. b = quote) s)"

text \<open>\<open>findSigilClose\<close>, from offset \<open>i\<close> of the input.\<close>

function findSigilClose :: "gostring \<Rightarrow> nat \<Rightarrow> nat \<Rightarrow> u8 \<Rightarrow> nat option" where
  "findSigilClose s i openQuotes sigil =
     (if length s \<le> i then None
      else if s ! i \<noteq> quote then findSigilClose s (i + 1) openQuotes sigil
      else let runEnd = i + quote_run (drop i s)
           in if openQuotes \<le> runEnd - i \<and> runEnd < length s \<and> s ! runEnd = sigil then Some (runEnd + 1)
              else findSigilClose s runEnd openQuotes sigil)"
  by auto
termination
proof (relation "measure (\<lambda>(s, i, _). length s - i)", goal_cases)
  case (3 s i q b x)
  then have "0 < quote_run (drop i s)" by (simp add: quote_run_def takeWhile_eq_Nil_iff hd_drop_conv_nth)
  then show ?case using 3 by simp
qed auto

declare findSigilClose.simps [simp del]

text \<open>The first opening run, from the longest down to one quote, that has a matching close.\<close>

primrec sigil_close :: "gostring \<Rightarrow> nat \<Rightarrow> nat \<Rightarrow> u8 \<Rightarrow> (nat \<times> nat) option" where
  "sigil_close s runStart 0 sigil = None"
| "sigil_close s runStart (Suc n) sigil =
     (case findSigilClose s (runStart + Suc n) (Suc n) sigil of
        Some e \<Rightarrow> Some (Suc n, e)
      | None \<Rightarrow> sigil_close s runStart n sigil)"

definition readSigilString :: "u8 \<Rightarrow> Lexer \<Rightarrow> (gostring \<times> bool) \<times> Lexer" where
  "readSigilString sigil l =
     (let startPos = position l;
          runStart = startPos + 1;
          maxRun = min MaxConsecutiveQuotes (quote_run (drop runStart (input l)))
      in case sigil_close (input l) runStart maxRun sigil of
           Some (openQuotes, e) \<Rightarrow>
             let l1 = advance_to e l in ((substr (input l) startPos (position l1), True), l1)
         | None \<Rightarrow>
             let l1 = skip_while (\<lambda>c. True) l in ((substr (input l) startPos (position l1), False), l1))"

text \<open>\<open>UnquoteText\<close>: the delimiter loop, then both forms.\<close>

primrec unquote_sigil :: "gostring \<Rightarrow> nat \<Rightarrow> gostring option" where
  "unquote_sigil literal 0 = None"
| "unquote_sigil literal (Suc n) =
     (if length literal < 2 * Suc n + 2 then unquote_sigil literal n
      else if substr literal (length literal - 1 - Suc n) (length literal - 1) = replicate (Suc n) quote
      then Some (substr literal (1 + Suc n) (length literal - 1 - Suc n))
      else unquote_sigil literal n)"

definition underscore :: u8 where "underscore = 0x5F"

definition tilde :: u8 where "tilde = 0x7E"

definition UnquoteText :: "gostring \<Rightarrow> gostring \<times> bool" where
  "UnquoteText literal =
     (if 4 \<le> length literal \<and> (literal ! 0 = underscore \<or> literal ! 0 = tilde)
         \<and> literal ! (length literal - 1) = literal ! 0 then
        let maxRun = min MaxConsecutiveQuotes (quote_run (substr literal 1 (length literal - 1)))
        in case unquote_sigil literal maxRun of Some v \<Rightarrow> (v, True) | None \<Rightarrow> (literal, False)
      else if 2 \<le> length literal \<and> literal ! 0 = quote \<and> literal ! (length literal - 1) = quote
      then (substr literal 1 (length literal - 1), True)
      else (literal, False))"

definition readTimeLiteral :: "(nat \<Rightarrow> bool) \<Rightarrow> Lexer \<Rightarrow> gostring \<times> Lexer" where
  "readTimeLiteral U l =
     (let l1 = readChar l;
          l2 = (if isLetter U (ch l1) then skip_while (\<lambda>c. isLetter U c \<or> isDigit c \<or> c = rune CHR ''_'') l1
                else let d = skip_while (\<lambda>c. isDigit c \<or> c = rune CHR ''-'') l1
                     in if ch d = 32 \<and> isDigit (peekChar d)
                        then skip_while (\<lambda>c. isDigit c \<or> c = rune CHR '':'' \<or> c = rune CHR ''.'') (readChar d)
                        else d)
      in (substr (input l) (position l) (position l2), l2))"

definition readMoneyLiteral :: "(nat \<Rightarrow> bool) \<Rightarrow> Lexer \<Rightarrow> gostring \<times> Lexer" where
  "readMoneyLiteral U l =
     (let l1 = skip_while (\<lambda>c. isDigit c \<or> c = rune CHR ''.'') (readChar l);
          l2 = skip_while (isLetter U) (skip_while (\<lambda>c. c = 32) l1)
      in (substr (input l) (position l) (position l2), l2))"

subsection \<open>Comments\<close>

text \<open>
  The token a reader returns: its text runs from the saved position, its line and column are those
  of the cursor after it.
\<close>

definition token_from :: "TokenType \<Rightarrow> nat \<Rightarrow> Lexer \<Rightarrow> Token" where
  "token_from t start l =
     \<lparr>Type = t, Literal = substr (input l) start (position l), Line = line l, Column = column l, Position = start\<rparr>"

text \<open>Going back to a saved offset, as the search for the end of a block comment does.\<close>

definition backtrack :: "nat \<Rightarrow> Lexer \<Rightarrow> Lexer" where
  "backtrack tempPos l =
     (let l1 = l\<lparr>position := tempPos, readPosition := tempPos + 1\<rparr>
      in if tempPos < length (input l)
         then l1\<lparr>ch := rune_at (drop tempPos (input l)), readPosition := tempPos + rune_size (drop tempPos (input l))\<rparr>
         else l1)"

lemma backtrack_fields [simp]:
  "input (backtrack p l) = input l" "indentStack (backtrack p l) = indentStack l"
  "pendingDedents (backtrack p l) = pendingDedents l" "position (backtrack p l) = p"
  "p < length (input l) \<Longrightarrow> readPosition (backtrack p l) = p + rune_size (drop p (input l))"
  "p < length (input l) \<Longrightarrow> ch (backtrack p l) = rune_at (drop p (input l))"
  by (simp_all add: backtrack_def Let_def)

lemma read_up_to_input [simp]: "input (snd (read_up_to n P l)) = input l"
  by (induction n arbitrary: l) (simp_all add: split_def Let_def)

text \<open>
  The loop of a block comment. The cursor always stands before its reading position and inside the
  input while there is a character, so the second test never ends the loop.
\<close>

function block_comment :: "nat \<Rightarrow> Lexer \<Rightarrow> Lexer" where
  "block_comment openHashCount l =
     (if ch l = 0 \<or> \<not> (position l < readPosition l \<and> position l < length (input l)) then l
      else if ch l = rune CHR ''#'' then
        let hl = read_up_to openHashCount (\<lambda>c. c = rune CHR ''#'') l
        in if fst hl = openHashCount then snd hl
           else block_comment openHashCount (readChar (backtrack (position l) (snd hl)))
      else block_comment openHashCount (readChar l))"
  by auto
termination
  by (relation "measure (\<lambda>(_, l). length (input l) - position l)") (auto simp: diff_less_mono2)

declare block_comment.simps [simp del]

definition readComment :: "Lexer \<Rightarrow> Token \<times> Lexer" where
  "readComment l =
     (let (openHashCount, l1) = count_while (\<lambda>c. c = rune CHR ''#'') 0 l
      in if openHashCount = 1 then
           let l2 = skip_while (\<lambda>c. c \<noteq> 10 \<and> c \<noteq> rune CHR ''#'') l1;
               l3 = (if ch l2 = rune CHR ''#'' then readChar l2 else l2)
           in (token_from COMMENT (position l) l3, l3)
         else
           let l2 = block_comment openHashCount l1
           in (token_from BLOCK_COMMENT (position l) l2, l2))"

subsection \<open>Modifiers\<close>

definition close_paren :: u8 where "close_paren = 0x29"

text \<open>The text between the parenthesis under the cursor and the next one, if it closes on this line.\<close>

definition paren_word :: "Lexer \<Rightarrow> gostring option" where
  "paren_word l =
     (let rest = drop (readPosition l) (input l);
          word = takeWhile (\<lambda>b. b \<noteq> close_paren \<and> b \<noteq> 10) rest
      in if length rest \<le> length word \<or> rest ! length word \<noteq> close_paren then None else Some word)"

definition reset_prefix :: gostring where
  "reset_prefix = str ''reset ''"

text \<open>A trimmed word that may be an unknown modifier: one identifier without digits.\<close>

definition modifier_word :: "(nat \<Rightarrow> bool) \<Rightarrow> gostring \<Rightarrow> bool" where
  "modifier_word U w \<longleftrightarrow>
     0 < length w \<and> dot \<notin> set w \<and> 32 \<notin> set w \<and> quote \<notin> set w
     \<and> (\<forall>b \<in> set w. \<not> isDigit (unat b))
     \<and> (IsLetter U (rune_at w) \<or> rune_at w = rune CHR ''_'')"

definition isStandaloneModifier :: "(nat \<Rightarrow> bool) \<Rightarrow> Lexer \<Rightarrow> bool" where
  "isStandaloneModifier U l =
     (if ch l \<noteq> rune CHR ''('' then False
      else case paren_word l of
        None \<Rightarrow> False
      | Some word \<Rightarrow>
          let afterClosing = readPosition l + length word + 1;
              wordTrimmed = TrimSpace word
          in if afterClosing < length (input l) \<and> input l ! afterClosing = 0x3A then False
             else if length word = 0 then False
             else if map_of modifier_table word \<noteq> None then True
             else if HasPrefix wordTrimmed reset_prefix then True
             else if 0 < position l
                     \<and> (let prev = unat (input l ! (position l - 1))
                        in prev = rune CHR ''_'' \<or> IsLetter U prev \<or> isDigit prev) then False
             else modifier_word U wordTrimmed)"

definition isModifier :: "Lexer \<Rightarrow> bool" where
  "isModifier l =
     (if ch l \<noteq> rune CHR ''('' then False
      else case paren_word l of None \<Rightarrow> False | Some word \<Rightarrow> map_of modifier_table word \<noteq> None)"

definition modifier_type :: "gostring \<Rightarrow> TokenType" where
  "modifier_type word =
     (case map_of modifier_table word of
        Some t \<Rightarrow> t
      | None \<Rightarrow> if HasPrefix (TrimSpace word) reset_prefix then RESET else IDENT)"

definition readModifier :: "Lexer \<Rightarrow> Token \<times> Lexer" where
  "readModifier l =
     (let l1 = readChar l;
          l2 = skip_while (\<lambda>c. c \<noteq> rune CHR '')'' \<and> c \<noteq> 10) l1;
          word = substr (input l) (position l1) (position l2);
          l3 = (if ch l2 = rune CHR '')'' then readChar l2 else l2)
      in (token_from (modifier_type word) (position l) l3, l3))"

subsection \<open>The next token\<close>

definition lookupIdentWithContext :: "gostring \<Rightarrow> Lexer \<Rightarrow> TokenType" where
  "lookupIdentWithContext ident l =
     (if previousToken l = RANGE \<and> (ident = str ''append'' \<or> ident = str ''prepend'') then IDENT
      else LookupIdent ident)"

text \<open>The end of \<open>NextToken\<close>: the type of the token is remembered.\<close>

definition emit :: "Token \<Rightarrow> Lexer \<Rightarrow> Token \<times> Lexer" where
  "emit tok l = (tok, l\<lparr>previousToken := Type tok\<rparr>)"

definition dedent_token :: "Lexer \<Rightarrow> Token" where
  "dedent_token l = \<lparr>Type = DEDENT, Literal = [], Line = line l, Column = column l, Position = position l\<rparr>"

text \<open>A token of one character, and of one or two when \<open>=\<close> may follow.\<close>

definition one_char :: "TokenType \<Rightarrow> Token \<Rightarrow> Lexer \<Rightarrow> Token \<times> Lexer" where
  "one_char t tok l = emit (tok\<lparr>Type := t, Literal := string_rune (ch l)\<rparr>) (readChar l)"

definition with_equals :: "TokenType \<Rightarrow> TokenType \<Rightarrow> Token \<Rightarrow> Lexer \<Rightarrow> Token \<times> Lexer" where
  "with_equals t2 t1 tok l =
     (if peekChar l = rune CHR ''='' then
        let l1 = readChar l
        in emit (tok\<lparr>Type := t2, Literal := string_rune (ch l) @ string_rune (ch l1)\<rparr>) (readChar l1)
      else one_char t1 tok l)"

definition dots :: "Token \<Rightarrow> Lexer \<Rightarrow> Token \<times> Lexer" where
  "dots tok l =
     (if peekChar l = rune CHR ''.'' then
        let l1 = readChar l
        in if peekChar l1 = rune CHR ''.''
           then emit (tok\<lparr>Type := SPREAD, Literal := str ''...''\<rparr>) (readChar (readChar l1))
           else emit (tok\<lparr>Type := RANGE, Literal := string_rune (ch l) @ string_rune (ch l1)\<rparr>) (readChar l1)
      else one_char DOT tok l)"

definition end_of_input :: "Token \<Rightarrow> Lexer \<Rightarrow> Token \<times> Lexer" where
  "end_of_input tok l =
     (if 1 < length (indentStack l) then
        let l1 = l\<lparr>pendingDedents := length (indentStack l) - 1, indentStack := [0]\<rparr>
        in if 0 < pendingDedents l1
           then (dedent_token l1, l1\<lparr>pendingDedents := pendingDedents l1 - 1\<rparr>)
           else emit (tok\<lparr>Type := EOF, Literal := []\<rparr>) l1
      else emit (tok\<lparr>Type := EOF, Literal := []\<rparr>) l)"

definition sigil_text :: "u8 \<Rightarrow> Token \<Rightarrow> Lexer \<Rightarrow> Token \<times> Lexer" where
  "sigil_text sigil tok l =
     (let ((literal, terminated), l1) = readSigilString sigil l;
          t = (if \<not> terminated then ILLEGAL else if sigil = tilde then INTERP_TEXT else TEXT)
      in emit (tok\<lparr>Type := t, Literal := literal\<rparr>) l1)"

definition plain_text :: "Token \<Rightarrow> Lexer \<Rightarrow> Token \<times> Lexer" where
  "plain_text tok l =
     (let ((stringLiteral, terminated), l1) = lx_readString l
      in emit (tok\<lparr>Type := (if terminated then TEXT else ILLEGAL), Literal := stringLiteral\<rparr>) l1)"

definition word_token :: "(nat \<Rightarrow> bool) \<Rightarrow> Token \<Rightarrow> Lexer \<Rightarrow> Token \<times> Lexer" where
  "word_token U tok l =
     (let (literal, l1) = readIdentifier U l
      in (tok\<lparr>Literal := literal, Type := lookupIdentWithContext literal l1\<rparr>, l1))"

definition number_token :: "Token \<Rightarrow> Lexer \<Rightarrow> Token \<times> Lexer" where
  "number_token tok l =
     (let (numberLiteral, l1) = readNumber l
      in if ch l1 = rune CHR ''.''
         then let l2 = readChar l1
              in (tok\<lparr>Type := ILLEGAL, Literal := substr (input l) (position l) (position l2)\<rparr>, l2)
         else (tok\<lparr>Type := NUMBER, Literal := numberLiteral\<rparr>, l1))"

text \<open>The cases of the switch whose token is the character itself.\<close>

definition delimiters :: "(nat \<times> TokenType) list" where
  "delimiters =
     [(10, NEWLINE), (rune CHR '')'', RPAREN), (rune CHR ''['', LBRACKET), (rune CHR '']'', RBRACKET),
      (rune CHR ''{'', LBRACE), (rune CHR ''}'', RBRACE), (rune CHR '','', COMMA),
      (rune CHR '';'', SEMICOLON), (rune CHR '':'', DEFINE), (rune CHR ''+'', PLUS), (rune CHR ''-'', MINUS),
      (rune CHR ''*'', MULTIPLY), (rune CHR ''/'', DIVIDE), (rune CHR ''%'', MODULO), (rune CHR ''^'', POWER),
      (rune CHR ''&'', CONCAT), (rune CHR ''='', ASSIGN)]"

definition money_signs :: "nat list" where
  "money_signs = [0xA4, rune CHR ''$'', 0x20AC, 0xA3, 0xA5]"

definition scan_switch :: "(nat \<Rightarrow> bool) \<Rightarrow> Token \<Rightarrow> Lexer \<Rightarrow> Token \<times> Lexer" where
  "scan_switch U tok l =
     (if ch l = 0 then end_of_input tok l
      else if ch l = rune CHR ''#'' then readComment l
      else if ch l = rune CHR ''\"'' then plain_text tok l
      else if ch l = rune CHR ''@'' then
        let (literal, l1) = readTimeLiteral U l in emit (tok\<lparr>Type := TIME, Literal := literal\<rparr>) l1
      else if ch l \<in> set money_signs then
        let (literal, l1) = readMoneyLiteral U l in emit (tok\<lparr>Type := MONEY, Literal := literal\<rparr>) l1
      else if ch l = rune CHR ''('' then
        if isStandaloneModifier U l then readModifier l else one_char LPAREN tok l
      else if ch l = rune CHR ''.'' then dots tok l
      else if ch l = rune CHR ''!'' then with_equals NOT_EQUAL ILLEGAL tok l
      else if ch l = rune CHR ''?'' then with_equals EQUAL ILLEGAL tok l
      else if ch l = rune CHR ''>'' then with_equals GTE GT tok l
      else if ch l = rune CHR ''<'' then with_equals LTE LT tok l
      else case map_of delimiters (ch l) of
             Some t \<Rightarrow> one_char t tok l
           | None \<Rightarrow>
               if isLetter U (ch l) then word_token U tok l
               else if isDigit (ch l) then number_token tok l
               else one_char ILLEGAL tok l)"

text \<open>\<open>NextToken\<close> past the indentation handling.\<close>

definition scan_token :: "(nat \<Rightarrow> bool) \<Rightarrow> Lexer \<Rightarrow> Token \<times> Lexer" where
  "scan_token U l0 =
     (let l = skipWhitespace l0;
          tok = \<lparr>Type = ILLEGAL, Literal = [], Line = line l, Column = column l, Position = position l\<rparr>
      in if (ch l = rune CHR ''_'' \<or> ch l = rune CHR ''~'') \<and> peekChar l = rune CHR ''\"''
         then sigil_text (of_nat (ch l)) tok l
         else scan_switch U tok l)"

text \<open>The indentation of a line: tabs and spaces before its first other character.\<close>

function indentation :: "nat \<times> nat \<Rightarrow> Lexer \<Rightarrow> (nat \<times> nat) \<times> Lexer" where
  "indentation (tabsCount, spacesCount) l =
     (if ch l = 9 then indentation (tabsCount + 1, spacesCount) (readChar l)
      else if ch l = 32 then indentation (tabsCount, spacesCount + 1) (readChar l)
      else ((tabsCount, spacesCount), l))"
  by pat_completeness auto
termination
  by (relation "inv_image cursor_measure snd") (auto intro: readChar_cursor_measure simp del: in_measures)

declare indentation.simps [simp del]

text \<open>Popping the levels above \<open>indentLevel\<close>; the top of the stack is its last element.\<close>

function pop_levels :: "nat \<Rightarrow> nat list \<Rightarrow> nat \<Rightarrow> nat \<times> nat list" where
  "pop_levels indentLevel stack dedentCount =
     (if 1 < length stack \<and> indentLevel < last stack
      then pop_levels indentLevel (butlast stack) (dedentCount + 1)
      else (dedentCount, stack))"
  by auto
termination
  by (relation "measure (\<lambda>(_, stack, _). length stack)") auto

declare pop_levels.simps [simp del]

definition indent_token :: "TokenType \<Rightarrow> gostring \<Rightarrow> Lexer \<Rightarrow> nat \<Rightarrow> Token" where
  "indent_token t literal l pos = \<lparr>Type = t, Literal = literal, Line = line l, Column = column l, Position = pos\<rparr>"

function NextToken :: "(nat \<Rightarrow> bool) \<Rightarrow> Lexer \<Rightarrow> Token \<times> Lexer"
  and handleIndentation :: "(nat \<Rightarrow> bool) \<Rightarrow> Lexer \<Rightarrow> Token \<times> Lexer" where
  "NextToken U l =
     (if 0 < pendingDedents l then
        let l1 = l\<lparr>pendingDedents := pendingDedents l - 1\<rparr> in (dedent_token l1, l1)
      else if atLineStart l then handleIndentation U l
      else scan_token U l)"
| "handleIndentation U l =
     (case indentation (0, 0) l of ((tabsCount, spacesCount), l1) \<Rightarrow>
      let startPos = position l;
          indentLevel = (if 0 < tabsCount then tabsCount else spacesCount div 4)
      in if 0 < tabsCount \<and> 0 < spacesCount then
           (indent_token ILLEGAL (str ''mixed tabs and spaces in indentation'') l1 (position l1), l1)
         else if ch l1 = 10 \<or> ch l1 = 0 \<or> ch l1 = rune CHR ''#'' then
           if ch l1 = 10 then
             let l2 = readChar l1 in (indent_token NEWLINE [10] l2 (position l2), l2)
           else NextToken U (l1\<lparr>atLineStart := False\<rparr>)
         else
           let l2 = l1\<lparr>atLineStart := False\<rparr>;
               currentLevel = last (indentStack l2)
           in if currentLevel < indentLevel then
                (indent_token INDENT [] l2 startPos, l2\<lparr>indentStack := indentStack l2 @ [indentLevel]\<rparr>)
              else if indentLevel < currentLevel then
                case pop_levels indentLevel (indentStack l2) 0 of (dedentCount, stack) \<Rightarrow>
                let l3 = l2\<lparr>indentStack := stack\<rparr>
                in if 0 < length stack \<and> last stack \<noteq> indentLevel then
                     (indent_token ILLEGAL (str ''invalid indentation level'') l3 startPos, l3)
                   else if 0 < dedentCount then
                     (indent_token DEDENT [] l3 startPos, l3\<lparr>pendingDedents := dedentCount - 1\<rparr>)
                   else NextToken U l3
              else NextToken U l2)"
  by pat_completeness auto
termination
  by (relation "measure (\<lambda>x. case x of Inl (U, l) \<Rightarrow> (if atLineStart l then 2 else 0) | Inr (U, l) \<Rightarrow> 1)") auto

declare NextToken.simps [simp del] handleIndentation.simps [simp del]

subsection \<open>Looking ahead in the statement\<close>

text \<open>\<open>ContainsPattern\<close>: the pattern is tried at every offset up to the end of the line.\<close>

fun contains_pattern :: "gostring \<Rightarrow> gostring \<Rightarrow> bool" where
  "contains_pattern pattern remaining =
     (if length remaining < length pattern then False
      else if take (length pattern) remaining = pattern then True
      else case remaining of [] \<Rightarrow> False | b # rest \<Rightarrow> b \<noteq> 10 \<and> contains_pattern pattern rest)"

definition ContainsPattern :: "Lexer \<Rightarrow> gostring \<Rightarrow> bool" where
  "ContainsPattern l pattern = contains_pattern pattern (drop (position l) (input l))"

text \<open>
  \<open>HasTopLevelAssignment\<close>, with the previous byte (0 at the start), the bracket depth and whether the
  scan is inside a text literal.
\<close>

fun top_level_assignment :: "u8 \<Rightarrow> nat \<Rightarrow> bool \<Rightarrow> gostring \<Rightarrow> bool" where
  "top_level_assignment prev depth inString [] = False"
| "top_level_assignment prev depth inString (c # rest) =
     (if c = 10 then False
      else if inString then
        if c = 0x5C then (case rest of [] \<Rightarrow> False | d # rest' \<Rightarrow> top_level_assignment d depth True rest')
        else top_level_assignment c depth (c \<noteq> quote) rest
      else if c = quote then top_level_assignment c depth True rest
      else if c = 0x5B then top_level_assignment c (depth + 1) False rest
      else if c = 0x5D then top_level_assignment c (depth - 1) False rest
      else if c = 0x3D then
        if depth \<noteq> 0 then top_level_assignment c depth False rest
        else if prev \<in> {0x3D, 0x3E, 0x3C, 0x21, 0x3F} \<or> (rest \<noteq> [] \<and> hd rest = 0x3D)
        then top_level_assignment c depth False rest
        else True
      else top_level_assignment c depth False rest)"

definition HasTopLevelAssignment :: "Lexer \<Rightarrow> bool" where
  "HasTopLevelAssignment l = top_level_assignment 0 0 False (drop (position l) (input l))"

definition EndsWithPattern :: "Lexer \<Rightarrow> gostring \<Rightarrow> bool" where
  "EndsWithPattern l pattern =
     (let statement = takeWhile (\<lambda>b. b \<noteq> 10) (drop (position l) (input l))
      in length pattern \<le> length statement \<and> drop (length statement - length pattern) statement = pattern)"

end
