(* ===== verification/Mbl_Lexer_Correct.thy ===== *)
theory Mbl_Lexer_Correct
  imports Mbl_Lexer
begin

text \<open>
  The scanner always makes progress. The cursor stands on the character it says it does
  (\<open>cursor_ok\<close>) and the indentation stack grows strictly from 0 (\<open>stack_ok\<close>); every call of
  \<open>NextToken\<close> keeps both, and what it does to the depth of open blocks depends only on the type of
  the token it returns (\<open>effect\<close>). From this the token stream of any input ends, and its
  \<open>INDENT\<close> and \<open>DEDENT\<close> tokens match.
\<close>

subsection \<open>The cursor invariant\<close>

lemma utf8_width_le: "utf8_width s = Some n \<Longrightarrow> n \<le> length s"
  by (auto simp: utf8_width_def split: list.splits option.splits if_splits prod.splits)

lemma rune_size_le: "s \<noteq> [] \<Longrightarrow> rune_size s \<le> length s"
  using utf8_width_le [of s] by (cases s) (auto simp: rune_size_def split: option.splits)

definition cursor_ok :: "Lexer \<Rightarrow> bool" where
  "cursor_ok l \<longleftrightarrow>
     (if position l < length (input l)
      then ch l = rune_at (drop (position l) (input l))
           \<and> readPosition l = position l + rune_size (drop (position l) (input l))
      else position l = length (input l) \<and> readPosition l = length (input l) \<and> ch l = 0)"

lemma cursor_ok_inside: "cursor_ok l \<Longrightarrow> ch l \<noteq> 0 \<Longrightarrow> position l < length (input l)"
  by (auto simp: cursor_ok_def split: if_splits)

lemma cursor_ok_bound: "cursor_ok l \<Longrightarrow> position l \<le> readPosition l \<and> readPosition l \<le> length (input l)"
  using rune_size_le [of "drop (position l) (input l)"] by (auto simp: cursor_ok_def split: if_splits)

lemma cursor_ok_before: "cursor_ok l \<Longrightarrow> position l < length (input l) \<Longrightarrow> position l < readPosition l"
  using rune_size_pos by (simp add: cursor_ok_def)

text \<open>\<open>moved l l'\<close>: from \<open>l\<close> the scanner has only read characters to arrive in \<open>l'\<close>.\<close>

definition moved :: "Lexer \<Rightarrow> Lexer \<Rightarrow> bool" where
  "moved l l' \<longleftrightarrow> cursor_ok l' \<and> input l' = input l \<and> indentStack l' = indentStack l
     \<and> pendingDedents l' = pendingDedents l \<and> position l \<le> position l'"

lemma moved_refl [simp]: "cursor_ok l \<Longrightarrow> moved l l"
  by (simp add: moved_def)

lemma moved_trans: "moved a b \<Longrightarrow> moved b c \<Longrightarrow> moved a c"
  by (simp add: moved_def)

lemma moved_cursor: "moved l l' \<Longrightarrow> cursor_ok l'"
  by (simp add: moved_def)

lemma cursor_ok_readChar: "readPosition l \<le> length (input l) \<Longrightarrow> cursor_ok (readChar l)"
  using readChar_at_end [of l] readChar_inside [of l]
  by (cases "readPosition l < length (input l)") (simp_all add: cursor_ok_def)

lemma moved_readChar: "cursor_ok l \<Longrightarrow> moved l (readChar l)"
  using cursor_ok_bound [of l] by (simp add: moved_def cursor_ok_readChar)

lemma moved_readChar_trans: "moved a b \<Longrightarrow> moved a (readChar b)"
  by (blast intro: moved_trans moved_readChar moved_cursor)

lemma readChar_strict: "cursor_ok l \<Longrightarrow> ch l \<noteq> 0 \<Longrightarrow> position l < position (readChar l)"
  using cursor_ok_inside cursor_ok_before by auto

lemma moved_skip_while: "moved a l \<Longrightarrow> moved a (skip_while P l)"
proof (induction P l rule: skip_while.induct)
  case (1 P l)
  then show ?case by (subst skip_while.simps) (simp add: moved_readChar_trans)
qed

lemma moved_count_while: "moved a l \<Longrightarrow> moved a (snd (count_while P n l))"
proof (induction P n l rule: count_while.induct)
  case (1 P n l)
  then show ?case by (subst count_while.simps) (simp add: moved_readChar_trans)
qed

lemma moved_read_up_to: "moved a l \<Longrightarrow> moved a (snd (read_up_to n P l))"
  by (induction n arbitrary: l) (simp_all add: split_def Let_def moved_readChar_trans)

lemma moved_advance_to: "moved a l \<Longrightarrow> moved a (advance_to e l)"
proof (induction e l rule: advance_to.induct)
  case (1 e l)
  then show ?case by (subst advance_to.simps) (simp add: moved_readChar_trans)
qed

lemma moved_read_digits: "moved a (snd (snd x)) \<Longrightarrow> moved a (snd (snd (read_digits x)))"
proof (induction x rule: read_digits.induct)
  case (1 result digitCount l)
  then show ?case by (subst read_digits.simps) (simp add: moved_readChar_trans)
qed

lemma moved_indentation: "moved a l \<Longrightarrow> moved a (snd (indentation c l))"
proof (induction c l rule: indentation.induct)
  case (1 t s l)
  then show ?case by (subst indentation.simps) (simp add: moved_readChar_trans)
qed

lemma moved_backtrack:
  assumes "moved l l'" "position l < length (input l)"
  shows "moved l (readChar (backtrack (position l) l'))"
proof -
  have "readPosition (backtrack (position l) l') \<le> length (input l)"
    using assms rune_size_le [of "drop (position l) (input l)"] by (simp add: moved_def)
  then show ?thesis
    using assms cursor_ok_readChar [of "backtrack (position l) l'"] by (simp add: moved_def)
qed

lemma moved_block_comment: "cursor_ok l \<Longrightarrow> moved l (block_comment n l)"
proof (induction n l rule: block_comment.induct)
  case (1 n l)
  let ?hl = "read_up_to n (\<lambda>c. c = rune CHR ''#'') l"
  show ?case
  proof (cases "ch l = 0")
    case False
    then have inside: "position l < readPosition l \<and> position l < length (input l)"
      using 1(3) cursor_ok_inside cursor_ok_before by blast
    have hl: "moved l (snd ?hl)" using 1(3) by (simp add: moved_read_up_to)
    have bk: "moved l (readChar (backtrack (position l) (snd ?hl)))"
      using moved_backtrack [OF hl] inside by blast
    have rc: "moved l (readChar l)" using 1(3) by (rule moved_readChar)
    have "moved l (block_comment n (readChar (backtrack (position l) (snd ?hl))))"
      if "ch l = rune CHR ''#''" "fst ?hl \<noteq> n"
      using 1(1) [OF _ that(1) refl that(2)] inside False moved_trans [OF bk] moved_cursor [OF bk] by blast
    moreover have "moved l (block_comment n (readChar l))" if "ch l \<noteq> rune CHR ''#''"
      using 1(2) [OF _ that] inside False moved_trans [OF rc] moved_cursor [OF rc] by blast
    ultimately show ?thesis
      using False inside hl by (subst block_comment.simps) (simp add: Let_def)
  qed (use 1 in \<open>simp add: block_comment.simps\<close>)
qed

lemmas moved_intros = moved_skip_while moved_count_while moved_read_up_to moved_advance_to
  moved_read_digits moved_readChar_trans

subsection \<open>Readers consume\<close>

text \<open>
  A reader called on a character returns a token that is none of the layout tokens, and leaves the
  cursor further on.
\<close>

definition consumes :: "Lexer \<Rightarrow> Token \<times> Lexer \<Rightarrow> bool" where
  "consumes l r \<longleftrightarrow> moved l (snd r) \<and> position l < position (snd r)
     \<and> Type (fst r) \<notin> {EOF, INDENT, DEDENT}"

lemma moved_emit [simp]: "moved a (l\<lparr>previousToken := t\<rparr>) \<longleftrightarrow> moved a l"
  by (simp add: moved_def cursor_ok_def)

lemma moved_strict: "moved (readChar l) l' \<Longrightarrow> cursor_ok l \<Longrightarrow> ch l \<noteq> 0 \<Longrightarrow> moved l l' \<and> position l < position l'"
  using readChar_strict [of l] moved_trans [OF moved_readChar, of l l'] by (auto simp: moved_def)

lemma consumes_readChar:
  assumes "cursor_ok l" "ch l \<noteq> 0" "moved (readChar l) l'" "Type t \<notin> {EOF, INDENT, DEDENT}"
  shows "consumes l (t, l')" "consumes l (emit t l')"
  using moved_strict [OF assms(3,1,2)] assms(4) by (simp_all add: consumes_def emit_def)

lemma moved_self: "cursor_ok l \<Longrightarrow> moved (readChar l) (readChar l)"
  by (blast intro: moved_refl moved_cursor moved_readChar)

lemma consumes_one_char:
  "cursor_ok l \<Longrightarrow> ch l \<noteq> 0 \<Longrightarrow> t \<notin> {EOF, INDENT, DEDENT} \<Longrightarrow> consumes l (one_char t tok l)"
  unfolding one_char_def by (rule consumes_readChar) (simp_all add: moved_self)

lemma consumes_with_equals:
  "cursor_ok l \<Longrightarrow> ch l \<noteq> 0 \<Longrightarrow> {t1, t2} \<inter> {EOF, INDENT, DEDENT} = {} \<Longrightarrow> consumes l (with_equals t2 t1 tok l)"
  by (auto simp: with_equals_def Let_def intro!: consumes_one_char consumes_readChar intro: moved_readChar_trans moved_self)

lemma consumes_dots: "cursor_ok l \<Longrightarrow> ch l \<noteq> 0 \<Longrightarrow> consumes l (dots tok l)"
  by (auto simp: dots_def Let_def intro!: consumes_one_char consumes_readChar intro: moved_readChar_trans moved_self)

lemma consumes_plain_text: "cursor_ok l \<Longrightarrow> ch l \<noteq> 0 \<Longrightarrow> consumes l (plain_text tok l)"
  by (auto simp: plain_text_def lx_readString_def Let_def intro!: consumes_readChar
      intro: moved_readChar_trans moved_skip_while moved_self)

lemma skip_while_step: "ch l \<noteq> 0 \<Longrightarrow> P (ch l) \<Longrightarrow> skip_while P l = skip_while P (readChar l)"
  by (subst skip_while.simps) simp

lemma advance_to_step: "position l < e \<Longrightarrow> position l < length (input l) \<Longrightarrow> advance_to e l = advance_to e (readChar l)"
  by (subst advance_to.simps) simp

lemma findSigilClose_bounds: "findSigilClose s i q b = Some e \<Longrightarrow> i < e \<and> e \<le> length s"
proof (induction s i q b rule: findSigilClose.induct)
  case (1 s i q b)
  then show ?case by (subst (asm) (3) findSigilClose.simps) (auto simp: Let_def split: if_splits)
qed

lemma sigil_close_bounds: "sigil_close s i n b = Some (q, e) \<Longrightarrow> i < e \<and> e \<le> length s \<and> 1 \<le> q \<and> q \<le> n"
  by (induction n) (auto dest!: findSigilClose_bounds split: option.splits)

lemma moved_self_trans: "cursor_ok l \<Longrightarrow> moved (readChar l) l' \<Longrightarrow> moved l l'"
  by (rule moved_trans [OF moved_readChar])

lemma consumes_sigil_text:
  assumes "cursor_ok l" "ch l \<noteq> 0"
  shows "consumes l (sigil_text b tok l)"
proof -
  have "moved (readChar l) (snd (readSigilString b l))"
  proof (cases "sigil_close (input l) (position l + 1) (min MaxConsecutiveQuotes (quote_run (drop (position l + 1) (input l)))) b")
    case None
    then show ?thesis
      using skip_while_step [OF assms(2), of "\<lambda>_. True"] moved_skip_while [OF moved_self [OF assms(1)]]
      by (simp add: readSigilString_def Let_def)
  next
    case (Some qe)
    obtain q e where qe: "qe = (q, e)" by (cases qe)
    with Some have "position l < e" using sigil_close_bounds by fastforce
    then have "advance_to e l = advance_to e (readChar l)"
      using advance_to_step cursor_ok_inside [OF assms] by blast
    then show ?thesis
      using Some qe moved_advance_to [OF moved_self [OF assms(1)]] by (simp add: readSigilString_def Let_def)
  qed
  then show ?thesis
    using consumes_readChar(2) [OF assms]
    by (auto simp: sigil_text_def Let_def split_def)
qed

lemma count_while_step: "ch l \<noteq> 0 \<Longrightarrow> P (ch l) \<Longrightarrow> count_while P n l = count_while P (n + 1) (readChar l)"
  by (subst count_while.simps) simp

lemma consumes_readComment:
  assumes "cursor_ok l" "ch l = rune CHR ''#''"
  shows "consumes l (readComment l)"
proof -
  have nz: "ch l \<noteq> 0" using assms by (simp add: rune_def)
  obtain n l1 where l1: "count_while (\<lambda>c. c = rune CHR ''#'') 0 l = (n, l1)" by fastforce
  then have m: "moved (readChar l) l1"
    using count_while_step [OF nz, of "\<lambda>c. c = rune CHR ''#''"] assms(2)
      moved_count_while [OF moved_self [OF assms(1)], of "\<lambda>c. c = rune CHR ''#''" 1] by simp
  then have "moved (readChar l) (block_comment n l1)"
    using moved_trans moved_block_comment moved_cursor by blast
  moreover have "moved (readChar l) (skip_while (\<lambda>c. c \<noteq> 10 \<and> c \<noteq> rune CHR ''#'') l1)"
    using m by (rule moved_skip_while)
  ultimately show ?thesis
    by (auto simp: readComment_def l1 Let_def token_from_def moved_readChar_trans
        intro!: consumes_readChar(1) [OF assms(1) nz])
qed

text \<open>No table has a layout token.\<close>

lemma map_of_snd: "map_of xs k = Some v \<Longrightarrow> \<forall>x \<in> set (map snd xs). P x \<Longrightarrow> P v"
  by (force dest: map_of_SomeD)

lemma tables_kind:
  "\<forall>t \<in> set (map snd modifier_table). t \<notin> {EOF, INDENT, DEDENT}"
  "\<forall>t \<in> set (map snd keyword_table). t \<notin> {EOF, INDENT, DEDENT}"
  "\<forall>t \<in> set (map snd delimiters). t \<notin> {EOF, INDENT, DEDENT}"
  by (simp_all add: modifier_table_def keyword_table_def delimiters_def)

lemma modifier_type_kind: "modifier_type w \<notin> {EOF, INDENT, DEDENT}"
  using map_of_snd [OF _ tables_kind(1), of w] by (simp add: modifier_type_def split: option.split)

lemma consumes_readModifier: "cursor_ok l \<Longrightarrow> ch l \<noteq> 0 \<Longrightarrow> consumes l (readModifier l)"
  using modifier_type_kind
  by (auto simp: readModifier_def Let_def token_from_def intro!: consumes_readChar
      intro: moved_readChar_trans moved_skip_while moved_self)

lemma LookupIdent_kind: "LookupIdent w \<notin> {EOF, INDENT, DEDENT}"
  using map_of_snd [OF _ tables_kind(2), of w] by (simp add: LookupIdent_def split: option.split)

lemma read_up_to_step: "0 < n \<Longrightarrow> P (ch l) \<Longrightarrow> snd (read_up_to n P l) = snd (read_up_to (n - 1) P (readChar l))"
  by (cases n) (simp_all add: split_def Let_def)

lemma consumes_word_token:
  assumes "cursor_ok l" "ch l \<noteq> 0" "isLetter U (ch l)"
  shows "consumes l (word_token U tok l)"
proof -
  have "moved (readChar l) (snd (readIdentifier U l))"
    using assms moved_read_up_to [OF moved_self [OF assms(1)]]
    by (simp add: readIdentifier_def MAX_IDENTIFIER_LENGTH_def split_def Let_def read_up_to_step)
  then show ?thesis
    using consumes_readChar(1) [OF assms(1,2)] LookupIdent_kind
    by (auto simp: word_token_def lookupIdentWithContext_def Let_def split_def)
qed

lemma moved_number_parts:
  "moved a (snd (snd x)) \<Longrightarrow> moved a (snd (snd (number_fraction x)))"
  "moved a (snd (snd x)) \<Longrightarrow> moved a (snd (snd (number_sign x)))"
  "moved a (snd (snd x)) \<Longrightarrow> moved a (snd (snd (take_char x)))"
  by (auto simp: number_fraction_def number_sign_def take_char_def split_def
      intro: moved_readChar_trans intro!: moved_read_digits)

lemma moved_number_exponent: "moved a (snd (snd x)) \<Longrightarrow> moved a (snd (snd (number_exponent x)))"
  by (auto simp: number_exponent_def split_def intro!: moved_read_digits moved_number_parts)

lemma consumes_number_token:
  assumes "cursor_ok l" "ch l \<noteq> 0" "isDigit (ch l)"
  shows "consumes l (number_token tok l)"
proof -
  have "ch l \<noteq> rune CHR ''_''" using assms(3) by (auto simp: isDigit_def rune_def)
  then have "read_digits ([], 0, l) = read_digits (string_rune (ch l), 1, readChar l)"
    using assms(3) by (subst read_digits.simps) (simp add: MAX_NUMBER_LENGTH_def)
  then have "moved (readChar l) (snd (readNumber l))"
    using moved_number_exponent [OF moved_number_parts(1) [OF moved_read_digits,
          of "readChar l" "(string_rune (ch l), 1, readChar l)"]] moved_self [OF assms(1)]
    by (simp add: readNumber_def split_def Let_def)
  then show ?thesis
    by (auto simp: number_token_def Let_def split_def moved_readChar_trans
        intro!: consumes_readChar(1) [OF assms(1,2)])
qed

lemma consumes_literals:
  assumes "cursor_ok l" "ch l \<noteq> 0"
  shows "consumes l (case readTimeLiteral U l of (w, l1) \<Rightarrow> emit (tok\<lparr>Type := TIME, Literal := w\<rparr>) l1)"
    "consumes l (case readMoneyLiteral U l of (w, l1) \<Rightarrow> emit (tok\<lparr>Type := MONEY, Literal := w\<rparr>) l1)"
  using assms
  by (auto simp: readTimeLiteral_def readMoneyLiteral_def Let_def intro!: consumes_readChar
      intro: moved_readChar_trans moved_skip_while moved_self)

lemma delimiters_kind: "map_of delimiters c = Some t \<Longrightarrow> t \<notin> {EOF, INDENT, DEDENT}"
  by (rule map_of_snd [OF _ tables_kind(3)])

lemma consumes_delimiter:
  "cursor_ok l \<Longrightarrow> ch l \<noteq> 0 \<Longrightarrow> map_of delimiters (ch l) = Some t \<Longrightarrow> consumes l (one_char t tok l)"
  using delimiters_kind consumes_one_char by blast

lemma consumes_scan_switch: "cursor_ok l \<Longrightarrow> ch l \<noteq> 0 \<Longrightarrow> consumes l (scan_switch U tok l)"
  using consumes_readComment [of l] consumes_plain_text [of l tok] consumes_literals [of l tok U]
    consumes_readModifier [of l] consumes_dots [of l tok] consumes_word_token [of l U tok]
    consumes_number_token [of l tok] consumes_one_char [of l _ tok] consumes_with_equals [of l _ _ tok]
    consumes_delimiter [of l _ tok]
  by (simp add: scan_switch_def Let_def split: option.split)

subsection \<open>The effect of a token\<close>

definition stack_ok :: "nat list \<Rightarrow> bool" where
  "stack_ok st \<longleftrightarrow> st \<noteq> [] \<and> hd st = 0 \<and> sorted_wrt (<) st"

definition lexer_inv :: "Lexer \<Rightarrow> bool" where
  "lexer_inv l \<longleftrightarrow> cursor_ok l \<and> stack_ok (indentStack l)"

text \<open>The number of blocks that are open in the token stream so far.\<close>

definition depth :: "Lexer \<Rightarrow> nat" where
  "depth l = length (indentStack l) - 1 + pendingDedents l"

definition effect :: "Lexer \<Rightarrow> TokenType \<Rightarrow> Lexer \<Rightarrow> bool" where
  "effect l t l' \<longleftrightarrow> lexer_inv l' \<and> input l' = input l \<and> position l \<le> position l' \<and>
     (if t = EOF then depth l = 0 \<and> depth l' = 0
      else if t = INDENT then depth l' = depth l + 1 \<and> position l < position l'
      else if t = DEDENT then depth l = depth l' + 1
      else if t = ILLEGAL then depth l' \<le> depth l \<and> (position l < position l' \<or> depth l' < depth l)
      else depth l' = depth l \<and> position l < position l')"

lemma stack_ok_snoc: "stack_ok st \<Longrightarrow> last st < n \<Longrightarrow> stack_ok (st @ [n])"
proof -
  assume ok: "stack_ok st" and n: "last st < n"
  have "\<forall>x \<in> set st. x \<le> last st"
    using ok by (induction st rule: rev_induct) (auto simp: stack_ok_def sorted_wrt_append)
  then show ?thesis using ok n by (auto simp: stack_ok_def sorted_wrt_append)
qed

lemma stack_ok_butlast: "stack_ok st \<Longrightarrow> 1 < length st \<Longrightarrow> stack_ok (butlast st)"
  by (cases st rule: rev_cases) (auto simp: stack_ok_def sorted_wrt_append hd_append split: if_splits)

lemma stack_ok_last: "stack_ok st \<Longrightarrow> n < last st \<Longrightarrow> 1 < length st"
  by (cases st) (auto simp: stack_ok_def split: if_splits)

lemma pop_levels_stack:
  "stack_ok st \<Longrightarrow> stack_ok (snd (pop_levels n st d)) \<and> d \<le> fst (pop_levels n st d)
     \<and> length (snd (pop_levels n st d)) + fst (pop_levels n st d) = length st + d"
proof (induction n st d rule: pop_levels.induct)
  case (1 n st d)
  show ?case
  proof (cases "1 < length st \<and> n < last st")
    case True
    then have "stack_ok (butlast st)" using 1 stack_ok_butlast by blast
    then show ?thesis using 1(1) [OF True] True by (simp add: pop_levels.simps [of n st]) linarith
  next
    case False
    then show ?thesis using 1(2) by (auto simp: pop_levels.simps [of n st])
  qed
qed

lemma pop_levels_pops: "stack_ok st \<Longrightarrow> n < last st \<Longrightarrow> 0 < fst (pop_levels n st 0)"
  using stack_ok_last [of st n] pop_levels_stack [OF stack_ok_butlast, of st n 1]
  by (subst pop_levels.simps) simp

lemma consumes_effect: "consumes l r \<Longrightarrow> stack_ok (indentStack l) \<Longrightarrow> effect l (Type (fst r)) (snd r)"
  by (simp add: consumes_def effect_def moved_def lexer_inv_def depth_def)

lemma moved_effect: "moved a b \<Longrightarrow> effect b t c \<Longrightarrow> effect a t c"
  by (auto simp: moved_def effect_def depth_def split: if_splits)

lemma moved_fields: "moved l l' \<Longrightarrow> indentStack l' = indentStack l \<and> pendingDedents l' = pendingDedents l"
  by (simp add: moved_def)

lemma end_of_input_effect:
  "lexer_inv l \<Longrightarrow> pendingDedents l = 0 \<Longrightarrow> effect l (Type (fst (end_of_input tok l))) (snd (end_of_input tok l))"
  by (cases "indentStack l")
    (auto simp: end_of_input_def effect_def lexer_inv_def cursor_ok_def depth_def stack_ok_def emit_def
      dedent_token_def Let_def)

lemma scan_token_reads:
  assumes "cursor_ok l" "ch (skipWhitespace l) \<noteq> 0"
  shows "consumes l (scan_token U l)"
proof -
  have m: "moved l (skipWhitespace l)"
    using assms(1) by (simp add: skipWhitespace_def moved_skip_while)
  then have "consumes (skipWhitespace l) (scan_token U l)"
    using consumes_sigil_text [OF _ assms(2)] consumes_scan_switch [OF _ assms(2)] moved_cursor
    by (simp add: scan_token_def Let_def)
  then show ?thesis using m moved_trans [OF m] by (auto simp: consumes_def moved_def)
qed

lemma scan_token_ends:
  assumes "ch (skipWhitespace l) = 0"
  obtains tok where "scan_token U l = end_of_input tok (skipWhitespace l)"
  using assms by (simp add: scan_token_def scan_switch_def rune_def Let_def)

lemma scan_token_effect:
  assumes "lexer_inv l" "pendingDedents l = 0"
  shows "effect l (Type (fst (scan_token U l))) (snd (scan_token U l))"
proof (cases "ch (skipWhitespace l) = 0")
  case True
  have m: "moved l (skipWhitespace l)"
    using assms by (simp add: lexer_inv_def skipWhitespace_def moved_skip_while)
  obtain tok where "scan_token U l = end_of_input tok (skipWhitespace l)" using scan_token_ends [OF True] .
  then show ?thesis
    using moved_effect [OF m] end_of_input_effect [of "skipWhitespace l"] m assms
    by (simp add: moved_def lexer_inv_def)
next
  case False
  then show ?thesis using assms scan_token_reads consumes_effect by (simp add: lexer_inv_def)
qed

lemma NextToken_scan: "pendingDedents l = 0 \<Longrightarrow> \<not> atLineStart l \<Longrightarrow> NextToken U l = scan_token U l"
  by (subst NextToken.simps) simp

lemma indentation_advances:
  assumes "cursor_ok l" "indentation (0, 0) l = ((t, s), l')" "0 < t \<or> 0 < s"
  shows "position l < position l'"
proof -
  have "ch l = 9 \<or> ch l = 32" using assms(2,3) by (subst (asm) indentation.simps) (auto split: if_splits)
  then have "ch l \<noteq> 0" "\<exists>c. indentation (0, 0) l = indentation c (readChar l)"
    by (auto simp: indentation.simps [of _ _ l])
  then show ?thesis
    using moved_indentation [OF moved_self [OF assms(1)]] moved_strict [OF _ assms(1)] assms(2)
    by (metis snd_conv)
qed

lemma cursor_ok_upd [simp]:
  "cursor_ok (l\<lparr>atLineStart := b\<rparr>) = cursor_ok l" "cursor_ok (l\<lparr>pendingDedents := n\<rparr>) = cursor_ok l"
  "cursor_ok (l\<lparr>indentStack := st\<rparr>) = cursor_ok l"
  by (simp_all add: cursor_ok_def)

lemma lexer_inv_upd [simp]:
  "lexer_inv (l\<lparr>atLineStart := b\<rparr>) = lexer_inv l" "lexer_inv (l\<lparr>pendingDedents := n\<rparr>) = lexer_inv l"
  "lexer_inv (l\<lparr>indentStack := st\<rparr>) \<longleftrightarrow> cursor_ok l \<and> stack_ok st"
  by (simp_all add: lexer_inv_def)

lemma moved_upd [simp]: "moved a (l\<lparr>atLineStart := b\<rparr>) = moved a l"
  by (simp add: moved_def cursor_ok_def)

lemma handleIndentation_effect:
  assumes inv: "lexer_inv l" and p: "pendingDedents l = 0"
  shows "effect l (Type (fst (handleIndentation U l))) (snd (handleIndentation U l))"
proof -
  obtain t s l1 where ind: "indentation (0, 0) l = ((t, s), l1)" by (metis prod.exhaust)
  have c: "cursor_ok l" and st: "stack_ok (indentStack l)" using inv by (simp_all add: lexer_inv_def)
  have m: "moved l l1" using moved_indentation [OF moved_refl [OF c], of "(0, 0)"] ind by simp
  then have l1: "cursor_ok l1" "input l1 = input l" "indentStack l1 = indentStack l" "pendingDedents l1 = 0"
      "position l \<le> position l1" "lexer_inv l1"
    using p st by (simp_all add: moved_def lexer_inv_def)
  have adv: "position l < position l1" if "0 < t \<or> 0 < s" using indentation_advances [OF c ind that] .
  define lvl where "lvl = (if 0 < t then t else s div 4)"
  have lvl: "0 < t \<or> 0 < s" if "0 < lvl" using that by (auto simp: lvl_def split: if_splits)
  have scan: "effect l (Type (fst (NextToken U (l1\<lparr>atLineStart := False\<rparr>)))) (snd (NextToken U (l1\<lparr>atLineStart := False\<rparr>)))"
    using scan_token_effect [of "l1\<lparr>atLineStart := False\<rparr>" U] l1 m moved_effect [of l "l1\<lparr>atLineStart := False\<rparr>"]
    by (simp add: NextToken_scan)
  have nl: "position l < position (readChar l1)" "lexer_inv (readChar l1)" if "ch l1 = 10"
    using readChar_strict [OF l1(1)] moved_readChar [OF l1(1)] that l1 st by (simp_all add: moved_def lexer_inv_def)
  obtain k stk where pop: "pop_levels lvl (indentStack l) 0 = (k, stk)" by (metis prod.exhaust)
  have stk: "stack_ok stk" "length (indentStack l) - Suc 0 = length stk - Suc 0 + k"
    using pop_levels_stack [OF st, of lvl 0] pop by (auto simp: stack_ok_def Suc_le_eq)
  have k: "0 < k" if "lvl < last (indentStack l)" using pop_levels_pops [OF st that] pop by simp
  note h = handleIndentation.simps [of U l, unfolded ind, simplified, folded lvl_def]
  let ?cur = "last (indentStack l)"
  consider (mixed) "0 < t \<and> 0 < s"
    | (newline) "\<not> (0 < t \<and> 0 < s)" "ch l1 = 10"
    | (skip) "\<not> (0 < t \<and> 0 < s)" "ch l1 \<noteq> 10" "ch l1 = 0 \<or> ch l1 = rune CHR ''#''"
    | (content) "\<not> (0 < t \<and> 0 < s)" "ch l1 \<noteq> 10" "ch l1 \<noteq> 0" "ch l1 \<noteq> rune CHR ''#''"
    by blast
  then show ?thesis
  proof cases
    case mixed
    then show ?thesis
      using adv l1 p by (simp add: h Let_def effect_def depth_def indent_token_def)
  next
    case newline
    then show ?thesis
      using nl l1 p by (auto simp: h Let_def effect_def depth_def indent_token_def)
  next
    case skip
    then show ?thesis using scan by (auto simp: h Let_def)
  next
    case content
    consider (indent) "?cur < lvl" | (invalid) "lvl < ?cur" "last stk \<noteq> lvl" | (dedent) "lvl < ?cur" "last stk = lvl"
      | (same) "lvl = ?cur" by linarith
    then show ?thesis
    proof cases
      case indent
      then show ?thesis
        using content adv lvl l1 p st stack_ok_snoc [OF st indent]
        by (simp add: h Let_def effect_def depth_def indent_token_def stack_ok_def Suc_diff_le)
    next
      case invalid
      have "stk \<noteq> []" using stk by (simp add: stack_ok_def)
      then show ?thesis
        using content l1 p stk k pop invalid by (auto simp: h Let_def effect_def depth_def indent_token_def)
    next
      case dedent
      have "stk \<noteq> []" using stk by (simp add: stack_ok_def)
      then show ?thesis
        using content l1 p stk k pop dedent by (auto simp: h Let_def effect_def depth_def indent_token_def)
    next
      case same
      then show ?thesis using content scan l1 by (auto simp: h Let_def)
    qed
  qed
qed

lemma NextToken_effect:
  assumes "lexer_inv l"
  shows "effect l (Type (fst (NextToken U l))) (snd (NextToken U l))"
proof (cases "0 < pendingDedents l")
  case True
  then show ?thesis
    using assms by (simp add: NextToken.simps [of U l] Let_def dedent_token_def effect_def depth_def)
next
  case False
  then show ?thesis
    using handleIndentation_effect [OF assms, of U] scan_token_effect [OF assms, of U]
    by (simp add: NextToken.simps [of U l])
qed

lemma New_inv: "lexer_inv (New s)" "input (New s) = s" "position (New s) = 0" "depth (New s) = 0"
  using cursor_ok_readChar [of "\<lparr>input = s, position = 0, readPosition = 0, ch = 0, line = 1, column = 0,
     indentStack = [0], pendingDedents = 0, atLineStart = True, previousToken = ILLEGAL\<rparr>"]
  by (simp_all add: New_def lexer_inv_def stack_ok_def depth_def)

subsection \<open>The token stream\<close>

text \<open>The tokens a caller obtains by asking for the next one until \<open>EOF\<close>, at most \<open>n\<close> times.\<close>

primrec lex_tokens :: "(nat \<Rightarrow> bool) \<Rightarrow> nat \<Rightarrow> Lexer \<Rightarrow> Token list" where
  "lex_tokens U 0 l = []"
| "lex_tokens U (Suc n) l = (case NextToken U l of (t, l') \<Rightarrow> t # (if Type t = EOF then [] else lex_tokens U n l'))"

text \<open>Every token but \<open>EOF\<close> uses up some of the input or closes a block.\<close>

definition potential :: "Lexer \<Rightarrow> nat" where
  "potential l = 2 * (length (input l) - position l) + depth l"

lemma effect_potential:
  assumes "effect l t l'" "t \<noteq> EOF"
  shows "potential l' < potential l"
proof -
  have "position l' \<le> length (input l)"
    using assms cursor_ok_bound [of l'] by (auto simp: effect_def lexer_inv_def)
  then show ?thesis using assms by (auto simp: effect_def potential_def split: if_splits)
qed

lemma lex_ends:
  assumes "lexer_inv l" "potential l < n"
  shows "\<exists>ts t. lex_tokens U n l = ts @ [t] \<and> Type t = EOF \<and> (\<forall>x \<in> set ts. Type x \<noteq> EOF)"
  using assms
proof (induction n arbitrary: l)
  case (Suc n)
  obtain t l' where t: "NextToken U l = (t, l')" by fastforce
  then have e: "effect l (Type t) l'" using NextToken_effect [OF Suc(2), of U] by simp
  show ?case
  proof (cases "Type t = EOF")
    case True
    then show ?thesis using t by auto
  next
    case False
    then have "potential l' < n" using effect_potential [OF e] Suc(3) by simp
    moreover have "lexer_inv l'" using e by (simp add: effect_def)
    ultimately obtain ts u where "lex_tokens U n l' = ts @ [u]" "Type u = EOF" "\<forall>x \<in> set ts. Type x \<noteq> EOF"
      using Suc(1) by blast
    then show ?thesis using t False by (intro exI [of _ "t # ts"] exI [of _ u]) simp
  qed
qed simp

text \<open>Open blocks after a token stream, against the \<open>INDENT\<close> and \<open>DEDENT\<close> tokens in it.\<close>

definition count_type :: "TokenType \<Rightarrow> Token list \<Rightarrow> nat" where
  "count_type t ts = length (filter (\<lambda>x. Type x = t) ts)"

lemma lex_prefix_depth:
  "lexer_inv l \<Longrightarrow> count_type DEDENT (take k (lex_tokens U n l)) \<le> depth l + count_type INDENT (take k (lex_tokens U n l))"
proof (induction n arbitrary: l k)
  case (Suc n)
  obtain t l' where t: "NextToken U l = (t, l')" by fastforce
  then have e: "effect l (Type t) l'" using NextToken_effect [OF Suc(2), of U] by simp
  then have "lexer_inv l'" by (simp add: effect_def)
  then show ?case
    using Suc(1) [of l' "k - 1"] e t
    by (cases k) (auto simp: count_type_def effect_def split: if_splits)
qed (simp add: count_type_def)

lemma lex_balance:
  assumes "lexer_inv l" "potential l < n" "\<forall>x \<in> set (lex_tokens U n l). Type x \<noteq> ILLEGAL"
  shows "count_type DEDENT (lex_tokens U n l) = depth l + count_type INDENT (lex_tokens U n l)"
  using assms
proof (induction n arbitrary: l)
  case (Suc n)
  obtain t l' where t: "NextToken U l = (t, l')" by fastforce
  then have e: "effect l (Type t) l'" using NextToken_effect [OF Suc(2), of U] by simp
  then have "lexer_inv l'" by (simp add: effect_def)
  moreover have "potential l' < n" if "Type t \<noteq> EOF" using effect_potential [OF e that] Suc(3) by simp
  ultimately show ?case
    using Suc(1) [of l'] Suc(4) e t by (auto simp: count_type_def effect_def split: if_splits)
qed simp

subsection \<open>After the end\<close>

text \<open>Once \<open>EOF\<close> has been returned the scanner stays where it is and returns nothing else.\<close>

definition at_eof :: "Lexer \<Rightarrow> bool" where
  "at_eof l \<longleftrightarrow> ch l = 0 \<and> \<not> atLineStart l \<and> depth l = 0"

lemma readChar_lineStart: "atLineStart (readChar l) \<Longrightarrow> atLineStart l \<or> ch (readChar l) = 10"
  by (auto simp: readChar_def track_def fetch_def Let_def split: if_splits)

lemma skip_while_lineStart: "\<not> atLineStart l \<Longrightarrow> \<not> P 10 \<Longrightarrow> ch (skip_while P l) \<noteq> 10 \<Longrightarrow> \<not> atLineStart (skip_while P l)"
proof (induction P l rule: skip_while.induct)
  case (1 P l)
  show ?case
  proof (cases "ch l \<noteq> 0 \<and> P (ch l)")
    case True
    then have step: "skip_while P l = skip_while P (readChar l)" by (simp add: skip_while_step)
    show ?thesis
    proof (cases "ch (readChar l) = 10")
      case nl: True
      then have "skip_while P (readChar l) = readChar l" using 1(3) by (subst skip_while.simps) simp
      then show ?thesis using nl step 1(4) by simp
    next
      case False
      then have "\<not> atLineStart (readChar l)" using readChar_lineStart 1(2) by blast
      then show ?thesis using 1(1) [OF True] step 1(3,4) by simp
    qed
  next
    case False
    then show ?thesis using 1(2) by (subst skip_while.simps) auto
  qed
qed

lemma scan_token_eof:
  assumes "lexer_inv l" "pendingDedents l = 0" "\<not> atLineStart l" "Type (fst (scan_token U l)) = EOF"
  shows "at_eof (snd (scan_token U l)) \<and> position (snd (scan_token U l)) = position (skipWhitespace l)"
proof -
  have z: "ch (skipWhitespace l) = 0"
    using scan_token_reads [of l U] assms(1,4) by (auto simp: lexer_inv_def consumes_def)
  then have "\<not> atLineStart (skipWhitespace l)"
    using skip_while_lineStart [of l "\<lambda>c. c = 32 \<or> c = 13"] assms(3) by (simp add: skipWhitespace_def)
  moreover have "pendingDedents (skipWhitespace l) = 0"
    using moved_skip_while [OF moved_refl, of l] assms(1,2) by (simp add: skipWhitespace_def moved_def lexer_inv_def)
  moreover obtain tok where "scan_token U l = end_of_input tok (skipWhitespace l)" using scan_token_ends [OF z] .
  ultimately show ?thesis
    using z assms(4) by (auto simp: at_eof_def depth_def end_of_input_def emit_def dedent_token_def Let_def split: if_splits)
qed

lemma NextToken_eof:
  assumes inv: "lexer_inv l" and eof: "Type (fst (NextToken U l)) = EOF"
  shows "at_eof (snd (NextToken U l))"
proof -
  have p: "pendingDedents l = 0" using eof by (cases "0 < pendingDedents l") (simp_all add: NextToken.simps [of U l] dedent_token_def Let_def)
  show ?thesis
  proof (cases "atLineStart l")
    case False
    then show ?thesis using scan_token_eof [OF inv p] eof p by (simp add: NextToken_scan)
  next
    case True
    obtain t s l1 where ind: "indentation (0, 0) l = ((t, s), l1)" by (metis prod.exhaust)
    have "moved l l1" using moved_indentation [OF moved_refl, of l "(0, 0)"] ind inv by (simp add: lexer_inv_def)
    then have l1: "lexer_inv l1" "pendingDedents l1 = 0" "indentStack l1 = indentStack l"
      using inv p by (simp_all add: moved_def lexer_inv_def)
    let ?l = "l1\<lparr>atLineStart := False\<rparr>"
    have stk: "0 < fst (pop_levels n (indentStack l) 0)" if "n < last (indentStack l)" for n
      using pop_levels_pops [OF _ that] inv by (simp add: lexer_inv_def)
    have "handleIndentation U l = NextToken U ?l \<or> Type (fst (handleIndentation U l)) \<noteq> EOF"
      using l1 stk by (simp add: handleIndentation.simps [of U l] ind indent_token_def Let_def split_def)
    then have "NextToken U l = NextToken U ?l" using eof True p by (auto simp: NextToken.simps [of U l])
    then show ?thesis using scan_token_eof [of ?l U] l1 eof by (simp add: NextToken_scan)
  qed
qed

lemma at_eof_step:
  assumes "at_eof l"
  shows "NextToken U l = (fst (NextToken U l), l\<lparr>previousToken := EOF\<rparr>)" "Type (fst (NextToken U l)) = EOF"
    "at_eof (snd (NextToken U l))"
proof -
  have "skipWhitespace l = l" using assms by (simp add: skipWhitespace_def skip_while.simps [of _ l] at_eof_def)
  then have "NextToken U l = emit \<lparr>Type = EOF, Literal = [], Line = line l, Column = column l, Position = position l\<rparr> l"
    using assms
    by (simp add: at_eof_def depth_def NextToken_scan scan_token_def scan_switch_def end_of_input_def rune_def Let_def)
  then show "NextToken U l = (fst (NextToken U l), l\<lparr>previousToken := EOF\<rparr>)" "Type (fst (NextToken U l)) = EOF"
      "at_eof (snd (NextToken U l))"
    using assms by (simp_all add: emit_def at_eof_def depth_def)
qed

text \<open>The token that the \<open>k\<close>-th request returns, counting from 0.\<close>

definition request :: "(nat \<Rightarrow> bool) \<Rightarrow> Lexer \<Rightarrow> nat \<Rightarrow> Token" where
  "request U l k = fst (NextToken U (((\<lambda>l. snd (NextToken U l)) ^^ k) l))"

lemma request_0: "request U l 0 = fst (NextToken U l)"
  by (simp add: request_def)

lemma request_Suc: "request U l (Suc k) = request U (snd (NextToken U l)) k"
  by (simp only: request_def funpow_Suc_right o_def)

lemma request_at_eof: "at_eof l \<Longrightarrow> Type (request U l k) = EOF"
  by (induction k arbitrary: l) (simp_all add: request_0 request_Suc at_eof_step(2,3))

lemma requests_end:
  assumes "lexer_inv l"
  shows "\<exists>n \<le> potential l. \<forall>k. Type (request U l k) = EOF \<longleftrightarrow> n \<le> k"
  using assms
proof (induction "potential l" arbitrary: l rule: less_induct)
  case less
  let ?t = "Type (fst (NextToken U l))" and ?l = "snd (NextToken U l)"
  note e = NextToken_effect [OF less.prems, of U]
  show ?case
  proof (cases "?t = EOF")
    case True
    then have "at_eof ?l" by (rule NextToken_eof [OF less.prems])
    then have "Type (request U l k) = EOF" for k
      using True by (cases k) (simp_all add: request_0 request_Suc request_at_eof)
    then show ?thesis by auto
  next
    case False
    then have p: "potential ?l < potential l" by (rule effect_potential [OF e])
    have "lexer_inv ?l" using e by (simp add: effect_def)
    then obtain n where n: "n \<le> potential ?l" "\<And>k. Type (request U ?l k) = EOF \<longleftrightarrow> n \<le> k"
      using less.hyps [OF p] by blast
    have "Type (request U l k) = EOF \<longleftrightarrow> Suc n \<le> k" for k
      using n(2) False by (cases k) (simp_all add: request_0 request_Suc)
    then show ?thesis using n(1) p by (intro exI [of _ "Suc n"]) auto
  qed
qed

end
