(* ===== verification/Mbl_Lexer_Text.thy ===== *)
theory Mbl_Lexer_Text
  imports Mbl_Lexer_Correct
begin

text \<open>
  Literals of the query language: the scanner and \<open>UnquoteText\<close> agree on where a delimited text
  ends and how wide its delimiters are, simple texts survive quoting and scanning, and number
  literals are bounded.
\<close>

subsection \<open>UTF-8 and ASCII delimiters\<close>

text \<open>An ASCII byte is its own rune, and no longer rune contains one.\<close>

lemma rune_ascii:
  assumes "s \<noteq> []" "unat (hd s) < 0x80"
  shows "rune_at s = unat (hd s)" "rune_size s = 1"
  using assms by (auto simp: rune_at_def rune_size_def utf8_width_def utf8_lead_def Let_def split: list.splits)

lemma utf8_lead_high:
  "utf8_lead b = Some (n, lo, hi) \<Longrightarrow> 0 < n \<Longrightarrow> 0x80 \<le> unat b \<and> 0x80 \<le> lo \<and> n \<le> 3"
  by (auto simp: utf8_lead_def Let_def split: if_splits)

lemma utf8_width_high:
  assumes "utf8_width s = Some n" "1 < n" "k < n"
  shows "0x80 \<le> unat (s ! k)"
proof -
  obtain b r m lo hi where s: "s = b # r" and lead: "utf8_lead b = Some (m, lo, hi)" and m: "0 < m" "n = m + 1"
    and bounds: "m \<le> length r" "byte_between lo hi (hd r)" "\<forall>c \<in> set (take (m - 1) (tl r)). byte_between 0x80 0xBF c"
    using assms(1,2) by (auto simp: utf8_width_def split: list.splits option.splits prod.splits if_splits)
  note high = utf8_lead_high [OF lead m(1)]
  obtain c r' where r: "r = c # r'" using m bounds by (cases r) auto
  consider "k = 0" | "k = 1" | j where "k = j + 2" by (metis add_2_eq_Suc' less_2_cases not_less_eq_eq One_nat_def le_Suc_ex numeral_2_eq_2 add.commute linorder_not_less)
  then show ?thesis
  proof cases
    case (3 j)
    then have "j < m - 1" "j < length r'" using assms(3) m bounds r by auto
    then have "r' ! j \<in> set (take (m - 1) r')" by (metis in_set_conv_nth length_take min_less_iff_conj nth_take)
    then show ?thesis using bounds r s 3 by (auto simp: byte_between_def)
  qed (use high s r bounds in \<open>auto simp: byte_between_def\<close>)
qed

text \<open>The bits a leading byte and the first continuation byte contribute.\<close>

lemma mod_in_block: "k * d \<le> n \<Longrightarrow> n < (k + 1) * d \<Longrightarrow> n mod d = n - k * d" for n :: nat
  by (auto dest!: le_Suc_ex)

lemma utf8_lead_1: "utf8_lead b = Some (1, lo, hi) \<Longrightarrow> 2 \<le> unat b mod 32"
  using mod_in_block [of 6 32 "unat b"] by (auto simp: utf8_lead_def Let_def split: if_splits)

lemma utf8_lead_2:
  "utf8_lead b = Some (2, lo, hi) \<Longrightarrow> lo \<le> x \<Longrightarrow> x \<le> hi \<Longrightarrow> 1 \<le> unat b mod 16 \<or> 32 \<le> x mod 64"
  using mod_in_block [of 14 16 "unat b"] mod_in_block [of 2 64 x]
  by (auto simp: utf8_lead_def Let_def split: if_splits)

lemma utf8_lead_3:
  "utf8_lead b = Some (3, lo, hi) \<Longrightarrow> lo \<le> x \<Longrightarrow> x \<le> hi \<Longrightarrow> 1 \<le> unat b mod 8 \<or> 16 \<le> x mod 64"
  using mod_in_block [of 30 8 "unat b"] mod_in_block [of 2 64 x]
  by (auto simp: utf8_lead_def Let_def split: if_splits)

lemma rune_high:
  assumes "s \<noteq> []" "0x80 \<le> unat (hd s)"
  shows "0x80 \<le> rune_at s"
proof -
  obtain b r where s: "s = b # r" using assms by (cases s) auto
  show ?thesis
  proof (cases "utf8_width s")
    case (Some n)
    obtain m lo hi where lead: "utf8_lead b = Some (m, lo, hi)" and m: "0 < m" "n = m + 1"
      and bounds: "m \<le> length r" "byte_between lo hi (hd r)"
      using Some assms s
      by (auto simp: utf8_width_def utf8_lead_def Let_def split: option.splits prod.splits if_splits)
    obtain c r' where r: "r = c # r'" using m bounds by (cases r) auto
    have c: "lo \<le> unat c" "unat c \<le> hi" using bounds r by (simp_all add: byte_between_def)
    consider "m = 1" | d r'' where "m = 2" "r' = d # r''" | d e r'' where "m = 3" "r' = d # e # r''"
      using utf8_lead_high [OF lead m(1)] m(1) bounds r
      by (cases r' rule: remdups_adj.cases) (auto simp: numeral_eq_Suc le_Suc_eq)
    then show ?thesis
    proof cases
      case 1
      then show ?thesis using utf8_lead_1 [of b lo hi] lead Some m by (auto simp: rune_at_def s r)
    next
      case 2
      then show ?thesis using utf8_lead_2 [of b lo hi "unat c"] lead c Some m by (auto simp: rune_at_def s r)
    next
      case 3
      then show ?thesis
        using utf8_lead_3 [of b lo hi "unat c"] lead c Some m by (auto simp: rune_at_def s r numeral_3_eq_3)
    qed
  qed (simp add: rune_at_def s)
qed

lemma cursor_ascii:
  assumes "cursor_ok l" "position l < length (input l)"
  shows "unat (input l ! position l) < 0x80 \<Longrightarrow> ch l = unat (input l ! position l) \<and> readPosition l = position l + 1"
    and "0x80 \<le> unat (input l ! position l) \<Longrightarrow> 0x80 \<le> ch l"
  using assms rune_ascii [of "drop (position l) (input l)"] rune_high [of "drop (position l) (input l)"]
  by (simp_all add: cursor_ok_def hd_drop_conv_nth)

text \<open>Reading a character never jumps over an ASCII byte.\<close>

lemma readPosition_ascii:
  assumes "cursor_ok l" "position l \<le> j" "j < length (input l)" "unat (input l ! j) < 0x80"
  shows "readPosition l \<le> j + 1"
proof (rule ccontr)
  let ?s = "drop (position l) (input l)"
  assume "\<not> readPosition l \<le> j + 1"
  then have big: "j - position l + 1 < rune_size ?s" using assms(1-3) by (simp add: cursor_ok_def)
  then obtain n where n: "utf8_width ?s = Some n" "n = rune_size ?s"
    by (auto simp: rune_size_def split: option.splits)
  then have "0x80 \<le> unat (?s ! (j - position l))"
    using big by (intro utf8_width_high [OF n(1)]) auto
  then show False using assms by simp
qed

lemma position_advance_to:
  "cursor_ok l \<Longrightarrow> position l \<le> e \<Longrightarrow> 0 < e \<Longrightarrow> e \<le> length (input l) \<Longrightarrow> unat (input l ! (e - 1)) < 0x80 \<Longrightarrow>
     position (advance_to e l) = e"
proof (induction e l rule: advance_to.induct)
  case (1 e l)
  show ?case
  proof (cases "position l < e")
    case True
    have "readPosition l \<le> e" using readPosition_ascii [of l "e - 1"] 1 True by simp
    then have "position (advance_to e (readChar l)) = e"
      using 1(1) True 1(2-) moved_readChar [of l] by (simp add: moved_def)
    then show ?thesis using True 1(5) by (simp add: advance_to_step)
  next
    case False
    then show ?thesis using 1 by (subst advance_to.simps) simp
  qed
qed

subsection \<open>Delimiters of sigil texts\<close>

definition closes_at :: "gostring \<Rightarrow> nat \<Rightarrow> nat \<Rightarrow> u8 \<Rightarrow> nat \<Rightarrow> bool" where
  "closes_at s i q b e \<longleftrightarrow> i + q + 1 \<le> e \<and> e \<le> length s \<and> s ! (e - 1) = b
     \<and> (\<forall>k. e - 1 - q \<le> k \<and> k < e - 1 \<longrightarrow> s ! k = quote)"

lemma quote_run_nth: "k < quote_run s \<Longrightarrow> s ! k = quote"
  unfolding quote_run_def by (metis (mono_tags, lifting) nth_mem set_takeWhileD takeWhile_nth)

lemma quote_run_le: "quote_run s \<le> length s"
  by (simp add: quote_run_def length_takeWhile_le)

lemma quote_run_end: "quote_run s < length s \<Longrightarrow> s ! quote_run s \<noteq> quote"
  unfolding quote_run_def using nth_length_takeWhile by fastforce

lemma quote_run_max: "n \<le> length s \<Longrightarrow> \<forall>k < n. s ! k = quote \<Longrightarrow> n \<le> quote_run s"
  using quote_run_end [of s] by (meson linorder_not_less order_less_le_trans)

lemma quote_run_drop:
  assumes "i \<le> length s" "i \<le> k" "k < i + quote_run (drop i s)"
  shows "s ! k = quote"
proof -
  obtain d where d: "k = i + d" using assms(2) le_Suc_ex by blast
  then show ?thesis using quote_run_nth [of d "drop i s"] assms by simp
qed

lemma findSigilClose_eqs:
  "length s \<le> i \<Longrightarrow> findSigilClose s i q b = None"
  "i < length s \<Longrightarrow> s ! i \<noteq> quote \<Longrightarrow> findSigilClose s i q b = findSigilClose s (i + 1) q b"
  "i < length s \<Longrightarrow> s ! i = quote \<Longrightarrow> j = i + quote_run (drop i s) \<Longrightarrow> findSigilClose s i q b =
     (if q \<le> j - i \<and> j < length s \<and> s ! j = b then Some (j + 1) else findSigilClose s j q b)"
  by (subst findSigilClose.simps, simp add: Let_def)+

lemma closes_at_mono: "closes_at s j q b e \<Longrightarrow> i \<le> j \<Longrightarrow> closes_at s i q b e"
  by (simp add: closes_at_def)

lemma findSigilClose_found: "findSigilClose s i q b = Some e \<Longrightarrow> closes_at s i q b e"
proof (induction s i q b rule: findSigilClose.induct)
  case (1 s i q b)
  let ?j = "i + quote_run (drop i s)"
  have i: "i < length s" using 1(3) findSigilClose_eqs(1) [of s i] by (cases "i < length s") auto
  show ?case
  proof (cases "s ! i = quote")
    case True
    note eq = findSigilClose_eqs(3) [OF i True refl, of q b]
    show ?thesis
    proof (cases "q \<le> ?j - i \<and> ?j < length s \<and> s ! ?j = b")
      case here: True
      have "s ! k = quote" if "?j - q \<le> k" "k < ?j" for k
      proof -
        have "i \<le> k" using that here by linarith
        then show ?thesis using quote_run_drop [of i s k] that i by simp
      qed
      then show ?thesis using here eq 1(3) by (auto simp: closes_at_def)
    next
      case False
      then have "closes_at s ?j q b e" using 1(2) eq 1(3) i True by (simp only: if_False) (simp add: not_le)
      then show ?thesis by (rule closes_at_mono) simp
    qed
  next
    case False
    then have "closes_at s (i + 1) q b e" using 1(1) 1(3) i findSigilClose_eqs(2) [OF i False] by simp
    then show ?thesis by (rule closes_at_mono) simp
  qed
qed

lemma findSigilClose_complete:
  "closes_at s i q b e \<Longrightarrow> 1 \<le> q \<Longrightarrow> b \<noteq> quote \<Longrightarrow> findSigilClose s i q b \<noteq> None"
proof (induction s i q b rule: findSigilClose.induct)
  case (1 s i q b)
  let ?j = "i + quote_run (drop i s)"
  have e: "i + q + 1 \<le> e" "e \<le> length s" "s ! (e - 1) = b" "\<forall>k. e - 1 - q \<le> k \<and> k < e - 1 \<longrightarrow> s ! k = quote"
    using 1(3) by (simp_all add: closes_at_def)
  then have first: "s ! (e - 1 - q) = quote" using 1(4) by simp
  have skip: "closes_at s i' q b e" if "i' \<le> e - 1 - q" for i' using that e by (simp add: closes_at_def)
  show ?case
  proof (cases "s ! i = quote")
    case False
    then have "i \<noteq> e - 1 - q" using first by auto
    then have "i + 1 \<le> e - 1 - q" using e by simp
    then show ?thesis using 1(1) False e skip 1(4,5) by (simp add: findSigilClose_eqs(2))
  next
    case True
    have j: "?j \<le> length s" using quote_run_le [of "drop i s"] e by simp
    have run: "s ! k = quote" if "i \<le> k" "k < ?j" for k
      using quote_run_drop [of i s k] that e by simp
    have "?j \<le> e - 1" using run [of "e - 1"] e 1(5) by (intro leI notI) simp
    have stop: "s ! ?j \<noteq> quote" if "?j < length s" using quote_run_end [of "drop i s"] that by simp
    show ?thesis
    proof (cases "?j = e - 1")
      case True
      then have "q \<le> ?j - i \<and> ?j < length s" using e by linarith
      then show ?thesis using True e \<open>s ! i = quote\<close> by (simp add: findSigilClose_eqs(3) [OF _ _ refl])
    next
      case False
      then have "?j < e - 1" using \<open>?j \<le> e - 1\<close> by simp
      then have "?j < length s" using e by linarith
      then have "?j \<le> e - 1 - q" using stop e \<open>?j < e - 1\<close> by (intro leI notI) simp
      then show ?thesis using 1(2) True e skip 1(4,5) by (simp add: findSigilClose_eqs(3) [OF _ _ refl])
    qed
  qed
qed

lemma sigil_close_Some:
  "sigil_close s r n b = Some (q, e) \<Longrightarrow>
     findSigilClose s (r + q) q b = Some e \<and> 1 \<le> q \<and> q \<le> n
     \<and> (\<forall>q'. q < q' \<and> q' \<le> n \<longrightarrow> findSigilClose s (r + q') q' b = None)"
  by (induction n) (auto simp: le_Suc_eq split: option.splits)

text \<open>The test \<open>UnquoteText\<close> makes of a delimiter of \<open>q\<close> quotes.\<close>

definition unquotes :: "gostring \<Rightarrow> nat \<Rightarrow> bool" where
  "unquotes w q \<longleftrightarrow> 2 * q + 2 \<le> length w \<and> substr w (length w - 1 - q) (length w - 1) = replicate q quote"

lemma unquote_sigil_Suc:
  "unquote_sigil w (Suc n) =
     (if unquotes w (Suc n) then Some (substr w (1 + Suc n) (length w - 1 - Suc n)) else unquote_sigil w n)"
  by (auto simp: unquotes_def)

lemma unquote_sigil_longest:
  "q \<le> n \<Longrightarrow> 1 \<le> q \<Longrightarrow> unquotes w q \<Longrightarrow> \<forall>q'. q < q' \<and> q' \<le> n \<longrightarrow> \<not> unquotes w q' \<Longrightarrow>
     unquote_sigil w n = Some (substr w (1 + q) (length w - 1 - q))"
proof (induction n)
  case (Suc n)
  then show ?case by (cases "q = Suc n") (simp_all add: unquote_sigil_Suc del: unquote_sigil.simps)
qed simp

lemma nth_substr: "i + k < j \<Longrightarrow> j \<le> length s \<Longrightarrow> substr s i j ! k = s ! (i + k)"
  by (simp add: substr_def)

lemma length_substr: "j \<le> length s \<Longrightarrow> length (substr s i j) = j - i"
  by (simp add: substr_def)

lemma substr_substr: "j \<le> length s \<Longrightarrow> i + b \<le> j \<Longrightarrow> substr (substr s i j) a b = substr s (i + a) (i + b)"
  by (simp add: substr_def drop_take min_def add.commute)

lemma substr_eq_replicate:
  "j \<le> length s \<Longrightarrow> i \<le> j \<Longrightarrow> substr s i j = replicate (j - i) x \<longleftrightarrow> (\<forall>k. i \<le> k \<and> k < j \<longrightarrow> s ! k = x)"
  by (auto simp: list_eq_iff_nth_eq length_substr nth_substr) (metis add_diff_inverse_nat diff_less_mono linorder_not_less nth_substr)

text \<open>
  The delimiter the scanner chose for \<open>s[p:e]\<close>, of \<open>q\<close> quotes, is the one \<open>UnquoteText\<close> strips.
\<close>

lemma unquote_closed:
  assumes close: "sigil_close s (p + 1) (min MaxConsecutiveQuotes (quote_run (drop (p + 1) s))) b = Some (q, e)"
    and p: "p < length s" "s ! p = b" and b: "b = underscore \<or> b = tilde"
  shows "UnquoteText (substr s p e) = (substr s (p + 1 + q) (e - 1 - q), True)"
    and "closes_at s (p + 1 + q) q b e" and "1 \<le> q \<and> q \<le> MaxConsecutiveQuotes"
    and "\<forall>k. p + 1 \<le> k \<and> k < p + 1 + q \<longrightarrow> s ! k = quote"
proof -
  let ?w = "substr s p e" and ?n = "min MaxConsecutiveQuotes (quote_run (drop (p + 1) s))"
  note found = sigil_close_Some [OF close]
  show c: "closes_at s (p + 1 + q) q b e" using found findSigilClose_found by blast
  then have e: "p + 1 + q + q + 1 \<le> e" "e \<le> length s" "s ! (e - 1) = b" by (simp_all add: closes_at_def)
  show q: "1 \<le> q \<and> q \<le> MaxConsecutiveQuotes" using found by simp
  show opn: "\<forall>k. p + 1 \<le> k \<and> k < p + 1 + q \<longrightarrow> s ! k = quote"
    using found quote_run_drop [of "p + 1" s] e by auto
  have bq: "b \<noteq> quote" using b by (auto simp: underscore_def tilde_def quote_def)
  have len: "length ?w = e - p" using e by (simp add: length_substr)
  have unq: "unquotes ?w q' \<longleftrightarrow> closes_at s (p + 1 + q') q' b e" for q'
  proof (cases "2 * q' + 2 \<le> e - p")
    case True
    then have "substr ?w (length ?w - 1 - q') (length ?w - 1) = substr s (e - 1 - q') (e - 1)"
      using e len by (simp add: substr_substr)
    moreover have "substr s (e - 1 - q') (e - 1) = replicate q' quote \<longleftrightarrow>
        (\<forall>k. e - 1 - q' \<le> k \<and> k < e - 1 \<longrightarrow> s ! k = quote)"
      using substr_eq_replicate [of "e - 1" s "e - 1 - q'" quote] e True by simp
    ultimately show ?thesis using True e len by (auto simp: unquotes_def closes_at_def)
  qed (use len e in \<open>auto simp: unquotes_def closes_at_def\<close>)
  let ?m = "min MaxConsecutiveQuotes (quote_run (substr ?w 1 (length ?w - 1)))"
  have inner: "substr ?w 1 (length ?w - 1) = substr s (p + 1) (e - 1)" using e len by (simp add: substr_substr)
  have le: "?m \<le> ?n"
  proof -
    let ?r = "quote_run (substr s (p + 1) (e - 1))"
    have r: "?r \<le> e - 1 - (p + 1)" using quote_run_le [of "substr s (p + 1) (e - 1)"] e by (simp add: length_substr)
    have "drop (p + 1) s ! k = quote" if "k < ?r" for k
      using quote_run_nth [OF that] nth_substr [of "p + 1" k "e - 1" s] that r e by simp
    then have "?r \<le> quote_run (drop (p + 1) s)" using r e by (intro quote_run_max) auto
    then show ?thesis unfolding inner by (intro min.mono order_refl)
  qed
  have qm: "q \<le> ?m"
  proof -
    have "q \<le> quote_run (substr s (p + 1) (e - 1))"
      using opn e by (intro quote_run_max) (auto simp: length_substr nth_substr)
    then show ?thesis unfolding inner using q by simp
  qed
  have none: "\<not> unquotes ?w q'" if "q < q'" "q' \<le> ?m" for q'
    using found that le findSigilClose_complete [of s "p + 1 + q'" q' b e] bq by (auto simp: unq)
  have "unquote_sigil ?w ?m = Some (substr ?w (1 + q) (length ?w - 1 - q))"
    using qm q unq [of q] c none by (intro unquote_sigil_longest) auto
  moreover have "substr ?w (1 + q) (length ?w - 1 - q) = substr s (p + 1 + q) (e - 1 - q)"
    using e len by (simp add: substr_substr)
  moreover have "?w ! 0 = b" "?w ! (length ?w - 1) = b" "4 \<le> length ?w"
    using e q p len nth_substr [of p 0 e s] nth_substr [of p "e - p - 1" e s] by auto
  ultimately show "UnquoteText ?w = (substr s (p + 1 + q) (e - 1 - q), True)"
    using b by (simp add: UnquoteText_def Let_def)
qed

lemma substr_split: "i \<le> m \<Longrightarrow> m \<le> j \<Longrightarrow> substr s i j = substr s i m @ substr s m j"
  by (auto dest!: le_Suc_ex simp: substr_def take_add drop_drop add.commute)

lemma substr_one: "i < length s \<Longrightarrow> substr s i (i + 1) = [s ! i]"
  by (simp add: substr_def take_Suc_conv_app_nth take_Suc hd_drop_conv_nth)

lemma closed_shape:
  assumes "closes_at s (p + 1 + q) q b e" "p < length s" "s ! p = b"
    and "\<forall>k. p + 1 \<le> k \<and> k < p + 1 + q \<longrightarrow> s ! k = quote"
  shows "substr s p e = b # replicate q quote @ substr s (p + 1 + q) (e - 1 - q) @ replicate q quote @ [b]"
proof -
  have e: "p + 1 + q + q + 1 \<le> e" "e \<le> length s" "s ! (e - 1) = b"
      "\<forall>k. e - 1 - q \<le> k \<and> k < e - 1 \<longrightarrow> s ! k = quote"
    using assms(1) by (simp_all add: closes_at_def)
  have "substr s p e = substr s p (p + 1) @ substr s (p + 1) (p + 1 + q) @ substr s (p + 1 + q) (e - 1 - q)
      @ substr s (e - 1 - q) (e - 1) @ substr s (e - 1) e"
    using e substr_split [of p "p + 1" e s] substr_split [of "p + 1" "p + 1 + q" e s]
      substr_split [of "p + 1 + q" "e - 1 - q" e s] substr_split [of "e - 1 - q" "e - 1" e s] by simp
  moreover have "substr s (p + 1) (p + 1 + q) = replicate q quote"
    using substr_eq_replicate [of "p + 1 + q" s "p + 1" quote] assms(4) e by simp
  moreover have "substr s (e - 1 - q) (e - 1) = replicate q quote"
    using substr_eq_replicate [of "e - 1" s "e - 1 - q" quote] e by simp
  moreover have "substr s p (p + 1) = [b]" "substr s (e - 1) e = [b]"
    using substr_one [of p s] substr_one [of "e - 1" s] assms(2,3) e by simp_all
  ultimately show ?thesis by simp
qed

lemma readSigilString_agrees:
  assumes "cursor_ok l" "position l < length (input l)" "input l ! position l = b" "b = underscore \<or> b = tilde"
    and read: "readSigilString b l = ((w, True), l')"
  shows "\<exists>q body.
     sigil_close (input l) (position l + 1) (min MaxConsecutiveQuotes (quote_run (drop (position l + 1) (input l)))) b =
       Some (q, position l')
     \<and> (\<forall>q'. q < q' \<and> q' \<le> min MaxConsecutiveQuotes (quote_run (drop (position l + 1) (input l))) \<longrightarrow>
          findSigilClose (input l) (position l + 1 + q') q' b = None)
     \<and> 1 \<le> q \<and> q \<le> MaxConsecutiveQuotes
     \<and> w = b # replicate q quote @ body @ replicate q quote @ [b] \<and> UnquoteText w = (body, True)
     \<and> w = substr (input l) (position l) (position l') \<and> position l' = position l + length w"
proof -
  let ?s = "input l" and ?p = "position l"
  obtain q e where close: "sigil_close ?s (?p + 1) (min MaxConsecutiveQuotes (quote_run (drop (?p + 1) ?s))) b = Some (q, e)"
    and l': "l' = advance_to e l" "w = substr ?s ?p (position l')"
    using read by (auto simp: readSigilString_def Let_def split: option.splits)
  note u = unquote_closed [OF close assms(2-4)]
  have e: "?p + 2 \<le> e" "e \<le> length ?s" "?s ! (e - 1) = b" using u(2) by (simp_all add: closes_at_def)
  moreover have "unat b < 0x80" using assms(4) by (auto simp: underscore_def tilde_def)
  ultimately have pos: "position l' = e" using position_advance_to [OF assms(1), of e] l' by simp
  then have w: "w = substr ?s ?p e" using l' by simp
  have "w = b # replicate q quote @ substr ?s (?p + 1 + q) (e - 1 - q) @ replicate q quote @ [b]"
    using closed_shape [OF u(2) assms(2,3) u(4)] w by simp
  moreover have "length w = e - ?p" using w e by (simp add: length_substr)
  ultimately show ?thesis
    using u(1,3) w pos e close sigil_close_Some [OF close] by (intro exI [of _ q] exI conjI) (simp_all add: l'(2))
qed

subsection \<open>Simple texts\<close>

lemma skip_to_quote:
  "cursor_ok l \<Longrightarrow> drop (position l) (input l) = t @ quote # r \<Longrightarrow> quote \<notin> set t \<Longrightarrow> 0 \<notin> set t \<Longrightarrow>
     (let l' = skip_while (\<lambda>c. c \<noteq> rune CHR ''\"'') l
      in cursor_ok l' \<and> input l' = input l \<and> position l' = position l + length t \<and> ch l' = rune CHR ''\"'')"
proof (induction "length t" arbitrary: l t rule: less_induct)
  case less
  let ?P = "\<lambda>c. c \<noteq> rune CHR ''\"''"
  have inside: "position l < length (input l)"
    using less.prems(2) by (metis append_is_Nil_conv drop_eq_Nil linorder_not_less list.distinct(1))
  have nth: "input l ! (position l + k) = (t @ quote # r) ! k" for k
    using less.prems(2) inside by (metis less_imp_le nth_drop)
  have rd: "rune CHR ''\"'' = 34" by (simp add: rune_def)
  show ?case
  proof (cases t)
    case Nil
    then have "ch l = 34" using nth [of 0] cursor_ascii(1) [OF less.prems(1) inside] by (simp add: quote_def)
    then show ?thesis using Nil less.prems by (subst (1) skip_while.simps) (simp add: rd Let_def)
  next
    case (Cons c t')
    have c: "input l ! position l = c" using nth [of 0] Cons by simp
    have "c \<noteq> quote" "c \<noteq> 0" using less.prems Cons by auto
    then have uc: "unat c \<noteq> unat quote" "unat c \<noteq> unat (0 :: u8)"
      by (simp_all only: word_unat_eq_iff not_False_eq_True)
    have cont: "ch l \<noteq> 0 \<and> ch l \<noteq> 34"
      using cursor_ascii [OF less.prems(1) inside] c uc by (cases "unat c < 0x80") (auto simp: quote_def)
    have len: "position l + length t < length (input l)"
      using arg_cong [OF less.prems(2), of length] inside by simp
    have "readPosition l \<le> position l + length t"
    proof -
      have "readPosition l \<le> position l + length t + 1"
        using readPosition_ascii [OF less.prems(1), of "position l + length t"] len nth [of "length t"]
        by (simp add: quote_def)
      moreover have "readPosition l \<noteq> position l + length t + 1"
      proof
        assume j: "readPosition l = position l + length t + 1"
        then have big: "rune_size (drop (position l) (input l)) = length t + 1"
          using less.prems(1) inside by (simp add: cursor_ok_def)
        then have "utf8_width (drop (position l) (input l)) = Some (length t + 1)"
          using Cons by (auto simp: rune_size_def split: option.splits)
        then have "0x80 \<le> unat (drop (position l) (input l) ! length t)"
          using Cons by (intro utf8_width_high) auto
        then show False using less.prems(2) by (simp add: quote_def)
      qed
      ultimately show ?thesis by simp
    qed
    moreover have before: "position l < readPosition l" by (rule cursor_ok_before [OF less.prems(1) inside])
    ultimately obtain k where k: "readPosition l = position l + k" "0 < k" "k \<le> length t"
      by (intro that [of "readPosition l - position l"]) simp_all
    let ?l = "readChar l"
    have ok: "cursor_ok ?l" "input ?l = input l" "position ?l = position l + k"
      using moved_readChar [OF less.prems(1)] k by (simp_all add: moved_def)
    have "drop (position l + k) (input l) = drop k (t @ quote # r)"
      by (simp add: add.commute flip: less.prems(2))
    then have "drop (position ?l) (input ?l) = drop k t @ quote # r" using k ok by simp
    then have "let l' = skip_while ?P ?l in cursor_ok l' \<and> input l' = input ?l
        \<and> position l' = position ?l + length (drop k t) \<and> ch l' = rune CHR ''\"''"
      using less.hyps [of "drop k t" ?l] ok k less.prems(3,4) set_drop_subset [of k t] by fastforce
    moreover have "skip_while ?P l = skip_while ?P ?l" using cont rd by (simp add: skip_while_step)
    ultimately show ?thesis using ok k by (simp add: Let_def)
  qed
qed

lemma lx_readString_text:
  assumes "cursor_ok l" "drop (position l) (input l) = quote # t @ quote # r" "quote \<notin> set t" "0 \<notin> set t"
  shows "\<exists>l'. lx_readString l = ((quote # t @ [quote], True), l') \<and> cursor_ok l'
     \<and> input l' = input l \<and> position l' = position l + length t + 2"
proof -
  have inside: "position l < length (input l)"
    using assms(2) by (metis drop_eq_Nil linorder_not_less list.distinct(1))
  have "input l ! position l = quote" using assms(2) inside by (metis hd_drop_conv_nth list.sel(1))
  then have step: "readPosition l = position l + 1" using cursor_ascii(1) [OF assms(1) inside] by (simp add: quote_def)
  let ?l = "readChar l"
  have ok: "cursor_ok ?l" "input ?l = input l" "position ?l = position l + 1"
    using moved_readChar [OF assms(1)] step by (simp_all add: moved_def)
  have d: "drop (position ?l) (input ?l) = t @ quote # r"
    using assms(2) ok by (simp add: drop_Suc flip: tl_drop)
  define l1 where "l1 = skip_while (\<lambda>c. c \<noteq> rune CHR ''\"'') ?l"
  have l1: "cursor_ok l1" "input l1 = input l" "position l1 = position l + 1 + length t" "ch l1 = rune CHR ''\"''"
    using skip_to_quote [OF ok(1) d assms(3,4)] ok by (simp_all add: Let_def l1_def)
  then have nz: "ch l1 \<noteq> 0" by (simp add: rune_def)
  have "position l1 < length (input l1)" using cursor_ok_inside [OF l1(1) nz] .
  moreover have "input l1 ! position l1 = quote"
  proof -
    have "drop (position l) (input l) ! (length t + 1) = quote" using assms(2) by simp
    then show ?thesis using inside l1 by (simp add: add.commute add.left_commute)
  qed
  ultimately have "readPosition l1 = position l1 + 1"
    using cursor_ascii(1) [OF l1(1)] by (simp add: quote_def)
  moreover have "substr (input l) (position l) (position l + length t + 2) = quote # t @ [quote]"
    using assms(2) by (simp add: substr_def)
  ultimately show ?thesis
    using nz l1 moved_readChar [OF l1(1)] by (auto simp: lx_readString_def Let_def moved_def simp flip: l1_def)
qed

subsection \<open>Numbers\<close>

definition number_byte :: "u8 \<Rightarrow> bool" where
  "number_byte b \<longleftrightarrow> isDigit (unat b) \<or> unat b \<in> {46, 69, 101, 43, 45}"

definition number_ok :: "gostring \<times> nat \<times> Lexer \<Rightarrow> bool" where
  "number_ok x \<longleftrightarrow> length (fst x) = fst (snd x) \<and> fst (snd x) \<le> MAX_NUMBER_LENGTH \<and> (\<forall>b \<in> set (fst x). number_byte b)"

lemma take_char_ok:
  assumes "number_ok (w, n, l)" "n < MAX_NUMBER_LENGTH" "ch l < 0x80" "number_byte (of_nat (ch l))"
  shows "number_ok (take_char (w, n, l))"
  using assms by (simp add: number_ok_def take_char_def string_rune_def)

lemma isDigit_byte: "isDigit c \<Longrightarrow> c < 0x80 \<and> number_byte (of_nat c)"
  by (simp add: isDigit_def number_byte_def rune_def unat_of_nat take_bit_eq_mod)

lemma read_digits_ok: "number_ok x \<Longrightarrow> number_ok (read_digits x)"
proof (induction x rule: read_digits.induct)
  case (1 w n l)
  have "number_ok (w, n, readChar l)" using 1(3) by (simp add: number_ok_def)
  moreover have "number_ok (w @ string_rune (ch l), n + 1, readChar l)" if "isDigit (ch l)" "n < MAX_NUMBER_LENGTH"
    using take_char_ok [OF 1(3) that(2)] isDigit_byte [OF that(1)] by (simp add: take_char_def)
  ultimately show ?case using 1 by (subst read_digits.simps) auto
qed

lemma number_parts_ok:
  "number_ok x \<Longrightarrow> number_ok (number_fraction x)" "number_ok x \<Longrightarrow> number_ok (number_sign x)"
  by (auto simp: number_fraction_def number_sign_def rune_def number_byte_def split: prod.splits
      intro!: read_digits_ok take_char_ok)

lemma number_exponent_ok: "number_ok x \<Longrightarrow> number_ok (number_exponent x)"
  by (auto simp: number_exponent_def rune_def number_byte_def split: prod.splits
      intro!: read_digits_ok number_parts_ok take_char_ok)

lemma readNumber_bounded: "length (fst (readNumber l)) \<le> MAX_NUMBER_LENGTH" "\<forall>b \<in> set (fst (readNumber l)). number_byte b"
  using number_exponent_ok [OF number_parts_ok(1) [OF read_digits_ok, of "([], 0, l)"]]
  by (simp_all add: number_ok_def readNumber_def split_def Let_def)

end
