(* ===== verification/Mbl_Ast.thy ===== *)
theory Mbl_Ast
  imports Mbl_Values Mbl_Lexer
begin

text \<open>
  The syntax tree of MBL (\<open>src/internal/mbl/parser/ast.go\<close>). A node keeps the token it was built
  from. Interface values may be nil in Go: a missing expression is \<open>ENil\<close>, a missing statement
  \<open>None\<close>, and \<open>NilPtr\<close> is the nil pointer of a named type inside a statement interface, which Go
  does not take for nil. The map \<open>Pairs\<close> of a record, which repeats its fields, is left out.
\<close>

text \<open>The Go value of a literal.\<close>

datatype literal_value =
    LString gostring
  | LInt64 i64
  | LFloat64 f64
  | LBool bool
  | LNil
  | LValue goany

datatype Expression =
    ENil
  | PathExpression Token "gostring list" "(nat \<times> Expression) list"
  | BinaryExpression Token Expression gostring Expression
  | UnaryExpression Token gostring Expression
  | LiteralExpression Token literal_value
  | InterpolatedStringExpression Token "(gostring \<times> Expression) list"
  | ReferenceExpression Token Expression
  | ModifierExpression Token gostring Expression
  | CallExpression Token Expression "Expression list"
  | CollectionOperationExpression Token Expression gostring "Expression list"
  | BracketFilterExpression Token Expression "Expression list"
  | ProjectionExpression Token Expression "gostring list"
  | RecordExpression Token "RecordField list"
  | ListExpression Token "Expression list"
  | WatchExpression Token "Expression list" bool gostring "BlockStatement option"
  | ProcedureExpression Token "gostring list" "BlockStatement option"
and RecordField =
    RecordField Expression "gostring option" Expression Expression
and Statement =
    NilPtr gostring
  | Block BlockStatement
  | QuietlyBlockStatement Token BlockStatement
  | AssignmentStatement Token Expression Expression "gostring option" bool
  | IfStatement Token Expression "BlockStatement option" "Statement option"
  | WhileStatement Token Expression BlockStatement
  | ForStatement Token "gostring list" Expression BlockStatement
  | ConsiderStatement Token Expression "(Token \<times> Expression \<times> BlockStatement) list" "BlockStatement option"
  | ProcedureStatement Token gostring "gostring list" BlockStatement
  | ReturnStatement Token Expression
  | PassStatement Token
  | BreakStatement Token
  | ScopeStatement Token gostring "BlockStatement option"
  | WatchStatement Token gostring bool "Expression list" "Expression list" gostring BlockStatement
  | ExpressionStatement Token Expression
  | InstantiationStatement Token gostring "gostring option" "(gostring option \<times> Expression option) list" "Expression option"
  | EmbedDirectiveStatement Token Expression
  | DefinitionStatement Token Expression Expression
  | CatchStatement Token BlockStatement "(Token \<times> gostring \<times> BlockStatement option) list"
and BlockStatement =
    BlockStatement Token "Statement list"

record Program =
  prStatements :: "Statement list"
  prToken :: Token

definition is_nil :: "Expression \<Rightarrow> bool" where
  "is_nil x = (case x of ENil \<Rightarrow> True | _ \<Rightarrow> False)"

end
