(* ===== verification/Mbl_Parser.thy ===== *)
theory Mbl_Parser
  imports Mbl_Ast
begin

text \<open>
  The parser of MBL (\<open>src/internal/mbl/parser/parser.go\<close>): a Pratt parser for expressions inside a
  recursive descent parser for statements, reading tokens from the scanner with one token of
  look-ahead. Every parse function of the source is one definition here. The recursion of the code
  is open: a function gets the expression parser \<open>e\<close> and the statement parser \<open>s\<close> it calls as
  arguments, and a bound \<open>n\<close> for its own loops; the knot is tied at the end with a bound on the
  nesting of calls. Running out of the bound is the outcome \<open>Fuel\<close>, which the theorems exclude;
  a run-time panic of the Go program is the outcome \<open>Panic\<close>. Texts inside texts (interpolations,
  reset expressions) are parsed by \<open>sub\<close>, a parser on its own scanner.
\<close>

subsection \<open>State and outcomes\<close>

datatype parse_issue =
    ExpectedPeek TokenType Token
  | InvalidOperator Token
  | UnexpectedAssign Token
  | UnexpectedToken TokenType Token
  | DepthExceeded
  | NodesExceeded
  | MissingColon Token
  | MissingBracket Token
  | MalformedText gostring nat
  | UnclosedBrace nat
  | EmptyBraces nat
  | InvalidPath gostring nat
  | OnlyPaths gostring nat
  | BadNumber gostring
  | BadTime gostring
  | UnknownReason Token
  | UnknownParen Token
  | LinkPath Token
  | ProjectionField Token
  | DefinitionFirst Token
  | DotIdentifier Token
  | EmptyBody Token

record Parser =
  psLexer :: Lexer
  psCurrent :: Token
  psPeek :: Token
  psErrors :: "parse_issue list"
  psDepth :: nat
  psNodes :: nat

text \<open>What the parser takes from elsewhere: the letter table, \<open>strconv.ParseFloat\<close>, \<open>types.ParseTimeLiteral\<close>, \<open>strconv.FormatFloat\<close>.\<close>

record parse_lib =
  plU :: "nat \<Rightarrow> bool"
  plParseFloat :: "gostring \<Rightarrow> f64 option"
  plParseTime :: "gostring \<Rightarrow> goany option"
  plFormatFloat :: "f64 \<Rightarrow> gostring"

datatype parse_stop = Panic | Fuel

type_synonym 'a outcome = "parse_stop + 'a \<times> Parser"

definition ok :: "'a \<Rightarrow> Parser \<Rightarrow> 'a outcome" where
  "ok x p = Inr (x, p)"

definition pseq :: "'a outcome \<Rightarrow> ('a \<Rightarrow> Parser \<Rightarrow> 'b outcome) \<Rightarrow> 'b outcome" where
  "pseq r f = (case r of Inl stop \<Rightarrow> Inl stop | Inr (x, p) \<Rightarrow> f x p)"

subsection \<open>Precedences\<close>

abbreviation (input) P_LOWEST :: nat where "P_LOWEST \<equiv> 1"
abbreviation (input) P_OR :: nat where "P_OR \<equiv> 2"
abbreviation (input) P_AND :: nat where "P_AND \<equiv> 3"
abbreviation (input) P_NOT :: nat where "P_NOT \<equiv> 4"
abbreviation (input) P_EQUALS :: nat where "P_EQUALS \<equiv> 5"
abbreviation (input) P_CONCAT :: nat where "P_CONCAT \<equiv> 6"
abbreviation (input) P_SUM :: nat where "P_SUM \<equiv> 7"
abbreviation (input) P_PRODUCT :: nat where "P_PRODUCT \<equiv> 8"
abbreviation (input) P_POWER :: nat where "P_POWER \<equiv> 9"
abbreviation (input) P_UNARY :: nat where "P_UNARY \<equiv> 10"
abbreviation (input) P_RANGE :: nat where "P_RANGE \<equiv> 11"
abbreviation (input) P_CALL :: nat where "P_CALL \<equiv> 12"

definition precedences :: "(TokenType \<times> nat) list" where
  "precedences =
     [(OR_KW, P_OR), (AND_KW, P_AND), (NOT_KW, P_NOT), (EQUAL, P_EQUALS), (ASSIGN, P_EQUALS), (GT, P_EQUALS), (LT, P_EQUALS),
      (GTE, P_EQUALS), (LTE, P_EQUALS), (CONCAT, P_CONCAT), (PLUS, P_SUM), (MINUS, P_SUM), (MULTIPLY, P_PRODUCT),
      (DIVIDE, P_PRODUCT), (MODULO, P_PRODUCT), (POWER, P_POWER), (RANGE, P_RANGE), (DOT, P_CALL), (LBRACKET, P_CALL),
      (LBRACE, P_CALL), (LPAREN, P_CALL)]"

definition precedence_of :: "TokenType \<Rightarrow> nat" where
  "precedence_of t = (case map_of precedences t of Some n \<Rightarrow> n | None \<Rightarrow> P_LOWEST)"

subsection \<open>Tokens\<close>

definition nextToken :: "parse_lib \<Rightarrow> Parser \<Rightarrow> Parser" where
  "nextToken L p =
     (let (t, l) = NextToken (plU L) (psLexer p) in p\<lparr>psCurrent := psPeek p, psPeek := t, psLexer := l\<rparr>)"

definition zero_token :: Token where
  "zero_token = \<lparr>Type = ILLEGAL, Literal = [], Line = 0, Column = 0, Position = 0\<rparr>"

definition NewParser :: "parse_lib \<Rightarrow> Lexer \<Rightarrow> Parser" where
  "NewParser L l =
     nextToken L (nextToken L \<lparr>psLexer = l, psCurrent = zero_token, psPeek = zero_token, psErrors = [], psDepth = 0, psNodes = 0\<rparr>)"

abbreviation cur :: "Parser \<Rightarrow> TokenType" where "cur p \<equiv> Type (psCurrent p)"
abbreviation peek :: "Parser \<Rightarrow> TokenType" where "peek p \<equiv> Type (psPeek p)"
abbreviation curLit :: "Parser \<Rightarrow> gostring" where "curLit p \<equiv> Literal (psCurrent p)"

definition addError :: "parse_issue \<Rightarrow> Parser \<Rightarrow> Parser" where
  "addError i p = p\<lparr>psErrors := psErrors p @ [i]\<rparr>"

definition peekError :: "TokenType \<Rightarrow> Parser \<Rightarrow> Parser" where
  "peekError t p = addError (ExpectedPeek t (psPeek p)) p"

definition noPrefixParseFnError :: "TokenType \<Rightarrow> Parser \<Rightarrow> Parser" where
  "noPrefixParseFnError t p =
     (if t = ASSIGN \<and> peek p = ASSIGN then addError (InvalidOperator (psCurrent p)) p
      else if t = ASSIGN then addError (UnexpectedAssign (psCurrent p)) p
      else addError (UnexpectedToken t (psCurrent p)) p)"

text \<open>\<open>if !p.expectPeek(t) { return result }\<close>, then the rest.\<close>

definition expectPeek :: "parse_lib \<Rightarrow> TokenType \<Rightarrow> Parser \<Rightarrow> 'a \<Rightarrow> (Parser \<Rightarrow> 'a outcome) \<Rightarrow> 'a outcome" where
  "expectPeek L t p result rest = (if peek p = t then rest (nextToken L p) else ok result (peekError t p))"

definition peekPrecedence :: "Parser \<Rightarrow> nat" where
  "peekPrecedence p = precedence_of (peek p)"

definition currentPrecedence :: "Parser \<Rightarrow> nat" where
  "currentPrecedence p = precedence_of (cur p)"

fun skipComments :: "parse_lib \<Rightarrow> nat \<Rightarrow> Parser \<Rightarrow> unit outcome" where
  "skipComments L 0 p = Inl Fuel"
| "skipComments L (Suc n) p =
     (if cur p = COMMENT \<or> cur p = BLOCK_COMMENT then skipComments L n (nextToken L p) else ok () p)"

text \<open>\<open>for p.peekToken.Type == lexer.NEWLINE\<close>.\<close>

fun skip_newlines :: "parse_lib \<Rightarrow> nat \<Rightarrow> Parser \<Rightarrow> unit outcome" where
  "skip_newlines L 0 p = Inl Fuel"
| "skip_newlines L (Suc n) p = (if peek p = NEWLINE then skip_newlines L n (nextToken L p) else ok () p)"

definition maxRecursionDepth :: nat where "maxRecursionDepth = 1000"
definition maxNodes :: nat where "maxNodes = 100000"

definition incrementRecursionDepth :: "Parser \<Rightarrow> bool \<times> Parser" where
  "incrementRecursionDepth p =
     (let p1 = p\<lparr>psDepth := psDepth p + 1\<rparr>
      in if maxRecursionDepth < psDepth p1 then (False, addError DepthExceeded p1) else (True, p1))"

definition decrementRecursionDepth :: "Parser \<Rightarrow> Parser" where
  "decrementRecursionDepth p = (if 0 < psDepth p then p\<lparr>psDepth := psDepth p - 1\<rparr> else p)"

definition incrementNodeCount :: "Parser \<Rightarrow> bool \<times> Parser" where
  "incrementNodeCount p =
     (let p1 = p\<lparr>psNodes := psNodes p + 1\<rparr>
      in if maxNodes < psNodes p1 then (False, addError NodesExceeded p1) else (True, p1))"

text \<open>The guards at the start of \<open>parseStatement\<close> and \<open>parseExpression\<close> and the deferred decrement.\<close>

definition guarded :: "'a \<Rightarrow> (Parser \<Rightarrow> 'a outcome) \<Rightarrow> Parser \<Rightarrow> 'a outcome" where
  "guarded nothing body p =
     (case incrementRecursionDepth p of
        (False, p1) \<Rightarrow> ok nothing p1
      | (True, p1) \<Rightarrow>
          (case incrementNodeCount p1 of
             (False, p2) \<Rightarrow> ok nothing (decrementRecursionDepth p2)
           | (True, p2) \<Rightarrow> pseq (body p2) (\<lambda>x p3. ok x (decrementRecursionDepth p3))))"

text \<open>The user's text that an error message quotes is searched too.\<close>

fun critical :: "parse_issue \<Rightarrow> bool" where
  "critical DepthExceeded = True"
| "critical NodesExceeded = True"
| "critical (MalformedText s _) = (Contains s (str ''maximum recursion depth'') \<or> Contains s (str ''maximum node count''))"
| "critical (InvalidPath s _) = (Contains s (str ''maximum recursion depth'') \<or> Contains s (str ''maximum node count''))"
| "critical (OnlyPaths s _) = (Contains s (str ''maximum recursion depth'') \<or> Contains s (str ''maximum node count''))"
| "critical (BadNumber s) = (Contains s (str ''maximum recursion depth'') \<or> Contains s (str ''maximum node count''))"
| "critical (BadTime s) = (Contains s (str ''maximum recursion depth'') \<or> Contains s (str ''maximum node count''))"
| "critical _ = False"

definition hasCriticalError :: "Parser \<Rightarrow> bool" where
  "hasCriticalError p = list_ex critical (psErrors p)"

section \<open>Pieces shared by several functions\<close>

text \<open>\<open>for p.peekToken.Type == lexer.COMMA\<close>: step over the comma and parse one more.\<close>

fun comma_loop :: "parse_lib \<Rightarrow> (Parser \<Rightarrow> 'a outcome) \<Rightarrow> nat \<Rightarrow> Parser \<Rightarrow> 'a list outcome" where
  "comma_loop L f 0 p = Inl Fuel"
| "comma_loop L f (Suc n) p =
     (if peek p = COMMA then
        pseq (f (nextToken L (nextToken L p))) (\<lambda>x p1. pseq (comma_loop L f n p1) (\<lambda>xs p2. ok (x # xs) p2))
      else ok [] p)"

definition parseExpressionList ::
  "parse_lib \<Rightarrow> (nat \<Rightarrow> Parser \<Rightarrow> Expression outcome) \<Rightarrow> nat \<Rightarrow> TokenType \<Rightarrow> Parser \<Rightarrow> Expression list outcome" where
  "parseExpressionList L e n close p =
     (if peek p = close then ok [] (nextToken L p)
      else pseq (e P_LOWEST (nextToken L p)) (\<lambda>a p1.
           pseq (comma_loop L (e P_LOWEST) n p1) (\<lambda>as p2.
           expectPeek L close p2 [] (\<lambda>p3. ok (a # as) p3))))"

text \<open>The text of a modifier without its parentheses.\<close>

definition modifier_name :: "gostring \<Rightarrow> gostring option" where
  "modifier_name lit =
     (if 2 < length lit \<and> hd lit = 0x28 \<and> last lit = 0x29 then Some (butlast (tl lit)) else None)"

text \<open>The dotted segments of a path: \<open>for p.peekToken.Type == lexer.DOT\<close>, with the token types allowed.\<close>

fun path_segments :: "parse_lib \<Rightarrow> TokenType list \<Rightarrow> nat \<Rightarrow> Parser \<Rightarrow> gostring list outcome" where
  "path_segments L allowed 0 p = Inl Fuel"
| "path_segments L allowed (Suc n) p =
     (if peek p = DOT then
        let p1 = nextToken L (nextToken L p) in
        if cur p1 \<notin> set allowed then ok [] p1
        else pseq (path_segments L allowed n p1) (\<lambda>parts p2. ok (curLit p1 # parts) p2)
      else ok [] p)"

definition parsePathExpression :: "parse_lib \<Rightarrow> nat \<Rightarrow> Parser \<Rightarrow> (Token \<times> gostring list) outcome" where
  "parsePathExpression L n p =
     pseq (path_segments L [IDENT, TIME] n p) (\<lambda>parts p1. ok (psCurrent p, curLit p # parts) p1)"

subsection \<open>Blocks\<close>

fun block_loop :: "parse_lib \<Rightarrow> (Parser \<Rightarrow> Statement option outcome) \<Rightarrow> nat \<Rightarrow> Parser \<Rightarrow> Statement list outcome" where
  "block_loop L s 0 p = Inl Fuel"
| "block_loop L s (Suc n) p =
     (if cur p = DEDENT \<or> cur p = EOF then ok [] p
      else pseq (skipComments L (Suc n) p) (\<lambda>_ p1.
        if cur p1 = NEWLINE then block_loop L s n (nextToken L p1)
        else pseq (s p1) (\<lambda>st p2.
             pseq (block_loop L s n (nextToken L p2)) (\<lambda>sts p3.
             ok (case st of None \<Rightarrow> sts | Some x \<Rightarrow> x # sts) p3))))"

definition parseBlockStatement ::
  "parse_lib \<Rightarrow> (Parser \<Rightarrow> Statement option outcome) \<Rightarrow> nat \<Rightarrow> Parser \<Rightarrow> BlockStatement outcome" where
  "parseBlockStatement L s n p =
     pseq (block_loop L s n (nextToken L p)) (\<lambda>sts p1. ok (BlockStatement (psCurrent p) sts) p1)"

fun same_line_loop :: "parse_lib \<Rightarrow> (Parser \<Rightarrow> Statement option outcome) \<Rightarrow> nat \<Rightarrow> Parser \<Rightarrow> Statement list outcome" where
  "same_line_loop L s 0 p = Inl Fuel"
| "same_line_loop L s (Suc n) p =
     (if cur p = EOF \<or> cur p = NEWLINE \<or> cur p = DEDENT then ok [] p
      else pseq (skipComments L (Suc n) p) (\<lambda>_ p1.
           pseq (s p1) (\<lambda>st p2.
           pseq (if peek p2 = SEMICOLON then same_line_loop L s n (nextToken L (nextToken L p2)) else ok [] p2) (\<lambda>sts p3.
           ok (case st of None \<Rightarrow> sts | Some x \<Rightarrow> x # sts) p3))))"

definition parseSameLineBlock ::
  "parse_lib \<Rightarrow> (Parser \<Rightarrow> Statement option outcome) \<Rightarrow> nat \<Rightarrow> Parser \<Rightarrow> BlockStatement outcome" where
  "parseSameLineBlock L s n p =
     pseq (same_line_loop L s n (nextToken L p)) (\<lambda>sts p1. ok (BlockStatement (psCurrent p) sts) p1)"

text \<open>The end of most compound statements: line breaks, an indent, a block. \<open>result\<close> is returned when there is no indent.\<close>

definition indented_block ::
  "parse_lib \<Rightarrow> (Parser \<Rightarrow> Statement option outcome) \<Rightarrow> nat \<Rightarrow> Parser \<Rightarrow> 'a \<Rightarrow> (BlockStatement \<Rightarrow> Parser \<Rightarrow> 'a outcome) \<Rightarrow> 'a outcome" where
  "indented_block L s n p result rest =
     pseq (skip_newlines L n p) (\<lambda>_ p1.
     expectPeek L INDENT p1 result (\<lambda>p2. pseq (parseBlockStatement L s n p2) rest))"

section \<open>Prefix parse functions\<close>

definition parseIdentifier :: "Parser \<Rightarrow> Expression outcome" where
  "parseIdentifier p = ok (PathExpression (psCurrent p) [curLit p] []) p"

definition parseMyExpression :: "parse_lib \<Rightarrow> nat \<Rightarrow> Parser \<Rightarrow> Expression outcome" where
  "parseMyExpression L n p =
     pseq (path_segments L [IDENT, TIME] n p) (\<lambda>parts p1. ok (PathExpression (psCurrent p) (str ''my'' # parts) []) p1)"

definition parseWorldExpression :: "parse_lib \<Rightarrow> nat \<Rightarrow> Parser \<Rightarrow> Expression outcome" where
  "parseWorldExpression L n p =
     pseq (path_segments L [IDENT] n p) (\<lambda>parts p1. ok (PathExpression (psCurrent p) (str ''world'' # parts) []) p1)"

definition parseStringLiteral :: "Parser \<Rightarrow> Expression outcome" where
  "parseStringLiteral p = ok (LiteralExpression (psCurrent p) (LString (curLit p))) p"

text \<open>A placeholder of an interpolating text.\<close>

definition parseInterpolationPath ::
  "(gostring \<Rightarrow> Expression outcome) \<Rightarrow> gostring \<Rightarrow> Token \<Rightarrow> Parser \<Rightarrow> Expression outcome" where
  "parseInterpolationPath sub source tok p =
     (case sub source of
        Inl stop \<Rightarrow> Inl stop
      | Inr (expr, sp) \<Rightarrow>
          if psErrors sp \<noteq> [] \<or> is_nil expr then ok ENil (addError (InvalidPath source (Line tok)) p)
          else if peek sp \<noteq> EOF \<and> cur sp \<noteq> EOF then ok ENil (addError (InvalidPath source (Line tok)) p)
          else (case expr of
                  PathExpression _ _ _ \<Rightarrow> ok expr p
                | _ \<Rightarrow> ok ENil (addError (OnlyPaths source (Line tok)) p)))"

abbreviation open_brace :: u8 where "open_brace \<equiv> 0x7B"
abbreviation close_brace :: u8 where "close_brace \<equiv> 0x7D"

text \<open>The loop over the body: the literal run and the parts so far.\<close>

function interpolate ::
  "(gostring \<Rightarrow> Expression outcome) \<Rightarrow> Token \<Rightarrow> gostring \<Rightarrow> gostring \<Rightarrow> (gostring \<times> Expression) list \<Rightarrow> Parser \<Rightarrow>
   (gostring \<times> Expression) list outcome" where
  "interpolate sub tok [] lit parts p = ok (if lit = [] then parts else parts @ [(lit, ENil)]) p"
| "interpolate sub tok (b # body) lit parts p =
     (if HasPrefix (b # body) [open_brace, open_brace] then interpolate sub tok (tl body) (lit @ [open_brace]) parts p
      else if b = open_brace then
        let inner = takeWhile (\<lambda>c. c \<noteq> close_brace) body; rest = drop (length inner) body in
        if rest = [] then ok parts (addError (UnclosedBrace (Line tok)) p)
        else let source = TrimSpace inner in
          if source = [] then ok parts (addError (EmptyBraces (Line tok)) p)
          else pseq (parseInterpolationPath sub source tok p) (\<lambda>path p1.
            if is_nil path then ok parts p1
            else interpolate sub tok (tl rest) [] (parts @ (if lit = [] then [] else [(lit, ENil)]) @ [([], path)]) p1)
      else interpolate sub tok body (lit @ [b]) parts p)"
  by pat_completeness auto
termination by (relation "measure (\<lambda>(sub, tok, body, lit, parts, p). length body)") auto

definition parseInterpolatedString :: "(gostring \<Rightarrow> Expression outcome) \<Rightarrow> Parser \<Rightarrow> Expression outcome" where
  "parseInterpolatedString sub p =
     (let tok = psCurrent p in
      case UnquoteText (Literal tok) of
        (_, False) \<Rightarrow> ok (InterpolatedStringExpression tok []) (addError (MalformedText (Literal tok) (Line tok)) p)
      | (body, True) \<Rightarrow>
          pseq (interpolate sub tok body [] [] p) (\<lambda>parts p1. ok (InterpolatedStringExpression tok parts) p1))"

text \<open>\<open>strconv.ParseInt(s, 0, 64)\<close> on the literals of the scanner: a leading zero means octal.\<close>

definition ParseInt0 :: "gostring \<Rightarrow> i64 option" where
  "ParseInt0 s =
     (let base = (if 1 < length s \<and> hd s = 48 then 8 else 10);
          digits = map (\<lambda>c. unat c - 48) s;
          value = foldl (\<lambda>n d. n * base + d) 0 digits
      in if s \<noteq> [] \<and> list_all (\<lambda>c. 48 \<le> unat c \<and> unat c < 48 + base) s \<and> value < 2 ^ 63 then Some (of_nat value) else None)"

definition parseNumberLiteral :: "parse_lib \<Rightarrow> Parser \<Rightarrow> Expression outcome" where
  "parseNumberLiteral L p =
     (case ParseInt0 (curLit p) of
        Some value \<Rightarrow> ok (LiteralExpression (psCurrent p) (LInt64 value)) p
      | None \<Rightarrow>
          (case plParseFloat L (curLit p) of
             Some value \<Rightarrow> ok (LiteralExpression (psCurrent p) (LFloat64 value)) p
           | None \<Rightarrow> ok ENil (addError (BadNumber (curLit p)) p)))"

definition ascii_letter :: "u8 \<Rightarrow> bool" where
  "ascii_letter c \<longleftrightarrow> 97 \<le> unat c \<and> unat c \<le> 122 \<or> 65 \<le> unat c \<and> unat c \<le> 90"

definition parseTimeLiteral :: "parse_lib \<Rightarrow> Parser \<Rightarrow> Expression outcome" where
  "parseTimeLiteral L p =
     (let lit = curLit p in
      if lit = str ''@'' \<or> TrimSpace lit = str ''@'' then ok (PathExpression (psCurrent p) [str ''@''] []) p
      else if HasPrefix lit (str ''@'') \<and> \<not> Contains lit (str ''-'') \<and> tl lit \<noteq> [] \<and> ascii_letter (hd (tl lit))
      then ok (PathExpression (psCurrent p) [lit] []) p
      else (case plParseTime L lit of
              Some t \<Rightarrow> ok (LiteralExpression (psCurrent p) (LValue t)) p
            | None \<Rightarrow> ok ENil (addError (BadTime lit) p)))"

definition parseMoneyLiteral :: "Parser \<Rightarrow> Expression outcome" where
  "parseMoneyLiteral p = ok (LiteralExpression (psCurrent p) (LString (curLit p))) p"

definition parseBooleanLiteral :: "Parser \<Rightarrow> Expression outcome" where
  "parseBooleanLiteral p = ok (LiteralExpression (psCurrent p) (LBool (cur p = TRUE))) p"

definition parseNothingLiteral :: "Parser \<Rightarrow> Expression outcome" where
  "parseNothingLiteral p = ok (LiteralExpression (psCurrent p) LNil) p"

text \<open>A text literal without its plain quotes.\<close>

definition strip_quotes :: "gostring \<Rightarrow> gostring" where
  "strip_quotes v = (if 2 \<le> length v \<and> hd v = quote \<and> last v = quote then butlast (tl v) else v)"

definition parseUnknownLiteral :: "parse_lib \<Rightarrow> Parser \<Rightarrow> Expression outcome" where
  "parseUnknownLiteral L p =
     (if peek p = LPAREN then
        let p2 = nextToken L (nextToken L p) in
        if cur p2 \<noteq> TEXT then ok ENil (addError (UnknownReason (psCurrent p)) p2)
        else if peek p2 \<noteq> RPAREN then ok ENil (addError (UnknownParen (psCurrent p2)) p2)
        else ok (LiteralExpression (psCurrent p) (LValue (Unknown (strip_quotes (curLit p2))))) (nextToken L p2)
      else ok (LiteralExpression (psCurrent p) (LValue (Unknown (str ''unknown'')))) p)"

definition parseAnythingLiteral :: "Parser \<Rightarrow> Expression outcome" where
  "parseAnythingLiteral p = ok (LiteralExpression (psCurrent p) (LString (str ''Anything''))) p"

definition parsePiLiteral :: "Parser \<Rightarrow> Expression outcome" where
  "parsePiLiteral p = ok (LiteralExpression (psCurrent p) (LFloat64 0x400921FB54442D18)) p"

definition parseEulerLiteral :: "Parser \<Rightarrow> Expression outcome" where
  "parseEulerLiteral p = ok (LiteralExpression (psCurrent p) (LFloat64 0x4005BF0A8B145769)) p"

definition parseEmptyLiteral :: "Parser \<Rightarrow> Expression outcome" where
  "parseEmptyLiteral p = ok (LiteralExpression (psCurrent p) (LString [])) p"

definition parseQuoteLiteral :: "Parser \<Rightarrow> Expression outcome" where
  "parseQuoteLiteral p = ok (LiteralExpression (psCurrent p) (LString [quote])) p"

definition parseTabLiteral :: "Parser \<Rightarrow> Expression outcome" where
  "parseTabLiteral p = ok (LiteralExpression (psCurrent p) (LString [9])) p"

definition parseNewlineLiteral :: "Parser \<Rightarrow> Expression outcome" where
  "parseNewlineLiteral p = ok (LiteralExpression (psCurrent p) (LString [10])) p"

definition parseLinkReference :: "parse_lib \<Rightarrow> (nat \<Rightarrow> Parser \<Rightarrow> Expression outcome) \<Rightarrow> Parser \<Rightarrow> Expression outcome" where
  "parseLinkReference L e p =
     pseq (e P_LOWEST (nextToken L p)) (\<lambda>path p1.
       if is_nil path then ok ENil (addError (LinkPath (psCurrent p)) p1)
       else ok (ReferenceExpression (psCurrent p) path) p1)"

definition parseUnaryExpression :: "parse_lib \<Rightarrow> (nat \<Rightarrow> Parser \<Rightarrow> Expression outcome) \<Rightarrow> Parser \<Rightarrow> Expression outcome" where
  "parseUnaryExpression L e p =
     pseq (e P_UNARY (nextToken L p)) (\<lambda>right p1. ok (UnaryExpression (psCurrent p) (curLit p) right) p1)"

definition parseQuietlyExpression :: "parse_lib \<Rightarrow> (nat \<Rightarrow> Parser \<Rightarrow> Expression outcome) \<Rightarrow> Parser \<Rightarrow> Expression outcome" where
  "parseQuietlyExpression L e p =
     (if peek p \<in> {TEXT, NUMBER, IDENT, MY} then
        pseq (e P_LOWEST (nextToken L p)) (\<lambda>right p1.
          ok (BinaryExpression (psCurrent p) (LiteralExpression (psCurrent p) (LString (curLit p))) (str '' '') right) p1)
      else ok (LiteralExpression (psCurrent p) (LString (str ''quietly''))) p)"

definition parseGroupedExpression :: "parse_lib \<Rightarrow> (nat \<Rightarrow> Parser \<Rightarrow> Expression outcome) \<Rightarrow> Parser \<Rightarrow> Expression outcome" where
  "parseGroupedExpression L e p =
     pseq (e P_LOWEST (nextToken L p)) (\<lambda>exp p1. expectPeek L RPAREN p1 ENil (\<lambda>p2. ok exp p2))"

text \<open>A failed parse of the inner text makes it a literal.\<close>

definition parseResetExpression :: "(gostring \<Rightarrow> Expression outcome) \<Rightarrow> gostring \<Rightarrow> parse_stop + Expression" where
  "parseResetExpression sub exprStr =
     (case sub exprStr of
        Inl stop \<Rightarrow> Inl stop
      | Inr (expr, sp) \<Rightarrow>
          if is_nil expr \<or> psErrors sp \<noteq> []
          then Inr (LiteralExpression (zero_token\<lparr>Type := TEXT, Literal := exprStr\<rparr>) (LString exprStr))
          else Inr expr)"

text \<open>The modifier of a field, and the expression of \<open>(reset expression)\<close>.\<close>

definition field_modifier :: "(gostring \<Rightarrow> Expression outcome) \<Rightarrow> gostring \<Rightarrow> gostring option \<times> (parse_stop + Expression)" where
  "field_modifier sub lit =
     (case modifier_name lit of
        None \<Rightarrow> (None, Inr ENil)
      | Some v \<Rightarrow>
          if HasPrefix v (str ''reset '') then
            (Some (str ''reset''), if TrimSpace (drop 6 v) = [] then Inr ENil else parseResetExpression sub (TrimSpace (drop 6 v)))
          else (Some v, Inr ENil))"

definition parseRecordField ::
  "parse_lib \<Rightarrow> (gostring \<Rightarrow> Expression outcome) \<Rightarrow> (nat \<Rightarrow> Parser \<Rightarrow> Expression outcome) \<Rightarrow> Parser \<Rightarrow> RecordField option outcome" where
  "parseRecordField L sub e p =
     pseq (e P_LOWEST p) (\<lambda>key p1.
     expectPeek L DEFINE p1 None (\<lambda>p2.
       if peek p2 \<in> {COPY, LINK, RESET, EXCLUDE} then
         let p3 = nextToken L p2; (modifier, r) = field_modifier sub (curLit p3) in
         (case r of
            Inl stop \<Rightarrow> Inl stop
          | Inr resetExpr \<Rightarrow> pseq (e P_LOWEST (nextToken L p3)) (\<lambda>v p4. ok (Some (RecordField key modifier resetExpr v)) p4))
       else pseq (e P_LOWEST (nextToken L p2)) (\<lambda>v p3. ok (Some (RecordField key None ENil v)) p3)))"

definition parseRecordLiteral ::
  "parse_lib \<Rightarrow> (gostring \<Rightarrow> Expression outcome) \<Rightarrow> (nat \<Rightarrow> Parser \<Rightarrow> Expression outcome) \<Rightarrow> nat \<Rightarrow> Parser \<Rightarrow> Expression outcome" where
  "parseRecordLiteral L sub e n p =
     (if peek p = RBRACE then ok (RecordExpression (psCurrent p) []) (nextToken L p)
      else pseq (parseRecordField L sub e (nextToken L p)) (\<lambda>f p1.
           pseq (comma_loop L (parseRecordField L sub e) n p1) (\<lambda>fs p2.
           expectPeek L RBRACE p2 ENil (\<lambda>p3. ok (RecordExpression (psCurrent p) (List.map_filter id (f # fs))) p3))))"

definition parseListLiteral :: "parse_lib \<Rightarrow> (nat \<Rightarrow> Parser \<Rightarrow> Expression outcome) \<Rightarrow> nat \<Rightarrow> Parser \<Rightarrow> Expression outcome" where
  "parseListLiteral L e n p =
     (if peek p = RBRACKET then ok (ListExpression (psCurrent p) []) (nextToken L p)
      else pseq (e P_LOWEST (nextToken L p)) (\<lambda>a p1.
           pseq (comma_loop L (e P_LOWEST) n p1) (\<lambda>as p2.
           expectPeek L RBRACKET p2 ENil (\<lambda>p3. ok (ListExpression (psCurrent p) (a # as)) p3))))"

definition parseDefinitionExpression :: "Parser \<Rightarrow> Expression outcome" where
  "parseDefinitionExpression p = ok ENil (addError (DefinitionFirst (psCurrent p)) p)"

text \<open>Further paths of a watcher; a missing one ends the whole expression.\<close>

fun watch_paths :: "parse_lib \<Rightarrow> (nat \<Rightarrow> Parser \<Rightarrow> Expression outcome) \<Rightarrow> nat \<Rightarrow> Parser \<Rightarrow> Expression list option outcome" where
  "watch_paths L e 0 p = Inl Fuel"
| "watch_paths L e (Suc n) p =
     (if peek p = COMMA then
        pseq (e P_LOWEST (nextToken L (nextToken L p))) (\<lambda>path p1.
          if is_nil path then ok None p1
          else pseq (watch_paths L e n p1) (\<lambda>paths p2. ok (map_option (\<lambda>ps. path # ps) paths) p2))
      else ok (Some []) p)"

text \<open>
  A body after a colon: an indented block, or one statement on the same line, which must not be
  missing. \<open>empty_check\<close> is the test of procedures for the end of the input.
\<close>

definition colon_body ::
  "parse_lib \<Rightarrow> (Parser \<Rightarrow> Statement option outcome) \<Rightarrow> nat \<Rightarrow> bool \<Rightarrow> Parser \<Rightarrow> BlockStatement option outcome" where
  "colon_body L s n empty_check p =
     (if peek p = NEWLINE then indented_block L s n p None (\<lambda>body p1. ok (Some body) p1)
      else let p1 = nextToken L p in
        if empty_check \<and> cur p1 = EOF then ok None (addError (EmptyBody (psCurrent p1)) p1)
        else pseq (s p1) (\<lambda>st p2.
          case st of None \<Rightarrow> ok None p2 | Some x \<Rightarrow> ok (Some (BlockStatement (psCurrent p2) [x])) p2))"

definition parseWatchExpression ::
  "parse_lib \<Rightarrow> (nat \<Rightarrow> Parser \<Rightarrow> Expression outcome) \<Rightarrow> (Parser \<Rightarrow> Statement option outcome) \<Rightarrow> nat \<Rightarrow> Parser \<Rightarrow> Expression outcome" where
  "parseWatchExpression L e s n p =
     (let isAppend = (peek p = APPEND); p0 = (if isAppend then nextToken L p else p) in
      expectPeek L LPAREN p0 ENil (\<lambda>p1.
      pseq (e P_LOWEST (nextToken L p1)) (\<lambda>firstPath p2.
        if is_nil firstPath then ok ENil p2
        else pseq (watch_paths L e n p2) (\<lambda>rest p3.
          case rest of
            None \<Rightarrow> ok ENil p3
          | Some paths \<Rightarrow>
              expectPeek L RPAREN p3 ENil (\<lambda>p4.
              pseq (if peek p4 = AS then expectPeek L IDENT (nextToken L p4) None (\<lambda>p5. ok (Some (curLit p5)) p5)
                    else ok (Some []) p4) (\<lambda>alias p6.
                case alias of
                  None \<Rightarrow> ok ENil p6
                | Some a \<Rightarrow>
                    if peek p6 = DEFINE then
                      pseq (colon_body L s n False (nextToken L p6)) (\<lambda>body p7.
                        case body of
                          None \<Rightarrow> ok ENil p7
                        | Some b \<Rightarrow> ok (WatchExpression (psCurrent p) (firstPath # paths) isAppend a (Some b)) p7)
                    else ok (WatchExpression (psCurrent p) (firstPath # paths) isAppend a None) p6))))))"

text \<open>Names separated by commas; \<open>None\<close> when a name is missing.\<close>

fun ident_loop :: "parse_lib \<Rightarrow> nat \<Rightarrow> Parser \<Rightarrow> gostring list option outcome" where
  "ident_loop L 0 p = Inl Fuel"
| "ident_loop L (Suc n) p =
     (if peek p = COMMA then
        expectPeek L IDENT (nextToken L p) None (\<lambda>p1.
          pseq (ident_loop L n p1) (\<lambda>names p2. ok (map_option (\<lambda>ns. curLit p1 # ns) names) p2))
      else ok (Some []) p)"

text \<open>What follows the parameters of a procedure.\<close>

definition procedure_rest ::
  "parse_lib \<Rightarrow> (Parser \<Rightarrow> Statement option outcome) \<Rightarrow> nat \<Rightarrow> Parser \<Rightarrow> BlockStatement option outcome" where
  "procedure_rest L s n p =
     expectPeek L RPAREN p None (\<lambda>p1. expectPeek L DEFINE p1 None (\<lambda>p2. colon_body L s n True p2))"

text \<open>The first parameter may be any token, the others must be names.\<close>

definition parseProcedureExpression ::
  "parse_lib \<Rightarrow> (Parser \<Rightarrow> Statement option outcome) \<Rightarrow> nat \<Rightarrow> Parser \<Rightarrow> Expression outcome" where
  "parseProcedureExpression L s n p =
     expectPeek L LPAREN p ENil (\<lambda>p1.
     pseq (if peek p1 \<noteq> RPAREN then
             let p2 = nextToken L p1 in pseq (ident_loop L n p2) (\<lambda>names p3. ok (map_option (\<lambda>ns. curLit p2 # ns) names) p3)
           else ok (Some []) p1) (\<lambda>params p4.
       case params of
         None \<Rightarrow> ok ENil p4
       | Some ps \<Rightarrow>
           pseq (procedure_rest L s n p4) (\<lambda>body p5.
             case body of None \<Rightarrow> ok ENil p5 | Some b \<Rightarrow> ok (ProcedureExpression (psCurrent p) ps (Some b)) p5)))"

definition parseModifierExpression :: "parse_lib \<Rightarrow> (nat \<Rightarrow> Parser \<Rightarrow> Expression outcome) \<Rightarrow> Parser \<Rightarrow> Expression outcome" where
  "parseModifierExpression L e p =
     (if peek p \<in> {TEXT, NUMBER, IDENT, MY, WORLD, LBRACE, LBRACKET} then
        pseq (e P_LOWEST (nextToken L p)) (\<lambda>v p1. ok (ModifierExpression (psCurrent p) (curLit p) v) p1)
      else ok (LiteralExpression (psCurrent p) (LString (curLit p))) p)"

definition parseNewExpression :: "parse_lib \<Rightarrow> (nat \<Rightarrow> Parser \<Rightarrow> Expression outcome) \<Rightarrow> Parser \<Rightarrow> Expression outcome" where
  "parseNewExpression L e p =
     expectPeek L LPAREN p ENil (\<lambda>p1.
     pseq (e P_LOWEST (nextToken L p1)) (\<lambda>template p2.
     expectPeek L RPAREN p2 ENil (\<lambda>p3.
       ok (CallExpression (psCurrent p) (PathExpression (psCurrent p) [str ''new''] []) [template]) p3)))"

section \<open>Infix parse functions\<close>

definition parseBinaryExpression ::
  "parse_lib \<Rightarrow> (nat \<Rightarrow> Parser \<Rightarrow> Expression outcome) \<Rightarrow> Expression \<Rightarrow> Parser \<Rightarrow> Expression outcome" where
  "parseBinaryExpression L e left p =
     (let precedence = currentPrecedence p in
      pseq (e (if cur p = POWER then precedence - 1 else precedence) (nextToken L p)) (\<lambda>right p1.
        ok (BinaryExpression (psCurrent p) left (curLit p) right) p1))"

definition parseCollectionOperation ::
  "parse_lib \<Rightarrow> (nat \<Rightarrow> Parser \<Rightarrow> Expression outcome) \<Rightarrow> nat \<Rightarrow> Expression \<Rightarrow> Parser \<Rightarrow> Expression outcome" where
  "parseCollectionOperation L e n left p =
     (if Literal (psPeek p) \<in> set (map str [''count'', ''remove'', ''combine'', ''append'', ''prepend'']) then
        let p1 = nextToken L p in
        if peek p1 = LPAREN then
          pseq (parseExpressionList L e n RPAREN (nextToken L p1)) (\<lambda>args p2.
            ok (CollectionOperationExpression (psCurrent p1) left (curLit p1) args) p2)
        else ok (CollectionOperationExpression (psCurrent p1) left (curLit p1) []) p1
      else parseBinaryExpression L e left p)"

definition parseCallExpression ::
  "parse_lib \<Rightarrow> (nat \<Rightarrow> Parser \<Rightarrow> Expression outcome) \<Rightarrow> nat \<Rightarrow> Expression \<Rightarrow> Parser \<Rightarrow> Expression outcome" where
  "parseCallExpression L e n left p =
     (if cur p = DOT then
        if peek p = IDENT \<or> peek p = TIME then
          let p1 = nextToken L p in
          (case left of
             PathExpression tok parts dyn \<Rightarrow>
               let path = PathExpression tok (parts @ [curLit p1]) dyn in
               if peek p1 = LPAREN then
                 let p2 = nextToken L p1 in
                 pseq (parseExpressionList L e n RPAREN p2) (\<lambda>args p3. ok (CallExpression (psCurrent p2) path args) p3)
               else ok path p1
           | _ \<Rightarrow>
               if peek p1 = LPAREN then
                 pseq (parseExpressionList L e n RPAREN (nextToken L p1)) (\<lambda>args p3. ok (CallExpression (psCurrent p1) left args) p3)
               else ok (CallExpression (psCurrent p1) left []) p1)
        else ok ENil (peekError IDENT p)
      else if cur p = LPAREN then
        pseq (parseExpressionList L e n RPAREN p) (\<lambda>args p1. ok (CallExpression (psCurrent p) left args) p1)
      else ok left p)"

definition ps_parseFilterExpression :: "parse_lib \<Rightarrow> (nat \<Rightarrow> Parser \<Rightarrow> Expression outcome) \<Rightarrow> Parser \<Rightarrow> Expression outcome" where
  "ps_parseFilterExpression L e p =
     pseq (e P_LOWEST p) (\<lambda>left p1.
       if peek p1 = ASSIGN then
         let p2 = nextToken L p1 in
         pseq (e P_EQUALS (nextToken L p2)) (\<lambda>right p3. ok (BinaryExpression (psCurrent p2) left (str ''='') right) p3)
       else ok left p1)"

definition parseBracketFilterExpression ::
  "parse_lib \<Rightarrow> (nat \<Rightarrow> Parser \<Rightarrow> Expression outcome) \<Rightarrow> nat \<Rightarrow> Expression \<Rightarrow> Parser \<Rightarrow> Expression outcome" where
  "parseBracketFilterExpression L e n left p =
     pseq (ps_parseFilterExpression L e (nextToken L p)) (\<lambda>f p1.
     pseq (comma_loop L (ps_parseFilterExpression L e) n p1) (\<lambda>fs p2.
       if peek p2 \<noteq> RBRACKET then ok ENil (addError (MissingBracket (psPeek p2)) p2)
       else ok (BracketFilterExpression (psCurrent p) left (f # fs)) (nextToken L p2)))"

text \<open>The names of a projection; a token that is not a name is an error.\<close>

fun projection_loop :: "parse_lib \<Rightarrow> nat \<Rightarrow> Parser \<Rightarrow> gostring list option outcome" where
  "projection_loop L 0 p = Inl Fuel"
| "projection_loop L (Suc n) p =
     (if cur p \<noteq> IDENT then ok None (addError (ProjectionField (psCurrent p)) p)
      else if peek p = COMMA then
        pseq (projection_loop L n (nextToken L (nextToken L p))) (\<lambda>names p1. ok (map_option (\<lambda>ns. curLit p # ns) names) p1)
      else ok (Some [curLit p]) p)"

definition parseProjectionExpression :: "parse_lib \<Rightarrow> nat \<Rightarrow> Expression \<Rightarrow> Parser \<Rightarrow> Expression outcome" where
  "parseProjectionExpression L n left p =
     pseq (projection_loop L n (nextToken L p)) (\<lambda>names p1.
       case names of
         None \<Rightarrow> ok ENil p1
       | Some names1 \<Rightarrow> expectPeek L RBRACE p1 ENil (\<lambda>p2. ok (ProjectionExpression (psCurrent p) left names1) p2))"

section \<open>Expressions\<close>

definition prefix_fn ::
  "parse_lib \<Rightarrow> (gostring \<Rightarrow> Expression outcome) \<Rightarrow> (nat \<Rightarrow> Parser \<Rightarrow> Expression outcome) \<Rightarrow> (Parser \<Rightarrow> Statement option outcome) \<Rightarrow>
   nat \<Rightarrow> TokenType \<Rightarrow> (Parser \<Rightarrow> Expression outcome) option" where
  "prefix_fn L sub e s n t =
     (if t = IDENT then Some parseIdentifier
      else if t = MY then Some (parseMyExpression L n)
      else if t = WORLD then Some (parseWorldExpression L n)
      else if t = TEXT then Some parseStringLiteral
      else if t = INTERP_TEXT then Some (parseInterpolatedString sub)
      else if t = NUMBER then Some (parseNumberLiteral L)
      else if t = TIME then Some (parseTimeLiteral L)
      else if t = MONEY then Some parseMoneyLiteral
      else if t = TRUE \<or> t = FALSE then Some parseBooleanLiteral
      else if t = NOTHING then Some parseNothingLiteral
      else if t = UNKNOWN then Some (parseUnknownLiteral L)
      else if t = ANYTHING then Some parseAnythingLiteral
      else if t = PI then Some parsePiLiteral
      else if t = EULER then Some parseEulerLiteral
      else if t = EMPTY then Some parseEmptyLiteral
      else if t = QUOTE then Some parseQuoteLiteral
      else if t = TAB then Some parseTabLiteral
      else if t = NEWLINE_LITERAL then Some parseNewlineLiteral
      else if t = LINK then Some (parseLinkReference L e)
      else if t = MINUS \<or> t = PLUS \<or> t = NOT_KW then Some (parseUnaryExpression L e)
      else if t = QUIETLY then Some (parseQuietlyExpression L e)
      else if t = LPAREN then Some (parseGroupedExpression L e)
      else if t = LBRACE then Some (parseRecordLiteral L sub e n)
      else if t = LBRACKET then Some (parseListLiteral L e n)
      else if t = DEFINE then Some parseDefinitionExpression
      else if t = WATCH then Some (parseWatchExpression L e s n)
      else if t = PROCEDURE then Some (parseProcedureExpression L s n)
      else if t = COPY \<or> t = RESET \<or> t = EXCLUDE \<or> t = CASCADE then Some (parseModifierExpression L e)
      else if t = NEW then Some (parseNewExpression L e)
      else None)"

definition binary_types :: "TokenType list" where
  "binary_types = [OR_KW, AND_KW, EQUAL, ASSIGN, GT, LT, GTE, LTE, CONCAT, PLUS, MINUS, MULTIPLY, DIVIDE, MODULO, POWER]"

definition infix_fn ::
  "parse_lib \<Rightarrow> (nat \<Rightarrow> Parser \<Rightarrow> Expression outcome) \<Rightarrow> nat \<Rightarrow> TokenType \<Rightarrow> (Expression \<Rightarrow> Parser \<Rightarrow> Expression outcome) option" where
  "infix_fn L e n t =
     (if t \<in> set binary_types then Some (parseBinaryExpression L e)
      else if t = RANGE then Some (parseCollectionOperation L e n)
      else if t = DOT \<or> t = LPAREN then Some (parseCallExpression L e n)
      else if t = LBRACKET then Some (parseBracketFilterExpression L e n)
      else if t = LBRACE then Some (parseProjectionExpression L n)
      else None)"

fun infix_loop ::
  "parse_lib \<Rightarrow> (nat \<Rightarrow> Parser \<Rightarrow> Expression outcome) \<Rightarrow> nat \<Rightarrow> nat \<Rightarrow> Expression \<Rightarrow> Parser \<Rightarrow> Expression outcome" where
  "infix_loop L e 0 precedence leftExp p = Inl Fuel"
| "infix_loop L e (Suc n) precedence leftExp p =
     (if peek p \<noteq> NEWLINE \<and> precedence < peekPrecedence p then
        (case infix_fn L e n (peek p) of
           None \<Rightarrow> ok leftExp p
         | Some f \<Rightarrow> pseq (f leftExp (nextToken L p)) (\<lambda>x p1. infix_loop L e n precedence x p1))
      else ok leftExp p)"

definition parseExpression_body ::
  "parse_lib \<Rightarrow> (gostring \<Rightarrow> Expression outcome) \<Rightarrow> (nat \<Rightarrow> Parser \<Rightarrow> Expression outcome) \<Rightarrow> (Parser \<Rightarrow> Statement option outcome) \<Rightarrow>
   nat \<Rightarrow> nat \<Rightarrow> Parser \<Rightarrow> Expression outcome" where
  "parseExpression_body L sub e s n precedence =
     guarded ENil (\<lambda>p.
       case prefix_fn L sub e s n (cur p) of
         None \<Rightarrow> ok ENil (noPrefixParseFnError (cur p) p)
       | Some prefix \<Rightarrow> pseq (prefix p) (\<lambda>leftExp p1. infix_loop L e n precedence leftExp p1))"

end
