(* ===== verification/Mbl_Statements.thy ===== *)
theory Mbl_Statements
  imports Mbl_Parser
begin

text \<open>
  The statements of MBL (\<open>src/internal/mbl/parser/parser.go\<close>): the look-ahead tests that tell
  definitions, assignments, procedures, watchers and scopes apart, one definition per parse
  function, the dispatcher \<open>parseStatement\<close>, \<open>ParseProgram\<close>, and the knot of the recursion. A
  function that returns a pointer type gives \<open>NilPtr\<close> where the code returns nil: the
  dispatcher puts it into an interface, where it is no longer nil. A function that returns the
  interface gives \<open>None\<close>.
\<close>

type_synonym expr_parser = "nat \<Rightarrow> Parser \<Rightarrow> Expression outcome"
type_synonym stmt_parser = "Parser \<Rightarrow> Statement option outcome"
type_synonym text_parser = "gostring \<Rightarrow> Expression outcome"

section \<open>Look-ahead\<close>

definition path_start :: "Parser \<Rightarrow> bool" where
  "path_start p \<longleftrightarrow> cur p = IDENT \<or> cur p = MY \<or> cur p = WORLD"

definition looksLikePathAssignment :: "Parser \<Rightarrow> bool" where
  "looksLikePathAssignment p =
     (if peek p = ASSIGN then True
      else if peek p = DEFINE then True
      else if ContainsPattern (psLexer p) (str '': '') \<and> \<not> ContainsPattern (psLexer p) (str ''procedure'')
              \<and> \<not> ContainsPattern (psLexer p) (str ''watch'') then True
      else HasTopLevelAssignment (psLexer p))"

definition isSimpleAssignment :: "Parser \<Rightarrow> bool" where
  "isSimpleAssignment p =
     (if \<not> path_start p then False
      else if peek p = ASSIGN then True
      else if peek p = DEFINE then \<not> ContainsPattern (psLexer p) (str ''watch'')
      else if peek p = DOT then (cur p = MY \<or> cur p = WORLD) \<and> looksLikePathAssignment p
      else False)"

definition knownFunctions :: "gostring list" where
  "knownFunctions = map str [''len'', ''text'', ''number'', ''add'', ''output'', ''upper'', ''lower'', ''trim'', ''substring'',
     ''find'', ''replace'', ''split'', ''abs'', ''floor'', ''ceil'', ''max'', ''min'', ''round'', ''multiply'', ''process'', ''call'']"

definition isProcedureDefinition :: "Parser \<Rightarrow> bool" where
  "isProcedureDefinition p =
     (if cur p \<noteq> IDENT \<or> peek p \<noteq> LPAREN then False
      else if Column (psCurrent p) \<noteq> 1 then False
      else if curLit p \<in> set knownFunctions then False
      else ContainsPattern (psLexer p) (str ''):''))"

definition isWatchStatement :: "Parser \<Rightarrow> bool" where
  "isWatchStatement p =
     (if cur p \<noteq> IDENT \<or> peek p \<noteq> DEFINE then False else ContainsPattern (psLexer p) (str ''watch''))"

definition isScopeStatement :: "Parser \<Rightarrow> bool" where
  "isScopeStatement p =
     (if \<not> path_start p then False
      else ContainsPattern (psLexer p) (str ''.:'') \<or> ContainsPattern (psLexer p) [0x2E, 10, 0x3A]
           \<or> EndsWithPattern (psLexer p) (str ''.'') \<and> \<not> ContainsPattern (psLexer p) (str ''[''))"

definition isDefinition :: "Parser \<Rightarrow> bool" where
  "isDefinition p =
     (let rhsIsProcedure = ContainsPattern (psLexer p) (str ''procedure''); rhsIsWatch = ContainsPattern (psLexer p) (str ''watch'') in
      if \<not> path_start p then False
      else if peek p = ASSIGN then False
      else if peek p = LPAREN then False
      else if peek p = DEFINE then
        (if rhsIsWatch then False else if rhsIsProcedure then True else \<not> ContainsPattern (psLexer p) (str '': ''))
      else if ContainsPattern (psLexer p) (str '': '') \<and> \<not> HasTopLevelAssignment (psLexer p) then rhsIsProcedure \<or> rhsIsWatch
      else False)"

section \<open>Assignments\<close>

text \<open>Stepping over one optional separator.\<close>

definition skip_peek :: "parse_lib \<Rightarrow> TokenType list \<Rightarrow> Parser \<Rightarrow> Parser" where
  "skip_peek L ts p = (if peek p \<in> set ts then nextToken L p else p)"

definition FormatInt :: "i64 \<Rightarrow> gostring" where
  "FormatInt v = (if v <s 0 then 0x2D # dec (nat (- sint v)) else dec (nat (sint v)))"

type_synonym target = "gostring list \<times> (nat \<times> Expression) list"

text \<open>A literal key is a segment of the path; any other key is kept for the interpreter.\<close>

definition add_key :: "parse_lib \<Rightarrow> target \<Rightarrow> Expression \<Rightarrow> target" where
  "add_key L t key =
     (case t of (parts, dyn) \<Rightarrow>
      (case key of
         LiteralExpression _ (LString v) \<Rightarrow> (parts @ [strip_quotes v], dyn)
       | LiteralExpression _ (LInt64 v) \<Rightarrow> (parts @ [FormatInt v], dyn)
       | LiteralExpression _ (LFloat64 v) \<Rightarrow> (parts @ [plFormatFloat L v], dyn)
       | _ \<Rightarrow> (parts @ [[]], dyn @ [(length parts, key)])))"

definition parsePathTargetSelector :: "parse_lib \<Rightarrow> expr_parser \<Rightarrow> target \<Rightarrow> Parser \<Rightarrow> target option outcome" where
  "parsePathTargetSelector L e t p =
     pseq (e P_LOWEST (nextToken L (nextToken L p))) (\<lambda>key p1.
       if is_nil key then ok None p1 else expectPeek L RBRACKET p1 None (\<lambda>p2. ok (Some (add_key L t key)) p2))"

fun target_loop :: "parse_lib \<Rightarrow> expr_parser \<Rightarrow> nat \<Rightarrow> target \<Rightarrow> Parser \<Rightarrow> target outcome" where
  "target_loop L e 0 t p = Inl Fuel"
| "target_loop L e (Suc n) t p =
     (if peek p = LBRACKET then
        pseq (parsePathTargetSelector L e t p) (\<lambda>r p1. case r of None \<Rightarrow> ok t p1 | Some t1 \<Rightarrow> target_loop L e n t1 p1)
      else if peek p = DOT then
        let p1 = nextToken L (nextToken L p) in
        if cur p1 \<noteq> IDENT \<and> cur p1 \<noteq> TIME then ok t p1 else target_loop L e n (fst t @ [curLit p1], snd t) p1
      else ok t p)"

definition parsePathTarget :: "parse_lib \<Rightarrow> expr_parser \<Rightarrow> nat \<Rightarrow> Parser \<Rightarrow> Expression outcome" where
  "parsePathTarget L e n p =
     pseq (target_loop L e n ([curLit p], []) p) (\<lambda>t p1. ok (PathExpression (psCurrent p) (fst t) (snd t)) p1)"

text \<open>The part of an assignment after the target and its modifier.\<close>

definition assigned_value :: "parse_lib \<Rightarrow> expr_parser \<Rightarrow> Token \<Rightarrow> Expression \<Rightarrow> gostring option \<Rightarrow> Parser \<Rightarrow> Statement outcome" where
  "assigned_value L e tok name modifier p =
     (if peek p \<noteq> ASSIGN then ok (ExpressionStatement tok name) p
      else let p1 = nextToken L (nextToken L p); quiet = (cur p1 = QUIETLY); p2 = (if quiet then nextToken L p1 else p1) in
        pseq (e P_LOWEST p2) (\<lambda>v p3.
          ok (AssignmentStatement tok name v (if quiet then Some (str ''quietly'') else modifier) quiet) (skip_peek L [NEWLINE] p3)))"

definition assignment_modifier :: "gostring \<Rightarrow> gostring option" where
  "assignment_modifier lit =
     map_option (\<lambda>v. if HasPrefix v (str ''reset '') then str ''reset'' else v) (modifier_name lit)"

definition parseAssignmentStatement :: "parse_lib \<Rightarrow> expr_parser \<Rightarrow> nat \<Rightarrow> Parser \<Rightarrow> Statement outcome" where
  "parseAssignmentStatement L e n p =
     pseq (parsePathTarget L e n p) (\<lambda>name p1.
       if peek p1 = DEFINE then
         let p2 = nextToken L p1 in
         if peek p2 \<in> {COPY, LINK, RESET, EXCLUDE, PROTECTED, CASCADE, QUIETLY} then
           let p3 = nextToken L p2 in assigned_value L e (psCurrent p) name (assignment_modifier (curLit p3)) p3
         else if peek p2 \<noteq> NEWLINE then
           pseq (e P_LOWEST (nextToken L p2)) (\<lambda>v p3.
             ok (AssignmentStatement (psCurrent p) name v None False) (skip_peek L [SEMICOLON, NEWLINE] p3))
         else assigned_value L e (psCurrent p) name None p2
       else assigned_value L e (psCurrent p) name None p1)"

fun scope_segments :: "parse_lib \<Rightarrow> nat \<Rightarrow> Parser \<Rightarrow> gostring list outcome" where
  "scope_segments L 0 p = Inl Fuel"
| "scope_segments L (Suc n) p =
     (if peek p = DOT \<and> Literal (psPeek p) \<noteq> [] then
        let p1 = nextToken L p in
        if peek p1 \<noteq> IDENT then ok [] p1
        else let p2 = nextToken L p1 in pseq (scope_segments L n p2) (\<lambda>parts p3. ok (curLit p2 # parts) p3)
      else ok [] p)"

definition parseScopeRelativeExpression :: "parse_lib \<Rightarrow> nat \<Rightarrow> Parser \<Rightarrow> Expression outcome" where
  "parseScopeRelativeExpression L n p =
     (if peek p \<noteq> IDENT then ok ENil (addError (DotIdentifier (psPeek p)) p)
      else let p1 = nextToken L p in
        pseq (scope_segments L n p1) (\<lambda>parts p2. ok (PathExpression (psCurrent p) ([] # curLit p1 # parts) []) p2))"

definition parseScopeRelativeAssignment :: "parse_lib \<Rightarrow> expr_parser \<Rightarrow> nat \<Rightarrow> Parser \<Rightarrow> Statement option outcome" where
  "parseScopeRelativeAssignment L e n p =
     pseq (parseScopeRelativeExpression L n p) (\<lambda>path p1.
       if is_nil path then ok None p1
       else expectPeek L ASSIGN p1 None (\<lambda>p2.
         pseq (e P_LOWEST (nextToken L p2)) (\<lambda>v p3.
           if is_nil v then ok None p3 else ok (Some (AssignmentStatement (psCurrent p) path v None False)) p3)))"

definition parseEmbedDirectiveStatement :: "parse_lib \<Rightarrow> expr_parser \<Rightarrow> Parser \<Rightarrow> Statement outcome" where
  "parseEmbedDirectiveStatement L e p =
     pseq (e P_LOWEST (nextToken L p)) (\<lambda>path p1.
       ok (EmbedDirectiveStatement (psCurrent p) path) (skip_peek L [SEMICOLON, NEWLINE] p1))"

definition parseExpressionStatement :: "parse_lib \<Rightarrow> expr_parser \<Rightarrow> Parser \<Rightarrow> Statement outcome" where
  "parseExpressionStatement L e p =
     pseq (e P_LOWEST p) (\<lambda>x p1. ok (ExpressionStatement (psCurrent p) x) (skip_peek L [NEWLINE] p1))"

definition parseDefinitionStatement :: "parse_lib \<Rightarrow> expr_parser \<Rightarrow> nat \<Rightarrow> Parser \<Rightarrow> Statement option outcome" where
  "parseDefinitionStatement L e n p =
     pseq (parsePathExpression L n p) (\<lambda>(tok, parts) p1.
     expectPeek L DEFINE p1 None (\<lambda>p2.
     pseq (e P_LOWEST (nextToken L p2)) (\<lambda>v p3.
       if is_nil v then ok None p3 else ok (Some (DefinitionStatement (psCurrent p) (PathExpression tok parts []) v)) p3)))"

section \<open>Control flow\<close>

text \<open>The branch of an \<open>if\<close>; \<open>None\<close> when the whole statement is given up.\<close>

definition if_consequence :: "parse_lib \<Rightarrow> stmt_parser \<Rightarrow> nat \<Rightarrow> Parser \<Rightarrow> BlockStatement option option outcome" where
  "if_consequence L s n p =
     (if peek p = NEWLINE then indented_block L s n p None (\<lambda>b p1. ok (Some (Some b)) p1)
      else pseq (s (nextToken L p)) (\<lambda>st p1. ok (Some (map_option (\<lambda>x. BlockStatement (psCurrent p1) [x]) st)) p1))"

abbreviation nil_if :: Statement where "nil_if \<equiv> NilPtr (str ''IfStatement'')"

fun parseIfStatement :: "parse_lib \<Rightarrow> expr_parser \<Rightarrow> stmt_parser \<Rightarrow> nat \<Rightarrow> Parser \<Rightarrow> Statement outcome" where
  "parseIfStatement L e s 0 p = Inl Fuel"
| "parseIfStatement L e s (Suc n) p =
     pseq (e P_LOWEST (nextToken L p)) (\<lambda>condition p1.
       if peek p1 \<noteq> DEFINE then ok nil_if (addError (MissingColon (psPeek p1)) p1)
       else pseq (if_consequence L s n (nextToken L p1)) (\<lambda>branch p2.
         case branch of
           None \<Rightarrow> ok nil_if p2
         | Some consequence \<Rightarrow>
             if peek p2 = ELSE then
               let p3 = nextToken L p2 in
               if peek p3 = IF then
                 pseq (parseIfStatement L e s n (nextToken L p3)) (\<lambda>elif p4.
                   ok (IfStatement (psCurrent p) condition consequence (Some elif)) p4)
               else expectPeek L DEFINE p3 nil_if (\<lambda>p4.
                 indented_block L s n p4 nil_if (\<lambda>b p5.
                   ok (IfStatement (psCurrent p) condition consequence (Some (Block b))) p5))
             else ok (IfStatement (psCurrent p) condition consequence None) p2))"

definition parseQuietlyBlockStatement :: "parse_lib \<Rightarrow> stmt_parser \<Rightarrow> nat \<Rightarrow> Parser \<Rightarrow> Statement option outcome" where
  "parseQuietlyBlockStatement L s n p =
     expectPeek L DEFINE p None (\<lambda>p1.
       indented_block L s n p1 None (\<lambda>b p2. ok (Some (QuietlyBlockStatement (psCurrent p) b)) p2))"

abbreviation nil_while :: Statement where "nil_while \<equiv> NilPtr (str ''WhileStatement'')"

definition parseWhileStatement :: "parse_lib \<Rightarrow> expr_parser \<Rightarrow> stmt_parser \<Rightarrow> nat \<Rightarrow> Parser \<Rightarrow> Statement outcome" where
  "parseWhileStatement L e s n p =
     pseq (e P_LOWEST (nextToken L p)) (\<lambda>condition p1.
     expectPeek L DEFINE p1 nil_while (\<lambda>p2.
       indented_block L s n p2 nil_while (\<lambda>b p3. ok (WhileStatement (psCurrent p) condition b) p3)))"

abbreviation nil_for :: Statement where "nil_for \<equiv> NilPtr (str ''ForStatement'')"

definition parseForStatement :: "parse_lib \<Rightarrow> expr_parser \<Rightarrow> stmt_parser \<Rightarrow> nat \<Rightarrow> Parser \<Rightarrow> Statement outcome" where
  "parseForStatement L e s n p =
     expectPeek L IDENT p nil_for (\<lambda>p1.
     pseq (ident_loop L n p1) (\<lambda>names p2.
       case names of
         None \<Rightarrow> ok nil_for p2
       | Some vars \<Rightarrow>
           expectPeek L IN p2 nil_for (\<lambda>p3.
           pseq (e P_LOWEST (nextToken L p3)) (\<lambda>iterable p4.
           expectPeek L DEFINE p4 nil_for (\<lambda>p5.
             indented_block L s n p5 nil_for (\<lambda>b p6. ok (ForStatement (psCurrent p) (curLit p1 # vars) iterable b) p6))))))"

abbreviation nil_consider :: Statement where "nil_consider \<equiv> NilPtr (str ''ConsiderStatement'')"

type_synonym cases = "(Token \<times> Expression \<times> BlockStatement) list \<times> BlockStatement option"

fun consider_loop :: "parse_lib \<Rightarrow> expr_parser \<Rightarrow> stmt_parser \<Rightarrow> nat \<Rightarrow> cases \<Rightarrow> Parser \<Rightarrow> cases option outcome" where
  "consider_loop L e s 0 cs p = Inl Fuel"
| "consider_loop L e s (Suc n) cs p =
     (if cur p = DEDENT \<or> cur p = EOF then ok (Some cs) p
      else if cur p = IDENT \<and> curLit p = str ''case'' then
        pseq (e P_LOWEST (nextToken L p)) (\<lambda>caseValue p1.
        expectPeek L DEFINE p1 None (\<lambda>p2.
        expectPeek L INDENT p2 None (\<lambda>p3.
        pseq (parseBlockStatement L s n p3) (\<lambda>b p4.
          consider_loop L e s n (fst cs @ [(psCurrent p4, caseValue, b)], snd cs) p4))))
      else if cur p = IDENT \<and> curLit p = str ''default'' then
        expectPeek L DEFINE (nextToken L p) None (\<lambda>p2.
        expectPeek L INDENT p2 None (\<lambda>p3.
        pseq (parseBlockStatement L s n p3) (\<lambda>b p4. consider_loop L e s n (fst cs, Some b) p4)))
      else consider_loop L e s n cs (nextToken L p))"

definition parseConsiderStatement :: "parse_lib \<Rightarrow> expr_parser \<Rightarrow> stmt_parser \<Rightarrow> nat \<Rightarrow> Parser \<Rightarrow> Statement outcome" where
  "parseConsiderStatement L e s n p =
     pseq (e P_LOWEST (nextToken L p)) (\<lambda>v p1.
     expectPeek L DEFINE p1 nil_consider (\<lambda>p2.
     expectPeek L INDENT p2 nil_consider (\<lambda>p3.
     pseq (consider_loop L e s n ([], None) p3) (\<lambda>r p4.
       case r of None \<Rightarrow> ok nil_consider p4 | Some (cs, d) \<Rightarrow> ok (ConsiderStatement (psCurrent p) v cs d) p4))))"

definition parseReturnStatement :: "parse_lib \<Rightarrow> expr_parser \<Rightarrow> Parser \<Rightarrow> Statement outcome" where
  "parseReturnStatement L e p =
     (if peek p = NEWLINE \<or> peek p = EOF then ok (ReturnStatement (psCurrent p) ENil) p
      else pseq (e P_LOWEST (nextToken L p)) (\<lambda>v p1. ok (ReturnStatement (psCurrent p) v) (skip_peek L [NEWLINE] p1)))"

definition parsePassStatement :: "parse_lib \<Rightarrow> Parser \<Rightarrow> Statement outcome" where
  "parsePassStatement L p = ok (PassStatement (psCurrent p)) (skip_peek L [SEMICOLON, NEWLINE] p)"

definition parseBreakStatement :: "parse_lib \<Rightarrow> Parser \<Rightarrow> Statement outcome" where
  "parseBreakStatement L p = ok (BreakStatement (psCurrent p)) (skip_peek L [SEMICOLON, NEWLINE] p)"

text \<open>The \<open>else\<close> clauses; an invalid one ends the statement with the clauses so far.\<close>

fun else_clauses ::
  "parse_lib \<Rightarrow> stmt_parser \<Rightarrow> nat \<Rightarrow> Parser \<Rightarrow> (Token \<times> gostring \<times> BlockStatement option) list outcome" where
  "else_clauses L s 0 p = Inl Fuel"
| "else_clauses L s (Suc n) p =
     (if peek p = ELSE then
        let p1 = nextToken L p in
        if peek p1 = UNKNOWN \<or> peek p1 = IDENT \<and> Literal (psPeek p1) = str ''unknown'' then
          let p2 = nextToken L p1 in
          expectPeek L DEFINE p2 [] (\<lambda>p3.
          pseq (skip_newlines L n p3) (\<lambda>_ p4.
          pseq (if peek p4 = INDENT then pseq (parseBlockStatement L s n (nextToken L p4)) (\<lambda>b p5. ok (Some b) p5)
                else ok None p4) (\<lambda>body p5.
          pseq (else_clauses L s n p5) (\<lambda>cs p6. ok ((psCurrent p1, curLit p2, body) # cs) p6))))
        else ok [] (noPrefixParseFnError (peek p1) p1)
      else ok [] p)"

definition parseCatchStatement :: "parse_lib \<Rightarrow> stmt_parser \<Rightarrow> nat \<Rightarrow> Parser \<Rightarrow> Statement option outcome" where
  "parseCatchStatement L s n p =
     expectPeek L DEFINE p None (\<lambda>p1.
     indented_block L s n p1 None (\<lambda>tryBody p2.
     pseq (else_clauses L s n p2) (\<lambda>cs p3. ok (Some (CatchStatement (psCurrent p) tryBody cs)) p3)))"

text \<open>A path that ends with a dot, and its optional body.\<close>

fun scope_path :: "parse_lib \<Rightarrow> nat \<Rightarrow> gostring \<Rightarrow> Parser \<Rightarrow> gostring outcome" where
  "scope_path L 0 path p = Inl Fuel"
| "scope_path L (Suc n) path p =
     (if cur p = DOT then
        let p1 = nextToken L p; path1 = path @ [dot] in
        if cur p1 = EOF \<or> cur p1 = NEWLINE \<or> cur p1 = SEMICOLON then ok path1 p1
        else if cur p1 = IDENT then scope_path L n (path1 @ curLit p1) (nextToken L p1)
        else ok path1 p1
      else ok path p)"

definition parseScopeStatement :: "parse_lib \<Rightarrow> stmt_parser \<Rightarrow> nat \<Rightarrow> Parser \<Rightarrow> Statement outcome" where
  "parseScopeStatement L s n p =
     pseq (scope_path L n (curLit p) (nextToken L p)) (\<lambda>path p1.
       if cur p1 = DEFINE then
         pseq (skip_newlines L n (nextToken L p1)) (\<lambda>_ p2.
           if peek p2 = INDENT then
             pseq (parseBlockStatement L s n (nextToken L p2)) (\<lambda>b p3. ok (ScopeStatement (psCurrent p) path (Some b)) p3)
           else ok (ScopeStatement (psCurrent p) path None) p2)
       else ok (ScopeStatement (psCurrent p) path None) p1)"

section \<open>Procedures, watchers, instantiation\<close>

abbreviation nil_procedure :: Statement where "nil_procedure \<equiv> NilPtr (str ''ProcedureStatement'')"

text \<open>Parameters are taken from any tokens between commas.\<close>

definition parseProcedureStatement :: "parse_lib \<Rightarrow> stmt_parser \<Rightarrow> nat \<Rightarrow> Parser \<Rightarrow> Statement outcome" where
  "parseProcedureStatement L s n p =
     expectPeek L LPAREN p nil_procedure (\<lambda>p1.
     pseq (if peek p1 \<noteq> RPAREN then
             let p2 = nextToken L p1 in
             pseq (comma_loop L (\<lambda>q. ok (curLit q) q) n p2) (\<lambda>ps p3. ok (curLit p2 # ps) p3)
           else ok [] p1) (\<lambda>params p4.
     expectPeek L RPAREN p4 nil_procedure (\<lambda>p5.
     expectPeek L DEFINE p5 nil_procedure (\<lambda>p6.
       if peek p6 = NEWLINE then
         indented_block L s n p6 nil_procedure (\<lambda>b p7. ok (ProcedureStatement (psCurrent p) (curLit p) params b) p7)
       else pseq (parseSameLineBlock L s n p6) (\<lambda>b p7. ok (ProcedureStatement (psCurrent p) (curLit p) params b) p7)))))"

definition parseTypeFirstProcedureStatement :: "parse_lib \<Rightarrow> stmt_parser \<Rightarrow> nat \<Rightarrow> Parser \<Rightarrow> Statement option outcome" where
  "parseTypeFirstProcedureStatement L s n p =
     expectPeek L IDENT p None (\<lambda>p1.
     expectPeek L LPAREN p1 None (\<lambda>p2.
     pseq (if peek p2 \<noteq> RPAREN then
             expectPeek L IDENT p2 None (\<lambda>p3.
               pseq (ident_loop L n p3) (\<lambda>names p4. ok (map_option (\<lambda>ns. curLit p3 # ns) names) p4))
           else ok (Some []) p2) (\<lambda>params p5.
       case params of
         None \<Rightarrow> ok None p5
       | Some ps \<Rightarrow>
           pseq (procedure_rest L s n p5) (\<lambda>body p6.
             case body of
               None \<Rightarrow> ok None p6
             | Some b \<Rightarrow>
                 ok (Some (DefinitionStatement (psCurrent p) (PathExpression (psCurrent p1) [curLit p1] [])
                       (ProcedureExpression (psCurrent p) ps (Some b)))) p6))))"

definition watch_body ::
  "parse_lib \<Rightarrow> stmt_parser \<Rightarrow> nat \<Rightarrow> (BlockStatement \<Rightarrow> Statement) \<Rightarrow> Parser \<Rightarrow> Statement option outcome" where
  "watch_body L s n stmt p =
     expectPeek L DEFINE p None (\<lambda>p1. indented_block L s n p1 None (\<lambda>b p2. ok (Some (stmt b)) p2))"

definition watched :: "Expression \<Rightarrow> Expression list \<times> Expression list" where
  "watched x = (case x of BracketFilterExpression _ left filters \<Rightarrow> ([left], filters) | _ \<Rightarrow> ([x], []))"

text \<open>A watcher from its \<open>watch\<close> token, or from the end of its name when that comes after the keyword.\<close>

definition watch_rest ::
  "parse_lib \<Rightarrow> expr_parser \<Rightarrow> stmt_parser \<Rightarrow> nat \<Rightarrow> gostring \<Rightarrow> Parser \<Rightarrow> Statement option outcome" where
  "watch_rest L e s n name p =
     (if peek p = APPEND then
        expectPeek L LPAREN (nextToken L p) None (\<lambda>p1.
        pseq (e P_LOWEST (nextToken L p1)) (\<lambda>x p2.
        expectPeek L RPAREN p2 None (\<lambda>p3.
        expectPeek L AS p3 None (\<lambda>p4.
        expectPeek L IDENT p4 None (\<lambda>p5.
          watch_body L s n (WatchStatement (psCurrent p) name True (fst (watched x)) (snd (watched x)) (curLit p5)) p5)))))
      else
        expectPeek L LPAREN p None (\<lambda>p1.
        pseq (e P_LOWEST (nextToken L p1)) (\<lambda>x p2.
        pseq (comma_loop L (e P_LOWEST) n p2) (\<lambda>xs p3.
        expectPeek L RPAREN p3 None (\<lambda>p4.
          watch_body L s n (WatchStatement (psCurrent p) name False (x # xs) [] []) p4)))))"

definition parseWatchStatement :: "parse_lib \<Rightarrow> expr_parser \<Rightarrow> stmt_parser \<Rightarrow> nat \<Rightarrow> Parser \<Rightarrow> Statement option outcome" where
  "parseWatchStatement L e s n p =
     (if cur p = WATCH then
        if peek p \<in> {IDENT, MY, WORLD} then
          pseq (parsePathExpression L n (nextToken L p)) (\<lambda>(tok, parts) p1. watch_rest L e s n (join parts) p1)
        else pseq (parseExpressionStatement L e p) (\<lambda>st p1. ok (Some st) p1)
      else
        expectPeek L DEFINE p None (\<lambda>p1. expectPeek L WATCH p1 None (\<lambda>p2. watch_rest L e s n (curLit p) p2)))"

text \<open>\<open>p.parseRecordLiteral().(*RecordExpression)\<close>: the assertion fails on nil.\<close>

definition inline_record ::
  "parse_lib \<Rightarrow> text_parser \<Rightarrow> expr_parser \<Rightarrow> nat \<Rightarrow> Parser \<Rightarrow> Expression outcome" where
  "inline_record L sub e n p =
     pseq (parseRecordLiteral L sub e n p) (\<lambda>r p1. if is_nil r then Inl Panic else ok r p1)"

fun source_loop ::
  "parse_lib \<Rightarrow> text_parser \<Rightarrow> expr_parser \<Rightarrow> nat \<Rightarrow> Parser \<Rightarrow> (gostring option \<times> Expression option) list outcome" where
  "source_loop L sub e 0 p = Inl Fuel"
| "source_loop L sub e (Suc n) p =
     (if peek p = IDENT \<or> peek p = LBRACE then
        let p1 = nextToken L p in
        pseq (if cur p1 = IDENT then ok (Some (curLit p1), None) p1
              else pseq (inline_record L sub e n p1) (\<lambda>r p2. ok (None, Some r) p2)) (\<lambda>source p2.
          if peek p2 \<noteq> COMMA then ok [source] p2
          else pseq (source_loop L sub e n (nextToken L p2)) (\<lambda>sources p3. ok (source # sources) p3))
      else ok [] p)"

text \<open>The optional modifier of an instantiation, and the parser after it.\<close>

definition new_modifier :: "parse_lib \<Rightarrow> Parser \<Rightarrow> gostring option \<times> Parser" where
  "new_modifier L p =
     (if peek p = DEFINE then
        let p1 = nextToken L p in
        if peek p1 \<in> {COPY, LINK, RESET, EXCLUDE} then let p2 = nextToken L p1 in (modifier_name (curLit p2), p2)
        else (None, p1)
      else (None, p))"

definition parseInstantiationStatement :: "parse_lib \<Rightarrow> text_parser \<Rightarrow> expr_parser \<Rightarrow> nat \<Rightarrow> Parser \<Rightarrow> Statement outcome" where
  "parseInstantiationStatement L sub e n p =
     expectPeek L IDENT p (NilPtr (str ''InstantiationStatement'')) (\<lambda>p1.
       let (modifier, p2) = new_modifier L p1 in
       pseq (source_loop L sub e n p2) (\<lambda>sources p3.
       pseq (if peek p3 = LBRACE then pseq (inline_record L sub e n (nextToken L p3)) (\<lambda>r p4. ok (Some r) p4) else ok None p3)
         (\<lambda>properties p5. ok (InstantiationStatement (psCurrent p) (curLit p1) modifier sources properties) p5)))"

section \<open>Statements\<close>

text \<open>A pointer result as a statement of the interface.\<close>

definition some_statement :: "Statement outcome \<Rightarrow> Statement option outcome" where
  "some_statement r = pseq r (\<lambda>st p. ok (Some st) p)"

definition dispatch ::
  "parse_lib \<Rightarrow> text_parser \<Rightarrow> expr_parser \<Rightarrow> stmt_parser \<Rightarrow> nat \<Rightarrow> Parser \<Rightarrow> Statement option outcome" where
  "dispatch L sub e s n p =
     (if cur p = QUIETLY \<and> peek p = DEFINE then parseQuietlyBlockStatement L s n p
      else if cur p = IF then some_statement (parseIfStatement L e s n p)
      else if cur p = WHILE then some_statement (parseWhileStatement L e s n p)
      else if cur p = FOR then some_statement (parseForStatement L e s n p)
      else if cur p = CONSIDER then some_statement (parseConsiderStatement L e s n p)
      else if cur p = WATCH then parseWatchStatement L e s n p
      else if cur p = PROCEDURE then
        (if peek p = IDENT then parseTypeFirstProcedureStatement L s n p else some_statement (parseExpressionStatement L e p))
      else if cur p = CATCH then parseCatchStatement L s n p
      else if cur p = RETURN then some_statement (parseReturnStatement L e p)
      else if cur p = PASS then some_statement (parsePassStatement L p)
      else if cur p = BREAK then some_statement (parseBreakStatement L p)
      else if cur p = NEW then some_statement (parseInstantiationStatement L sub e n p)
      else if cur p = EMBED \<or> cur p = SPREAD then some_statement (parseEmbedDirectiveStatement L e p)
      else if cur p = DOT then parseScopeRelativeAssignment L e n p
      else if path_start p \<and> isDefinition p then parseDefinitionStatement L e n p
      else if path_start p \<and> isSimpleAssignment p then some_statement (parseAssignmentStatement L e n p)
      else if path_start p \<and> isProcedureDefinition p then some_statement (parseProcedureStatement L s n p)
      else if path_start p \<and> isWatchStatement p then parseWatchStatement L e s n p
      else if path_start p \<and> isScopeStatement p then some_statement (parseScopeStatement L s n p)
      else some_statement (parseExpressionStatement L e p))"

definition parseStatement_body ::
  "parse_lib \<Rightarrow> text_parser \<Rightarrow> expr_parser \<Rightarrow> stmt_parser \<Rightarrow> nat \<Rightarrow> Parser \<Rightarrow> Statement option outcome" where
  "parseStatement_body L sub e s n =
     guarded None (\<lambda>p. pseq (skipComments L n p) (\<lambda>_ p1. dispatch L sub e s n p1))"

section \<open>The recursion\<close>

fun parseExpression :: "parse_lib \<Rightarrow> text_parser \<Rightarrow> nat \<Rightarrow> nat \<Rightarrow> Parser \<Rightarrow> Expression outcome"
  and parseStatement :: "parse_lib \<Rightarrow> text_parser \<Rightarrow> nat \<Rightarrow> Parser \<Rightarrow> Statement option outcome" where
  "parseExpression L sub 0 precedence p = Inl Fuel"
| "parseExpression L sub (Suc k) precedence p =
     parseExpression_body L sub (parseExpression L sub k) (parseStatement L sub k) k precedence p"
| "parseStatement L sub 0 p = Inl Fuel"
| "parseStatement L sub (Suc k) p =
     parseStatement_body L sub (parseExpression L sub k) (parseStatement L sub k) k p"

fun program_loop :: "parse_lib \<Rightarrow> stmt_parser \<Rightarrow> nat \<Rightarrow> Parser \<Rightarrow> Statement list outcome" where
  "program_loop L s 0 p = Inl Fuel"
| "program_loop L s (Suc n) p =
     (if cur p = EOF then ok [] p
      else pseq (skipComments L (Suc n) p) (\<lambda>_ p1.
        if cur p1 = EOF then ok [] p1
        else if cur p1 = NEWLINE then program_loop L s n (nextToken L p1)
        else pseq (s p1) (\<lambda>st p2.
          if hasCriticalError p2 then ok (case st of None \<Rightarrow> [] | Some x \<Rightarrow> [x]) p2
          else pseq (program_loop L s n (if peek p2 = SEMICOLON then nextToken L (nextToken L p2) else nextToken L p2)) (\<lambda>sts p3.
            ok (case st of None \<Rightarrow> sts | Some x \<Rightarrow> x # sts) p3))))"

definition ParseProgram :: "parse_lib \<Rightarrow> text_parser \<Rightarrow> nat \<Rightarrow> Parser \<Rightarrow> Program outcome" where
  "ParseProgram L sub k p =
     pseq (program_loop L (parseStatement L sub k) k p) (\<lambda>sts p1. ok \<lparr>prStatements = sts, prToken = psCurrent p\<rparr> p1)"

text \<open>
  The bound on the nesting of calls for a text, and a parser for texts inside a text up to a nesting
  level, which the length of the text bounds.
\<close>

definition parse_fuel :: "gostring \<Rightarrow> nat" where
  "parse_fuel text = 4 * length text + 3"

primrec parse_text :: "parse_lib \<Rightarrow> nat \<Rightarrow> gostring \<Rightarrow> Expression outcome" where
  "parse_text L 0 text = Inl Fuel"
| "parse_text L (Suc d) text =
     parseExpression L (parse_text L d) (parse_fuel text) P_LOWEST (NewParser L (New text))"

definition parse_program :: "parse_lib \<Rightarrow> gostring \<Rightarrow> Program outcome" where
  "parse_program L text = ParseProgram L (parse_text L (length text)) (parse_fuel text) (NewParser L (New text))"

end
