(* ===== verification/Mbl_Parser_Ends.thy ===== *)
theory Mbl_Parser_Ends
  imports Mbl_Statements Mbl_Lexer_Text
begin

text \<open>
  The parser ends. \<open>rem\<close> counts the tokens before the end of the input, the current one included;
  every parse function leaves at most as many as it found, a nested call starts with fewer, and no
  loop runs longer than there are tokens. The locale \<open>parsers\<close> states this of the expression and
  the statement parser that the parse functions call, and proves it of every parse function.
\<close>

section \<open>The tokens ahead\<close>

definition tok_at :: "parse_lib \<Rightarrow> Parser \<Rightarrow> nat \<Rightarrow> Token" where
  "tok_at L p k = psCurrent ((nextToken L ^^ k) p)"

text \<open>Tokens whose text is parsed again.\<close>

definition inner_types :: "TokenType set" where
  "inner_types = {INTERP_TEXT, COPY, LINK, RESET, EXCLUDE}"

definition stream_ok :: "parse_lib \<Rightarrow> nat \<Rightarrow> Parser \<Rightarrow> bool" where
  "stream_ok L T p \<longleftrightarrow> (\<exists>n. \<forall>k. Type (tok_at L p k) = EOF \<longleftrightarrow> n \<le> k)
     \<and> (\<forall>k. Type (tok_at L p k) \<in> inner_types \<longrightarrow> length (Literal (tok_at L p k)) \<le> T)"

definition rem :: "parse_lib \<Rightarrow> Parser \<Rightarrow> nat" where
  "rem L p = (LEAST n. Type (tok_at L p n) = EOF)"

lemma tok_at_0 [simp]: "tok_at L p 0 = psCurrent p"
  by (simp add: tok_at_def)

lemma tok_at_next [simp]: "tok_at L (nextToken L p) k = tok_at L p (Suc k)"
  by (simp add: tok_at_def funpow_swap1)

lemma nextToken_current [simp]: "psCurrent (nextToken L p) = psPeek p"
  by (simp add: nextToken_def split_def Let_def)

lemma tok_at_1: "tok_at L p (Suc 0) = psPeek p"
  using tok_at_next [of L p 0] by simp

lemma rem_eq: "\<forall>k. Type (tok_at L p k) = EOF \<longleftrightarrow> n \<le> k \<Longrightarrow> rem L p = n"
  unfolding rem_def by (rule Least_equality) auto

lemma rem_iff: "stream_ok L T p \<Longrightarrow> Type (tok_at L p k) = EOF \<longleftrightarrow> rem L p \<le> k"
  using rem_eq [of L p] unfolding stream_ok_def by metis

lemma stream_ok_next [simp]: "stream_ok L T p \<Longrightarrow> stream_ok L T (nextToken L p)"
  unfolding stream_ok_def tok_at_next by (metis Suc_le_mono not0_implies_Suc le0)

lemma rem_next: "stream_ok L T p \<Longrightarrow> rem L (nextToken L p) = rem L p - 1"
  by (rule rem_eq) (auto simp: rem_iff simp del: One_nat_def)

lemma rem_cur: "stream_ok L T p \<Longrightarrow> cur p = EOF \<longleftrightarrow> rem L p = 0"
  using rem_iff [of L T p 0] by simp

lemma rem_peek: "stream_ok L T p \<Longrightarrow> peek p = EOF \<longleftrightarrow> rem L p \<le> 1"
  using rem_iff [of L T p "Suc 0"] by (simp add: tok_at_1)

lemma inner_length:
  assumes "stream_ok L T p"
  shows "cur p \<in> inner_types \<Longrightarrow> length (curLit p) \<le> T"
  using assms unfolding stream_ok_def by (metis tok_at_0)

lemma peek_rem: "peek p = t \<Longrightarrow> stream_ok L T p \<Longrightarrow> t \<noteq> EOF \<Longrightarrow> 2 \<le> rem L p"
  using rem_peek [of L T p] by auto

lemma cur_rem: "cur p \<noteq> EOF \<Longrightarrow> stream_ok L T p \<Longrightarrow> 1 \<le> rem L p"
  using rem_cur [of L T p] by auto

text \<open>Errors and counters do not touch the tokens.\<close>

lemma nextToken_upd:
  "nextToken L (p\<lparr>psErrors := x\<rparr>) = (nextToken L p)\<lparr>psErrors := x\<rparr>"
  "nextToken L (p\<lparr>psDepth := d\<rparr>) = (nextToken L p)\<lparr>psDepth := d\<rparr>"
  "nextToken L (p\<lparr>psNodes := d\<rparr>) = (nextToken L p)\<lparr>psNodes := d\<rparr>"
  by (simp_all add: nextToken_def split_def Let_def)

lemma tok_at_upd [simp]:
  "tok_at L (p\<lparr>psErrors := x\<rparr>) = tok_at L p" "tok_at L (p\<lparr>psDepth := d\<rparr>) = tok_at L p"
  "tok_at L (p\<lparr>psNodes := d\<rparr>) = tok_at L p"
proof -
  have "(nextToken L ^^ k) (p\<lparr>psErrors := x\<rparr>) = ((nextToken L ^^ k) p)\<lparr>psErrors := x\<rparr>"
    "(nextToken L ^^ k) (p\<lparr>psDepth := d\<rparr>) = ((nextToken L ^^ k) p)\<lparr>psDepth := d\<rparr>"
    "(nextToken L ^^ k) (p\<lparr>psNodes := d\<rparr>) = ((nextToken L ^^ k) p)\<lparr>psNodes := d\<rparr>" for k
    by (induction k) (simp_all add: nextToken_upd)
  then show "tok_at L (p\<lparr>psErrors := x\<rparr>) = tok_at L p" "tok_at L (p\<lparr>psDepth := d\<rparr>) = tok_at L p"
    "tok_at L (p\<lparr>psNodes := d\<rparr>) = tok_at L p"
    by (simp_all add: tok_at_def fun_eq_iff)
qed

lemma addError_tokens [simp]:
  "tok_at L (addError i p) = tok_at L p" "psCurrent (addError i p) = psCurrent p" "psPeek (addError i p) = psPeek p"
  by (simp_all add: addError_def)

lemma stream_ok_tokens: "tok_at L p = tok_at L q \<Longrightarrow> stream_ok L T p = stream_ok L T q \<and> rem L p = rem L q"
  by (simp add: stream_ok_def rem_def)

lemma stream_upd [simp]:
  "stream_ok L T (p\<lparr>psDepth := d\<rparr>) = stream_ok L T p" "rem L (p\<lparr>psDepth := d\<rparr>) = rem L p"
  "stream_ok L T (p\<lparr>psNodes := d\<rparr>) = stream_ok L T p" "rem L (p\<lparr>psNodes := d\<rparr>) = rem L p"
  "stream_ok L T (addError i p) = stream_ok L T p" "rem L (addError i p) = rem L p"
  using stream_ok_tokens [of L p "p\<lparr>psDepth := d\<rparr>"] stream_ok_tokens [of L p "p\<lparr>psNodes := d\<rparr>"]
    stream_ok_tokens [of L p "addError i p"] by simp_all

lemma peekError_tokens [simp]:
  "stream_ok L T (peekError t p) = stream_ok L T p" "rem L (peekError t p) = rem L p"
  "stream_ok L T (noPrefixParseFnError t p) = stream_ok L T p" "rem L (noPrefixParseFnError t p) = rem L p"
  by (simp_all add: peekError_def noPrefixParseFnError_def)

section \<open>Good outcomes\<close>

definition good :: "parse_lib \<Rightarrow> nat \<Rightarrow> nat \<Rightarrow> 'a outcome \<Rightarrow> bool" where
  "good L T B r \<longleftrightarrow> (case r of Inl stop \<Rightarrow> stop \<noteq> Fuel | Inr (x, q) \<Rightarrow> stream_ok L T q \<and> rem L q \<le> B)"

lemma good_ok [simp]: "good L T B (ok x p) \<longleftrightarrow> stream_ok L T p \<and> rem L p \<le> B"
  by (simp add: good_def ok_def)

lemma good_cases [simp]:
  "good L T B (Inl stop) \<longleftrightarrow> stop \<noteq> Fuel" "good L T B (Inr (x, q)) \<longleftrightarrow> stream_ok L T q \<and> rem L q \<le> B"
  by (simp_all add: good_def)

lemma pseq_ok [simp]: "pseq (ok x p) f = f x p"
  by (simp add: pseq_def ok_def)

lemma pseq_assoc [simp]: "pseq (pseq r f) g = pseq r (\<lambda>x p. pseq (f x p) g)"
  by (cases r) (auto simp: pseq_def)

lemma good_seq:
  "good L T A r \<Longrightarrow> (\<And>x q. stream_ok L T q \<Longrightarrow> rem L q \<le> A \<Longrightarrow> good L T B (f x q)) \<Longrightarrow> good L T B (pseq r f)"
  by (cases r) (auto simp: pseq_def)

lemma good_mono: "good L T A r \<Longrightarrow> A \<le> B \<Longrightarrow> good L T B r"
  by (cases r) auto

lemma good_expectPeek:
  assumes "stream_ok L T p" "rem L p \<le> B" "peek p = t \<Longrightarrow> good L T B (rest (nextToken L p))"
  shows "good L T B (expectPeek L t p x rest)"
  using assms by (simp add: expectPeek_def peekError_def)

lemma good_seq_expectPeek:
  assumes "good L T B (f x (peekError t p))" "peek p = t \<Longrightarrow> good L T B (pseq (rest (nextToken L p)) f)"
  shows "good L T B (pseq (expectPeek L t p x rest) f)"
  using assms by (simp add: expectPeek_def)

lemma good_guarded:
  assumes "stream_ok L T p"
    and "\<And>q. stream_ok L T q \<Longrightarrow> rem L q = rem L p \<Longrightarrow> psCurrent q = psCurrent p \<Longrightarrow> good L T (rem L p) (body q)"
  shows "good L T (rem L p) (guarded x body p)"
  unfolding guarded_def incrementRecursionDepth_def incrementNodeCount_def decrementRecursionDepth_def
  using assms by (auto simp: Let_def addError_def [symmetric] intro!: good_seq [OF assms(2)])

section \<open>Every parse function ends\<close>

named_theorems good_rules

declare good_expectPeek [good_rules] good_seq_expectPeek [good_rules]

locale parsers =
  fixes L :: parse_lib and T S n :: nat and sub :: text_parser and e :: expr_parser and s :: stmt_parser
  assumes sub_returns: "length text < T \<Longrightarrow> sub text \<noteq> Inl Fuel"
    and e_good: "stream_ok L T p \<Longrightarrow> rem L p \<le> S \<Longrightarrow> good L T (rem L p) (e prec p)"
    and s_good: "stream_ok L T p \<Longrightarrow> rem L p \<le> S \<Longrightarrow> good L T (rem L p) (s p)"
    and rounds: "S + 1 < n"
begin

declare rem_next [of L T, simp]

lemmas e_seq [good_rules] = good_seq [OF e_good]

lemmas s_seq [good_rules] = good_seq [OF s_good]

lemmas peek_rem' = peek_rem [of _ _ L T]

text \<open>A loop over tokens: one more round needs fewer tokens.\<close>

lemma skipComments_good: "stream_ok L T p \<Longrightarrow> rem L p < m \<Longrightarrow> good L T (rem L p) (skipComments L m p)"
proof (induction m arbitrary: p)
  case (Suc m)
  show ?case
    using Suc.prems rem_cur [OF Suc.prems(1)] by (auto intro!: good_mono [OF Suc.IH])
qed simp

lemma skip_newlines_good: "stream_ok L T p \<Longrightarrow> rem L p < m \<Longrightarrow> good L T (rem L p) (skip_newlines L m p)"
proof (induction m arbitrary: p)
  case (Suc m)
  show ?case
    using Suc.prems rem_peek [OF Suc.prems(1)] by (auto intro!: good_mono [OF Suc.IH])
qed simp

lemma path_segments_good: "stream_ok L T p \<Longrightarrow> rem L p < m \<Longrightarrow> good L T (rem L p) (path_segments L allowed m p)"
proof (induction m arbitrary: p)
  case (Suc m)
  show ?case
    using Suc.prems rem_peek [OF Suc.prems(1)] by (auto simp: Let_def intro!: good_seq [OF Suc.IH])
qed simp

lemma comma_loop_good:
  assumes "\<And>q. stream_ok L T q \<Longrightarrow> rem L q \<le> S \<Longrightarrow> good L T (rem L q) (f q)"
  shows "stream_ok L T p \<Longrightarrow> rem L p \<le> S + 1 \<Longrightarrow> rem L p < m \<Longrightarrow> good L T (rem L p) (comma_loop L f m p)"
proof (induction m arbitrary: p)
  case (Suc m)
  show ?case
    using Suc.prems rem_peek [OF Suc.prems(1)] by (auto intro!: good_seq [OF assms] good_seq [OF Suc.IH])
qed simp

declare skipComments.simps(2) [simp del] skip_newlines.simps(2) [simp del] path_segments.simps(2) [simp del]
  comma_loop.simps(2) [simp del]

lemmas loop_seqs [good_rules] = good_seq [OF skipComments_good] good_seq [OF skip_newlines_good]
  good_seq [OF path_segments_good]

lemmas comma_exprs [good_rules] = good_seq [OF comma_loop_good [OF e_good]]

lemma parseExpressionList_good:
  "stream_ok L T p \<Longrightarrow> rem L p \<le> S + 1 \<Longrightarrow> rem L p < m \<Longrightarrow> good L T (rem L p) (parseExpressionList L e m close p)"
  unfolding parseExpressionList_def by (auto intro!: good_rules)

lemma parsePathExpression_good:
  "stream_ok L T p \<Longrightarrow> rem L p < m \<Longrightarrow> good L T (rem L p) (parsePathExpression L m p)"
  unfolding parsePathExpression_def by (auto intro!: good_rules)

lemmas list_seqs [good_rules] = good_seq [OF parseExpressionList_good] good_seq [OF parsePathExpression_good]

text \<open>Blocks.\<close>

lemma block_loop_good:
  "stream_ok L T p \<Longrightarrow> rem L p \<le> S \<Longrightarrow> rem L p < m \<Longrightarrow> good L T (rem L p) (block_loop L s m p)"
proof (induction m arbitrary: p)
  case (Suc m)
  show ?case
    using Suc.prems rem_cur [OF Suc.prems(1)]
    by (auto intro!: good_rules good_seq [OF Suc.IH] good_mono [OF Suc.IH] split: option.split)
qed simp

lemma same_line_loop_good:
  "stream_ok L T p \<Longrightarrow> rem L p \<le> S \<Longrightarrow> rem L p < m \<Longrightarrow> good L T (rem L p) (same_line_loop L s m p)"
proof (induction m arbitrary: p)
  case (Suc m)
  show ?case
    using Suc.prems rem_cur [OF Suc.prems(1)]
    by (auto intro!: good_rules good_seq [OF Suc.IH] good_mono [OF Suc.IH] split: option.split)
qed simp

lemma blocks_good:
  assumes "stream_ok L T p" "rem L p \<le> S + 1" "rem L p < m"
  shows "good L T (rem L p) (parseBlockStatement L s m p)" "good L T (rem L p) (parseSameLineBlock L s m p)"
  unfolding parseBlockStatement_def parseSameLineBlock_def
  using assms by (auto intro!: good_seq [OF block_loop_good] good_seq [OF same_line_loop_good])

lemmas block_seqs [good_rules] = good_seq [OF blocks_good(1)] good_seq [OF blocks_good(2)]

lemma indented_block_good [good_rules]:
  assumes "stream_ok L T p" "rem L p \<le> S + 1" "rem L p < m" "rem L p \<le> B"
    and "\<And>b q. stream_ok L T q \<Longrightarrow> rem L q \<le> rem L p \<Longrightarrow> good L T B (rest b q)"
  shows "good L T B (indented_block L s m p x rest)"
  unfolding indented_block_def using assms by (auto intro!: good_rules)

lemma colon_body_good:
  "stream_ok L T p \<Longrightarrow> rem L p \<le> S + 1 \<Longrightarrow> rem L p < m \<Longrightarrow> good L T (rem L p) (colon_body L s m b p)"
  unfolding colon_body_def by (auto simp: Let_def intro!: good_rules split: option.split)

lemmas colon_body_seq [good_rules] = good_seq [OF colon_body_good]

subsection \<open>Expressions\<close>

lemma path_prefixes_good:
  assumes "stream_ok L T p" "rem L p < m"
  shows "good L T (rem L p) (parseMyExpression L m p)" "good L T (rem L p) (parseWorldExpression L m p)"
  unfolding parseMyExpression_def parseWorldExpression_def using assms by (auto intro!: good_rules)

lemma literals_good:
  assumes "stream_ok L T p"
  shows "good L T (rem L p) (parseIdentifier p)" "good L T (rem L p) (parseStringLiteral p)"
    "good L T (rem L p) (parseNumberLiteral L p)" "good L T (rem L p) (parseTimeLiteral L p)"
    "good L T (rem L p) (parseMoneyLiteral p)" "good L T (rem L p) (parseBooleanLiteral p)"
    "good L T (rem L p) (parseNothingLiteral p)" "good L T (rem L p) (parseUnknownLiteral L p)"
    "good L T (rem L p) (parseAnythingLiteral p)" "good L T (rem L p) (parsePiLiteral p)"
    "good L T (rem L p) (parseEulerLiteral p)" "good L T (rem L p) (parseEmptyLiteral p)"
    "good L T (rem L p) (parseQuoteLiteral p)" "good L T (rem L p) (parseTabLiteral p)"
    "good L T (rem L p) (parseNewlineLiteral p)" "good L T (rem L p) (parseDefinitionExpression p)"
  using assms
  by (auto simp: parseIdentifier_def parseStringLiteral_def parseNumberLiteral_def parseTimeLiteral_def Let_def
      parseMoneyLiteral_def parseBooleanLiteral_def parseNothingLiteral_def parseUnknownLiteral_def
      parseAnythingLiteral_def parsePiLiteral_def parseEulerLiteral_def parseEmptyLiteral_def
      parseQuoteLiteral_def parseTabLiteral_def parseNewlineLiteral_def parseDefinitionExpression_def
      split: option.split)

lemma operators_good:
  assumes "stream_ok L T p" "rem L p \<le> S + 1"
  shows "good L T (rem L p) (parseLinkReference L e p)" "good L T (rem L p) (parseUnaryExpression L e p)"
    "good L T (rem L p) (parseQuietlyExpression L e p)" "good L T (rem L p) (parseGroupedExpression L e p)"
    "good L T (rem L p) (parseModifierExpression L e p)" "good L T (rem L p) (parseNewExpression L e p)"
    "good L T (rem L p) (parseBinaryExpression L e left p)"
  unfolding parseLinkReference_def parseUnaryExpression_def parseQuietlyExpression_def parseGroupedExpression_def
    parseModifierExpression_def parseNewExpression_def parseBinaryExpression_def Let_def
  using assms by (auto intro!: good_rules)

text \<open>Texts inside a text are shorter than it.\<close>

lemma UnquoteText_shorter: "UnquoteText lit = (body, True) \<Longrightarrow> length body \<le> length lit"
proof -
  have "unquote_sigil lit k = Some v \<Longrightarrow> length v \<le> length lit" for k v
    by (induction k) (auto simp: substr_def split: if_splits)
  then show "UnquoteText lit = (body, True) \<Longrightarrow> length body \<le> length lit"
    by (auto simp: UnquoteText_def Let_def substr_def split: if_splits option.splits)
qed

lemma TrimSpace_shorter: "length (TrimSpace v) \<le> length v"
  by (auto simp: TrimSpace_def Let_def split: list.split)

lemma modifier_name_shorter: "modifier_name lit = Some v \<Longrightarrow> length v < length lit"
  by (auto simp: modifier_name_def split: if_splits)

lemma parseInterpolationPath_good:
  "stream_ok L T p \<Longrightarrow> length source < T \<Longrightarrow> good L T (rem L p) (parseInterpolationPath sub source tok p)"
  unfolding parseInterpolationPath_def using sub_returns [of source] by (auto split: sum.split prod.split Expression.split)

lemma interpolate_good:
  "stream_ok L T p \<Longrightarrow> length body \<le> T \<Longrightarrow> good L T (rem L p) (interpolate sub tok body lit parts p)"
proof (induction "length body" arbitrary: body lit parts p rule: less_induct)
  case less
  show ?case
  proof (cases body)
    case (Cons b rest)
    let ?inner = "takeWhile (\<lambda>c. c \<noteq> close_brace) rest"
    have "length ?inner \<le> length rest" by (rule length_takeWhile_le)
    then have "length (TrimSpace ?inner) < T" using TrimSpace_shorter [of ?inner] less.prems Cons by simp
    then show ?thesis
      using less.prems Cons
      by (auto simp: Let_def intro!: good_seq [OF parseInterpolationPath_good] good_mono [OF less.hyps])
  qed (use less.prems in simp)
qed

lemma parseInterpolatedString_good:
  assumes "stream_ok L T p" "cur p = INTERP_TEXT"
  shows "good L T (rem L p) (parseInterpolatedString sub p)"
proof -
  have "length body \<le> T" if "UnquoteText (curLit p) = (body, True)" for body
    using UnquoteText_shorter [OF that] inner_length [OF assms(1)] assms(2) by (simp add: inner_types_def)
  then show ?thesis
    unfolding parseInterpolatedString_def Let_def
    using assms by (auto intro!: good_seq [OF interpolate_good] split: prod.split bool.split)
qed

lemma parseResetExpression_returns: "length v < T \<Longrightarrow> parseResetExpression sub v \<noteq> Inl Fuel"
  unfolding parseResetExpression_def using sub_returns [of v] by (auto split: sum.split prod.split)

lemma field_modifier_returns: "length lit \<le> T \<Longrightarrow> snd (field_modifier sub lit) \<noteq> Inl Fuel"
proof -
  have "length (TrimSpace (drop 6 v)) < T" if "modifier_name lit = Some v" "length lit \<le> T" for v
    using TrimSpace_shorter [of "drop 6 v"] modifier_name_shorter [OF that(1)] that(2) by simp
  then show "length lit \<le> T \<Longrightarrow> snd (field_modifier sub lit) \<noteq> Inl Fuel"
    using parseResetExpression_returns by (auto simp: field_modifier_def split: option.split)
qed

lemma parseRecordField_good:
  assumes "stream_ok L T p" "rem L p \<le> S"
  shows "good L T (rem L p) (parseRecordField L sub e p)"
proof -
  have "snd (field_modifier sub (Literal (psPeek q))) \<noteq> Inl Fuel"
    if "stream_ok L T q" "peek q \<in> {COPY, LINK, RESET, EXCLUDE}" for q
    using inner_length [OF stream_ok_next [OF that(1)]] that(2)
    by (intro field_modifier_returns) (auto simp: inner_types_def)
  then show ?thesis
    unfolding parseRecordField_def Let_def split_def
    using assms by (auto intro!: good_rules split: sum.split)
qed

lemma parseRecordLiteral_good:
  "stream_ok L T p \<Longrightarrow> rem L p \<le> S + 1 \<Longrightarrow> rem L p < m \<Longrightarrow> good L T (rem L p) (parseRecordLiteral L sub e m p)"
  unfolding parseRecordLiteral_def
  by (auto intro!: good_rules good_seq [OF parseRecordField_good] good_seq [OF comma_loop_good [OF parseRecordField_good]])

lemma parseListLiteral_good:
  "stream_ok L T p \<Longrightarrow> rem L p \<le> S + 1 \<Longrightarrow> rem L p < m \<Longrightarrow> good L T (rem L p) (parseListLiteral L e m p)"
  unfolding parseListLiteral_def by (auto intro!: good_rules)

lemma watch_paths_good:
  "stream_ok L T p \<Longrightarrow> rem L p \<le> S + 1 \<Longrightarrow> rem L p < m \<Longrightarrow> good L T (rem L p) (watch_paths L e m p)"
proof (induction m arbitrary: p)
  case (Suc m)
  show ?case
    using Suc.prems rem_peek [OF Suc.prems(1)] by (auto intro!: good_rules good_seq [OF Suc.IH])
qed simp

lemma ident_loop_good: "stream_ok L T p \<Longrightarrow> rem L p < m \<Longrightarrow> good L T (rem L p) (ident_loop L m p)"
proof (induction m arbitrary: p)
  case (Suc m)
  show ?case
    using Suc.prems rem_peek [OF Suc.prems(1)] by (auto intro!: good_rules good_seq [OF Suc.IH])
qed simp

lemma projection_loop_good: "stream_ok L T p \<Longrightarrow> rem L p < m \<Longrightarrow> good L T (rem L p) (projection_loop L m p)"
proof (induction m arbitrary: p)
  case (Suc m)
  show ?case
    using Suc.prems rem_peek [OF Suc.prems(1)] by (auto intro!: good_rules good_seq [OF Suc.IH])
qed simp

declare watch_paths.simps(2) [simp del] ident_loop.simps(2) [simp del] projection_loop.simps(2) [simp del]

lemmas name_seqs [good_rules] = good_seq [OF watch_paths_good] good_seq [OF ident_loop_good] good_seq [OF projection_loop_good]

lemma procedure_rest_good:
  "stream_ok L T p \<Longrightarrow> rem L p \<le> S + 1 \<Longrightarrow> rem L p < m \<Longrightarrow> good L T (rem L p) (procedure_rest L s m p)"
  unfolding procedure_rest_def by (auto intro!: good_rules good_mono [OF colon_body_good])

lemmas procedure_rest_seq [good_rules] = good_seq [OF procedure_rest_good]

lemma procedures_good:
  assumes "stream_ok L T p" "rem L p \<le> S + 1" "rem L p < m"
  shows "good L T (rem L p) (parseProcedureExpression L s m p)" "good L T (rem L p) (parseWatchExpression L e s m p)"
  unfolding parseProcedureExpression_def parseWatchExpression_def Let_def
  using assms by (auto intro!: good_rules split: option.split) linarith+

lemma ps_parseFilterExpression_good:
  "stream_ok L T p \<Longrightarrow> rem L p \<le> S \<Longrightarrow> good L T (rem L p) (ps_parseFilterExpression L e p)"
  unfolding ps_parseFilterExpression_def Let_def by (auto intro!: good_rules)

lemma infix_fns_good:
  assumes "stream_ok L T p" "rem L p \<le> S + 1" "rem L p < m"
  shows "good L T (rem L p) (parseCollectionOperation L e m left p)" "good L T (rem L p) (parseCallExpression L e m left p)"
    "good L T (rem L p) (parseBracketFilterExpression L e m left p)" "good L T (rem L p) (parseProjectionExpression L m left p)"
  unfolding parseCollectionOperation_def parseCallExpression_def parseBracketFilterExpression_def parseProjectionExpression_def
    Let_def
  using assms
  by (auto intro!: good_rules operators_good good_seq [OF ps_parseFilterExpression_good]
      good_seq [OF comma_loop_good [OF ps_parseFilterExpression_good]] split: option.split Expression.split)

lemma infix_fn_type: "infix_fn L e m t = Some f \<Longrightarrow> t \<noteq> EOF"
  by (auto simp: infix_fn_def binary_types_def)

lemma infix_fn_good:
  assumes "infix_fn L e m t = Some f" "stream_ok L T p" "rem L p \<le> S + 1" "rem L p < m"
  shows "good L T (rem L p) (f left p)"
  using assms infix_fns_good [of p m] operators_good(7) [of p]
  by (auto simp: infix_fn_def binary_types_def split: if_splits)

lemma infix_loop_good:
  "stream_ok L T p \<Longrightarrow> rem L p \<le> S + 1 \<Longrightarrow> rem L p < m \<Longrightarrow> good L T (rem L p) (infix_loop L e m prec left p)"
proof (induction m arbitrary: p left)
  case (Suc m)
  have "good L T (rem L p) (pseq (f left (nextToken L p)) (infix_loop L e m prec))"
    if f: "infix_fn L e m (peek p) = Some f" for f
  proof (rule good_seq)
    have "2 \<le> rem L p" using infix_fn_type [OF f] rem_peek [OF Suc.prems(1)] by simp
    then show "good L T (rem L p - 1) (f left (nextToken L p))"
      and "\<And>x q. stream_ok L T q \<Longrightarrow> rem L q \<le> rem L p - 1 \<Longrightarrow> good L T (rem L p) (infix_loop L e m prec x q)"
      using infix_fn_good [OF f, of "nextToken L p" left] Suc.prems by (auto intro!: good_mono [OF Suc.IH])
  qed
  then show ?case using Suc.prems by (auto split: option.split)
qed simp

lemma prefix_fn_good:
  assumes "prefix_fn L sub e s n (cur p) = Some f" "stream_ok L T p" "rem L p \<le> S + 1"
  shows "good L T (rem L p) (f p)"
  using assms rounds literals_good [of p] path_prefixes_good [of p n] operators_good [of p] parseInterpolatedString_good [of p]
    parseRecordLiteral_good [of p n] parseListLiteral_good [of p n] procedures_good [of p n]
  by (auto simp: prefix_fn_def split: if_splits)

lemma parseExpression_body_good:
  assumes "stream_ok L T p" "rem L p \<le> S + 1"
  shows "good L T (rem L p) (parseExpression_body L sub e s n prec p)"
  unfolding parseExpression_body_def
proof (rule good_guarded [OF assms(1)])
  fix q assume q: "stream_ok L T q" "rem L q = rem L p"
  have "good L T (rem L q) (pseq (f q) (infix_loop L e n prec))" if "prefix_fn L sub e s n (cur q) = Some f" for f
    using q assms rounds by (intro good_seq [OF prefix_fn_good [OF that]]) (auto intro!: good_mono [OF infix_loop_good])
  then show "good L T (rem L p) (case prefix_fn L sub e s n (cur q) of None \<Rightarrow> ok ENil (noPrefixParseFnError (cur q) q)
      | Some prefix \<Rightarrow> pseq (prefix q) (infix_loop L e n prec))"
    using q by (auto split: option.split)
qed

end

end
