(* ===== verification/Mbl_Statements_End.thy ===== *)
theory Mbl_Statements_End
  imports Mbl_Parser_Ends
begin

text \<open>
  Statements end too: the locale \<open>statements\<close> adds that the expression parser may be called at the
  start of a statement, and proves of every statement function what \<open>Mbl_Parser_Ends\<close> proves of the
  expressions. The knot is tied by induction on the bound for nested calls: \<open>2 * rem + 1\<close>
  are enough for an expression and \<open>2 * rem + 2\<close> for a statement.
\<close>

locale statements = parsers +
  assumes e_here: "stream_ok L T p \<Longrightarrow> rem L p \<le> S + 1 \<Longrightarrow> good L T (rem L p) (e prec p)"
begin

lemma skip_peek_tokens [simp]:
  "stream_ok L T p \<Longrightarrow> stream_ok L T (skip_peek L ts p)" "stream_ok L T p \<Longrightarrow> rem L (skip_peek L ts p) \<le> rem L p"
  by (simp_all add: skip_peek_def)

lemma skip_peek_le [intro]: "stream_ok L T p \<Longrightarrow> rem L p \<le> B \<Longrightarrow> rem L (skip_peek L ts p) \<le> B"
  using skip_peek_tokens(2) [of p ts] by linarith

lemma simple_statements_good:
  assumes "stream_ok L T p" "rem L p \<le> S + 1"
  shows "good L T (rem L p) (parseExpressionStatement L e p)" "good L T (rem L p) (parseEmbedDirectiveStatement L e p)"
    "good L T (rem L p) (parseReturnStatement L e p)" "good L T (rem L p) (parsePassStatement L p)"
    "good L T (rem L p) (parseBreakStatement L p)"
  unfolding parseExpressionStatement_def parseEmbedDirectiveStatement_def parseReturnStatement_def parsePassStatement_def
    parseBreakStatement_def
  using assms by (auto intro!: good_rules good_seq [OF e_here] skip_peek_le)

subsection \<open>Assignments\<close>

lemma parsePathTargetSelector_good:
  assumes "stream_ok L T p" "rem L p \<le> S + 1"
  shows "good L T (rem L p - 1) (parsePathTargetSelector L e t p)"
  unfolding parsePathTargetSelector_def using assms by (auto intro!: good_rules)

lemma target_loop_good:
  "stream_ok L T p \<Longrightarrow> rem L p \<le> S + 1 \<Longrightarrow> rem L p < m \<Longrightarrow> good L T (rem L p) (target_loop L e m t p)"
proof (induction m arbitrary: p t)
  case (Suc m)
  show ?case
    using Suc.prems rem_peek [OF Suc.prems(1)]
    by (auto simp: Let_def intro!: good_rules good_seq [OF parsePathTargetSelector_good] good_mono [OF Suc.IH] split: option.split)
qed simp

lemma assigned_value_good:
  "stream_ok L T p \<Longrightarrow> rem L p \<le> S + 1 \<Longrightarrow> good L T (rem L p) (assigned_value L e tok name modifier p)"
  unfolding assigned_value_def Let_def by (auto intro!: good_rules skip_peek_le)

lemma parseAssignmentStatement_good:
  assumes "stream_ok L T p" "rem L p \<le> S + 1" "rem L p < m"
  shows "good L T (rem L p) (parseAssignmentStatement L e m p)"
  unfolding parseAssignmentStatement_def parsePathTarget_def Let_def
  using assms by (auto intro!: good_rules good_seq [OF target_loop_good] good_mono [OF assigned_value_good] skip_peek_le) linarith+

lemma scope_segments_good: "stream_ok L T p \<Longrightarrow> rem L p < m \<Longrightarrow> good L T (rem L p) (scope_segments L m p)"
proof (induction m arbitrary: p)
  case (Suc m)
  show ?case
    using Suc.prems rem_peek [OF Suc.prems(1)] by (auto simp: Let_def intro!: good_rules good_seq [OF Suc.IH])
qed simp

lemma path_statements_good:
  assumes "stream_ok L T p" "rem L p \<le> S + 1" "rem L p < m"
  shows "good L T (rem L p) (parseScopeRelativeAssignment L e m p)" "good L T (rem L p) (parseDefinitionStatement L e m p)"
  unfolding parseScopeRelativeAssignment_def parseScopeRelativeExpression_def parseDefinitionStatement_def Let_def split_def
  using assms by (auto intro!: good_rules good_seq [OF scope_segments_good])

subsection \<open>Control flow\<close>

lemma if_consequence_good:
  "stream_ok L T p \<Longrightarrow> rem L p \<le> S + 1 \<Longrightarrow> rem L p < m \<Longrightarrow> good L T (rem L p) (if_consequence L s m p)"
  unfolding if_consequence_def by (auto intro!: good_rules)

lemma parseIfStatement_good:
  "stream_ok L T p \<Longrightarrow> rem L p \<le> S + 1 \<Longrightarrow> 0 < rem L p \<Longrightarrow> rem L p < m \<Longrightarrow> good L T (rem L p) (parseIfStatement L e s m p)"
proof (induction m arbitrary: p)
  case (Suc m)
  have elif: "good L T (rem L p) (pseq (parseIfStatement L e s m (nextToken L (nextToken L q))) f)"
    if "stream_ok L T q" "rem L q \<le> rem L p - 1" "peek (nextToken L q) = IF"
      "\<And>x r. stream_ok L T r \<Longrightarrow> rem L r \<le> rem L p \<Longrightarrow> good L T (rem L p) (f x r)" for q f
  proof (rule good_seq [OF Suc.IH])
    have "2 \<le> rem L (nextToken L q)" using peek_rem [OF that(3), of L T] that(1) by simp
    then show "0 < rem L (nextToken L (nextToken L q))" "rem L (nextToken L (nextToken L q)) \<le> S + 1"
      "rem L (nextToken L (nextToken L q)) < m"
      using that Suc.prems by auto
  qed (use that Suc.prems in auto)
  show ?case
    using Suc.prems by (auto simp: Let_def intro!: good_rules good_seq [OF if_consequence_good] elif split: option.split) linarith+
qed simp

lemma loops_good:
  assumes "stream_ok L T p" "rem L p \<le> S + 1" "rem L p < m"
  shows "good L T (rem L p) (parseQuietlyBlockStatement L s m p)" "good L T (rem L p) (parseWhileStatement L e s m p)"
    "good L T (rem L p) (parseForStatement L e s m p)"
  unfolding parseQuietlyBlockStatement_def parseWhileStatement_def parseForStatement_def
  using assms by (auto intro!: good_rules split: option.split)

lemma consider_loop_good:
  "stream_ok L T p \<Longrightarrow> rem L p \<le> S + 1 \<Longrightarrow> rem L p < m \<Longrightarrow> good L T (rem L p) (consider_loop L e s m cs p)"
proof (induction m arbitrary: p cs)
  case (Suc m)
  show ?case
    using Suc.prems rem_cur [OF Suc.prems(1)] by (auto intro!: good_rules good_mono [OF Suc.IH])
qed simp

lemma else_clauses_good:
  "stream_ok L T p \<Longrightarrow> rem L p \<le> S + 1 \<Longrightarrow> rem L p < m \<Longrightarrow> good L T (rem L p) (else_clauses L s m p)"
proof (induction m arbitrary: p)
  case (Suc m)
  show ?case
    using Suc.prems rem_peek [OF Suc.prems(1)] by (auto simp: Let_def intro!: good_rules good_seq [OF Suc.IH])
qed simp

lemma scope_path_good: "stream_ok L T p \<Longrightarrow> rem L p < m \<Longrightarrow> good L T (rem L p) (scope_path L m path p)"
proof (induction m arbitrary: p path)
  case (Suc m)
  show ?case
    using Suc.prems rem_cur [OF Suc.prems(1)] by (auto simp: Let_def intro!: good_mono [OF Suc.IH])
qed simp

lemma branching_good:
  assumes "stream_ok L T p" "rem L p \<le> S + 1" "rem L p < m"
  shows "good L T (rem L p) (parseConsiderStatement L e s m p)" "good L T (rem L p) (parseCatchStatement L s m p)"
    "good L T (rem L p) (parseScopeStatement L s m p)"
  unfolding parseConsiderStatement_def parseCatchStatement_def parseScopeStatement_def
  using assms
  by (auto intro!: good_rules good_seq [OF consider_loop_good] good_seq [OF else_clauses_good] good_seq [OF scope_path_good]
      split: option.split) linarith+

subsection \<open>Procedures, watchers, instantiation\<close>

lemma parameters_good:
  assumes "stream_ok L T p" "rem L p \<le> S + 1" "rem L p < m"
  shows "good L T (rem L p) (comma_loop L (\<lambda>q. ok (curLit q) q) m p)"
  by (rule comma_loop_good) (use assms in auto)

lemma procedure_statements_good:
  assumes "stream_ok L T p" "rem L p \<le> S + 1" "rem L p < m"
  shows "good L T (rem L p) (parseProcedureStatement L s m p)" "good L T (rem L p) (parseTypeFirstProcedureStatement L s m p)"
  unfolding parseProcedureStatement_def parseTypeFirstProcedureStatement_def Let_def
  using assms by (auto intro!: good_rules good_seq [OF parameters_good] split: option.split) linarith+

lemma watch_body_good:
  "stream_ok L T p \<Longrightarrow> rem L p \<le> S + 1 \<Longrightarrow> rem L p < m \<Longrightarrow> good L T (rem L p) (watch_body L s m stmt p)"
  unfolding watch_body_def by (auto intro!: good_rules)

lemma watch_rest_good:
  "stream_ok L T p \<Longrightarrow> rem L p \<le> S + 1 \<Longrightarrow> rem L p < m \<Longrightarrow> good L T (rem L p) (watch_rest L e s m name p)"
  unfolding watch_rest_def by (auto intro!: good_rules good_mono [OF watch_body_good])

lemma parseWatchStatement_good:
  assumes "stream_ok L T p" "rem L p \<le> S + 1" "rem L p < m"
  shows "good L T (rem L p) (parseWatchStatement L e s m p)"
  unfolding parseWatchStatement_def split_def
  using assms by (auto intro!: good_rules good_mono [OF watch_rest_good] good_seq [OF simple_statements_good(1)])

lemma inline_record_good:
  "stream_ok L T p \<Longrightarrow> rem L p \<le> S + 1 \<Longrightarrow> rem L p < m \<Longrightarrow> good L T (rem L p) (inline_record L sub e m p)"
  unfolding inline_record_def by (auto intro!: good_seq [OF parseRecordLiteral_good])

lemma source_loop_good:
  "stream_ok L T p \<Longrightarrow> rem L p \<le> S + 1 \<Longrightarrow> rem L p < m \<Longrightarrow> good L T (rem L p) (source_loop L sub e m p)"
proof (induction m arbitrary: p)
  case (Suc m)
  show ?case
    using Suc.prems rem_peek [OF Suc.prems(1)]
    by (auto simp: Let_def intro!: good_seq [OF inline_record_good] good_seq [OF Suc.IH])
qed simp

lemma new_modifier_tokens:
  "stream_ok L T p \<Longrightarrow> stream_ok L T (snd (new_modifier L p)) \<and> rem L (snd (new_modifier L p)) \<le> rem L p"
  by (auto simp: new_modifier_def Let_def)

lemma parseInstantiationStatement_good:
  assumes "stream_ok L T p" "rem L p \<le> S + 1" "rem L p < m"
  shows "good L T (rem L p) (parseInstantiationStatement L sub e m p)"
  unfolding parseInstantiationStatement_def Let_def split_def
  using assms new_modifier_tokens [of "nextToken L p"]
  by (auto intro!: good_rules good_seq [OF source_loop_good] good_seq [OF inline_record_good])

subsection \<open>Dispatch\<close>

lemma some_statement_good: "good L T B r \<Longrightarrow> good L T B (some_statement r)"
  unfolding some_statement_def by (rule good_seq) auto

lemma dispatch_good:
  assumes "stream_ok L T p" "rem L p \<le> S + 1"
  shows "good L T (rem L p) (dispatch L sub e s n p)"
proof -
  have m: "rem L p < n" using assms(2) rounds by simp
  have "0 < rem L p" if "cur p = IF" using rem_cur [OF assms(1)] that by auto
  then show ?thesis
    unfolding dispatch_def
    using parseIfStatement_good [OF assms _ m] loops_good [OF assms m] branching_good [OF assms m]
      parseWatchStatement_good [OF assms m] procedure_statements_good [OF assms m] simple_statements_good [OF assms]
      parseInstantiationStatement_good [OF assms m] path_statements_good [OF assms m] parseAssignmentStatement_good [OF assms m]
    by (simp add: some_statement_good)
qed

lemma parseStatement_body_good:
  assumes "stream_ok L T p" "rem L p \<le> S + 1"
  shows "good L T (rem L p) (parseStatement_body L sub e s n p)"
  unfolding parseStatement_body_def
  by (rule good_guarded [OF assms(1)]) (use assms rounds in \<open>auto intro!: good_rules good_mono [OF dispatch_good]\<close>)

end

section \<open>The knot\<close>

lemma guarded_at_end:
  assumes "stream_ok L T p" "rem L p = 0"
    and "\<And>q. stream_ok L T q \<Longrightarrow> rem L q = 0 \<Longrightarrow> cur q = EOF \<Longrightarrow> good L T 0 (body q)"
  shows "good L T 0 (guarded x body p)"
  using good_guarded [OF assms(1), of body x] assms rem_cur by simp

lemma parseExpression_at_end:
  assumes "stream_ok L T p" "rem L p = 0"
  shows "good L T 0 (parseExpression_body L sub e s k prec p)"
  unfolding parseExpression_body_def by (rule guarded_at_end [OF assms]) (simp add: prefix_fn_def)

lemma parseStatement_at_end:
  assumes "stream_ok L T p" "rem L p = 0" "0 < k"
    and e: "\<And>q. stream_ok L T q \<Longrightarrow> rem L q = 0 \<Longrightarrow> good L T 0 (e P_LOWEST q)"
  shows "good L T 0 (parseStatement_body L sub e s k p)"
  unfolding parseStatement_body_def
proof (rule guarded_at_end [OF assms(1,2)])
  fix q assume q: "stream_ok L T q" "rem L q = 0" "cur q = EOF"
  have "skipComments L k q = ok () q" using q(3) assms(3) by (cases k) (simp_all add: skipComments.simps)
  moreover have "dispatch L sub e s k q = some_statement (parseExpressionStatement L e q)"
    using q(3) by (simp add: dispatch_def path_start_def)
  moreover have "good L T 0 (some_statement (parseExpressionStatement L e q))"
    unfolding some_statement_def parseExpressionStatement_def skip_peek_def
    using q by (simp only: pseq_assoc pseq_ok) (rule good_seq [OF e], auto simp: rem_next [of L T])
  ultimately show "good L T 0 (pseq (skipComments L k q) (\<lambda>_. dispatch L sub e s k))" by simp
qed

lemma knot:
  assumes sub: "\<And>v. length v < T \<Longrightarrow> sub v \<noteq> Inl Fuel"
  shows "stream_ok L T p \<Longrightarrow> 2 * rem L p + 1 \<le> k \<Longrightarrow> good L T (rem L p) (parseExpression L sub k prec p)"
    "stream_ok L T p \<Longrightarrow> 2 * rem L p + 2 \<le> k \<Longrightarrow> good L T (rem L p) (parseStatement L sub k p)"
proof (induction k arbitrary: p prec)
  case (Suc k)
  have inner: "parsers L T (rem L p - 1) k sub (parseExpression L sub k) (parseStatement L sub k)"
    if "2 * rem L p \<le> k" "0 < rem L p" for p
    using that sub Suc.IH by unfold_locales auto
  {
    case 1
    show ?case
    proof (cases "rem L p = 0")
      case True
      then show ?thesis using parseExpression_at_end [OF 1(1)] by simp
    next
      case False
      then have m: "2 * rem L p \<le> k" "0 < rem L p" using 1(2) by simp_all
      show ?thesis using parsers.parseExpression_body_good [OF inner [OF m] 1(1), of prec] m(2) by simp
    qed
  next
    case 2
    show ?case
    proof (cases "rem L p = 0")
      case True
      then show ?thesis using parseStatement_at_end [OF 2(1) True, of k "parseExpression L sub k"] Suc.IH(1) 2 by fastforce
    next
      case False
      then have "statements L T (rem L p - 1) k sub (parseExpression L sub k) (parseStatement L sub k)"
        using inner Suc.IH(1) 2 by (auto intro!: statements.intro statements_axioms.intro)
      then show ?thesis using statements.parseStatement_body_good [OF _ 2(1)] False by simp
    qed
  }
qed simp_all

section \<open>Programs\<close>

context parsers
begin

lemma program_loop_good:
  "stream_ok L T p \<Longrightarrow> rem L p \<le> S \<Longrightarrow> rem L p < m \<Longrightarrow> good L T (rem L p) (program_loop L s m p)"
proof (induction m arbitrary: p)
  case (Suc m)
  show ?case
    using Suc.prems rem_cur [OF Suc.prems(1)]
    by (auto intro!: good_rules good_seq [OF Suc.IH] good_mono [OF Suc.IH] split: option.split) linarith+
qed simp

end

text \<open>The tokens of a new parser are those of the scanner.\<close>

lemma tok_at_request: "tok_at L p (Suc (Suc k)) = request (plU L) (psLexer p) k"
proof (induction k arbitrary: p)
  case 0
  have "tok_at L p (Suc (Suc 0)) = psPeek (nextToken L p)" by (simp only: tok_at_next [symmetric] tok_at_0 nextToken_current)
  then show ?case by (simp add: nextToken_def request_0 split_def Let_def)
next
  case (Suc k)
  have "tok_at L p (Suc (Suc (Suc k))) = tok_at L (nextToken L p) (Suc (Suc k))" by simp
  then show ?case using Suc [of "nextToken L p"] by (simp add: nextToken_def request_Suc split_def Let_def)
qed

lemma NewParser_tokens: "tok_at L (NewParser L l) k = request (plU L) l k"
  by (simp add: NewParser_def tok_at_request)

text \<open>The literals that are parsed again are pieces of the input.\<close>

lemma substr_shorter: "length (substr v i j) \<le> length v"
  by (simp add: substr_def)

lemma input_skip_while [simp]: "input (skip_while P l) = input l"
proof (induction P l rule: skip_while.induct)
  case (1 P l)
  then show ?case by (subst skip_while.simps) auto
qed

definition literal_within :: "Lexer \<Rightarrow> Token \<times> Lexer \<Rightarrow> bool" where
  "literal_within l r \<longleftrightarrow> (Type (fst r) \<in> inner_types \<longrightarrow> length (Literal (fst r)) \<le> length (input l))"

lemma literal_within_pieces:
  "literal_within l (sigil_text b tok l)" "literal_within l (readModifier l)" "literal_within l (word_token U tok l)"
  by (auto simp: literal_within_def sigil_text_def readSigilString_def emit_def readModifier_def token_from_def
      word_token_def readIdentifier_def Let_def substr_shorter intro: le_trans [OF substr_shorter]
      split: option.split prod.split)

lemma literal_within_others:
  "t \<notin> inner_types \<Longrightarrow> literal_within l (tok\<lparr>Type := t, Literal := v\<rparr>, l1)"
  "t \<notin> inner_types \<Longrightarrow> literal_within l (emit (tok\<lparr>Type := t, Literal := v\<rparr>) l1)"
  "t \<notin> inner_types \<Longrightarrow> literal_within l (one_char t tok l2)"
  "literal_within l (indent_token INDENT v l1 k, l2)" "literal_within l (indent_token DEDENT v l1 k, l2)"
  "literal_within l (indent_token NEWLINE v l1 k, l2)" "literal_within l (indent_token ILLEGAL v l1 k, l2)"
  "literal_within l (dedent_token l1, l2)"
  by (simp_all add: literal_within_def emit_def one_char_def indent_token_def dedent_token_def inner_types_def)

lemma literal_within_rest:
  "literal_within l (readComment l)" "literal_within l (end_of_input tok l)" "literal_within l (plain_text tok l)"
  "literal_within l (number_token tok l)" "literal_within l (dots tok l)"
  "t1 \<notin> inner_types \<Longrightarrow> t2 \<notin> inner_types \<Longrightarrow> literal_within l (with_equals t2 t1 tok l)"
  unfolding end_of_input_def plain_text_def number_token_def dots_def with_equals_def Let_def
  by (auto simp: literal_within_others inner_types_def split: prod.split)
    (auto simp: literal_within_def readComment_def token_from_def inner_types_def Let_def split: prod.split)

lemma delimiters_within: "map_of delimiters c = Some t \<Longrightarrow> literal_within l (one_char t tok l1)"
  by (rule literal_within_others(3)) (auto simp: delimiters_def inner_types_def split: if_splits)

lemma scan_token_within: "literal_within l (scan_token U l)"
proof -
  have "literal_within l (scan_switch U tok l)" for tok l
    unfolding scan_switch_def
    by (simp add: literal_within_pieces literal_within_rest literal_within_others delimiters_within inner_types_def
        split: prod.split option.split)
  then have "literal_within (skipWhitespace l) (scan_token U l)"
    by (simp add: scan_token_def Let_def literal_within_pieces)
  then show ?thesis by (simp add: literal_within_def skipWhitespace_def)
qed

lemma input_indentation [simp]: "input (snd (indentation c l)) = input l"
proof (induction c l rule: indentation.induct)
  case (1 t n l)
  then show ?case by (subst indentation.simps) auto
qed

lemma NextToken_inside: "\<not> atLineStart l1 \<Longrightarrow> input l1 = input l \<Longrightarrow> literal_within l (NextToken U l1)"
  using scan_token_within [of l1 U] by (subst NextToken.simps) (auto simp: Let_def literal_within_def dedent_token_def inner_types_def)

lemma handleIndentation_within: "literal_within l (handleIndentation U l)"
proof -
  obtain t n l1 where i: "indentation (0, 0) l = ((t, n), l1)" by (metis surj_pair)
  then have "input l1 = input l" using input_indentation [of "(0, 0)" l] by simp
  then show ?thesis
    unfolding handleIndentation.simps [of U l] i Let_def
    by (simp add: literal_within_others NextToken_inside split: prod.split)
qed

lemma NextToken_within: "literal_within l (NextToken U l)"
  using handleIndentation_within [of l U] scan_token_within [of l U]
  by (subst NextToken.simps) (auto simp: Let_def literal_within_others)

text \<open>A new parser has the tokens of the text, at most two for each byte.\<close>

lemma request_within:
  "lexer_inv l \<Longrightarrow> Type (request U l k) \<in> inner_types \<Longrightarrow> length (Literal (request U l k)) \<le> length (input l)"
proof (induction k arbitrary: l)
  case 0
  then show ?case using NextToken_within [of l U] by (simp add: request_0 literal_within_def)
next
  case (Suc k)
  have "lexer_inv (snd (NextToken U l)) \<and> input (snd (NextToken U l)) = input l"
    using NextToken_effect [OF Suc.prems(1), of U] by (simp add: effect_def)
  then show ?case using Suc.IH [of "snd (NextToken U l)"] Suc.prems(2) by (simp add: request_Suc)
qed

lemma NewParser_stream:
  "stream_ok L (length v) (NewParser L (New v))" "rem L (NewParser L (New v)) \<le> 2 * length v"
proof -
  obtain n where n: "n \<le> potential (New v)" "\<forall>k. Type (request (plU L) (New v) k) = EOF \<longleftrightarrow> n \<le> k"
    using requests_end [OF New_inv(1)] by blast
  then have "rem L (NewParser L (New v)) = n" by (intro rem_eq) (simp add: NewParser_tokens)
  then show "rem L (NewParser L (New v)) \<le> 2 * length v" using n(1) New_inv [of v] by (simp add: potential_def)
  show "stream_ok L (length v) (NewParser L (New v))"
    using n(2) request_within [OF New_inv(1), of "plU L" v, unfolded New_inv(2)] by (auto simp: stream_ok_def NewParser_tokens)
qed

text \<open>Texts inside a text, and the program.\<close>

lemma parse_text_returns: "length v < d \<Longrightarrow> parse_text L d v \<noteq> Inl Fuel"
proof (induction d arbitrary: v)
  case (Suc d)
  have "good L (length v) (rem L (NewParser L (New v)))
      (parseExpression L (parse_text L d) (parse_fuel v) P_LOWEST (NewParser L (New v)))"
    by (rule knot(1)) (use Suc NewParser_stream [of L v] in \<open>auto simp: parse_fuel_def\<close>)
  then show ?case by (auto simp: good_def)
qed simp

interpretation mbl: statements L T S "S + 2" "parse_text L T" "parseExpression L (parse_text L T) (2 * S + 3)"
    "parseStatement L (parse_text L T) (2 * S + 3)" for L T S
proof (unfold_locales, goal_cases)
  case (1 v)
  then show ?case by (rule parse_text_returns)
qed (auto intro!: knot parse_text_returns)

text \<open>The loop over the statements stops at the end of the text or at an error that stops the parser.\<close>

lemma program_loop_stops: "program_loop L s n p = Inr (sts, q) \<Longrightarrow> cur q = EOF \<or> hasCriticalError q"
proof (induction n arbitrary: p sts)
  case (Suc n)
  then show ?case
    by (auto simp: pseq_def ok_def Let_def split: if_splits sum.splits prod.splits)
qed simp

lemma parse_program_stops: "parse_program L v = Inr (prog, p) \<Longrightarrow> cur p = EOF \<or> hasCriticalError p"
  by (auto simp: parse_program_def ParseProgram_def pseq_def ok_def split: sum.splits dest: program_loop_stops)

lemma parse_program_returns: "parse_program L v \<noteq> Inl Fuel"
proof -
  let ?p = "NewParser L (New v)"
  have "good L (length v) (rem L ?p) (program_loop L (parseStatement L (parse_text L (length v)) (parse_fuel v)) (parse_fuel v) ?p)"
    using mbl.program_loop_good [OF NewParser_stream, of L v] NewParser_stream(2) [of L v] by (simp add: parse_fuel_def)
  then show ?thesis by (auto simp: parse_program_def ParseProgram_def pseq_def ok_def good_def split: sum.splits)
qed

end
