(* ===== verification/Mbl_Precedence.thy ===== *)
theory Mbl_Precedence
  imports Mbl_Statements_End
begin

text \<open>
  The expression parser respects precedence and associativity. An operator tree keeps its tokens in
  the order of the text; \<open>fits m\<close> says that the tree is the one the precedence table and the
  associativity of the operators give to these tokens. The parser returns exactly the syntax of the
  tree that fits, and every tree can be written with parentheses.
\<close>

section \<open>Operator trees\<close>

datatype optree =
    Leaf Token
  | Prefix Token optree
  | Group Token optree Token
  | Node optree Token optree

primrec toks :: "optree \<Rightarrow> Token list" where
  "toks (Leaf t) = [t]"
| "toks (Prefix t x) = t # toks x"
| "toks (Group l x r) = l # toks x @ [r]"
| "toks (Node x t y) = toks x @ t # toks y"

primrec syntax_of :: "optree \<Rightarrow> Expression" where
  "syntax_of (Leaf t) = PathExpression t [Literal t] []"
| "syntax_of (Prefix t x) = UnaryExpression t (Literal t) (syntax_of x)"
| "syntax_of (Group l x r) = syntax_of x"
| "syntax_of (Node x t y) = BinaryExpression t (syntax_of x) (Literal t) (syntax_of y)"

text \<open>The level at which the right operand is parsed, and where the right edge of a tree ends.\<close>

definition right_level :: "Token \<Rightarrow> nat" where
  "right_level t = (if Type t = POWER then precedence_of (Type t) - 1 else precedence_of (Type t))"

primrec stops :: "optree \<Rightarrow> nat \<Rightarrow> bool" where
  "stops (Leaf t) q = True"
| "stops (Prefix t x) q = (q \<le> P_UNARY \<and> stops x q)"
| "stops (Group l x r) q = True"
| "stops (Node x t y) q = (q \<le> right_level t \<and> stops y q)"

primrec fits :: "nat \<Rightarrow> optree \<Rightarrow> bool" where
  "fits m (Leaf t) = (Type t = IDENT)"
| "fits m (Prefix t x) = (Type t \<in> {MINUS, PLUS, NOT_KW} \<and> fits P_UNARY x)"
| "fits m (Group l x r) = (Type l = LPAREN \<and> fits P_LOWEST x \<and> Type r = RPAREN)"
| "fits m (Node x t y) = (Type t \<in> set binary_types \<and> m < precedence_of (Type t) \<and> fits m x
     \<and> stops x (precedence_of (Type t)) \<and> fits (right_level t) y)"

text \<open>Calls of the expression parser: how many, how deep, and the operators of one loop.\<close>

primrec parse_calls :: "optree \<Rightarrow> nat" where
  "parse_calls (Leaf t) = 1"
| "parse_calls (Prefix t x) = parse_calls x + 1"
| "parse_calls (Group l x r) = parse_calls x + 1"
| "parse_calls (Node x t y) = parse_calls x + parse_calls y"

primrec nesting :: "optree \<Rightarrow> nat" where
  "nesting (Leaf t) = 1"
| "nesting (Prefix t x) = nesting x + 1"
| "nesting (Group l x r) = nesting x + 1"
| "nesting (Node x t y) = max (nesting x) (nesting y + 1)"

primrec spine :: "optree \<Rightarrow> nat" where
  "spine (Leaf t) = 0"
| "spine (Prefix t x) = 0"
| "spine (Group l x r) = 0"
| "spine (Node x t y) = spine x + 1"

lemma toks_pos [simp]: "0 < length (toks t)"
  by (induction t) auto

lemma toks_nonempty [simp]: "toks t \<noteq> []"
  using toks_pos [of t] by auto

lemma calls_pos [simp]: "0 < parse_calls t" "0 < nesting t"
  by (induction t) auto

lemma spine_less: "spine t < length (toks t)"
  by (induction t) auto

section \<open>The state after a tree\<close>

definition step :: "parse_lib \<Rightarrow> nat \<Rightarrow> nat \<Rightarrow> Parser \<Rightarrow> Parser" where
  "step L j c p = ((nextToken L ^^ j) p)\<lparr>psNodes := psNodes p + c\<rparr>"

lemma nextToken_fields [simp]:
  "psErrors (nextToken L p) = psErrors p" "psDepth (nextToken L p) = psDepth p" "psNodes (nextToken L p) = psNodes p"
  by (simp_all add: nextToken_def split_def Let_def)

lemma funpow_fields [simp]:
  "psErrors ((nextToken L ^^ j) p) = psErrors p" "psDepth ((nextToken L ^^ j) p) = psDepth p"
  "psNodes ((nextToken L ^^ j) p) = psNodes p"
  by (induction j) simp_all

lemma step_fields [simp]:
  "psErrors (step L j c p) = psErrors p" "psDepth (step L j c p) = psDepth p" "psNodes (step L j c p) = psNodes p + c"
  by (simp_all add: step_def)

lemma funpow_nodes: "(nextToken L ^^ j) (p\<lparr>psNodes := x\<rparr>) = ((nextToken L ^^ j) p)\<lparr>psNodes := x\<rparr>"
  by (induction j) (simp_all add: nextToken_upd)

lemma step_step [simp]: "step L i a (step L j b p) = step L (i + j) (b + a) p"
  by (simp add: step_def funpow_nodes funpow_add)

lemma step_next [simp]: "nextToken L (step L j c p) = step L (Suc j) c p" "step L j c (nextToken L p) = step L (Suc j) c p"
  by (simp_all add: step_def nextToken_upd funpow_swap1)

lemma step_0 [simp]: "step L 0 0 p = p"
  by (simp add: step_def)

lemma tok_at_step [simp]: "tok_at L (step L j c p) i = tok_at L p (i + j)"
  by (simp add: step_def tok_at_def funpow_nodes funpow_add)

lemma step_tokens: "psCurrent (step L j c p) = tok_at L p j" "psPeek (step L j c p) = tok_at L p (Suc j)"
  using tok_at_step [of L j c p 0] tok_at_step [of L j c p "Suc 0"] by (simp_all add: tok_at_1)

text \<open>The tokens of a tree lie ahead, and then a token \<open>z\<close>.\<close>

primrec ahead :: "parse_lib \<Rightarrow> Parser \<Rightarrow> Token list \<Rightarrow> Token \<Rightarrow> bool" where
  "ahead L p [] z = (psCurrent p = z)"
| "ahead L p (t # ts) z = (psCurrent p = t \<and> ahead L (nextToken L p) ts z)"

lemma ahead_upd [simp]: "ahead L (p\<lparr>psNodes := x\<rparr>) ts z = ahead L p ts z" "ahead L (p\<lparr>psDepth := x\<rparr>) ts z = ahead L p ts z"
  by (induction ts arbitrary: p) (simp_all add: nextToken_upd)

lemma ahead_funpow: "ahead L p (xs @ y # ys) z \<longleftrightarrow> ahead L p xs y \<and> ahead L ((nextToken L ^^ length xs) p) (y # ys) z"
  by (induction xs arbitrary: p) (auto simp: funpow_swap1)

lemma ahead_append: "ahead L p (xs @ y # ys) z \<longleftrightarrow> ahead L p xs y \<and> ahead L (step L (length xs) c p) (y # ys) z"
  by (simp add: ahead_funpow step_def nextToken_upd)

lemma ahead_first: "ahead L p ts z \<Longrightarrow> psCurrent p = (if ts = [] then z else hd ts)"
  by (cases ts) auto

lemma ahead_nth: "ahead L p ts z \<longleftrightarrow> (\<forall>i < length ts. tok_at L p i = ts ! i) \<and> tok_at L p (length ts) = z"
  by (induction ts arbitrary: p) (auto simp: nth_Cons less_Suc_eq_0_disj)

lemma ahead_peek: "ahead L p ts z \<Longrightarrow> ts \<noteq> [] \<Longrightarrow> psPeek (step L (length ts - 1) c p) = z"
  by (cases ts) (simp_all add: step_tokens ahead_nth del: ahead.simps)

section \<open>Parsing a tree\<close>

lemma binary_level: "Type t \<in> set binary_types \<Longrightarrow> 2 \<le> precedence_of (Type t) \<and> precedence_of (Type t) \<le> 9 \<and> Type t \<noteq> NEWLINE"
  by (auto simp: binary_types_def precedence_of_def precedences_def)

lemma right_level_pos: "Type t \<in> set binary_types \<Longrightarrow> 1 \<le> right_level t"
  using binary_level [of t] by (auto simp: right_level_def precedence_of_def precedences_def)

lemma stops_lowest: "fits m t \<Longrightarrow> stops t 1"
  by (induction t arbitrary: m) (auto dest: right_level_pos)

text \<open>The loop of the parser after it has read a tree.\<close>

definition after_prefix ::
  "parse_lib \<Rightarrow> text_parser \<Rightarrow> expr_parser \<Rightarrow> stmt_parser \<Rightarrow> nat \<Rightarrow> nat \<Rightarrow> nat \<Rightarrow> Parser \<Rightarrow> Expression outcome" where
  "after_prefix L sub e s k n m p =
     (case prefix_fn L sub e s k (cur p) of
        None \<Rightarrow> ok ENil (noPrefixParseFnError (cur p) p)
      | Some prefix \<Rightarrow> pseq (prefix p) (\<lambda>x q. infix_loop L e n m x q))"

lemma infix_loop_stop: "peekPrecedence p \<le> m \<Longrightarrow> 0 < n \<Longrightarrow> infix_loop L e n m x p = ok x p"
  by (cases n) auto

definition reads :: "parse_lib \<Rightarrow> expr_parser \<Rightarrow> nat \<Rightarrow> bool" where
  "reads L e k \<longleftrightarrow> (\<forall>t m p z. fits m t \<longrightarrow> 1 \<le> m \<longrightarrow> ahead L p (toks t) z \<longrightarrow> precedence_of (Type z) \<le> m \<longrightarrow>
     stops t (precedence_of (Type z)) \<longrightarrow> psDepth p + nesting t \<le> maxRecursionDepth \<longrightarrow>
     psNodes p + parse_calls t \<le> maxNodes \<longrightarrow> length (toks t) \<le> k \<longrightarrow>
     e m p = ok (syntax_of t) (step L (length (toks t) - 1) (parse_calls t) p))"

lemma readsD:
  assumes "reads L e k" "fits m t" "1 \<le> m" "ahead L p (toks t) z" "precedence_of (Type z) \<le> m"
    "stops t (precedence_of (Type z))" "psDepth p + nesting t \<le> maxRecursionDepth" "psNodes p + parse_calls t \<le> maxNodes"
    "length (toks t) \<le> k"
  shows "e m p = ok (syntax_of t) (step L (length (toks t) - 1) (parse_calls t) p)"
  using assms unfolding reads_def by blast

lemma after_prefix_tree:
  assumes e: "reads L e k"
  shows "fits m t \<Longrightarrow> 1 \<le> m \<Longrightarrow> ahead L p (toks t) z \<Longrightarrow> stops t (precedence_of (Type z)) \<Longrightarrow>
    psDepth p + nesting t \<le> maxRecursionDepth + 1 \<Longrightarrow> psNodes p + parse_calls t \<le> maxNodes + 1 \<Longrightarrow>
    length (toks t) \<le> k + 1 \<Longrightarrow> spine t < n \<Longrightarrow>
    after_prefix L sub e s k' n m p
      = infix_loop L e (n - spine t) m (syntax_of t) (step L (length (toks t) - 1) (parse_calls t - 1) p)"
proof (induction t arbitrary: p z)
  case (Leaf t)
  then show ?case by (simp add: after_prefix_def prefix_fn_def parseIdentifier_def)
next
  case (Prefix t x)
  have "prefix_fn L sub e s k' (Type t) = Some (parseUnaryExpression L e)"
    using Prefix.prems(1) by (auto simp: prefix_fn_def)
  moreover have "e P_UNARY (nextToken L p) = ok (syntax_of x) (step L (length (toks x) - 1) (parse_calls x) (nextToken L p))"
    by (rule readsD [OF e, where z = z]) (use Prefix.prems in simp_all)
  moreover have "psCurrent p = t" using Prefix.prems(3) by simp
  ultimately show ?case by (simp add: after_prefix_def parseUnaryExpression_def Suc_diff_1 [OF toks_pos, unfolded One_nat_def])
next
  case (Group l x r)
  have ahead: "ahead L (nextToken L p) (toks x) r" using Group.prems(3) by (simp add: ahead_funpow)
  have "e P_LOWEST (nextToken L p) = ok (syntax_of x) (step L (length (toks x) - 1) (parse_calls x) (nextToken L p))"
    using Group.prems stops_lowest
    by (intro readsD [OF e _ _ ahead]) (auto simp: precedence_of_def precedences_def)
  moreover have "psCurrent p = l" using Group.prems(3) by simp
  ultimately show ?case
    using ahead_peek [OF ahead, of "parse_calls x"] Group.prems(1) toks_pos [of x]
    by (simp add: after_prefix_def prefix_fn_def parseGroupedExpression_def expectPeek_def)
next
  case (Node x t y)
  let ?q = "step L (length (toks x) - 1) (parse_calls x - 1) p"
  have a: "ahead L p (toks x) t" "ahead L (step L (length (toks x)) (parse_calls x - 1) p) (t # toks y) z"
    using Node.prems(3) ahead_append [of L p "toks x" t "toks y" z "parse_calls x - 1"] by simp_all
  have "after_prefix L sub e s k' n m p = infix_loop L e (n - spine x) m (syntax_of x) ?q"
    using Node.prems a(1) by (intro Node.IH(1)) auto
  also have "n - spine x = Suc (n - spine (Node x t y))" using Node.prems(8) by simp
  also have "infix_loop L e (Suc (n - spine (Node x t y))) m (syntax_of x) ?q
      = pseq (parseBinaryExpression L e (syntax_of x) (nextToken L ?q)) (infix_loop L e (n - spine (Node x t y)) m)"
    using ahead_peek [OF a(1), of "parse_calls x - 1"] Node.prems(1) binary_level [of t] toks_pos [of x]
    by (simp add: peekPrecedence_def infix_fn_def)
  also have "parseBinaryExpression L e (syntax_of x) (nextToken L ?q)
      = ok (syntax_of (Node x t y)) (step L (length (toks (Node x t y)) - 1) (parse_calls (Node x t y) - 1) p)"
  proof -
    let ?r = "step L (length (toks x)) (parse_calls x - 1) p"
    obtain c where c: "parse_calls x = Suc c" using calls_pos(1) [of x] gr0_conv_Suc by metis
    have "e (right_level t) (nextToken L ?r) = ok (syntax_of y) (step L (length (toks y) - 1) (parse_calls y) (nextToken L ?r))"
      by (rule readsD [OF e, where z = z])
        (use Node.prems a(2) right_level_pos [of t] c in \<open>auto simp del: step_next\<close>)
    moreover have "nextToken L ?q = ?r" "psCurrent ?r = t" using a(2) toks_pos [of x] by simp_all
    ultimately show ?thesis
      using toks_pos [of y] c
      by (simp add: parseBinaryExpression_def currentPrecedence_def right_level_def Let_def add.commute)
  qed
  finally show ?case by simp
qed

text \<open>The whole call.\<close>

lemma guarded_inside:
  "psDepth p < maxRecursionDepth \<Longrightarrow> psNodes p < maxNodes \<Longrightarrow>
     guarded x body p = pseq (body (p\<lparr>psDepth := psDepth p + 1, psNodes := psNodes p + 1\<rparr>)) (\<lambda>y q. ok y (decrementRecursionDepth q))"
  by (simp add: guarded_def incrementRecursionDepth_def incrementNodeCount_def Let_def)

lemma funpow_depth: "(nextToken L ^^ j) (p\<lparr>psDepth := x\<rparr>) = ((nextToken L ^^ j) p)\<lparr>psDepth := x\<rparr>"
  by (induction j) (simp_all add: nextToken_upd)

lemma step_guarded:
  assumes "0 < c"
  shows "decrementRecursionDepth (step L j (c - 1) (p\<lparr>psDepth := psDepth p + 1, psNodes := psNodes p + 1\<rparr>)) = step L j c p"
proof -
  have "psDepth ((nextToken L ^^ j) p) = psDepth p" by simp
  then show ?thesis using assms by (simp add: decrementRecursionDepth_def step_def funpow_nodes funpow_depth)
qed

lemma reads_parseExpression: "reads L (parseExpression L sub k) (k - 1)"
proof (induction k)
  case 0
  show ?case by (simp add: reads_def)
next
  case (Suc k)
  show ?case
    unfolding reads_def
  proof (intro allI impI)
    fix t m p z
    assume t: "fits m t" "1 \<le> m" "ahead L p (toks t) z" "precedence_of (Type z) \<le> m" "stops t (precedence_of (Type z))"
      and bounds: "psDepth p + nesting t \<le> maxRecursionDepth" "psNodes p + parse_calls t \<le> maxNodes" "length (toks t) \<le> Suc k - 1"
    let ?e = "parseExpression L sub k" and ?s = "parseStatement L sub k"
    let ?p = "p\<lparr>psDepth := psDepth p + 1, psNodes := psNodes p + 1\<rparr>"
    let ?q = "step L (length (toks t) - 1) (parse_calls t - 1) ?p"
    have "after_prefix L sub ?e ?s k k m ?p = infix_loop L ?e (k - spine t) m (syntax_of t) ?q"
      using t bounds spine_less [of t] by (intro after_prefix_tree [OF Suc.IH, where z = z]) auto
    also have "\<dots> = ok (syntax_of t) ?q"
      using t bounds spine_less [of t] ahead_peek [of L ?p "toks t" z "parse_calls t - 1"]
      by (intro infix_loop_stop) (auto simp: peekPrecedence_def)
    finally have body: "after_prefix L sub ?e ?s k k m ?p = ok (syntax_of t) ?q" .
    have "parseExpression L sub (Suc k) m p = guarded ENil (after_prefix L sub ?e ?s k k m) p"
      by (simp add: parseExpression_body_def after_prefix_def [abs_def])
    also have "\<dots> = pseq (after_prefix L sub ?e ?s k k m ?p) (\<lambda>y q. ok y (decrementRecursionDepth q))"
    proof (rule guarded_inside)
      show "psDepth p < maxRecursionDepth" using bounds(1) calls_pos(2) [of t] by linarith
      show "psNodes p < maxNodes" using bounds(2) calls_pos(1) [of t] by linarith
    qed
    also have "\<dots> = ok (syntax_of t) (step L (length (toks t) - 1) (parse_calls t) p)"
      by (simp only: body pseq_ok step_guarded [OF calls_pos(1)])
    finally show "parseExpression L sub (Suc k) m p = ok (syntax_of t) (step L (length (toks t) - 1) (parse_calls t) p)" .
  qed
qed

lemma parseExpression_tree:
  assumes "fits P_LOWEST t" "ahead L p (toks t) z" "precedence_of (Type z) = P_LOWEST"
    "psDepth p + nesting t \<le> maxRecursionDepth" "psNodes p + parse_calls t \<le> maxNodes" "length (toks t) < k"
  shows "parseExpression L sub k P_LOWEST p = ok (syntax_of t) (step L (length (toks t) - 1) (parse_calls t) p)"
  by (rule readsD [OF reads_parseExpression, where z = z]) (use assms stops_lowest in auto)

section \<open>Grouping\<close>

text \<open>
  The documented order of the binary operators (\<open>docs/amorphdb_design.md\<close>, Operator Precedence), the
  higher the tighter; \<open>and\<close> and \<open>or\<close> are of one level as long as not both of them occur.
\<close>

definition op_level :: "TokenType \<Rightarrow> nat" where
  "op_level t =
     (if t = POWER then 6
      else if t \<in> {MULTIPLY, DIVIDE, MODULO} then 5
      else if t \<in> {PLUS, MINUS} then 4
      else if t = CONCAT then 3
      else if t \<in> {EQUAL, ASSIGN, GT, LT, GTE, LTE} then 2
      else 1)"

text \<open>How tightly the top of a tree binds: names, parentheses and signed operands more than any operator.\<close>

primrec top_level :: "optree \<Rightarrow> nat" where
  "top_level (Leaf t) = 7"
| "top_level (Prefix t x) = 7"
| "top_level (Group l x r) = 7"
| "top_level (Node x t y) = op_level (Type t)"

text \<open>
  The tree that the levels and the associativity give to its tokens: the operands of an operator bind
  at least as tightly as it does, and on one side strictly more so: on the left of \<open>^\<close>, on the right of
  all others. A sign or \<open>not\<close> applies to the next name, parenthesis or signed operand alone.
\<close>

primrec grouped :: "optree \<Rightarrow> bool" where
  "grouped (Leaf t) = (Type t = IDENT)"
| "grouped (Prefix t x) = (Type t \<in> {MINUS, PLUS, NOT_KW} \<and> grouped x \<and> top_level x = 7)"
| "grouped (Group l x r) = (Type l = LPAREN \<and> grouped x \<and> Type r = RPAREN)"
| "grouped (Node x t y) = (Type t \<in> set binary_types \<and> grouped x \<and> grouped y \<and>
     (if Type t = POWER then op_level (Type t) < top_level x \<and> op_level (Type t) \<le> top_level y
      else op_level (Type t) \<le> top_level x \<and> op_level (Type t) < top_level y))"

abbreviation (input) not_both :: "optree \<Rightarrow> bool" where
  "not_both t \<equiv> AND_KW \<notin> Type ` set (toks t) \<or> OR_KW \<notin> Type ` set (toks t)"

lemma level_precedence:
  assumes "t \<in> set binary_types"
  shows "precedence_of t = (if t = OR_KW then 2 else if t = AND_KW then 3 else op_level t + 3)"
    and "op_level t = 1 \<longleftrightarrow> t \<in> {AND_KW, OR_KW}" "1 \<le> op_level t"
proof -
  have "list_all (\<lambda>t. precedence_of t = (if t = OR_KW then 2 else if t = AND_KW then 3 else op_level t + 3) \<and>
      (op_level t = 1 \<longleftrightarrow> t \<in> {AND_KW, OR_KW}) \<and> 1 \<le> op_level t) binary_types"
    by code_simp
  with assms show "precedence_of t = (if t = OR_KW then 2 else if t = AND_KW then 3 else op_level t + 3)"
    "op_level t = 1 \<longleftrightarrow> t \<in> {AND_KW, OR_KW}" "1 \<le> op_level t"
    by (simp_all add: list_all_iff)
qed

lemma level_order:
  assumes "t \<in> set binary_types" "u \<in> set binary_types" "t \<in> A" "u \<in> A" "\<not> (AND_KW \<in> A \<and> OR_KW \<in> A)"
  shows "op_level t \<le> op_level u \<longleftrightarrow> precedence_of t \<le> precedence_of u" "op_level t < op_level u \<longleftrightarrow> precedence_of t < precedence_of u"
proof -
  have n: "AND_KW \<noteq> OR_KW" by simp
  consider "op_level t = 1" "op_level u = 1" | "op_level t = 1" "1 < op_level u" | "1 < op_level t" "op_level u = 1" | "1 < op_level t" "1 < op_level u"
    using level_precedence(3) assms(1,2) by (metis le_neq_implies_less)
  then have "(op_level t \<le> op_level u \<longleftrightarrow> precedence_of t \<le> precedence_of u) \<and> (op_level t < op_level u \<longleftrightarrow> precedence_of t < precedence_of u)"
  proof cases
    case 1
    then have "t = u" using level_precedence(2) assms by blast
    then show ?thesis by simp
  qed (use level_precedence [OF assms(1)] level_precedence [OF assms(2)] n in auto)
  then show "op_level t \<le> op_level u \<longleftrightarrow> precedence_of t \<le> precedence_of u" "op_level t < op_level u \<longleftrightarrow> precedence_of t < precedence_of u"
    by simp_all
qed

lemma op_level_less: "op_level t < 7"
  by (simp add: op_level_def)

text \<open>What the parser needs to know of the left and the right edge of a tree.\<close>

primrec root_is :: "(TokenType \<Rightarrow> bool) \<Rightarrow> optree \<Rightarrow> bool" where
  "root_is P (Leaf t) = True"
| "root_is P (Prefix t x) = True"
| "root_is P (Group l x r) = True"
| "root_is P (Node x t y) = P (Type t)"

lemma root_top: "l \<le> top_level x \<Longrightarrow> root_is (\<lambda>v. l \<le> op_level v) x" "l < top_level x \<Longrightarrow> root_is (\<lambda>v. l < op_level v) x"
  by (cases x; simp)+

lemma root_tight: "top_level x = 7 \<Longrightarrow> root_is P x"
proof (cases x)
  case (Node y u z)
  then show "top_level x = 7 \<Longrightarrow> root_is P x" using op_level_less [of "Type u"] by simp
qed simp_all

lemma grouped_stops:
  assumes "\<not> (AND_KW \<in> A \<and> OR_KW \<in> A)" "Type t \<in> set binary_types" "Type t \<in> A"
  shows "grouped x \<Longrightarrow> Type ` set (toks x) \<subseteq> A \<Longrightarrow> op_level (Type t) \<le> top_level x \<Longrightarrow>
    (Type t = POWER \<longrightarrow> op_level (Type t) < top_level x) \<Longrightarrow> stops x (precedence_of (Type t))"
proof (induction x)
  case (Prefix u x)
  then show ?case using binary_level [OF assms(2)] op_level_less [of "Type t"] by simp
next
  case (Node x u y)
  have u: "Type u \<in> set binary_types" "Type u \<in> A" using Node.prems by auto
  have le: "precedence_of (Type t) \<le> precedence_of (Type u)"
    using level_order(1) [OF assms(2) u(1) assms(3) u(2) assms(1)] Node.prems(3) by simp
  have "precedence_of (Type t) \<le> right_level u"
  proof (cases "Type u = POWER")
    case True
    then have "Type t \<noteq> POWER" using Node.prems(4) by auto
    then show ?thesis using True assms(2) by (auto simp: right_level_def binary_types_def precedence_of_def precedences_def)
  qed (use le in \<open>simp add: right_level_def\<close>)
  moreover have "stops y (precedence_of (Type t))"
  proof (rule Node.IH(2))
    show "Type t = POWER \<longrightarrow> op_level (Type t) < top_level y"
      using Node.prems(1,4) op_level_less [of "Type u"] by (auto simp: op_level_def split: if_splits)
  qed (use Node.prems in \<open>auto split: if_splits\<close>)
  ultimately show ?case by simp
qed auto

lemma grouped_fits:
  assumes "\<not> (AND_KW \<in> A \<and> OR_KW \<in> A)"
  shows "grouped t \<Longrightarrow> Type ` set (toks t) \<subseteq> A \<Longrightarrow> root_is (\<lambda>v. m < precedence_of v) t \<Longrightarrow> fits m t"
proof (induction t arbitrary: m)
  case (Prefix u x)
  then show ?case by (simp add: root_tight)
next
  case (Group l x r)
  have "root_is (\<lambda>v. P_LOWEST < precedence_of v) x" using Group.prems(1) by (cases x) (auto dest: binary_level)
  then show ?case using Group by auto
next
  case (Node x u y)
  have u: "Type u \<in> set binary_types" "Type u \<in> A" "m < precedence_of (Type u)" using Node.prems by auto
  have g: "grouped x" "grouped y" "Type ` set (toks x) \<subseteq> A" "Type ` set (toks y) \<subseteq> A"
    "op_level (Type u) \<le> top_level x" "op_level (Type u) \<le> top_level y"
    "Type u = POWER \<Longrightarrow> op_level (Type u) < top_level x" "Type u \<noteq> POWER \<Longrightarrow> op_level (Type u) < top_level y"
    using Node.prems by (auto split: if_splits)
  have ord: "op_level (Type u) \<le> op_level v \<longleftrightarrow> precedence_of (Type u) \<le> precedence_of v"
    "op_level (Type u) < op_level v \<longleftrightarrow> precedence_of (Type u) < precedence_of v"
    if "v \<in> set binary_types" "v \<in> A" for v
    using level_order [OF u(1) that(1) u(2) that(2) assms] by simp_all
  have bin: "root_is (\<lambda>v. v \<in> set binary_types \<and> v \<in> A) z" if "grouped z" "Type ` set (toks z) \<subseteq> A" for z
    using that by (cases z) auto
  have "root_is (\<lambda>v. m < precedence_of v) x"
    using bin [OF g(1,3)] root_top(1) [OF g(5)] ord(1) u(3) by (cases x) fastforce+
  moreover have "root_is (\<lambda>v. right_level u < precedence_of v) y"
  proof (cases "Type u = POWER")
    case True
    then show ?thesis
      using bin [OF g(2,4)] root_top(1) [OF g(6)] ord(1) binary_level [OF u(1)] by (cases y) (fastforce simp: right_level_def)+
  next
    case False
    then show ?thesis
      using bin [OF g(2,4)] root_top(2) [OF g(8)] ord(2) by (cases y) (fastforce simp: right_level_def)+
  qed
  ultimately show ?case
    using Node.IH g u grouped_stops [OF assms u(1,2) g(1,3,5)] by simp
qed auto

lemma grouped_fits_lowest: "grouped t \<Longrightarrow> not_both t \<Longrightarrow> fits P_LOWEST t"
  using grouped_fits [of "Type ` set (toks t)" t P_LOWEST] by (cases t) (auto dest: binary_level)

section \<open>Parentheses\<close>

text \<open>Every operator tree can be written: with parentheses round every operand that is not a name.\<close>

primrec well_typed :: "optree \<Rightarrow> bool" where
  "well_typed (Leaf t) = (Type t = IDENT)"
| "well_typed (Prefix t x) = (Type t \<in> {MINUS, PLUS, NOT_KW} \<and> well_typed x)"
| "well_typed (Group l x r) = (Type l = LPAREN \<and> well_typed x \<and> Type r = RPAREN)"
| "well_typed (Node x t y) = (Type t \<in> set binary_types \<and> well_typed x \<and> well_typed y)"

definition paren_token :: "TokenType \<Rightarrow> Token" where
  "paren_token t = \<lparr>Type = t, Literal = [if t = LPAREN then 0x28 else 0x29], Line = 0, Column = 0, Position = 0\<rparr>"

definition enclose :: "optree \<Rightarrow> optree" where
  "enclose x = (case x of Leaf t \<Rightarrow> x | _ \<Rightarrow> Group (paren_token LPAREN) x (paren_token RPAREN))"

primrec parenthesised :: "optree \<Rightarrow> optree" where
  "parenthesised (Leaf t) = Leaf t"
| "parenthesised (Prefix t x) = Prefix t (enclose (parenthesised x))"
| "parenthesised (Group l x r) = Group l (parenthesised x) r"
| "parenthesised (Node x t y) = Node (enclose (parenthesised x)) t (enclose (parenthesised y))"

lemma enclose_syntax [simp]: "syntax_of (enclose x) = syntax_of x" "stops (enclose x) q"
  by (simp_all add: enclose_def split: optree.split)

lemma parenthesised_grouped: "well_typed t \<Longrightarrow> grouped (parenthesised t) \<and> syntax_of (parenthesised t) = syntax_of t"
proof -
  have enclosed: "grouped (enclose x)" "top_level (enclose x) = 7" if "grouped x" for x
    using that by (cases x; simp add: enclose_def paren_token_def)+
  show "well_typed t \<Longrightarrow> grouped (parenthesised t) \<and> syntax_of (parenthesised t) = syntax_of t"
    by (induction t) (auto simp: enclosed op_level_less less_imp_le)
qed

lemma parenthesised_ops: "AND_KW \<in> Type ` set (toks (parenthesised t)) \<Longrightarrow> AND_KW \<in> Type ` set (toks t)"
  "OR_KW \<in> Type ` set (toks (parenthesised t)) \<Longrightarrow> OR_KW \<in> Type ` set (toks t)"
  by (induction t) (auto simp: enclose_def paren_token_def split: optree.splits)

end
