(* ===== verification/Language_Properties.thy ===== *)
theory Language_Properties
  imports Mbl_Lexer_Text Mbl_Precedence
begin

text \<open>
  The properties of the query language: its scanner ends on every input with matched block
  markers, its text and number literals mean what they say, and where its line numbers and
  contextual keywords go astray; its parser ends on every input and groups operators as documented.
\<close>

subsection \<open>The token stream\<close>

text \<open>
  C27. Whatever bytes a program consists of and whatever the letter table is, asking for tokens
  reaches \<open>EOF\<close> after at most two tokens for every byte, and from then on every further request
  returns \<open>EOF\<close> again.
\<close>

theorem token_stream_ends: "\<exists>n \<le> 2 * length s. \<forall>k. Type (request U (New s) k) = EOF \<longleftrightarrow> n \<le> k"
  using requests_end [OF New_inv(1), of s U] New_inv [of s] by (auto simp: potential_def)

text \<open>
  C28. Block markers match: at no point have more blocks been closed than opened, and when no
  token is illegal every \<open>INDENT\<close> has its \<open>DEDENT\<close> by the end, however deep the last line is and
  however many levels one line opens or closes.
\<close>

theorem block_markers_match:
  assumes "ILLEGAL \<notin> set (map Type (lex_tokens U (2 * length s + 1) (New s)))"
  shows "count_type DEDENT (lex_tokens U (2 * length s + 1) (New s)) = count_type INDENT (lex_tokens U (2 * length s + 1) (New s))
    \<and> count_type DEDENT (take k (lex_tokens U (2 * length s + 1) (New s))) \<le> count_type INDENT (take k (lex_tokens U (2 * length s + 1) (New s)))"
proof -
  have "potential (New s) < 2 * length s + 1" using New_inv [of s] by (simp add: potential_def)
  moreover have "\<forall>x \<in> set (lex_tokens U (2 * length s + 1) (New s)). Type x \<noteq> ILLEGAL" using assms by force
  ultimately show ?thesis
    using lex_balance [OF New_inv(1), of s "2 * length s + 1" U] lex_prefix_depth [OF New_inv(1), of k U "2 * length s + 1" s]
      New_inv(4) by (simp del: lex_tokens.simps)
qed

definition sample_program :: gostring where
  "sample_program = str ''a:'' @ [10] @ str ''    b'' @ [10] @ [9, 9] @ str ''c''"

lemma sample_program_types:
  "map Type (lex_tokens (\<lambda>_. False) (2 * length sample_program + 1) (New sample_program)) =
     [IDENT, DEFINE, NEWLINE, INDENT, IDENT, NEWLINE, INDENT, IDENT, DEDENT, DEDENT, EOF]"
  by code_simp

theorem block_markers_match_witness:
  "count_type DEDENT (lex_tokens (\<lambda>_. False) (2 * length sample_program + 1) (New sample_program)) =
     count_type INDENT (lex_tokens (\<lambda>_. False) (2 * length sample_program + 1) (New sample_program))"
  by (rule block_markers_match [THEN conjunct1]) (simp only: sample_program_types, simp)

subsection \<open>Literals\<close>

text \<open>
  C29. The scanner and \<open>UnquoteText\<close> agree on sigil texts. When the scanner recognises a text with
  sigil \<open>_\<close> or \<open>~\<close> at the cursor, it has chosen a number of opening quotes, at most ten, and a close:
  the longest opening run that has one. The literal it returns is what stands between the cursor
  and that close, delimited on both sides by the sigil and the chosen number of quotes, and
  \<open>UnquoteText\<close>, which only sees the literal, strips exactly these delimiters: the same number of
  quotes, neither more nor fewer.
\<close>

theorem sigil_texts_agree:
  assumes "cursor_ok l" "position l < length (input l)" "input l ! position l = b" "b = underscore \<or> b = tilde"
    and "readSigilString b l = ((w, True), l')"
  shows "\<exists>q body.
     sigil_close (input l) (position l + 1) (min MaxConsecutiveQuotes (quote_run (drop (position l + 1) (input l)))) b =
       Some (q, position l')
     \<and> (\<forall>q'. q < q' \<and> q' \<le> min MaxConsecutiveQuotes (quote_run (drop (position l + 1) (input l))) \<longrightarrow>
          findSigilClose (input l) (position l + 1 + q') q' b = None)
     \<and> 1 \<le> q \<and> q \<le> MaxConsecutiveQuotes
     \<and> w = b # replicate q quote @ body @ replicate q quote @ [b] \<and> UnquoteText w = (body, True)
     \<and> w = substr (input l) (position l) (position l') \<and> position l' = position l + length w"
  using readSigilString_agrees [OF assms] .

definition sample_quoted :: gostring where
  "sample_quoted = str ''_'' @ [quote, quote] @ str ''hi'' @ [quote] @ str '' he said'' @ [quote] @ str ''_ x''"

theorem sigil_texts_agree_witness:
  "\<exists>q body w. fst (readSigilString underscore (New sample_quoted)) = (w, True)
     \<and> w = underscore # replicate q quote @ body @ replicate q quote @ [underscore] \<and> UnquoteText w = (body, True)"
proof -
  have read: "readSigilString underscore (New sample_quoted) =
      ((take 16 sample_quoted, True), snd (readSigilString underscore (New sample_quoted)))"
    by (rule prod_eqI) (code_simp, simp)
  have "position (New sample_quoted) < length (input (New sample_quoted))"
    "input (New sample_quoted) ! position (New sample_quoted) = underscore" by code_simp+
  from sigil_texts_agree [OF _ this _ read] New_inv(1) [of sample_quoted]
  show ?thesis using arg_cong [OF read, of fst] by (auto simp: lexer_inv_def)
qed

text \<open>
  A simple text survives quoting and scanning: wherever the cursor stands on \<open>"t"\<close>, for a text
  \<open>t\<close> in any encoding that has no quote and no NUL byte, the scanner returns exactly this literal,
  stops behind it, and \<open>UnquoteText\<close> gives \<open>t\<close> back.
\<close>

theorem simple_text_roundtrip:
  assumes "cursor_ok l" "drop (position l) (input l) = quote # t @ quote # r" "quote \<notin> set t" "0 \<notin> set t"
  shows "fst (lx_readString l) = (quote # t @ [quote], True)
    \<and> drop (position (snd (lx_readString l))) (input (snd (lx_readString l))) = r
    \<and> UnquoteText (fst (fst (lx_readString l))) = (t, True)"
proof -
  obtain l' where l': "lx_readString l = ((quote # t @ [quote], True), l')" "input l' = input l"
      "position l' = position l + length t + 2"
    using lx_readString_text [OF assms] by blast
  have "drop (length t + 2) (drop (position l) (input l)) = r" unfolding assms(2) by simp
  then have "drop (position l') (input l') = r" using l' by (simp add: add.commute add.left_commute)
  moreover have "UnquoteText (quote # t @ [quote]) = (t, True)"
    by (simp add: UnquoteText_def quote_def underscore_def tilde_def substr_def nth_append)
  ultimately show ?thesis using l' by simp
qed

theorem simple_text_roundtrip_witness:
  "fst (lx_readString (New (quote # [0xC3, 0xA9] @ quote # str '' x''))) = (quote # [0xC3, 0xA9] @ [quote], True)"
proof -
  have "drop (position (New (quote # [0xC3, 0xA9] @ quote # str '' x''))) (input (New (quote # [0xC3, 0xA9] @ quote # str '' x''))) =
      quote # [0xC3, 0xA9] @ quote # str '' x''"
    using New_inv(2,3) by simp
  from simple_text_roundtrip [OF _ this] New_inv(1) [of "quote # [0xC3, 0xA9] @ quote # str '' x''"]
  show ?thesis by (simp add: lexer_inv_def quote_def)
qed

text \<open>
  Number literals are bounded: whatever follows the cursor, the literal has at most 100
  characters, all of them digits or one of \<open>. e E + -\<close>; digit separators never reach it.
\<close>

theorem number_literal_bounded:
  "length (fst (readNumber l)) \<le> 100 \<and> list_all number_byte (fst (readNumber l))"
  using readNumber_bounded [of l] by (simp add: MAX_NUMBER_LENGTH_def list_all_iff)

subsection \<open>Where the scanner goes astray\<close>

text \<open>
  A single \<open>#\<close> at the end of a line inside a block comment is read twice, and so is the line break
  behind it: the identifier on line 4 is reported on line 5.
\<close>

definition comment_program :: gostring where
  "comment_program = str ''##'' @ [10] @ str ''#'' @ [10] @ str ''##'' @ [10] @ str ''x''"

lemma comment_line_drift:
  "map (\<lambda>t. (Type t, Line t)) (lex_tokens (\<lambda>_. False) 9 (New comment_program)) =
     [(BLOCK_COMMENT, 5), (NEWLINE, 5), (IDENT, 5), (EOF, 5)]"
  by code_simp

text \<open>
  Identifiers do not update \<open>previousToken\<close>, so after \<open>a..x\<close> the word \<open>append\<close> is still taken for
  a plain identifier although the token before it is \<open>x\<close>.
\<close>

lemma append_after_range:
  "map Type (lex_tokens (\<lambda>_. False) 9 (New (str ''a..x append y''))) = [IDENT, RANGE, IDENT, IDENT, IDENT, EOF]"
  "map Type (lex_tokens (\<lambda>_. False) 9 (New (str ''a+x append y''))) = [IDENT, PLUS, IDENT, APPEND, IDENT, EOF]"
  by code_simp+

text \<open>
  A text that ends in the first column of a line leaves the scanner believing it is at the start of
  that line: four spaces behind the closing quote open a block in the middle of an expression.
\<close>

lemma indent_inside_expression:
  "map Type (lex_tokens (\<lambda>_. False) 9 (New (str ''x='' @ [quote, 10, quote] @ str ''    &y''))) =
     [IDENT, ASSIGN, TEXT, INDENT, CONCAT, IDENT, DEDENT, EOF]"
  by code_simp

subsection \<open>The parser\<close>

text \<open>
  C30. Parsing ends. For every text and every behaviour of the library functions it uses, the parser
  returns a program or stops with a run-time panic, after calls nested at most \<open>4 * n + 3\<close> deep for a
  text of \<open>n\<close> bytes; it never runs for ever. When it returns, it has reached the end of the text
  or an error that stops it (nesting or size beyond the limits).
\<close>

theorem parser_terminates:
  "parse_program L v = Inl Panic \<or>
   (\<exists>program p. parse_program L v = Inr (program, p) \<and>
      (Type (psCurrent p) = EOF \<or> hasCriticalError p))"
proof (cases "parse_program L v")
  case (Inl stop)
  then show ?thesis using parse_program_returns [of L v] by (cases stop) simp_all
next
  case (Inr r)
  then show ?thesis using parse_program_stops [of L v "fst r" "snd r"] by (cases r) auto
qed

text \<open>
  C31. Operators group as documented. When the tokens ahead are those of an operator tree over names,
  parentheses, signs and \<open>not\<close> that is grouped by the documented levels, \<open>^\<close> to the right and all
  other operators to the left, and not both \<open>and\<close> and \<open>or\<close> occur in it, the expression parser returns
  exactly the syntax of this tree, stops on its last token and reports no error. Every operator tree
  has such a form: with parentheses round every operand that is not a name.
\<close>

theorem operators_by_precedence:
  assumes "grouped t" "AND_KW \<notin> Type ` set (toks t) \<or> OR_KW \<notin> Type ` set (toks t)"
    and "ahead L p (toks t) z" "Type z \<in> {EOF, NEWLINE, SEMICOLON, COMMA, RPAREN, RBRACKET, DEFINE}"
    and "psDepth p + nesting t \<le> maxRecursionDepth" "psNodes p + parse_calls t \<le> maxNodes" "length (toks t) < k"
  shows "(\<exists>q. parseExpression L sub k P_LOWEST p = ok (syntax_of t) q \<and> psCurrent q = last (toks t) \<and> psPeek q = z \<and>
      psErrors q = psErrors p \<and> psDepth q = psDepth p \<and> psNodes q = psNodes p + parse_calls t) \<and>
    (\<forall>u. well_typed u \<longrightarrow> grouped (parenthesised u) \<and> syntax_of (parenthesised u) = syntax_of u)"
proof -
  let ?q = "step L (length (toks t) - 1) (parse_calls t) p"
  have z: "precedence_of (Type z) = P_LOWEST" using assms(4) by (auto simp: precedence_of_def precedences_def)
  have "parseExpression L sub k P_LOWEST p = ok (syntax_of t) ?q"
    using parseExpression_tree [OF grouped_fits_lowest [OF assms(1,2)] assms(3) z] assms(5-7) by blast
  moreover have "psCurrent ?q = last (toks t)" "psPeek ?q = z"
    using assms(3) by (simp_all add: step_tokens ahead_nth last_conv_nth)
  ultimately show ?thesis using parenthesised_grouped by auto
qed

definition plain_lib :: parse_lib where
  "plain_lib = \<lparr>plU = (\<lambda>_. False), plParseFloat = (\<lambda>_. None), plParseTime = (\<lambda>_. None), plFormatFloat = (\<lambda>_. [])\<rparr>"

definition sample_sum :: gostring where
  "sample_sum = str ''a + b * c ^ d''"

definition sample_token :: "TokenType \<Rightarrow> string \<Rightarrow> nat \<Rightarrow> Token" where
  "sample_token t v i = \<lparr>Type = t, Literal = str v, Line = 1, Column = i + 1, Position = i\<rparr>"

definition sample_tree :: optree where
  "sample_tree = Node (Leaf (sample_token IDENT ''a'' 0)) (sample_token PLUS ''+'' 2)
     (Node (Leaf (sample_token IDENT ''b'' 4)) (sample_token MULTIPLY ''*'' 6)
       (Node (Leaf (sample_token IDENT ''c'' 8)) (sample_token POWER ''^'' 10) (Leaf (sample_token IDENT ''d'' 12))))"

lemma sample_ahead: "ahead plain_lib (NewParser plain_lib (New sample_sum)) (toks sample_tree) (sample_token EOF '''' 13)"
  by code_simp

theorem operators_by_precedence_witness:
  "\<exists>q. parse_text plain_lib 1 sample_sum = ok (syntax_of sample_tree) q \<and> Type (psPeek q) = EOF \<and> psErrors q = []"
proof -
  let ?p = "NewParser plain_lib (New sample_sum)"
  have t: "grouped sample_tree" "AND_KW \<notin> Type ` set (toks sample_tree) \<or> OR_KW \<notin> Type ` set (toks sample_tree)"
    by (simp_all add: sample_tree_def sample_token_def binary_types_def op_level_def)
  have z: "Type (sample_token EOF '''' 13) \<in> {EOF, NEWLINE, SEMICOLON, COMMA, RPAREN, RBRACKET, DEFINE}"
    by (simp add: sample_token_def)
  have f: "psDepth ?p = 0" "psNodes ?p = 0" "psErrors ?p = []" by (simp_all add: NewParser_def)
  have b: "nesting sample_tree = 4" "parse_calls sample_tree = 4" "length (toks sample_tree) < parse_fuel sample_sum"
    by (simp_all add: sample_tree_def sample_sum_def parse_fuel_def str_def)
  have "Type (sample_token EOF '''' 13) = EOF" by (simp add: sample_token_def)
  moreover have "psDepth ?p + nesting sample_tree \<le> maxRecursionDepth" "psNodes ?p + parse_calls sample_tree \<le> maxNodes"
    by (simp_all add: f b maxRecursionDepth_def maxNodes_def)
  ultimately show ?thesis
    using operators_by_precedence [OF t sample_ahead z _ _ b(3), of "parse_text plain_lib 0"] f(3) by auto
qed

end
