(* ===== verification/Enrollment.thy ===== *)
theory Enrollment
  imports Permissions Versioned_Tree
begin

text \<open>
  The owner of a node and the enrollment of further agents (\<open>internal/service/owner.go\<close>,
  \<open>invite.go\<close>): establishing the owner, issuing one-time invites, redeeming them and registering
  the public key of a new agent. The service works on the tree adapter; the clock, random bytes,
  SHA-256 and the generated key material are arguments. What the operations do is stated on the
  version histories of the tree.
\<close>

subsection \<open>Text and numbers\<close>

text \<open>\<open>hex.DecodeString\<close>.\<close>

definition hex_value :: "u8 \<Rightarrow> nat option" where
  "hex_value c =
     (let n = unat c in
      if 48 \<le> n \<and> n \<le> 57 then Some (n - 48)
      else if 97 \<le> n \<and> n \<le> 102 then Some (n - 87)
      else if 65 \<le> n \<and> n \<le> 70 then Some (n - 55)
      else None)"

fun hex_decode :: "gostring \<Rightarrow> bytes option" where
  "hex_decode [] = Some []"
| "hex_decode [c] = None"
| "hex_decode (c # d # s) =
     (case (hex_value c, hex_value d, hex_decode s) of
        (Some h, Some l, Some bs) \<Rightarrow> Some (of_nat (16 * h + l) # bs)
      | _ \<Rightarrow> None)"

text \<open>The magnitude bytes of a \<open>big.Int\<close>, most significant first, and back.\<close>

fun big_Bytes :: "nat \<Rightarrow> bytes" where
  "big_Bytes n = (if n = 0 then [] else big_Bytes (n div 256) @ [of_nat (n mod 256)])"

declare big_Bytes.simps [simp del]

definition big_SetBytes :: "bytes \<Rightarrow> nat" where
  "big_SetBytes bs = foldl (\<lambda>n b. n * 256 + unat b) 0 bs"

text \<open>
  \<open>fmt.Sscanf(s, "%d", &n)\<close> for an unsigned integer: blanks are skipped, a line break is an error,
  then at least one digit must follow; what stands behind the digits is not looked at.
\<close>

fun skip_blanks :: "(nat \<times> nat) list \<Rightarrow> (nat \<times> nat) list option" where
  "skip_blanks [] = Some []"
| "skip_blanks ((i, r) # rs) =
     (if r = 10 then None else if IsSpace r then skip_blanks rs else Some ((i, r) # rs))"

definition Sscanf_d :: "gostring \<Rightarrow> u64 option" where
  "Sscanf_d s =
     (case skip_blanks (runes s) of
        None \<Rightarrow> None
      | Some rs \<Rightarrow>
          let digits = takeWhile (\<lambda>r. 48 \<le> r \<and> r \<le> 57) (map snd rs);
              n = foldl (\<lambda>n d. n * 10 + (d - 48)) 0 digits
          in if digits = [] \<or> 2 ^ 64 \<le> n then None else Some (of_nat n))"

text \<open>
  \<open>int64(x)\<close> of a float: truncation towards zero; outside the range the result is the one of the
  amd64 conversion instruction.
\<close>

definition int64_of_f64 :: "f64 \<Rightarrow> i64" where
  "int64_of_f64 x =
     (let t = (if f64_neg x then - (f64_mag x div f64_one) else f64_mag x div f64_one)
      in if IsNaN x \<or> IsInf x \<or> t < - (2 ^ 63) \<or> 2 ^ 63 \<le> t then of_int (2 ^ 63) else of_int t)"

subsection \<open>The owner\<close>

definition ownerMarkerPath :: "gostring list" where
  "ownerMarkerPath = [str ''world'', str ''node'', str ''owner'']"

definition systemAuthor :: u64 where
  "systemAuthor = 0"

definition ownerAgentID :: "gostring \<Rightarrow> u64" where
  "ownerAgentID identity = foldl (\<lambda>hash (i, c). hash * 31 + of_nat c + of_nat i) 0 (runes identity)"

datatype enroll_error =
    PassphraseRequired
  | OwnerExists gostring
  | NoIdentity
  | NoDeviceSecret
  | NoKeys
  | OwnerWrite tree_error
  | OwnerGrant permission_error
  | NotAuthorized u64
  | NoRandomness
  | StoreInvite tree_error
  | UnknownInvite
  | MalformedInvite
  | InviteUsed
  | InviteExpired
  | MalformedIssuer
  | ConsumeInvite tree_error
  | IdentityRequired
  | KeyRequired
  | AlreadyRegistered gostring
  | InvalidInvite enroll_error
  | StoreKey tree_error

text \<open>A value in the form the tree stores, and reading one back; absent and undecodable are the same.\<close>

definition storage_value :: "goany \<Rightarrow> Value" where
  "storage_value v = \<lparr>vTypeTag = TypeTag v, vData = Serialize v\<rparr>"

definition decoded :: "tree_error + Value \<Rightarrow> goany option" where
  "decoded r =
     (case r of
        Inl e \<Rightarrow> None
      | Inr v \<Rightarrow>
          if vTypeTag v = TypeNothing then None
          else case DeserializeValue (vTypeTag v) (vData v) of Inl e \<Rightarrow> None | Inr d \<Rightarrow> Some d)"

definition OwnerIdentity :: "(bytes \<Rightarrow> hash) \<Rightarrow> TreeAdapter \<Rightarrow> gostring option \<times> TreeAdapter" where
  "OwnerIdentity sha ta =
     (let (r, ta1) = ta_Read sha ta ownerMarkerPath
      in (case decoded r of Some (Text t) \<Rightarrow> if t = [] then None else Some t | _ \<Rightarrow> None, ta1))"

definition OwnerAgentID :: "(bytes \<Rightarrow> hash) \<Rightarrow> TreeAdapter \<Rightarrow> u64 option \<times> TreeAdapter" where
  "OwnerAgentID sha ta = (let (identity, ta1) = OwnerIdentity sha ta in (map_option ownerAgentID identity, ta1))"

definition agentPath :: "u64 \<Rightarrow> gostring list" where
  "agentPath i = [str ''world'', str ''agent'', dec (unat i)]"

definition publicKeyPath :: "u64 \<Rightarrow> gostring list" where
  "publicKeyPath i = agentPath i @ [str ''keys'', str ''public'']"

definition privateKeyPath :: "u64 \<Rightarrow> gostring list" where
  "privateKeyPath i = agentPath i @ [str ''keys'', str ''private'']"

definition LookupAgentPublicKey :: "(bytes \<Rightarrow> hash) \<Rightarrow> TreeAdapter \<Rightarrow> gostring \<Rightarrow> nat option \<times> TreeAdapter" where
  "LookupAgentPublicKey sha ta identity =
     (let (r, ta1) = ta_Read sha ta (publicKeyPath (ownerAgentID identity))
      in (case decoded r of
            Some (Text t) \<Rightarrow>
              if t = [] then None else map_option big_SetBytes (hex_decode t)
          | _ \<Rightarrow> None, ta1))"

text \<open>The loop that writes a list of leaves, stopping at the first failure; \<open>clock k\<close> is the time of the \<open>k\<close>-th write.\<close>

fun write_leaves ::
  "(bytes \<Rightarrow> hash) \<Rightarrow> (nat \<Rightarrow> i64) \<Rightarrow> nat \<Rightarrow> TreeAdapter \<Rightarrow> (gostring list \<times> goany) list \<Rightarrow> (tree_error + unit) \<times> TreeAdapter" where
  "write_leaves sha clock k ta [] = (Inr (), ta)"
| "write_leaves sha clock k ta ((path, v) # ws) =
     (case ta_Write sha (clock k) ta path (storage_value v) systemAuthor of
        (Inl e, ta1) \<Rightarrow> (Inl e, ta1)
      | (Inr u, ta1) \<Rightarrow> write_leaves sha clock (k + 1) ta1 ws)"

text \<open>
  \<open>InitOwner\<close>. The generated identity, the device secret and the key material derived from the
  passphrase and the secret come from outside: \<open>keys\<close> gives the public key and the encrypted private key.
\<close>

definition InitOwner ::
  "(bytes \<Rightarrow> hash) \<Rightarrow> (nat \<Rightarrow> i64) \<Rightarrow> gostring option \<Rightarrow> gostring option \<Rightarrow>
   (gostring \<Rightarrow> gostring \<Rightarrow> gostring \<Rightarrow> (nat \<times> bytes) option) \<Rightarrow> TreeAdapter \<Rightarrow> gostring \<Rightarrow>
   (enroll_error + gostring) \<times> TreeAdapter" where
  "InitOwner sha clock generated deviceSecret keys ta passphrase =
     (if passphrase = [] then (Inl PassphraseRequired, ta)
      else case OwnerIdentity sha ta of
        (Some existing, ta1) \<Rightarrow> (Inl (OwnerExists existing), ta1)
      | (None, ta1) \<Rightarrow>
          (case generated of
             None \<Rightarrow> (Inl NoIdentity, ta1)
           | Some identity \<Rightarrow>
               (case deviceSecret of
                  None \<Rightarrow> (Inl NoDeviceSecret, ta1)
                | Some secret \<Rightarrow>
                    (case keys identity passphrase secret of
                       None \<Rightarrow> (Inl NoKeys, ta1)
                     | Some (public, encryptedPrivate) \<Rightarrow>
                         let i = ownerAgentID identity in
                         (case write_leaves sha clock 0 ta1
                                [(publicKeyPath i, Text (hex (big_Bytes public))),
                                 (privateKeyPath i, Text (hex encryptedPrivate)),
                                 (ownerMarkerPath, Text identity)] of
                            (Inl e, ta2) \<Rightarrow> (Inl (OwnerWrite e), ta2)
                          | (Inr u, ta2) \<Rightarrow>
                              (case SetPermission sha (clock 3) ta2 [str ''world'', str ''agent''] GrantPermission
                                     (Text (str ''agent-'' @ dec (unat i))) systemAuthor of
                                 (Inl e, ta3) \<Rightarrow> (Inl (OwnerGrant e), ta3)
                               | (Inr u, ta3) \<Rightarrow> (Inr identity, ta3)))))))"

subsection \<open>Invites\<close>

definition invitesBasePath :: "gostring list" where
  "invitesBasePath = [str ''world'', str ''node'', str ''invites'']"

text \<open>24 hours, in microseconds.\<close>

definition inviteTTL :: i64 where
  "inviteTTL = 86400000000"

definition hashInviteToken :: "(bytes \<Rightarrow> hash) \<Rightarrow> gostring \<Rightarrow> gostring" where
  "hashInviteToken sha token = hex (sha token)"

definition invitePath :: "gostring \<Rightarrow> gostring list \<Rightarrow> gostring list" where
  "invitePath tokenHash leaf = (invitesBasePath @ [tokenHash]) @ leaf"

definition CanIssueInvites :: "(bytes \<Rightarrow> hash) \<Rightarrow> TreeAdapter \<Rightarrow> u64 \<Rightarrow> bool" where
  "CanIssueInvites sha ta agentID =
     CanGrant sha ta \<lparr>agIdentity = str ''agent-'' @ dec (unat agentID), agStamp = [], agAgentID = agentID\<rparr>
       [str ''world'', str ''agent'']"

definition CreateInvite ::
  "(bytes \<Rightarrow> hash) \<Rightarrow> (nat \<Rightarrow> i64) \<Rightarrow> bytes option \<Rightarrow> TreeAdapter \<Rightarrow> u64 \<Rightarrow> (enroll_error + gostring) \<times> TreeAdapter" where
  "CreateInvite sha clock random ta issuerAgentID =
     (if \<not> CanIssueInvites sha ta issuerAgentID then (Inl (NotAuthorized issuerAgentID), ta)
      else case random of
        None \<Rightarrow> (Inl NoRandomness, ta)
      | Some raw \<Rightarrow>
          let token = hex raw;
              tokenHash = hashInviteToken sha token;
              expires = clock 0 + inviteTTL
          in (case write_leaves sha clock 1 ta
                     [(invitePath tokenHash [str ''issuer''], Text (dec (unat issuerAgentID))),
                      (invitePath tokenHash [str ''used''], Boolean False),
                      (invitePath tokenHash [str ''expires''], Number (f64_of_int (sint expires)))] of
                (Inl e, ta1) \<Rightarrow> (Inl (StoreInvite e), ta1)
              | (Inr u, ta1) \<Rightarrow> (Inr token, ta1)))"

definition readInviteLeaf :: "(bytes \<Rightarrow> hash) \<Rightarrow> TreeAdapter \<Rightarrow> gostring \<Rightarrow> gostring \<Rightarrow> goany option \<times> TreeAdapter" where
  "readInviteLeaf sha ta tokenHash leaf =
     (let (r, ta1) = ta_Read sha ta (invitePath tokenHash [leaf]) in (decoded r, ta1))"

text \<open>The checks of \<open>VerifyAndConsumeInvite\<close>: everything before the write of the used flag.\<close>

definition verifyInvite ::
  "(bytes \<Rightarrow> hash) \<Rightarrow> i64 \<Rightarrow> TreeAdapter \<Rightarrow> gostring \<Rightarrow> (enroll_error + u64) \<times> TreeAdapter" where
  "verifyInvite sha now ta tokenHash =
     (case readInviteLeaf sha ta tokenHash (str ''used'') of
        (None, ta1) \<Rightarrow> (Inl UnknownInvite, ta1)
      | (Some (Boolean used), ta1) \<Rightarrow>
          if used then (Inl InviteUsed, ta1)
          else (case readInviteLeaf sha ta1 tokenHash (str ''expires'') of
             (Some (Number expires), ta2) \<Rightarrow>
               if int64_of_f64 expires <s now then (Inl InviteExpired, ta2)
               else (case readInviteLeaf sha ta2 tokenHash (str ''issuer'') of
                  (Some (Text issuer), ta3) \<Rightarrow>
                    (case Sscanf_d issuer of
                       None \<Rightarrow> (Inl MalformedIssuer, ta3)
                     | Some issuerAgentID \<Rightarrow> (Inr issuerAgentID, ta3))
                | (_, ta3) \<Rightarrow> (Inl MalformedInvite, ta3))
           | (_, ta2) \<Rightarrow> (Inl MalformedInvite, ta2))
      | (_, ta1) \<Rightarrow> (Inl MalformedInvite, ta1))"

text \<open>The write of the used flag that ends it.\<close>

definition consumeInvite ::
  "(bytes \<Rightarrow> hash) \<Rightarrow> i64 \<Rightarrow> TreeAdapter \<Rightarrow> gostring \<Rightarrow> u64 \<Rightarrow> (enroll_error + u64) \<times> TreeAdapter" where
  "consumeInvite sha now ta tokenHash issuerAgentID =
     (case ta_Write sha now ta (invitePath tokenHash [str ''used'']) (storage_value (Boolean True)) systemAuthor of
        (Inl e, ta1) \<Rightarrow> (Inl (ConsumeInvite e), ta1)
      | (Inr u, ta1) \<Rightarrow> (Inr issuerAgentID, ta1))"

definition VerifyAndConsumeInvite ::
  "(bytes \<Rightarrow> hash) \<Rightarrow> (nat \<Rightarrow> i64) \<Rightarrow> TreeAdapter \<Rightarrow> gostring \<Rightarrow> (enroll_error + u64) \<times> TreeAdapter" where
  "VerifyAndConsumeInvite sha clock ta token =
     (let tokenHash = hashInviteToken sha token in
      case verifyInvite sha (clock 0) ta tokenHash of
        (Inl e, ta1) \<Rightarrow> (Inl e, ta1)
      | (Inr issuerAgentID, ta1) \<Rightarrow> consumeInvite sha (clock 1) ta1 tokenHash issuerAgentID)"

definition RegisterAgent ::
  "(bytes \<Rightarrow> hash) \<Rightarrow> (nat \<Rightarrow> i64) \<Rightarrow> TreeAdapter \<Rightarrow> gostring \<Rightarrow> nat option \<Rightarrow> gostring \<Rightarrow>
     (enroll_error + u64) \<times> TreeAdapter" where
  "RegisterAgent sha clock ta identity publicKey token =
     (if identity = [] then (Inl IdentityRequired, ta)
      else case publicKey of
        None \<Rightarrow> (Inl KeyRequired, ta)
      | Some key \<Rightarrow>
          (case LookupAgentPublicKey sha ta identity of
             (Some existing, ta1) \<Rightarrow> (Inl (AlreadyRegistered identity), ta1)
           | (None, ta1) \<Rightarrow>
               (case VerifyAndConsumeInvite sha clock ta1 token of
                  (Inl e, ta2) \<Rightarrow> (Inl (InvalidInvite e), ta2)
                | (Inr issuer, ta2) \<Rightarrow>
                    let i = ownerAgentID identity in
                    (case ta_Write sha (clock 2) ta2 (publicKeyPath i) (storage_value (Text (hex (big_Bytes key)))) systemAuthor of
                       (Inl e, ta3) \<Rightarrow> (Inl (StoreKey e), ta3)
                     | (Inr u, ta3) \<Rightarrow> (Inr i, ta3)))))"

end
