(* ===== verification/Enrollment_Correct.thy ===== *)
theory Enrollment_Correct
  imports Enrollment
begin

text \<open>
  What enrollment does, on the version histories of the tree. The adapter is a versioned tree, so
  every operation of the service answers as its specification on histories; the conversions it
  goes through (decimal and hexadecimal text, floats, big integers) lose nothing.
\<close>

subsection \<open>Conversions\<close>

lemma unat_u8_less: "unat (b :: u8) < 256"
  by (rule order_less_le_trans [OF unsigned_less]) simp

lemma unat_u64_less: "unat (w :: u64) < 2 ^ 64"
  by (rule order_less_le_trans [OF unsigned_less]) simp

lemma hex_value_digit: "n < 16 \<Longrightarrow> hex_value (hex_digit n) = Some n"
  by (auto simp: hex_value_def hex_digit_def Let_def unat_of_nat take_bit_eq_mod)

lemma hex_decode_hex: "hex_decode (hex bs) = Some bs"
proof (induction bs)
  case (Cons b bs)
  have "unat b div 16 < 16" using unat_u8_less [of b] by simp
  then show ?case
    using Cons by (simp add: hex_def hex_value_digit word_unat_eq_iff unat_of_nat take_bit_eq_mod)
qed (simp add: hex_def)

lemma hex_ascii: "\<forall>c \<in> set (hex bs). unat c < 0x80"
proof -
  have "unat (hex_digit n) < 0x80" if "n < 16" for n
    using that by (auto simp: hex_digit_def unat_of_nat take_bit_eq_mod)
  moreover have "unat b div 16 < 16" for b :: u8 using unat_u8_less [of b] by simp
  ultimately show ?thesis by (auto simp: hex_def)
qed

lemma hex_eq_Nil: "hex bs = [] \<longleftrightarrow> bs = []"
  using length_hex [of bs] by (cases bs) (auto simp: hex_def)

lemma big_SetBytes_Bytes: "big_SetBytes (big_Bytes n) = n"
proof (induction n rule: big_Bytes.induct)
  case (1 n)
  show ?case
  proof (cases "n = 0")
    case False
    then have "big_SetBytes (big_Bytes (n div 256)) = n div 256" using 1 by simp
    then show ?thesis
      using False by (simp add: big_Bytes.simps [of n] big_SetBytes_def unat_of_nat take_bit_eq_mod)
  qed (simp add: big_Bytes.simps big_SetBytes_def)
qed

lemma big_Bytes_eq_Nil: "big_Bytes n = [] \<longleftrightarrow> n = 0"
  by (subst big_Bytes.simps) simp

lemma length_big_Bytes: "n < 256 ^ k \<Longrightarrow> length (big_Bytes n) \<le> k"
proof (induction k arbitrary: n)
  case (Suc k)
  then have "n div 256 < 256 ^ k" by (simp add: less_mult_imp_div_less mult.commute)
  then show ?case using Suc.IH by (subst big_Bytes.simps) auto
qed (simp add: big_Bytes.simps)

lemma length_dec: "n < 10 ^ Suc k \<Longrightarrow> length (dec n) \<le> Suc k"
proof (induction k arbitrary: n)
  case 0
  then show ?case by (subst dec.simps) simp
next
  case (Suc k)
  then have "n div 10 < 10 ^ Suc k" by (simp add: less_mult_imp_div_less mult.commute)
  then have "length (dec (n div 10)) \<le> Suc k" using Suc.IH by blast
  then show ?case by (subst dec.simps) simp
qed

lemma length_dec_u64: "length (dec (unat (w :: u64))) \<le> 20"
proof -
  have "unat w < 10 ^ Suc 19" by (rule order_less_le_trans [OF unat_u64_less]) simp
  then show ?thesis using length_dec [of "unat w" 19] by simp
qed

lemma text_ok_dec: "text_ok (dec (unat (w :: u64)))"
proof -
  have "utf8_valid (dec (unat w))"
    using dec_digits [of "unat w"] by (intro utf8_valid_ascii) auto
  then show ?thesis using length_dec_u64 [of w] by (simp add: text_ok_def)
qed

lemma text_ok_hex: "2 * length bs + 4 < 2 ^ 32 \<Longrightarrow> text_ok (hex bs)"
  using hex_ascii utf8_valid_ascii by (simp add: text_ok_def)

lemma runes_from_ascii:
  "\<forall>b \<in> set s. unat b < 0x80 \<Longrightarrow> map snd (runes_from i s) = map unat s"
proof (induction s arbitrary: i)
  case (Cons b s)
  then have "utf8_width (b # s) = Some 1" by (simp add: utf8_width_def utf8_lead_def)
  then show ?case using Cons by (subst runes_from.simps) (simp add: rune_at_def)
qed (simp add: runes_from.simps)

lemma skip_blanks_none: "rs \<noteq> [] \<Longrightarrow> \<not> IsSpace (snd (hd rs)) \<Longrightarrow> skip_blanks rs = Some rs"
  by (cases rs rule: skip_blanks.cases) (auto simp: IsSpace_def)

lemma Sscanf_d_dec: "Sscanf_d (dec (unat w)) = Some w"
proof -
  let ?s = "dec (unat w)" and ?rs = "runes (dec (unat w))"
  have digits: "\<forall>c \<in> set ?s. 48 \<le> unat c \<and> unat c < 58" by (rule dec_digits)
  then have rs: "map snd ?rs = map unat ?s"
    using runes_from_ascii [of ?s 0] by (force simp: runes_def)
  have "?rs \<noteq> []" using rs dec_not_Nil [of "unat w"] by auto
  moreover have "snd (hd ?rs) = unat (hd ?s)"
    using rs calculation dec_not_Nil [of "unat w"] by (metis hd_map)
  moreover have "\<not> IsSpace (unat (hd ?s))"
    using digits dec_not_Nil [of "unat w"] hd_in_set by (fastforce simp: IsSpace_def)
  ultimately have skip: "skip_blanks ?rs = Some ?rs" by (simp add: skip_blanks_none)
  have tw: "takeWhile (\<lambda>r. 48 \<le> r \<and> r \<le> 57) (map unat ?s) = map unat ?s"
    using digits by (auto simp: takeWhile_eq_all_conv)
  have val: "foldl (\<lambda>n d. n * 10 + (d - 48)) 0 (map unat ?s) = unat w"
    using undec_dec [of "unat w"] by (simp add: undec_def foldl_map)
  have "(2 :: nat) ^ 64 = 18446744073709551616" by simp
  then have lt: "\<not> 18446744073709551616 \<le> unat w" using unat_u64_less [of w] by linarith
  show ?thesis
    using dec_not_Nil [of "unat w"] by (simp add: Sscanf_d_def rs Let_def skip tw val lt)
qed

lemma int64_of_f64_exact:
  assumes "0 \<le> n" "n < 2 ^ 53"
  shows "int64_of_f64 (f64_of_int n) = of_int n"
proof -
  let ?x = "f64_of_int n"
  note u = f64_of_int_exact [OF assms]
  have one: "0 < f64_one" by (simp add: f64_one_def)
  have mag: "0 \<le> f64_mag ?x" by (simp add: f64_mag_def f64_man_def)
  have t: "(if f64_neg ?x then - (f64_mag ?x div f64_one) else f64_mag ?x div f64_one) = n"
  proof (cases "f64_neg ?x")
    case True
    then have "f64_mag ?x = - (n * f64_one)" using u(1) by (simp add: f64_units_def)
    moreover have "0 \<le> n * f64_one" using assms one by simp
    ultimately have "f64_mag ?x = 0" "n * f64_one = 0" using mag by linarith+
    then show ?thesis using one by simp
  next
    case False
    then show ?thesis using u(1) one by (simp add: f64_units_def)
  qed
  have "\<not> IsInf ?x"
  proof
    assume inf: "IsInf ?x"
    then have "f64_mag ?x = 2 ^ 2098" by (simp add: IsInf_def f64_mag_def flip: power_add)
    then have "\<bar>f64_units ?x\<bar> = 2 ^ 2098" by (simp add: f64_units_def)
    moreover have "\<bar>f64_units ?x\<bar> < 2 ^ 53 * 2 ^ 1074" using u(1) assms one by (simp add: f64_one_def abs_mult)
    ultimately have "(2 :: int) ^ 2098 < 2 ^ 1127" by (simp flip: power_add)
    then show False by (simp only: power_strict_increasing_iff)
  qed
  then show ?thesis using t u(2) assms by (simp add: int64_of_f64_def Let_def)
qed

subsection \<open>The adapter as a versioned tree\<close>

interpretation vadapter: versioned_tree "ta_WriteReportingChange sha" "ta_Read sha"
  "\<lambda>ta. tree_rep sha (taTree ta)" "\<lambda>ta. tree_ok sha (taTree ta)" for sha
proof
  fix s :: TreeAdapter and H path v L n now author
  assume "tree_rep sha (taTree s) H" "path \<noteq> []" "tree_ok sha (taTree s) (v # textValue (compositePath path) # L) (Suc n)"
  from vtree.put_rep [OF this, of now author]
  show "\<exists>s'. ta_WriteReportingChange sha now s path v author = (Inr (newest (H (compositePath path)) \<noteq> Some v), s')
      \<and> tree_rep sha (taTree s') (write_spec H (compositePath path) (now, author, v)) \<and> tree_ok sha (taTree s') L n"
    by (auto simp: ta_WriteReportingChange_def)
next
  fix s :: TreeAdapter and H path L n
  assume "tree_rep sha (taTree s) H" "path \<noteq> []" "tree_ok sha (taTree s) (textValue (compositePath path) # L) n"
  from vtree.get_rep [OF this]
  show "\<exists>s'. ta_Read sha s path = (read_spec (H (compositePath path)), s') \<and> tree_rep sha (taTree s') H \<and> tree_ok sha (taTree s') L n"
    by (auto simp: ta_Read_def)
qed (rule vtree.ok_less)

text \<open>A service whose tree holds the histories \<open>H\<close>, with room for the values \<open>L\<close> and \<open>n\<close> more records.\<close>

definition ready :: "(bytes \<Rightarrow> hash) \<Rightarrow> TreeAdapter \<Rightarrow> history \<Rightarrow> Value list \<Rightarrow> nat \<Rightarrow> bool" where
  "ready sha ta H L n \<longleftrightarrow> tree_rep sha (taTree ta) H \<and> tree_ok sha (taTree ta) L n"

definition same_meta :: "TreeAdapter \<Rightarrow> TreeAdapter \<Rightarrow> bool" where
  "same_meta ta ta' \<longleftrightarrow> taInstances ta' = taInstances ta \<and> taValues ta' = taValues ta"

lemma ready_less: "ready sha ta H L (Suc n) \<Longrightarrow> ready sha ta H L n"
  using vtree.ok_less by (auto simp: ready_def)

lemma ready_drop: "ready sha ta H (x @ L) n \<Longrightarrow> ready sha ta H L n"
  by (auto simp: ready_def tree_ok_def vs_fits_def intro: inj_on_subset)

lemma ta_Read_ready:
  assumes "ready sha ta H (textValue (compositePath path) # L) n" "path \<noteq> []"
  shows "\<exists>ta'. ta_Read sha ta path = (read_spec (H (compositePath path)), ta') \<and> ready sha ta' H L n \<and> same_meta ta ta'"
proof -
  obtain ta' where "ta_Read sha ta path = (read_spec (H (compositePath path)), ta')" "ready sha ta' H L n"
    using vadapter.get_rep [of sha ta H path L n] assms by (auto simp: ready_def)
  then show ?thesis by (auto simp: ta_Read_def same_meta_def split: prod.splits)
qed

lemma ta_Write_ready:
  assumes "ready sha ta H (v # textValue (compositePath path) # L) (Suc n)" "path \<noteq> []"
  shows "\<exists>ta'. ta_Write sha now ta path v author = (Inr (), ta')
    \<and> ready sha ta' (write_spec H (compositePath path) (now, author, v)) L n \<and> same_meta ta ta'"
proof -
  obtain t where "WriteReportingChange sha now (taTree ta) path v author = (Inr (newest (H (compositePath path)) \<noteq> Some v), t)"
      "tree_rep sha t (write_spec H (compositePath path) (now, author, v))" "tree_ok sha t L n"
    using vtree.put_rep [of sha "taTree ta" H path v L n now author] assms by (auto simp: ready_def)
  then show ?thesis by (simp add: ta_Write_def tree_Write_def ready_def same_meta_def)
qed

subsection \<open>Leaves\<close>

text \<open>The decoded value at a path.\<close>

definition leaf :: "history \<Rightarrow> gostring list \<Rightarrow> goany option" where
  "leaf H path = decoded (read_spec (H (compositePath path)))"

lemma newest_write_spec: "newest (write_spec H p (t, a, v) q) = (if q = p then Some v else newest (H q))"
  by (auto simp: write_spec_def newest_def)

lemma leaf_write:
  assumes "mbl_ok v" "TypeTag v \<noteq> TypeNothing"
  shows "leaf (write_spec H (compositePath p) (t, a, storage_value v)) p = Some v"
  using assms Deserialize_Serialize [OF assms(1)]
  by (simp add: leaf_def read_spec_def newest_write_spec decoded_def storage_value_def)

lemma leaf_write_other:
  "compositePath q \<noteq> compositePath p \<Longrightarrow> leaf (write_spec H (compositePath p) w) q = leaf H q"
  by (cases w) (simp add: leaf_def read_spec_def newest_write_spec)

text \<open>The budget of a list of leaves to write, and the histories after writing them.\<close>

definition leaf_values :: "(gostring list \<times> goany) list \<Rightarrow> Value list" where
  "leaf_values ws = concat (map (\<lambda>(p, v). [storage_value v, textValue (compositePath p)]) ws)"

fun leaves_spec :: "(nat \<Rightarrow> i64) \<Rightarrow> nat \<Rightarrow> history \<Rightarrow> (gostring list \<times> goany) list \<Rightarrow> history" where
  "leaves_spec clock k H [] = H"
| "leaves_spec clock k H ((p, v) # ws) =
     leaves_spec clock (k + 1) (write_spec H (compositePath p) (clock k, systemAuthor, storage_value v)) ws"

lemma same_meta_trans: "same_meta a b \<Longrightarrow> same_meta b c \<Longrightarrow> same_meta a c" "same_meta a a"
  by (simp_all add: same_meta_def)

lemma write_leaves_ready:
  assumes "ready sha ta H (leaf_values ws @ L) (length ws + n)" "\<forall>(p, v) \<in> set ws. p \<noteq> []"
  shows "\<exists>ta'. write_leaves sha clock k ta ws = (Inr (), ta') \<and> ready sha ta' (leaves_spec clock k H ws) L n \<and> same_meta ta ta'"
  using assms
proof (induction ws arbitrary: ta H k)
  case Nil
  then show ?case by (simp add: leaf_values_def same_meta_trans)
next
  case (Cons w ws)
  obtain p v where w: "w = (p, v)" by (cases w)
  then obtain ta1 where ta1: "ta_Write sha (clock k) ta p (storage_value v) systemAuthor = (Inr (), ta1)"
      "ready sha ta1 (write_spec H (compositePath p) (clock k, systemAuthor, storage_value v)) (leaf_values ws @ L) (length ws + n)"
      "same_meta ta ta1"
    using ta_Write_ready [of sha ta H "storage_value v" p "leaf_values ws @ L" "length ws + n" "clock k" systemAuthor] Cons.prems
    by (auto simp: leaf_values_def)
  then show ?case
    using Cons.IH [OF ta1(2), of "k + 1"] Cons.prems(2) w same_meta_trans(1) [OF ta1(3)] by auto
qed

lemma readInviteLeaf_ready:
  assumes "ready sha ta H (textValue (compositePath (invitePath h [x])) # L) n"
  shows "\<exists>ta'. readInviteLeaf sha ta h x = (leaf H (invitePath h [x]), ta') \<and> ready sha ta' H L n \<and> same_meta ta ta'"
  using ta_Read_ready [OF assms] by (auto simp: readInviteLeaf_def leaf_def invitePath_def)

subsection \<open>Redeeming an invite\<close>

definition verify_spec :: "history \<Rightarrow> i64 \<Rightarrow> gostring \<Rightarrow> enroll_error + u64" where
  "verify_spec H now h =
     (case leaf H (invitePath h [str ''used'']) of
        None \<Rightarrow> Inl UnknownInvite
      | Some (Boolean used) \<Rightarrow>
          if used then Inl InviteUsed
          else (case leaf H (invitePath h [str ''expires'']) of
             Some (Number expires) \<Rightarrow>
               if int64_of_f64 expires <s now then Inl InviteExpired
               else (case leaf H (invitePath h [str ''issuer'']) of
                  Some (Text issuer) \<Rightarrow>
                    (case Sscanf_d issuer of None \<Rightarrow> Inl MalformedIssuer | Some i \<Rightarrow> Inr i)
                | _ \<Rightarrow> Inl MalformedInvite)
           | _ \<Rightarrow> Inl MalformedInvite)
      | _ \<Rightarrow> Inl MalformedInvite)"

definition verify_values :: "gostring \<Rightarrow> Value list" where
  "verify_values h = map (\<lambda>x. textValue (compositePath (invitePath h [x]))) [str ''used'', str ''expires'', str ''issuer'']"

lemma verifyInvite_ready:
  assumes "ready sha ta H (verify_values h @ L) n"
  shows "\<exists>ta'. verifyInvite sha now ta h = (verify_spec H now h, ta') \<and> ready sha ta' H L n \<and> same_meta ta ta'"
proof -
  let ?t = "\<lambda>x. textValue (compositePath (invitePath h [x]))"
  have r: "ready sha ta H (?t (str ''used'') # ?t (str ''expires'') # ?t (str ''issuer'') # L) n"
    using assms by (simp add: verify_values_def)
  obtain ta1 where ta1: "readInviteLeaf sha ta h (str ''used'') = (leaf H (invitePath h [str ''used'']), ta1)"
      "ready sha ta1 H (?t (str ''expires'') # ?t (str ''issuer'') # L) n" "same_meta ta ta1"
    using readInviteLeaf_ready [OF r] by blast
  obtain ta2 where ta2: "readInviteLeaf sha ta1 h (str ''expires'') = (leaf H (invitePath h [str ''expires'']), ta2)"
      "ready sha ta2 H (?t (str ''issuer'') # L) n" "same_meta ta1 ta2"
    using readInviteLeaf_ready [OF ta1(2)] by blast
  obtain ta3 where ta3: "readInviteLeaf sha ta2 h (str ''issuer'') = (leaf H (invitePath h [str ''issuer'']), ta3)"
      "ready sha ta3 H L n" "same_meta ta2 ta3"
    using readInviteLeaf_ready [OF ta2(2)] by blast
  have d1: "ready sha ta1 H L n" using ready_drop [of sha ta1 H "[?t (str ''expires''), ?t (str ''issuer'')]" L n] ta1(2) by simp
  have d2: "ready sha ta2 H L n" using ready_drop [of sha ta2 H "[?t (str ''issuer'')]" L n] ta2(2) by simp
  have m2: "same_meta ta ta2" using ta1(3) ta2(3) same_meta_trans(1) by blast
  have m3: "same_meta ta ta3" using m2 ta3(3) same_meta_trans(1) by blast
  let ?e = "leaf H (invitePath h [str ''expires''])" and ?i = "leaf H (invitePath h [str ''issuer''])"
  consider (unknown) "leaf H (invitePath h [str ''used'']) = None"
    | (flag) used where "leaf H (invitePath h [str ''used'']) = Some (Boolean used)"
    | (other) v where "leaf H (invitePath h [str ''used'']) = Some v" "\<forall>b. v \<noteq> Boolean b" by fastforce
  then show ?thesis
  proof cases
    case flag
    consider "used" | (expires) x where "\<not> used" "?e = Some (Number x)" | "\<not> used" "\<And>x. ?e \<noteq> Some (Number x)" by blast
    then show ?thesis
    proof cases
      case expires
      consider "int64_of_f64 x <s now" | (issuer) t where "\<not> int64_of_f64 x <s now" "?i = Some (Text t)"
        | "\<not> int64_of_f64 x <s now" "\<And>t. ?i \<noteq> Some (Text t)" by blast
      then show ?thesis
      proof cases
        case issuer
        then show ?thesis
          using flag expires ta1 ta2 ta3 m3 by (simp add: verifyInvite_def verify_spec_def split: option.split)
      next
        case 3
        then show ?thesis
          using 3 flag expires ta1 ta2 ta3 m3 by (cases ?i; cases "the ?i") (simp_all add: verifyInvite_def verify_spec_def)
      qed (use flag expires ta1 ta2 d2 m2 in \<open>simp add: verifyInvite_def verify_spec_def\<close>)
    next
      case 3
      then show ?thesis
        using flag ta1 ta2 d2 m2 by (cases ?e; cases "the ?e") (simp_all add: verifyInvite_def verify_spec_def)
    qed (use flag ta1 d1 in \<open>simp add: verifyInvite_def verify_spec_def\<close>)
  next
    case other
    then show ?thesis using ta1 d1 by (cases v) (auto simp: verifyInvite_def verify_spec_def)
  qed (use ta1 d1 in \<open>simp add: verifyInvite_def verify_spec_def\<close>)
qed

text \<open>A redemption, then, takes the flag exactly when the checks succeed.\<close>

definition consume_values :: "gostring \<Rightarrow> Value list" where
  "consume_values h = verify_values h @ [storage_value (Boolean True), textValue (compositePath (invitePath h [str ''used'']))]"

definition consumed :: "history \<Rightarrow> gostring \<Rightarrow> i64 \<Rightarrow> history" where
  "consumed H h now = write_spec H (compositePath (invitePath h [str ''used''])) (now, systemAuthor, storage_value (Boolean True))"

lemma consumeInvite_ready:
  assumes "ready sha ta H (storage_value (Boolean True) # textValue (compositePath (invitePath h [str ''used''])) # L) (Suc n)"
  shows "\<exists>ta'. consumeInvite sha now ta h i = (Inr i, ta') \<and> ready sha ta' (consumed H h now) L n \<and> same_meta ta ta'"
  using ta_Write_ready [OF assms, of now systemAuthor] by (auto simp: consumeInvite_def consumed_def invitePath_def)

lemma VerifyAndConsumeInvite_ready:
  assumes "ready sha ta H (consume_values (hashInviteToken sha token) @ L) (Suc n)"
  shows "\<exists>ta'. VerifyAndConsumeInvite sha clock ta token = (verify_spec H (clock 0) (hashInviteToken sha token), ta')
    \<and> ready sha ta' (case verify_spec H (clock 0) (hashInviteToken sha token) of
         Inl e \<Rightarrow> H | Inr i \<Rightarrow> consumed H (hashInviteToken sha token) (clock 1)) L n \<and> same_meta ta ta'"
proof -
  let ?h = "hashInviteToken sha token"
  let ?c = "[storage_value (Boolean True), textValue (compositePath (invitePath ?h [str ''used'']))]"
  obtain ta1 where ta1: "verifyInvite sha (clock 0) ta ?h = (verify_spec H (clock 0) ?h, ta1)"
      "ready sha ta1 H (?c @ L) (Suc n)" "same_meta ta ta1"
    using verifyInvite_ready [of sha ta H ?h "?c @ L" "Suc n" "clock 0"] assms by (auto simp: consume_values_def)
  show ?thesis
  proof (cases "verify_spec H (clock 0) ?h")
    case (Inl e)
    then show ?thesis
      using ta1 ready_less [OF ready_drop [OF ta1(2)]] by (simp add: VerifyAndConsumeInvite_def)
  next
    case (Inr i)
    obtain ta2 where "consumeInvite sha (clock 1) ta1 ?h i = (Inr i, ta2)" "ready sha ta2 (consumed H ?h (clock 1)) L n" "same_meta ta1 ta2"
      using consumeInvite_ready [of sha ta1 H ?h L n "clock 1" i] ta1(2) by auto
    then show ?thesis using ta1 Inr same_meta_trans(1) by (auto simp: VerifyAndConsumeInvite_def)
  qed
qed

lemma verify_consumed: "verify_spec (consumed H h now) now' h = Inl InviteUsed"
  by (simp add: verify_spec_def consumed_def leaf_write TypeBoolean_def TypeNothing_def)

subsection \<open>Issuing an invite\<close>

definition invite_leaves :: "gostring \<Rightarrow> u64 \<Rightarrow> i64 \<Rightarrow> (gostring list \<times> goany) list" where
  "invite_leaves h issuer expires =
     [(invitePath h [str ''issuer''], Text (dec (unat issuer))),
      (invitePath h [str ''used''], Boolean False),
      (invitePath h [str ''expires''], Number (f64_of_int (sint expires)))]"

lemma CreateInvite_ready:
  assumes "CanIssueInvites sha ta issuer"
    and "ready sha ta H (leaf_values (invite_leaves (hashInviteToken sha (hex raw)) issuer (clock 0 + inviteTTL)) @ L) (3 + n)"
  shows "\<exists>ta'. CreateInvite sha clock (Some raw) ta issuer = (Inr (hex raw), ta')
    \<and> ready sha ta' (leaves_spec clock 1 H (invite_leaves (hashInviteToken sha (hex raw)) issuer (clock 0 + inviteTTL))) L n
    \<and> same_meta ta ta'"
proof -
  let ?ws = "invite_leaves (hashInviteToken sha (hex raw)) issuer (clock 0 + inviteTTL)"
  have ws: "length ?ws = 3" "\<forall>(p, v) \<in> set ?ws. p \<noteq> []" by (simp_all add: invite_leaves_def invitePath_def)
  obtain ta' where "write_leaves sha clock 1 ta ?ws = (Inr (), ta')" "ready sha ta' (leaves_spec clock 1 H ?ws) L n" "same_meta ta ta'"
    using write_leaves_ready [of sha ta H ?ws L n clock 1] assms(2) ws by auto
  then show ?thesis using assms(1) by (simp add: CreateInvite_def invite_leaves_def Let_def)
qed

lemma compositePath_leaf: "compositePath (invitePath h [x]) = compositePath (invitePath h [y]) \<longleftrightarrow> x = y"
  by (simp add: compositePath_join invitePath_def invitesBasePath_def)

lemma leaf_names:
  "str ''used'' \<noteq> str ''issuer''" "str ''used'' \<noteq> str ''expires''" "str ''issuer'' \<noteq> str ''expires''"
  by (simp_all add: str_def)

lemma verify_issued:
  assumes "0 \<le> sint expires" "sint expires < 2 ^ 53"
  shows "verify_spec (leaves_spec clock k H (invite_leaves h issuer expires)) now h =
    (if expires <s now then Inl InviteExpired else Inr issuer)"
proof -
  have "int64_of_f64 (f64_of_int (sint expires)) = expires" using int64_of_f64_exact [OF assms] by simp
  then show ?thesis
    using leaf_names text_ok_dec [of issuer] Sscanf_d_dec [of issuer]
    by (simp add: verify_spec_def invite_leaves_def leaf_write leaf_write_other compositePath_leaf
        TypeBoolean_def TypeNothing_def TypeText_def TypeNumber_def)
qed

subsection \<open>Registering an agent\<close>

definition key_spec :: "history \<Rightarrow> gostring \<Rightarrow> nat option" where
  "key_spec H identity =
     (case leaf H (publicKeyPath (ownerAgentID identity)) of
        Some (Text t) \<Rightarrow> if t = [] then None else map_option big_SetBytes (hex_decode t)
      | _ \<Rightarrow> None)"

lemma LookupAgentPublicKey_ready:
  assumes "ready sha ta H (textValue (compositePath (publicKeyPath (ownerAgentID identity))) # L) n"
  shows "\<exists>ta'. LookupAgentPublicKey sha ta identity = (key_spec H identity, ta') \<and> ready sha ta' H L n \<and> same_meta ta ta'"
  using ta_Read_ready [OF assms]
  by (auto simp: LookupAgentPublicKey_def key_spec_def leaf_def publicKeyPath_def)

definition key_value :: "nat \<Rightarrow> goany" where
  "key_value key = Text (hex (big_Bytes key))"

lemma key_spec_write:
  assumes "0 < key" "2 * length (big_Bytes key) + 4 < 2 ^ 32"
  shows "key_spec (write_spec H (compositePath (publicKeyPath (ownerAgentID identity))) (t, a, storage_value (key_value key))) identity = Some key"
  using assms text_ok_hex [of "big_Bytes key"]
  by (simp add: key_spec_def key_value_def leaf_write TypeText_def TypeNothing_def hex_eq_Nil big_Bytes_eq_Nil
      hex_decode_hex big_SetBytes_Bytes)

definition register_spec :: "history \<Rightarrow> i64 \<Rightarrow> gostring \<Rightarrow> gostring \<Rightarrow> enroll_error + u64" where
  "register_spec H now h identity =
     (case key_spec H identity of
        Some k \<Rightarrow> Inl (AlreadyRegistered identity)
      | None \<Rightarrow> (case verify_spec H now h of Inl e \<Rightarrow> Inl (InvalidInvite e) | Inr i \<Rightarrow> Inr (ownerAgentID identity)))"

definition registered :: "history \<Rightarrow> gostring \<Rightarrow> (nat \<Rightarrow> i64) \<Rightarrow> gostring \<Rightarrow> nat \<Rightarrow> history" where
  "registered H h clock identity key =
     write_spec (consumed H h (clock 1)) (compositePath (publicKeyPath (ownerAgentID identity)))
       (clock 2, systemAuthor, storage_value (key_value key))"

definition register_values :: "gostring \<Rightarrow> gostring \<Rightarrow> nat \<Rightarrow> Value list" where
  "register_values h identity key =
     textValue (compositePath (publicKeyPath (ownerAgentID identity))) # consume_values h
     @ [storage_value (key_value key), textValue (compositePath (publicKeyPath (ownerAgentID identity)))]"

lemma RegisterAgent_ready:
  assumes "identity \<noteq> []" "ready sha ta H (register_values (hashInviteToken sha token) identity key @ L) (Suc (Suc n))"
  shows "\<exists>ta'. RegisterAgent sha clock ta identity (Some key) token = (register_spec H (clock 0) (hashInviteToken sha token) identity, ta')
    \<and> ready sha ta' (case register_spec H (clock 0) (hashInviteToken sha token) identity of
         Inl e \<Rightarrow> H | Inr i \<Rightarrow> registered H (hashInviteToken sha token) clock identity key) L n"
proof -
  let ?h = "hashInviteToken sha token" and ?p = "publicKeyPath (ownerAgentID identity)"
  let ?w = "[storage_value (key_value key), textValue (compositePath ?p)]"
  obtain ta1 where ta1: "LookupAgentPublicKey sha ta identity = (key_spec H identity, ta1)"
      "ready sha ta1 H (consume_values ?h @ ?w @ L) (Suc (Suc n))"
    using LookupAgentPublicKey_ready [of sha ta H identity "consume_values ?h @ ?w @ L" "Suc (Suc n)"] assms(2)
    by (auto simp: register_values_def)
  show ?thesis
  proof (cases "key_spec H identity")
    case (Some k)
    have "ready sha ta1 H L n"
      using ready_drop [of sha ta1 H "consume_values ?h @ ?w" L] ready_less ta1(2) by auto
    then show ?thesis using ta1(1) Some assms(1) by (simp add: RegisterAgent_def register_spec_def)
  next
    case None
    let ?H = "case verify_spec H (clock 0) ?h of Inl e \<Rightarrow> H | Inr i \<Rightarrow> consumed H ?h (clock 1)"
    obtain ta2 where ta2: "VerifyAndConsumeInvite sha clock ta1 token = (verify_spec H (clock 0) ?h, ta2)"
        "ready sha ta2 ?H (?w @ L) (Suc n)"
      using VerifyAndConsumeInvite_ready [of sha ta1 H token "?w @ L" "Suc n" clock] ta1(2) by auto
    show ?thesis
    proof (cases "verify_spec H (clock 0) ?h")
      case (Inl e)
      then have "ready sha ta2 H L n" using ready_drop [of sha ta2 H ?w L] ready_less ta2(2) by auto
      then show ?thesis using ta1(1) ta2(1) None Inl assms(1) by (simp add: RegisterAgent_def register_spec_def)
    next
      case (Inr i)
      obtain ta3 where "ta_Write sha (clock 2) ta2 ?p (storage_value (key_value key)) systemAuthor = (Inr (), ta3)"
          "ready sha ta3 (registered H ?h clock identity key) L n"
        using ta_Write_ready [of sha ta2 "consumed H ?h (clock 1)" "storage_value (key_value key)" ?p L n "clock 2" systemAuthor]
          ta2(2) Inr by (auto simp: publicKeyPath_def registered_def)
      then show ?thesis
        using ta1(1) ta2(1) None Inr assms(1) by (simp add: RegisterAgent_def register_spec_def key_value_def Let_def)
    qed
  qed
qed

lemma key_path_not_invite: "compositePath (invitePath h x) \<noteq> compositePath (publicKeyPath i)"
  by (simp add: compositePath_join invitePath_def invitesBasePath_def publicKeyPath_def agentPath_def join_Cons str_def)

lemma verify_registered: "verify_spec (registered H h clock identity key) now h = Inl InviteUsed"
  using key_path_not_invite [of h]
  by (simp add: verify_spec_def registered_def leaf_write_other consumed_def leaf_write TypeBoolean_def TypeNothing_def)

subsection \<open>Establishing the owner\<close>

definition owner_spec :: "history \<Rightarrow> gostring option" where
  "owner_spec H = (case leaf H ownerMarkerPath of Some (Text t) \<Rightarrow> if t = [] then None else Some t | _ \<Rightarrow> None)"

lemma OwnerIdentity_ready:
  assumes "ready sha ta H (textValue (compositePath ownerMarkerPath) # L) n"
  shows "\<exists>ta'. OwnerIdentity sha ta = (owner_spec H, ta') \<and> ready sha ta' H L n \<and> same_meta ta ta'"
  using ta_Read_ready [OF assms] by (auto simp: OwnerIdentity_def owner_spec_def leaf_def ownerMarkerPath_def)

definition owner_leaves :: "gostring \<Rightarrow> nat \<Rightarrow> bytes \<Rightarrow> (gostring list \<times> goany) list" where
  "owner_leaves identity public private =
     [(publicKeyPath (ownerAgentID identity), key_value public),
      (privateKeyPath (ownerAgentID identity), Text (hex private)),
      (ownerMarkerPath, Text identity)]"

lemma owner_paths:
  "compositePath ownerMarkerPath \<noteq> compositePath (publicKeyPath i)"
  "compositePath ownerMarkerPath \<noteq> compositePath (privateKeyPath i)"
  "compositePath (publicKeyPath i) \<noteq> compositePath (privateKeyPath i)"
  by (simp_all add: compositePath_join ownerMarkerPath_def publicKeyPath_def privateKeyPath_def agentPath_def
      join_append join_Cons str_def)

lemma owner_established:
  assumes "text_ok identity" "identity \<noteq> []" "0 < public" "2 * length (big_Bytes public) + 4 < 2 ^ 32"
  shows "owner_spec (leaves_spec clock k H (owner_leaves identity public private)) = Some identity"
    and "key_spec (leaves_spec clock k H (owner_leaves identity public private)) identity = Some public"
proof -
  show "owner_spec (leaves_spec clock k H (owner_leaves identity public private)) = Some identity"
    using assms(1,2) by (simp add: owner_spec_def owner_leaves_def leaf_write TypeText_def TypeNothing_def)
  have "key_spec (leaves_spec clock k H (owner_leaves identity public private)) identity =
      key_spec (write_spec H (compositePath (publicKeyPath (ownerAgentID identity))) (clock k, systemAuthor, storage_value (key_value public))) identity"
    using owner_paths [of "ownerAgentID identity"] by (simp add: key_spec_def owner_leaves_def leaf_write_other)
  then show "key_spec (leaves_spec clock k H (owner_leaves identity public private)) identity = Some public"
    using key_spec_write [OF assms(3,4)] by simp
qed

text \<open>The permission the owner gets, and what is left of it in a new process.\<close>

lemma text_ok_agent: "text_ok (str ''agent-'' @ dec (unat (i :: u64)))"
proof -
  have "utf8_valid (str ''agent-'' @ dec (unat i))"
    using dec_digits [of "unat i"] by (intro utf8_valid_ascii) (auto simp: str_def)
  then show ?thesis using length_dec_u64 [of i] by (simp add: text_ok_def str_def)
qed

lemma agent_names: "str ''agent-'' @ s \<noteq> str ''(Anything)''" "str ''agent-'' @ s \<noteq> str ''(Nothing)''"
  by (simp_all add: str_def)

lemma CanIssueInvites_granted:
  "CanIssueInvites sha (snd (SetPermission sha now ta [str ''world'', str ''agent''] GrantPermission
     (Text (str ''agent-'' @ dec (unat i))) a)) i"
  using Deserialize_Serialize [of "Text (str ''agent-'' @ dec (unat i))"] text_ok_agent [of i] agent_names
  by (simp add: permission_loop.simps HashValue_def CanIssueInvites_def CanGrant_def HasPermission_def CheckPermission_def getEffectivePermission_def
      SetPermission_def condition_bytes_def ta_GetInstance_def ta_GetValue_def ta_PutInstance_def ta_PutValue_def
      evaluateCondition_def Let_def)

lemma CanIssueInvites_fresh: "\<not> CanIssueInvites sha (NewTreeAdapter tree) i"
  by (simp add: CanIssueInvites_def CanGrant_def HasPermission_def CheckPermission_def getEffectivePermission_def
      NewTreeAdapter_def ta_GetInstance_def permission_loop.simps getDefaultPermission_def GrantPermission_def ReadPermission_def str_def)

lemma SetPermission_text: "\<exists>ta'. SetPermission sha now ta path perm (Text c) a = (Inr (), ta') \<and> taTree ta' = taTree ta"
  by (simp add: SetPermission_def condition_bytes_def ta_PutInstance_def ta_PutValue_def Let_def)

definition owner_values :: "gostring \<Rightarrow> nat \<Rightarrow> bytes \<Rightarrow> Value list" where
  "owner_values identity public private = textValue (compositePath ownerMarkerPath) # leaf_values (owner_leaves identity public private)"

lemma InitOwner_ready:
  assumes "passphrase \<noteq> []" "keys identity passphrase secret = Some (public, private)"
    and "ready sha ta H (owner_values identity public private @ L) (3 + n)"
  shows "\<exists>ta'. InitOwner sha clock (Some identity) (Some secret) keys ta passphrase =
      (case owner_spec H of Some existing \<Rightarrow> Inl (OwnerExists existing) | None \<Rightarrow> Inr identity, ta')
    \<and> ready sha ta' (case owner_spec H of Some existing \<Rightarrow> H | None \<Rightarrow> leaves_spec clock 0 H (owner_leaves identity public private)) L n
    \<and> (owner_spec H = None \<longrightarrow> CanIssueInvites sha ta' (ownerAgentID identity))"
proof -
  let ?ws = "owner_leaves identity public private" and ?i = "ownerAgentID identity"
  have ws: "length ?ws = 3" "\<forall>(p, v) \<in> set ?ws. p \<noteq> []"
    by (simp_all add: owner_leaves_def publicKeyPath_def privateKeyPath_def agentPath_def ownerMarkerPath_def)
  obtain ta1 where ta1: "OwnerIdentity sha ta = (owner_spec H, ta1)" "ready sha ta1 H (leaf_values ?ws @ L) (3 + n)"
    using OwnerIdentity_ready [of sha ta H "leaf_values ?ws @ L" "3 + n"] assms(3) by (auto simp: owner_values_def)
  show ?thesis
  proof (cases "owner_spec H")
    case (Some existing)
    have "ready sha ta1 H L n" using ready_drop [OF ta1(2)] ready_less by (simp add: numeral_3_eq_3)
    then show ?thesis using ta1(1) Some assms(1) by (simp add: InitOwner_def)
  next
    case None
    obtain ta2 where ta2: "write_leaves sha clock 0 ta1 ?ws = (Inr (), ta2)" "ready sha ta2 (leaves_spec clock 0 H ?ws) L n"
      using write_leaves_ready [of sha ta1 H ?ws L n clock 0] ta1(2) ws by auto
    obtain ta3 where ta3: "SetPermission sha (clock 3) ta2 [str ''world'', str ''agent''] GrantPermission
          (Text (str ''agent-'' @ dec (unat ?i))) systemAuthor = (Inr (), ta3)" "taTree ta3 = taTree ta2"
      using SetPermission_text by blast
    have "CanIssueInvites sha ta3 ?i" using CanIssueInvites_granted [of sha "clock 3" ta2 ?i systemAuthor] ta3(1) by simp
    moreover have "ready sha ta3 (leaves_spec clock 0 H ?ws) L n" using ta2(2) ta3(2) by (simp add: ready_def)
    moreover have "InitOwner sha clock (Some identity) (Some secret) keys ta passphrase = (Inr identity, ta3)"
      using ta1(1) None ta2(1) ta3(1) assms(1,2) by (simp add: InitOwner_def owner_leaves_def key_value_def Let_def)
    ultimately show ?thesis using None by simp
  qed
qed

lemma NewTreeAdapter_ready: "ready sha (NewTreeAdapter st) H L n \<longleftrightarrow> tree_rep sha st H \<and> tree_ok sha st L n"
  by (simp add: ready_def NewTreeAdapter_def)

subsection \<open>Identifiers\<close>

text \<open>The ID of an agent is a rolling hash of its identity; two characters are enough for a collision.\<close>

lemma agent_ids_collide: "ownerAgentID (str ''ab'') = ownerAgentID (str ''bC'')"
  by code_simp

end
