(* ===== verification/Service_Properties.thy ===== *)
theory Service_Properties
  imports Enrollment_Correct Storage_Properties
begin

text \<open>
  The properties of the service layer: owner, invites and registration of agents, each stated on
  a service whose tree represents a version history and has room for what the operation writes.
\<close>

subsection \<open>A concrete node for the witnesses\<close>

definition node0 :: TreeAdapter where
  "node0 = NewTreeAdapter empty_tree"

definition node1 :: TreeAdapter where
  "node1 = snd (SetPermission nosha 0 node0 [str ''world'', str ''agent''] GrantPermission (Text (str ''agent-'' @ dec (unat (7 :: u64)))) systemAuthor)"

lemma node1_can: "CanIssueInvites nosha node1 7"
  by (simp only: node1_def CanIssueInvites_granted)

lemma node_ready:
  assumes "list_all wf_value L" "sum_list (map (\<lambda>v. length (serializeValue v) + 1) L) < 2 ^ 40" "n < 2 ^ 50"
  shows "ready nosha node0 (\<lambda>_. []) L n" and "ready nosha node1 (\<lambda>_. []) L n"
proof -
  show 0: "ready nosha node0 (\<lambda>_. []) L n"
    using empty_tree_ok [OF assms] empty_tree_rep by (simp add: node0_def NewTreeAdapter_ready)
  obtain ta where "SetPermission nosha 0 node0 [str ''world'', str ''agent''] GrantPermission
      (Text (str ''agent-'' @ dec (unat (7 :: u64)))) systemAuthor = (Inr (), ta)" "taTree ta = taTree node0"
    using SetPermission_text by blast
  then show "ready nosha node1 (\<lambda>_. []) L n" using 0 by (simp add: node1_def ready_def)
qed

definition clock1 :: "nat \<Rightarrow> i64" where
  "clock1 k = of_nat (1000 + k)"

definition token1 :: gostring where
  "token1 = hex [0xAB, 1]"

definition hash1 :: gostring where
  "hash1 = hashInviteToken nosha token1"

lemma clock1_ttl: "sint (clock1 0 + inviteTTL) = 86400001000" "clock1 0 + inviteTTL = 86400001000"
  by (simp_all add: clock1_def inviteTTL_def)

lemma storage_value_simps [simp]:
  "wf_value (storage_value (Text t)) \<longleftrightarrow> length t + 4 < 2 ^ 32"
  "wf_value (storage_value (Boolean b))" "wf_value (storage_value (Number x))"
  "length (serializeValue (storage_value (Text t))) = 10 + length t"
  "length (serializeValue (storage_value (Boolean b))) = 7"
  "length (serializeValue (storage_value (Number x))) = 10"
  by (simp_all add: wf_value_def storage_value_def length_serializeValue isVariableLength_def getFixedTypeSize_def
      type_tag_defs TypeBoolean_def lengthPrefixed_def)

lemma path_lengths [simp]:
  "length (compositePath (invitePath h [x])) = 20 + length h + length x"
  "length (compositePath (publicKeyPath i)) = 24 + length (dec (unat i))"
  "length (compositePath (privateKeyPath i)) = 25 + length (dec (unat i))"
  "length (compositePath ownerMarkerPath) = 16"
  by (simp_all add: compositePath_join join_append join_Cons invitePath_def invitesBasePath_def publicKeyPath_def privateKeyPath_def
      agentPath_def ownerMarkerPath_def str_def)

lemma length_hash1 [simp]: "length hash1 = 8"
  by (simp add: hash1_def hashInviteToken_def nosha_def token1_def)

lemmas budget_defs = leaf_values_def invite_leaves_def consume_values_def verify_values_def register_values_def
  owner_values_def owner_leaves_def key_value_def

lemma length_key77 [simp]: "length (big_Bytes 77) = 1"
  by code_simp

lemma budget1:
  "ready nosha node1 (\<lambda>_. []) (leaf_values (invite_leaves hash1 7 (clock1 0 + inviteTTL)) @ consume_values hash1 @ consume_values hash1) 5"
  using length_dec_u64 [of 7] by (intro node_ready) (simp_all add: budget_defs str_def)

lemma register_budget1:
  "ready nosha node1 (\<lambda>_. []) (leaf_values (invite_leaves hash1 7 (clock1 0 + inviteTTL)) @
     register_values hash1 (str ''ann'') 77 @ textValue (compositePath (publicKeyPath (ownerAgentID (str ''ann'')))) # consume_values hash1) 6"
  using length_dec_u64 [of 7] length_dec_u64 [of "ownerAgentID (str ''ann'')"]
  by (intro node_ready) (simp_all add: budget_defs str_def)

lemma owner_budget1:
  "ready nosha node0 (\<lambda>_. []) (owner_values (str ''ann'') 77 [1, 2] @ textValue (compositePath ownerMarkerPath) #
     textValue (compositePath (publicKeyPath (ownerAgentID (str ''ann'')))) # owner_values (str ''bob'') 78 [1, 2]) 6"
  using length_dec_u64 [of "ownerAgentID (str ''ann'')"] length_dec_u64 [of "ownerAgentID (str ''bob'')"] length_big_Bytes [of 78 1]
  by (intro node_ready) (simp_all add: budget_defs str_def)

subsection \<open>Invites\<close>

text \<open>
  C38. The life of an invite. Issuing one returns a token; redeemed within 24 hours of its issue the
  token names its issuer, afterwards it is refused as expired; once redeemed it is refused as
  used, whatever the time. (Expiry times are stored as floating point numbers of microseconds; the
  bound \<open>2 ^ 53\<close> on them is met until the year 2255.)
\<close>

theorem invite_lifecycle:
  assumes "CanIssueInvites sha ta issuer" "0 \<le> sint (clock 0 + inviteTTL)" "sint (clock 0 + inviteTTL) < 2 ^ 53"
    and h: "h = hashInviteToken sha (hex raw)"
    and "ready sha ta H (leaf_values (invite_leaves h issuer (clock 0 + inviteTTL)) @ consume_values h @ consume_values h) 5"
  shows "\<exists>ta1. CreateInvite sha clock (Some raw) ta issuer = (Inr (hex raw), ta1) \<and>
    (\<forall>c. fst (VerifyAndConsumeInvite sha c ta1 (hex raw)) =
       (if clock 0 + inviteTTL <s c 0 then Inl InviteExpired else Inr issuer)) \<and>
    (\<forall>c c'. \<not> clock 0 + inviteTTL <s c 0 \<longrightarrow>
       fst (VerifyAndConsumeInvite sha c' (snd (VerifyAndConsumeInvite sha c ta1 (hex raw))) (hex raw)) = Inl InviteUsed)"
proof -
  let ?H1 = "leaves_spec clock 1 H (invite_leaves h issuer (clock 0 + inviteTTL))"
  obtain ta1 where ta1: "CreateInvite sha clock (Some raw) ta issuer = (Inr (hex raw), ta1)"
      "ready sha ta1 ?H1 (consume_values h @ consume_values h) 2"
    using CreateInvite_ready [of sha ta issuer H raw clock "consume_values h @ consume_values h" 2, folded h] assms(1,5) by auto
  note v = verify_issued [OF assms(2,3)]
  have first: "\<exists>ta2. VerifyAndConsumeInvite sha c ta1 (hex raw) = (verify_spec ?H1 (c 0) h, ta2) \<and>
      ready sha ta2 (case verify_spec ?H1 (c 0) h of Inl e \<Rightarrow> ?H1 | Inr i \<Rightarrow> consumed ?H1 h (c 1)) (consume_values h) 1" for c
    using VerifyAndConsumeInvite_ready [of sha ta1 ?H1 "hex raw" "consume_values h" 1 c, folded h] ta1(2) by (auto simp: numeral_2_eq_2)
  have "fst (VerifyAndConsumeInvite sha c' (snd (VerifyAndConsumeInvite sha c ta1 (hex raw))) (hex raw)) = Inl InviteUsed"
    if open_yet: "\<not> clock 0 + inviteTTL <s c 0" for c c'
  proof -
    obtain ta2 where ta2: "VerifyAndConsumeInvite sha c ta1 (hex raw) = (Inr issuer, ta2)" "ready sha ta2 (consumed ?H1 h (c 1)) (consume_values h) 1"
      using first [of c] open_yet by (auto simp: v)
    then show ?thesis
      using VerifyAndConsumeInvite_ready [of sha ta2 "consumed ?H1 h (c 1)" "hex raw" "[]" 0 c', folded h] by (auto simp: verify_consumed)
  qed
  moreover have "fst (VerifyAndConsumeInvite sha c ta1 (hex raw)) = (if clock 0 + inviteTTL <s c 0 then Inl InviteExpired else Inr issuer)" for c
    using first [of c] by (auto simp: v)
  ultimately show ?thesis using ta1(1) by blast
qed

theorem invite_lifecycle_witness:
  "\<exists>ta1. CreateInvite nosha clock1 (Some [0xAB, 1]) node1 7 = (Inr token1, ta1) \<and>
    fst (VerifyAndConsumeInvite nosha (\<lambda>_. 2000) ta1 token1) = Inr 7 \<and>
    fst (VerifyAndConsumeInvite nosha (\<lambda>_. 86400001001) ta1 token1) = Inl InviteExpired \<and>
    fst (VerifyAndConsumeInvite nosha (\<lambda>_. 2001) (snd (VerifyAndConsumeInvite nosha (\<lambda>_. 2000) ta1 token1)) token1) = Inl InviteUsed"
proof -
  have s: "\<not> (86400001000 :: i64) <s 2000" "(86400001000 :: i64) <s 86400001001" by (simp_all add: word_sless_alt)
  show ?thesis
    using invite_lifecycle [of nosha node1 7 clock1 hash1 "[0xAB, 1]" "\<lambda>_. []"] node1_can budget1 s
    by (fastforce simp: hash1_def token1_def clock1_ttl)
qed

text \<open>
  C39. Registering an agent with a token. When it fails (the name is taken, the invite is unknown,
  used, expired or malformed) the histories are as before, so no invite is lost. When it succeeds
  the new agent's key is found under its name, and the invite is used up.
\<close>

theorem agent_registration:
  assumes "identity \<noteq> []" "0 < key" "2 * length (big_Bytes key) + 4 < 2 ^ 32" and h: "h = hashInviteToken sha token"
    and "ready sha ta H (register_values h identity key @ textValue (compositePath (publicKeyPath (ownerAgentID identity))) # consume_values h) 3"
  shows "\<exists>r ta'. RegisterAgent sha clock ta identity (Some key) token = (r, ta') \<and>
    (case r of
       Inl e \<Rightarrow> tree_rep sha (taTree ta') H \<and>
         (e = AlreadyRegistered identity \<and> key_spec H identity \<noteq> None \<or> (\<exists>e'. e = InvalidInvite e' \<and> verify_spec H (clock 0) h = Inl e'))
     | Inr i \<Rightarrow> i = ownerAgentID identity \<and> fst (LookupAgentPublicKey sha ta' identity) = Some key \<and>
         (\<forall>c. fst (VerifyAndConsumeInvite sha c ta' token) = Inl InviteUsed))"
proof -
  let ?p = "textValue (compositePath (publicKeyPath (ownerAgentID identity)))"
  obtain ta' where ta': "RegisterAgent sha clock ta identity (Some key) token = (register_spec H (clock 0) h identity, ta')"
      "ready sha ta' (case register_spec H (clock 0) h identity of Inl e \<Rightarrow> H | Inr i \<Rightarrow> registered H h clock identity key) (?p # consume_values h) 1"
    using RegisterAgent_ready [OF assms(1), of sha ta H token key "?p # consume_values h" 1 clock, folded h] assms(5)
    by (auto simp: numeral_3_eq_3)
  show ?thesis
  proof (cases "register_spec H (clock 0) h identity")
    case (Inl e)
    then have "e = AlreadyRegistered identity \<and> key_spec H identity \<noteq> None \<or> (\<exists>e'. e = InvalidInvite e' \<and> verify_spec H (clock 0) h = Inl e')"
      by (auto simp: register_spec_def split: option.splits sum.splits)
    then show ?thesis using ta' Inl by (auto simp: ready_def)
  next
    case (Inr i)
    let ?H = "registered H h clock identity key"
    have i: "i = ownerAgentID identity" using Inr by (auto simp: register_spec_def split: option.splits sum.splits)
    have r: "ready sha ta' ?H (?p # consume_values h) 1" using ta'(2) Inr by simp
    have "key_spec ?H identity = Some key" using key_spec_write [OF assms(2,3)] by (simp add: registered_def)
    then have "fst (LookupAgentPublicKey sha ta' identity) = Some key" using LookupAgentPublicKey_ready [OF r] by auto
    moreover have "ready sha ta' ?H (consume_values h) 1" using ready_drop [of sha ta' ?H "[?p]"] r by simp
    then have "fst (VerifyAndConsumeInvite sha c ta' token) = Inl InviteUsed" for c
      using VerifyAndConsumeInvite_ready [of sha ta' ?H token "[]" 0 c, folded h] by (auto simp: verify_registered)
    ultimately show ?thesis using ta'(1) Inr i by auto
  qed
qed

lemma ann_simps: "str ''ann'' \<noteq> []" "text_ok (str ''ann'')"
  using utf8_valid_ascii [of "str ''ann''"] by (simp_all add: text_ok_def str_def)

lemma leaf_empty: "leaf (\<lambda>_. []) p = None"
  by (simp add: leaf_def read_spec_def newest_def decoded_def)

lemma invite_is_no_key: "key_spec (leaves_spec clock k (\<lambda>_. []) (invite_leaves h issuer expires)) identity = None"
  using key_path_not_invite [of h] by (simp add: key_spec_def invite_leaves_def leaf_write_other not_sym leaf_empty)

theorem agent_registration_witness:
  "\<exists>ta1 ta'. CreateInvite nosha clock1 (Some [0xAB, 1]) node1 7 = (Inr token1, ta1) \<and>
    RegisterAgent nosha (\<lambda>_. 2000) ta1 (str ''ann'') (Some 77) token1 = (Inr (ownerAgentID (str ''ann'')), ta') \<and>
    fst (LookupAgentPublicKey nosha ta' (str ''ann'')) = Some 77"
proof -
  let ?h = "hashInviteToken nosha token1"
  let ?L = "register_values ?h (str ''ann'') 77 @ textValue (compositePath (publicKeyPath (ownerAgentID (str ''ann'')))) # consume_values ?h"
  let ?H = "leaves_spec clock1 1 (\<lambda>_. []) (invite_leaves ?h 7 (clock1 0 + inviteTTL))"
  obtain ta1 where ta1: "CreateInvite nosha clock1 (Some [0xAB, 1]) node1 7 = (Inr token1, ta1)" "ready nosha ta1 ?H ?L 3"
    using CreateInvite_ready [of nosha node1 7 "\<lambda>_. []" "[0xAB, 1]" clock1 ?L 3] node1_can register_budget1
    by (auto simp: hash1_def token1_def)
  have "\<not> (86400001000 :: i64) <s 2000" by (simp add: word_sless_alt)
  then have v: "verify_spec ?H 2000 ?h = Inr 7" using verify_issued [of "clock1 0 + inviteTTL"] by (simp add: clock1_ttl)
  obtain r ta' where r: "RegisterAgent nosha (\<lambda>_. 2000) ta1 (str ''ann'') (Some 77) token1 = (r, ta')"
      "case r of Inl e \<Rightarrow> tree_rep nosha (taTree ta') ?H \<and> (e = AlreadyRegistered (str ''ann'') \<and> key_spec ?H (str ''ann'') \<noteq> None \<or>
           (\<exists>e'. e = InvalidInvite e' \<and> verify_spec ?H 2000 ?h = Inl e'))
       | Inr i \<Rightarrow> i = ownerAgentID (str ''ann'') \<and> fst (LookupAgentPublicKey nosha ta' (str ''ann'')) = Some 77 \<and>
           (\<forall>c. fst (VerifyAndConsumeInvite nosha c ta' token1) = Inl InviteUsed)"
    using agent_registration [OF ann_simps(1) _ _ refl ta1(2), of "\<lambda>_. 2000"] by auto
  then obtain i where "r = Inr i" using invite_is_no_key v by (cases r) auto
  then show ?thesis using ta1(1) r by auto
qed

text \<open>
  An invite is documented to be good for one registration. The checks and the write of the used
  flag are separate steps, though: when two redemptions of a valid token interleave so that both
  check before either writes, both succeed.
\<close>

lemma invite_race:
  assumes "ready sha ta H (verify_values h @ verify_values h @ c @ c) 2" "verify_spec H now1 h = Inr i" "verify_spec H now2 h = Inr i"
    and c: "c = [storage_value (Boolean True), textValue (compositePath (invitePath h [str ''used'']))]"
  shows "\<exists>ta1 ta2 ta3 ta4. verifyInvite sha now1 ta h = (Inr i, ta1) \<and> verifyInvite sha now2 ta1 h = (Inr i, ta2) \<and>
    consumeInvite sha now3 ta2 h i = (Inr i, ta3) \<and> consumeInvite sha now4 ta3 h i = (Inr i, ta4)"
proof -
  obtain ta1 where ta1: "verifyInvite sha now1 ta h = (Inr i, ta1)" "ready sha ta1 H (verify_values h @ c @ c) 2"
    using verifyInvite_ready [OF assms(1), of now1] assms(2) by auto
  obtain ta2 where ta2: "verifyInvite sha now2 ta1 h = (Inr i, ta2)" "ready sha ta2 H (c @ c) 2"
    using verifyInvite_ready [OF ta1(2), of now2] assms(3) by auto
  obtain ta3 where ta3: "consumeInvite sha now3 ta2 h i = (Inr i, ta3)" "ready sha ta3 (consumed H h now3) c 1"
    using consumeInvite_ready [of sha ta2 H h c 1 now3 i] ta2(2) by (auto simp: c numeral_2_eq_2)
  obtain ta4 where "consumeInvite sha now4 ta3 h i = (Inr i, ta4)"
    using consumeInvite_ready [of sha ta3 "consumed H h now3" h "[]" 0 now4 i] ta3(2) by (auto simp: c)
  then show ?thesis using ta1(1) ta2(1) ta3(1) by blast
qed

subsection \<open>The owner\<close>

text \<open>
  C40. Establishing the owner of a fresh node records the identity and the public key, gives the
  owner the right to invite; the identity and the key can be looked up afterwards, and a second
  attempt, for whatever identity, is refused with the first owner's name.
\<close>

theorem owner_lifecycle:
  assumes "owner_spec H = None" "passphrase \<noteq> []" "keys identity passphrase secret = Some (public, private)"
    and "text_ok identity" "identity \<noteq> []" "0 < public" "2 * length (big_Bytes public) + 4 < 2 ^ 32"
    and "passphrase' \<noteq> []" "keys' identity' passphrase' secret' = Some (public', private')"
    and "ready sha ta H (owner_values identity public private @ textValue (compositePath ownerMarkerPath) #
      textValue (compositePath (publicKeyPath (ownerAgentID identity))) # owner_values identity' public' private') 6"
  shows "\<exists>ta1. InitOwner sha clock (Some identity) (Some secret) keys ta passphrase = (Inr identity, ta1) \<and>
    fst (OwnerIdentity sha ta1) = Some identity \<and> fst (LookupAgentPublicKey sha ta1 identity) = Some public \<and>
    CanIssueInvites sha ta1 (ownerAgentID identity) \<and>
    fst (InitOwner sha clock' (Some identity') (Some secret') keys' ta1 passphrase') = Inl (OwnerExists identity)"
proof -
  let ?H = "leaves_spec clock 0 H (owner_leaves identity public private)" and ?m = "textValue (compositePath ownerMarkerPath)"
    and ?k = "textValue (compositePath (publicKeyPath (ownerAgentID identity)))"
  obtain ta1 where ta1: "InitOwner sha clock (Some identity) (Some secret) keys ta passphrase = (Inr identity, ta1)"
      "ready sha ta1 ?H (?m # ?k # owner_values identity' public' private') 3" "CanIssueInvites sha ta1 (ownerAgentID identity)"
    using InitOwner_ready [of passphrase keys identity secret public "private" sha ta H "?m # ?k # owner_values identity' public' private'" 3 clock] assms(1,2,3,10) by auto
  have own: "owner_spec ?H = Some identity" "key_spec ?H identity = Some public" using owner_established assms by blast+
  have k: "ready sha ta1 ?H (?k # owner_values identity' public' private') 3" using ready_drop [of sha ta1 ?H "[?m]"] ta1(2) by simp
  then have "ready sha ta1 ?H (owner_values identity' public' private') 3" using ready_drop [of sha ta1 ?H "[?k]"] by simp
  then have "fst (InitOwner sha clock' (Some identity') (Some secret') keys' ta1 passphrase') = Inl (OwnerExists identity)"
    using InitOwner_ready [of passphrase' keys' identity' secret' public' private' sha ta1 ?H "[]" 0 clock'] own assms(8,9) by auto
  moreover have "fst (OwnerIdentity sha ta1) = Some identity" using OwnerIdentity_ready [OF ta1(2)] own by auto
  moreover have "fst (LookupAgentPublicKey sha ta1 identity) = Some public" using LookupAgentPublicKey_ready [OF k] own by auto
  ultimately show ?thesis using ta1(1,3) by blast
qed

definition keys1 :: "nat \<Rightarrow> gostring \<Rightarrow> gostring \<Rightarrow> gostring \<Rightarrow> (nat \<times> bytes) option" where
  "keys1 public identity passphrase secret = Some (public, [1, 2])"

theorem owner_lifecycle_witness:
  "\<exists>ta1. InitOwner nosha clock1 (Some (str ''ann'')) (Some [9]) (keys1 77) node0 [1] = (Inr (str ''ann''), ta1) \<and>
    fst (LookupAgentPublicKey nosha ta1 (str ''ann'')) = Some 77 \<and>
    fst (InitOwner nosha clock1 (Some (str ''bob'')) (Some [9]) (keys1 78) ta1 [1]) = Inl (OwnerExists (str ''ann''))"
proof -
  have o: "owner_spec (\<lambda>_. []) = None" by (simp add: owner_spec_def leaf_empty)
  have k: "keys1 77 (str ''ann'') [1] [9] = Some (77, [1, 2])" "keys1 78 (str ''bob'') [1] [9] = Some (78, [1, 2])"
    by (simp_all add: keys1_def)
  have p: "[1 :: u8] \<noteq> []" "0 < (77 :: nat)" "2 * length (big_Bytes 77) + 4 < 2 ^ 32" by simp_all
  show ?thesis
    using owner_lifecycle [of "\<lambda>_. []" "[1]" "keys1 77" "str ''ann''" "[9]" 77 "[1, 2]" "[1]" "keys1 78" "str ''bob''" "[9]" 78 "[1, 2]"
        nosha node0 clock1 clock1, OF o p(1) k(1) ann_simps(2,1) p(2,3) p(1) k(2) owner_budget1] by blast
qed

end
