(* ===== verification/Mesh_Gossip.thy ===== *)
theory Mesh_Gossip
  imports Directory Wire_Frame
begin

text \<open>
  Propagation of node information through the mesh (\<open>src/internal/mesh/gossip.go\<close>): the table of
  known nodes, the updates waiting to be sent, the choice of targets, the binary form of a gossip
  message and what a node does with one it receives. Times are nanoseconds and arguments of the
  operations; \<open>rnd k n\<close> is the \<open>k\<close>-th draw of \<open>rand.Intn(n)\<close>. Go maps are lists of their entries in
  iteration order. A connection is the list of bytes that will arrive on it.
\<close>

subsection \<open>Data\<close>

record NodeStatus =
  nsIdentity :: gostring
  nsAddress :: gostring
  nsStatus :: gostring
  nsLastSeen :: int
  nsZoneInfo :: bytes
  nsVersion :: u64
  nsIsStale :: bool

record NodeUpdate =
  nuIdentity :: gostring
  nuStatus :: gostring
  nuAddress :: gostring
  nuZoneInfo :: bytes

record GossipMessage =
  gsFromNode :: gostring
  gsTimestamp :: i64
  gsNodeUpdates :: "NodeUpdate list"

text \<open>Of the callbacks only whether they are set matters here; what they are called with is returned as events.\<close>

record GossipManager =
  gmNodeIdentity :: gostring
  gmAllNodes :: "(gostring \<times> NodeStatus) list"
  gmGossipPeers :: "gostring list"
  gmMaxGossipPeers :: nat
  gmIsRunning :: bool
  gmPendingUpdates :: "NodeUpdate list"
  gmOnNodeJoined :: bool
  gmOnNodeLeft :: bool
  gmOnZoneChange :: bool

datatype gossip_event =
    NodeJoined gostring
  | NodeLeft gostring
  | ZoneChange gostring bytes

definition GOSSIP :: u8 where "GOSSIP = 0x38"

definition joined :: gostring where "joined = str ''joined''"
definition left :: gostring where "left = str ''left''"
definition failed :: gostring where "failed = str ''failed''"
definition recovered :: gostring where "recovered = str ''recovered''"

definition NewGossipManager :: "gostring \<Rightarrow> GossipManager" where
  "NewGossipManager nodeIdentity =
     \<lparr>gmNodeIdentity = nodeIdentity, gmAllNodes = [], gmGossipPeers = [], gmMaxGossipPeers = 3, gmIsRunning = False,
      gmPendingUpdates = [], gmOnNodeJoined = False, gmOnNodeLeft = False, gmOnZoneChange = False\<rparr>"

definition gm_Start :: "GossipManager \<Rightarrow> GossipManager" where
  "gm_Start gm = (if gmIsRunning gm then gm else gm\<lparr>gmIsRunning := True\<rparr>)"

definition gm_Stop :: "GossipManager \<Rightarrow> GossipManager" where
  "gm_Stop gm = (if \<not> gmIsRunning gm then gm else gm\<lparr>gmIsRunning := False\<rparr>)"

definition SetCallbacks :: "bool \<Rightarrow> bool \<Rightarrow> bool \<Rightarrow> GossipManager \<Rightarrow> GossipManager" where
  "SetCallbacks onNodeJoined onNodeLeft onZoneChange gm =
     gm\<lparr>gmOnNodeJoined := onNodeJoined, gmOnNodeLeft := onNodeLeft, gmOnZoneChange := onZoneChange\<rparr>"

subsection \<open>Choosing peers\<close>

text \<open>Draw \<open>count\<close> elements, overwriting each drawn one with the last and dropping the last.\<close>

fun pick :: "(nat \<Rightarrow> nat \<Rightarrow> nat) \<Rightarrow> nat \<Rightarrow> nat \<Rightarrow> gostring list \<Rightarrow> gostring list" where
  "pick rnd k 0 available = []"
| "pick rnd k (Suc count) available =
     (let idx = rnd k (length available)
      in (available ! idx) # pick rnd (k + 1) count (butlast (available[idx := last available])))"

definition updateGossipPeers :: "(nat \<Rightarrow> nat \<Rightarrow> nat) \<Rightarrow> GossipManager \<Rightarrow> GossipManager" where
  "updateGossipPeers rnd gm =
     (let active = map fst (filter (\<lambda>(identity, node). identity \<noteq> gmNodeIdentity gm \<and> nsStatus node = joined) (gmAllNodes gm));
          maxPeers = gmMaxGossipPeers gm * 2
      in gm\<lparr>gmGossipPeers := if length active \<le> maxPeers then active else pick rnd 0 maxPeers active\<rparr>)"

definition selectGossipTargets :: "(nat \<Rightarrow> nat \<Rightarrow> nat) \<Rightarrow> GossipManager \<Rightarrow> gostring list" where
  "selectGossipTargets rnd gm =
     (let available = filter (\<lambda>peer. case map_of (gmAllNodes gm) peer of None \<Rightarrow> False | Some node \<Rightarrow> nsStatus node = joined)
            (gmGossipPeers gm)
      in if available = [] then [] else pick rnd 0 (min (gmMaxGossipPeers gm) (length available)) available)"

subsection \<open>Local changes\<close>

definition AddNode ::
  "(nat \<Rightarrow> nat \<Rightarrow> nat) \<Rightarrow> int \<Rightarrow> gostring \<Rightarrow> gostring \<Rightarrow> bytes \<Rightarrow> GossipManager \<Rightarrow> gossip_event list \<times> GossipManager" where
  "AddNode rnd now identity address zoneInfo gm =
     (let (node, isNewNode) =
            (case map_of (gmAllNodes gm) identity of
               None \<Rightarrow> (\<lparr>nsIdentity = identity, nsAddress = address, nsStatus = joined, nsLastSeen = now,
                         nsZoneInfo = zoneInfo, nsVersion = 1, nsIsStale = False\<rparr>, True)
             | Some node \<Rightarrow> (node\<lparr>nsAddress := address, nsStatus := joined, nsLastSeen := now, nsZoneInfo := zoneInfo,
                                nsVersion := nsVersion node + 1, nsIsStale := False\<rparr>, False));
          update = \<lparr>nuIdentity = identity, nuStatus = joined, nuAddress = address, nuZoneInfo = zoneInfo\<rparr>;
          gm' = updateGossipPeers rnd (gm\<lparr>gmAllNodes := aset identity node (gmAllNodes gm),
                                         gmPendingUpdates := gmPendingUpdates gm @ [update]\<rparr>)
      in (if isNewNode \<and> gmOnNodeJoined gm then [NodeJoined identity] else [], gm'))"

definition RemoveNode ::
  "(nat \<Rightarrow> nat \<Rightarrow> nat) \<Rightarrow> int \<Rightarrow> gostring \<Rightarrow> GossipManager \<Rightarrow> gossip_event list \<times> GossipManager" where
  "RemoveNode rnd now identity gm =
     (case map_of (gmAllNodes gm) identity of
        None \<Rightarrow> ([], gm)
      | Some node \<Rightarrow>
          let update = \<lparr>nuIdentity = identity, nuStatus = left, nuAddress = nsAddress node, nuZoneInfo = nsZoneInfo node\<rparr>
          in (if gmOnNodeLeft gm then [NodeLeft identity] else [],
              updateGossipPeers rnd (gm\<lparr>gmAllNodes := aset identity (node\<lparr>nsStatus := left, nsLastSeen := now, nsVersion := nsVersion node + 1\<rparr>) (gmAllNodes gm),
                                       gmPendingUpdates := gmPendingUpdates gm @ [update]\<rparr>)))"

definition MarkNodeFailed :: "int \<Rightarrow> gostring \<Rightarrow> GossipManager \<Rightarrow> GossipManager" where
  "MarkNodeFailed now identity gm =
     (case map_of (gmAllNodes gm) identity of
        None \<Rightarrow> gm
      | Some node \<Rightarrow>
          if nsStatus node \<noteq> failed then
            let update = \<lparr>nuIdentity = identity, nuStatus = failed, nuAddress = nsAddress node, nuZoneInfo = nsZoneInfo node\<rparr>
            in gm\<lparr>gmAllNodes := aset identity (node\<lparr>nsStatus := failed, nsLastSeen := now, nsVersion := nsVersion node + 1\<rparr>) (gmAllNodes gm),
                 gmPendingUpdates := gmPendingUpdates gm @ [update]\<rparr>
          else gm)"

definition UpdateZoneInfo :: "int \<Rightarrow> gostring \<Rightarrow> bytes \<Rightarrow> GossipManager \<Rightarrow> gossip_event list \<times> GossipManager" where
  "UpdateZoneInfo now identity zoneInfo gm =
     (case map_of (gmAllNodes gm) identity of
        None \<Rightarrow> ([], gm)
      | Some node \<Rightarrow>
          let update = \<lparr>nuIdentity = identity, nuStatus = nsStatus node, nuAddress = nsAddress node, nuZoneInfo = zoneInfo\<rparr>
          in (if gmOnZoneChange gm then [ZoneChange identity zoneInfo] else [],
              gm\<lparr>gmAllNodes := aset identity (node\<lparr>nsZoneInfo := zoneInfo, nsLastSeen := now, nsVersion := nsVersion node + 1\<rparr>) (gmAllNodes gm),
                gmPendingUpdates := gmPendingUpdates gm @ [update]\<rparr>))"

definition GetAllNodes :: "GossipManager \<Rightarrow> (gostring \<times> NodeStatus) list" where
  "GetAllNodes gm = gmAllNodes gm"

definition GetActiveNodes :: "GossipManager \<Rightarrow> (gostring \<times> NodeStatus) list" where
  "GetActiveNodes gm = filter (\<lambda>(identity, node). nsStatus node = joined \<or> nsStatus node = recovered) (gmAllNodes gm)"

subsection \<open>The binary form\<close>

definition encodeUpdate :: "NodeUpdate \<Rightarrow> bytes" where
  "encodeUpdate update =
     of_nat (length (nuIdentity update)) # nuIdentity update @
     of_nat (length (nuStatus update)) # nuStatus update @
     of_nat (length (nuAddress update)) # nuAddress update @
     put_be 4 (of_nat (length (nuZoneInfo update)) :: u32) @ nuZoneInfo update"

definition encodeGossipPayload :: "GossipMessage \<Rightarrow> bytes" where
  "encodeGossipPayload gossipData =
     put_be 8 (gsTimestamp gossipData) @ of_nat (length (gsFromNode gossipData)) # gsFromNode gossipData @
     put_be 4 (of_nat (length (gsNodeUpdates gossipData)) :: u32) @
     concat (map encodeUpdate (gsNodeUpdates gossipData))"

text \<open>A length byte and that many bytes; the rest of the payload. \<open>None\<close> where the decoder stops.\<close>

definition decodeShort :: "bytes \<Rightarrow> (bytes \<times> bytes) option" where
  "decodeShort r =
     (case r of
        [] \<Rightarrow> None
      | n # r' \<Rightarrow> if length r' < unat n then None else Some (take (unat n) r', drop (unat n) r'))"

definition decodeUpdate :: "bytes \<Rightarrow> (NodeUpdate \<times> bytes) option" where
  "decodeUpdate r =
     (case decodeShort r of
        None \<Rightarrow> None
      | Some (identity, r1) \<Rightarrow>
     (case decodeShort r1 of
        None \<Rightarrow> None
      | Some (status, r2) \<Rightarrow>
     (case decodeShort r2 of
        None \<Rightarrow> None
      | Some (address, r3) \<Rightarrow>
          if length r3 < 4 then None
          else let zoneLen = unat (get_be (take 4 r3) :: u32); r4 = drop 4 r3 in
          if length r4 < zoneLen then None
          else Some (\<lparr>nuIdentity = identity, nuStatus = status, nuAddress = address, nuZoneInfo = take zoneLen r4\<rparr>, drop zoneLen r4))))"

fun decodeUpdates :: "nat \<Rightarrow> bytes \<Rightarrow> NodeUpdate list" where
  "decodeUpdates 0 r = []"
| "decodeUpdates (Suc n) r =
     (case decodeUpdate r of None \<Rightarrow> [] | Some (update, r') \<Rightarrow> update # decodeUpdates n r')"

definition decodeGossipPayload :: "bytes \<Rightarrow> GossipMessage option" where
  "decodeGossipPayload payload =
     (if length payload < 13 then None
      else case decodeShort (drop 8 payload) of
        None \<Rightarrow> None
      | Some (fromNode, r) \<Rightarrow>
          if length r < 4 then None
          else Some \<lparr>gsFromNode = fromNode, gsTimestamp = get_be (take 8 payload),
                     gsNodeUpdates = decodeUpdates (unat (get_be (take 4 r) :: u32)) (drop 4 r)\<rparr>)"

subsection \<open>Receiving\<close>

definition incoming_step :: "int \<Rightarrow> NodeUpdate \<Rightarrow> gossip_event list \<times> GossipManager \<Rightarrow> gossip_event list \<times> GossipManager" where
  "incoming_step now update = (\<lambda>(evs, gm).
     case map_of (gmAllNodes gm) (nuIdentity update) of
       None \<Rightarrow>
         (evs @ (if nuStatus update = joined \<and> gmOnNodeJoined gm then [NodeJoined (nuIdentity update)] else []),
          gm\<lparr>gmAllNodes := aset (nuIdentity update)
               \<lparr>nsIdentity = nuIdentity update, nsAddress = nuAddress update, nsStatus = nuStatus update, nsLastSeen = now,
                nsZoneInfo = nuZoneInfo update, nsVersion = 1, nsIsStale = False\<rparr> (gmAllNodes gm)\<rparr>)
     | Some existingNode \<Rightarrow>
         if 60000000000 < now - nsLastSeen existingNode then
           (evs @ (if nuStatus update = left \<and> gmOnNodeLeft gm then [NodeLeft (nuIdentity update)] else [])
                @ (if 0 < length (nuZoneInfo update) \<and> gmOnZoneChange gm then [ZoneChange (nuIdentity update) (nuZoneInfo update)] else []),
            gm\<lparr>gmAllNodes := aset (nuIdentity update)
                 (existingNode\<lparr>nsAddress := nuAddress update, nsStatus := nuStatus update, nsLastSeen := now,
                    nsZoneInfo := nuZoneInfo update, nsVersion := nsVersion existingNode + 1, nsIsStale := False\<rparr>) (gmAllNodes gm)\<rparr>)
         else (evs, gm))"

definition processIncomingGossip ::
  "(nat \<Rightarrow> nat \<Rightarrow> nat) \<Rightarrow> int \<Rightarrow> Message \<Rightarrow> GossipManager \<Rightarrow> gossip_event list \<times> GossipManager" where
  "processIncomingGossip rnd now msg gm =
     (case decodeGossipPayload (mPayload msg) of
        None \<Rightarrow> ([], gm)
      | Some gossipData \<Rightarrow>
          let (evs, gm') = fold (incoming_step now) (gsNodeUpdates gossipData) ([], gm)
          in (evs, updateGossipPeers rnd gm'))"

text \<open>Reading one frame: header, payload of the announced length, checksum.\<close>

definition readGossipResponse :: "bytes \<Rightarrow> wire_error + Message" where
  "readGossipResponse conn =
     rbind (ReadFull 10 conn) (\<lambda>(headerBytes, r1).
     rbind (ReadFull (unat (get_be (drop 6 headerBytes) :: u32)) r1) (\<lambda>(payload, r2).
     rbind (ReadFull 4 r2) (\<lambda>(checksumBytes, r3).
       DecodeMessage (headerBytes @ payload @ checksumBytes))))"

subsection \<open>Sending\<close>

definition prepareGossipMessage :: "int \<Rightarrow> GossipManager \<Rightarrow> Message option" where
  "prepareGossipMessage now gm =
     (if gmPendingUpdates gm = [] then None
      else let gossipData = \<lparr>gsFromNode = gmNodeIdentity gm, gsTimestamp = of_int (now div 1000000000), gsNodeUpdates = gmPendingUpdates gm\<rparr>
           in Some \<lparr>mVersion = Version, mType = GOSSIP, mSequence = of_int (now div 1000000000), mPayloadLength = 0,
                    mPayload = encodeGossipPayload gossipData, mChecksum = 0\<rparr>)"

definition handleGossipError :: "gostring \<Rightarrow> GossipManager \<Rightarrow> GossipManager" where
  "handleGossipError targetIdentity gm =
     (case map_of (gmAllNodes gm) targetIdentity of
        None \<Rightarrow> gm
      | Some node \<Rightarrow> gm\<lparr>gmAllNodes := aset targetIdentity (node\<lparr>nsIsStale := True\<rparr>) (gmAllNodes gm)\<rparr>)"

text \<open>
  \<open>net address data\<close> is what the network does with an attempt to send \<open>data\<close>: \<open>None\<close> when the dial or
  the write fails, otherwise the bytes of the reply.
\<close>

definition sendGossip ::
  "(nat \<Rightarrow> nat \<Rightarrow> nat) \<Rightarrow> int \<Rightarrow> (gostring \<Rightarrow> bool) \<Rightarrow> (gostring \<Rightarrow> bytes \<Rightarrow> bytes option) \<Rightarrow> gostring \<Rightarrow> Message \<Rightarrow>
   GossipManager \<Rightarrow> gossip_event list \<times> GossipManager" where
  "sendGossip rnd now dial net targetIdentity gossipMsg gm =
     (case map_of (gmAllNodes gm) targetIdentity of
        None \<Rightarrow> ([], gm)
      | Some target \<Rightarrow>
          if \<not> dial (nsAddress target) then ([], handleGossipError targetIdentity gm)
          else (case EncodeMessage gossipMsg of
             Inl e \<Rightarrow> ([], handleGossipError targetIdentity gm)
           | Inr data \<Rightarrow>
               (case net (nsAddress target) data of
                  None \<Rightarrow> ([], handleGossipError targetIdentity gm)
                | Some conn \<Rightarrow>
                    (case readGossipResponse conn of
                       Inl e \<Rightarrow> ([], handleGossipError targetIdentity gm)
                     | Inr response \<Rightarrow>
                         if mType response = GOSSIP then processIncomingGossip rnd now response gm else ([], gm)))))"

definition cleanupStaleNodes :: "int \<Rightarrow> GossipManager \<Rightarrow> GossipManager" where
  "cleanupStaleNodes now gm =
     gm\<lparr>gmAllNodes := filter (\<lambda>(identity, node).
          \<not> (identity \<noteq> gmNodeIdentity gm \<and> 600000000000 < now - nsLastSeen node \<and> nsStatus node = left)) (gmAllNodes gm)\<rparr>"

text \<open>
  One round. The messages are sent by goroutines of their own, which run after it; the round itself
  returns whom it sends what.
\<close>

definition processGossipRound ::
  "(nat \<Rightarrow> nat \<Rightarrow> nat) \<Rightarrow> int \<Rightarrow> GossipManager \<Rightarrow> (gostring \<times> Message) list \<times> GossipManager" where
  "processGossipRound rnd now gm =
     (let targets = selectGossipTargets rnd gm in
      if targets = [] then ([], gm)
      else case prepareGossipMessage now gm of
        None \<Rightarrow> ([], gm)
      | Some gossipMsg \<Rightarrow>
          (map (\<lambda>target. (target, gossipMsg)) targets, cleanupStaleNodes now (gm\<lparr>gmPendingUpdates := []\<rparr>)))"

end
