(* ===== verification/Mesh_Gossip_Correct.thy ===== *)
theory Mesh_Gossip_Correct
  imports Mesh_Gossip
begin

text \<open>
  Facts on gossip: the binary form round trips, targets are distinct joined peers, the table of
  nodes keeps its invariant in every run, and a received message updates exactly the nodes not
  heard of in the last minute.
\<close>

declare map_of_eq_Some_iff [simp del]

subsection \<open>The binary form\<close>

text \<open>Names are at most 255 bytes long and zone information less than \<open>2 ^ 32\<close>.\<close>

definition update_ok :: "NodeUpdate \<Rightarrow> bool" where
  "update_ok u \<longleftrightarrow> length (nuIdentity u) < 256 \<and> length (nuStatus u) < 256 \<and> length (nuAddress u) < 256 \<and> length (nuZoneInfo u) < 2 ^ 32"

definition gossip_ok :: "GossipMessage \<Rightarrow> bool" where
  "gossip_ok m \<longleftrightarrow> length (gsFromNode m) < 256 \<and> length (gsNodeUpdates m) < 2 ^ 32 \<and> list_all update_ok (gsNodeUpdates m)"

lemma decodeShort_put:
  assumes "length s < 256"
  shows "decodeShort (of_nat (length s) # s @ r) = Some (s, r)"
proof -
  have "unat (of_nat (length s) :: u8) = length s" using assms by (simp add: unat_of_nat take_bit_eq_mod)
  then show ?thesis by (simp add: decodeShort_def)
qed

lemma decodeUpdate_encode: "update_ok u \<Longrightarrow> decodeUpdate (encodeUpdate u @ r) = Some (u, r)"
  by (simp add: update_ok_def decodeUpdate_def encodeUpdate_def decodeShort_put)

lemma decodeUpdates_encode: "list_all update_ok us \<Longrightarrow> decodeUpdates (length us) (concat (map encodeUpdate us)) = us"
  by (induction us) (simp_all add: decodeUpdate_encode)

lemma decodeGossip_encode:
  assumes "gossip_ok m"
  shows "decodeGossipPayload (encodeGossipPayload m) = Some m"
  using assms
  by (simp add: gossip_ok_def decodeGossipPayload_def encodeGossipPayload_def decodeShort_put decodeUpdates_encode)

lemma length_encodeGossip: "13 \<le> length (encodeGossipPayload m)"
  by (simp add: encodeGossipPayload_def)

subsection \<open>Frames\<close>

lemma ReadFull_append: "length d = n \<Longrightarrow> ReadFull n (d @ r) = Inr (d, r)"
  by (auto simp: ReadFull_def)

text \<open>A frame that was encoded is read back, and nothing behind it is touched.\<close>

lemma readGossipResponse_frame:
  assumes "EncodeMessage m = Inr data"
  shows "readGossipResponse (data @ r) = DecodeMessage data"
proof -
  let ?h = "mVersion m # mType m # put_be 4 (mSequence m) @ put_be 4 (mPayloadLength m)"
  have d: "data = ?h @ mPayload m @ put_be 4 (mChecksum m)" "length (mPayload m) = unat (mPayloadLength m)"
    using assms by (auto simp: EncodeMessage_def split: if_splits)
  have "data @ r = ?h @ mPayload m @ put_be 4 (mChecksum m) @ r" using d by simp
  moreover have "ReadFull 10 (?h @ mPayload m @ put_be 4 (mChecksum m) @ r) = Inr (?h, mPayload m @ put_be 4 (mChecksum m) @ r)"
    by (rule ReadFull_append) simp
  moreover have "drop 6 ?h = put_be 4 (mPayloadLength m)" by (simp add: numeral_eq_Suc)
  moreover have "ReadFull (unat (mPayloadLength m)) (mPayload m @ put_be 4 (mChecksum m) @ r) = Inr (mPayload m, put_be 4 (mChecksum m) @ r)"
    by (rule ReadFull_append) (use d in simp)
  moreover have "ReadFull 4 (put_be 4 (mChecksum m) @ r) = Inr (put_be 4 (mChecksum m), r)" by (rule ReadFull_append) simp
  ultimately show ?thesis using d(1) by (simp add: readGossipResponse_def)
qed

lemma readGossipResponse_created:
  assumes "length p < 2 ^ 32"
  shows "\<exists>data. EncodeMessage (CreateMessage ty sq p) = Inr data \<and> readGossipResponse (data @ r) = Inr (CreateMessage ty sq p)"
  using Decode_Create [OF assms, of ty sq] readGossipResponse_frame by fastforce

subsection \<open>Choosing peers\<close>

lemma drop_drawn:
  assumes "i < length xs" "distinct xs"
  shows "set (butlast (xs[i := last xs])) = set xs - {xs ! i}" "distinct (butlast (xs[i := last xs]))"
proof -
  obtain ys z where xs: "xs = ys @ [z]" using assms(1) by (cases xs rule: rev_cases) auto
  have "set (butlast (xs[i := last xs])) = set xs - {xs ! i} \<and> distinct (butlast (xs[i := last xs]))"
  proof (cases "i = length ys")
    case True
    then show ?thesis using assms(2) xs by auto
  next
    case False
    then have i: "i < length ys" using assms(1) xs by simp
    then have "butlast (xs[i := last xs]) = ys[i := z]" using xs by (simp add: list_update_append)
    moreover have "set (ys[i := z]) = insert z (set ys - {ys ! i})"
      using i assms(2) xs by (intro set_update_distinct) auto
    moreover have "distinct (ys[i := z])" using assms(2) xs by (auto intro!: distinct_list_update)
    ultimately show ?thesis using i assms(2) xs by (auto simp: nth_append)
  qed
  then show "set (butlast (xs[i := last xs])) = set xs - {xs ! i}" "distinct (butlast (xs[i := last xs]))" by simp_all
qed

text \<open>What \<open>rand.Intn\<close> promises.\<close>

definition Intn_ok :: "(nat \<Rightarrow> nat \<Rightarrow> nat) \<Rightarrow> bool" where
  "Intn_ok rnd \<longleftrightarrow> (\<forall>k n. 0 < n \<longrightarrow> rnd k n < n)"

lemma pick_ok:
  assumes "Intn_ok rnd" "distinct xs" "n \<le> length xs"
  shows "length (pick rnd k n xs) = n \<and> distinct (pick rnd k n xs) \<and> set (pick rnd k n xs) \<subseteq> set xs"
  using assms(2,3)
proof (induction n arbitrary: k xs)
  case (Suc n)
  let ?i = "rnd k (length xs)" and ?ys = "butlast (xs[rnd k (length xs) := last xs])"
  have "0 < length xs" using Suc.prems(2) by linarith
  then have i: "?i < length xs" using assms(1) by (simp add: Intn_ok_def)
  have "length (pick rnd (k + 1) n ?ys) = n \<and> distinct (pick rnd (k + 1) n ?ys) \<and> set (pick rnd (k + 1) n ?ys) \<subseteq> set ?ys"
    using Suc.IH [of ?ys "k + 1"] drop_drawn(2) [OF i Suc.prems(1)] Suc.prems(2) by simp
  then show ?case using drop_drawn(1) [OF i Suc.prems(1)] i by (auto simp: Let_def)
qed simp

subsection \<open>The invariant of the table\<close>

definition gm_inv :: "GossipManager \<Rightarrow> bool" where
  "gm_inv gm \<longleftrightarrow>
     distinct (map fst (gmAllNodes gm)) \<and> (\<forall>p n. map_of (gmAllNodes gm) p = Some n \<longrightarrow> nsIdentity n = p) \<and>
     distinct (gmGossipPeers gm) \<and> length (gmGossipPeers gm) \<le> 2 * gmMaxGossipPeers gm \<and>
     (\<forall>p \<in> set (gmGossipPeers gm). p \<noteq> gmNodeIdentity gm \<and> (\<exists>n. map_of (gmAllNodes gm) p = Some n \<and> nsStatus n \<noteq> left))"

text \<open>The part about the table alone; choosing the peers anew establishes the rest.\<close>

definition table_inv :: "(gostring \<times> NodeStatus) list \<Rightarrow> bool" where
  "table_inv m \<longleftrightarrow> distinct (map fst m) \<and> (\<forall>p n. map_of m p = Some n \<longrightarrow> nsIdentity n = p)"

lemma gm_inv_table: "gm_inv gm \<Longrightarrow> table_inv (gmAllNodes gm)"
  by (simp add: gm_inv_def table_inv_def)

lemma table_inv_aset: "table_inv m \<Longrightarrow> nsIdentity n = p \<Longrightarrow> table_inv (aset p n m)"
  by (auto simp: table_inv_def)

lemma map_of_filter_in:
  "distinct (map fst m) \<Longrightarrow> (p, n) \<in> set (filter P m) \<Longrightarrow> map_of m p = Some n"
  by (simp add: map_of_eq_Some_iff)

lemma joined_not_left: "joined \<noteq> left"
  by (simp add: joined_def left_def str_def)

lemma updateGossipPeers_inv:
  assumes "Intn_ok rnd" "table_inv (gmAllNodes gm)"
  shows "gm_inv (updateGossipPeers rnd gm)"
proof -
  let ?es = "filter (\<lambda>(identity, node). identity \<noteq> gmNodeIdentity gm \<and> nsStatus node = joined) (gmAllNodes gm)"
  let ?active = "map fst ?es" and ?max = "gmMaxGossipPeers gm * 2"
  let ?peers = "if length ?active \<le> ?max then ?active else pick rnd 0 ?max ?active"
  have d: "distinct (map fst (gmAllNodes gm))" using assms(2) by (simp add: table_inv_def)
  then have da: "distinct ?active" by (rule distinct_map_filter)
  have "p \<noteq> gmNodeIdentity gm \<and> (\<exists>n. map_of (gmAllNodes gm) p = Some n \<and> nsStatus n \<noteq> left)" if p: "p \<in> set ?active" for p
  proof -
    obtain n where "(p, n) \<in> set ?es" using p by auto
    then show ?thesis using map_of_filter_in [OF d] joined_not_left by fastforce
  qed
  moreover have "distinct ?peers \<and> length ?peers \<le> ?max \<and> set ?peers \<subseteq> set ?active"
    using pick_ok [OF assms(1) da, of ?max 0] da by (cases "length ?active \<le> ?max") auto
  moreover have "updateGossipPeers rnd gm = gm\<lparr>gmGossipPeers := ?peers\<rparr>" by (simp add: updateGossipPeers_def Let_def)
  moreover have "gm_inv (gm\<lparr>gmGossipPeers := ps\<rparr>)"
    if "distinct ps" "length ps \<le> ?max" "set ps \<subseteq> set ?active"
      "\<And>p. p \<in> set ?active \<Longrightarrow> p \<noteq> gmNodeIdentity gm \<and> (\<exists>n. map_of (gmAllNodes gm) p = Some n \<and> nsStatus n \<noteq> left)" for ps
    using that(1,2) assms(2) that(4) [OF subsetD [OF that(3)]] by (simp add: gm_inv_def table_inv_def mult.commute)
  ultimately show ?thesis by presburger
qed

lemma gm_inv_New: "gm_inv (NewGossipManager i)"
  by (simp add: gm_inv_def NewGossipManager_def)

lemma node_identity: "table_inv m \<Longrightarrow> map_of m p = Some n \<Longrightarrow> nsIdentity n = p"
  by (simp add: table_inv_def)

lemma gm_inv_update:
  assumes "Intn_ok rnd" "gm_inv gm"
  shows "gm_inv (snd (AddNode rnd now p a z gm))" "gm_inv (snd (RemoveNode rnd now p gm))"
proof -
  note t = gm_inv_table [OF assms(2)]
  show "gm_inv (snd (AddNode rnd now p a z gm))"
    using node_identity [OF t, of p]
    by (auto simp: AddNode_def Let_def split: option.splits intro!: updateGossipPeers_inv assms(1) table_inv_aset t)
  show "gm_inv (snd (RemoveNode rnd now p gm))"
    using node_identity [OF t, of p] assms(2)
    by (auto simp: RemoveNode_def Let_def split: option.splits intro!: updateGossipPeers_inv assms(1) table_inv_aset t)
qed

text \<open>Replacing a known node by one that has not left keeps the invariant without a new choice of peers.\<close>

lemma gm_inv_replace:
  assumes "gm_inv gm" "map_of (gmAllNodes gm) p = Some n" "nsIdentity n' = nsIdentity n" "nsStatus n \<noteq> left \<longrightarrow> nsStatus n' \<noteq> left"
  shows "gm_inv (gm\<lparr>gmAllNodes := aset p n' (gmAllNodes gm)\<rparr>)"
  using assms unfolding gm_inv_def by auto

lemma gm_inv_pending: "gm_inv (gm\<lparr>gmPendingUpdates := us\<rparr>) = gm_inv gm"
  by (simp add: gm_inv_def)

lemma failed_not_left: "failed \<noteq> left"
  by (simp add: failed_def left_def str_def)

lemma gm_inv_local:
  assumes "gm_inv gm"
  shows "gm_inv (MarkNodeFailed now p gm)" "gm_inv (snd (UpdateZoneInfo now p z gm))" "gm_inv (handleGossipError p gm)"
proof -
  have upd: "gm_inv (gm\<lparr>gmAllNodes := aset p n' (gmAllNodes gm), gmPendingUpdates := us\<rparr>)"
    if "map_of (gmAllNodes gm) p = Some n" "nsIdentity n' = nsIdentity n" "nsStatus n \<noteq> left \<longrightarrow> nsStatus n' \<noteq> left" for n n' us
    using gm_inv_replace [OF assms that] gm_inv_pending [of us "gm\<lparr>gmAllNodes := aset p n' (gmAllNodes gm)\<rparr>"] by simp
  show "gm_inv (MarkNodeFailed now p gm)"
    using assms failed_not_left by (auto simp: MarkNodeFailed_def Let_def split: option.splits intro: upd)
  show "gm_inv (snd (UpdateZoneInfo now p z gm))"
    using assms by (auto simp: UpdateZoneInfo_def Let_def split: option.splits intro: upd)
  show "gm_inv (handleGossipError p gm)"
    using assms by (auto simp: handleGossipError_def split: option.splits intro: gm_inv_replace)
qed

lemma map_of_filter_keep:
  "distinct (map fst m) \<Longrightarrow> map_of (filter P m) p = (case map_of m p of None \<Rightarrow> None | Some n \<Rightarrow> if P (p, n) then Some n else None)"
  by (induction m) (auto split: option.splits simp: map_of_eq_None_iff image_iff)

lemma gm_inv_cleanup:
  assumes "gm_inv gm"
  shows "gm_inv (cleanupStaleNodes now gm)"
  using assms by (auto simp: gm_inv_def cleanupStaleNodes_def map_of_filter_keep distinct_map_filter split: option.splits if_splits)

lemma gm_inv_round: "gm_inv gm \<Longrightarrow> gm_inv (snd (processGossipRound rnd now gm))"
  by (auto simp: processGossipRound_def Let_def gm_inv_pending intro!: gm_inv_cleanup split: option.splits)

subsection \<open>Receiving\<close>

lemma find_distinct:
  "distinct (map f xs) \<Longrightarrow> x \<in> set xs \<Longrightarrow> find (\<lambda>y. f y = f x) xs = Some x"
  by (induction xs) auto

text \<open>A node takes over what it is told about nodes it does not know or has not heard of for a minute.\<close>

definition accepts :: "int \<Rightarrow> NodeStatus option \<Rightarrow> bool" where
  "accepts now n = (case n of None \<Rightarrow> True | Some n \<Rightarrow> 60000000000 < now - nsLastSeen n)"

definition told :: "int \<Rightarrow> NodeUpdate \<Rightarrow> NodeStatus option \<Rightarrow> NodeStatus" where
  "told now u n =
     (case n of
        None \<Rightarrow> \<lparr>nsIdentity = nuIdentity u, nsAddress = nuAddress u, nsStatus = nuStatus u, nsLastSeen = now,
                 nsZoneInfo = nuZoneInfo u, nsVersion = 1, nsIsStale = False\<rparr>
      | Some n \<Rightarrow> n\<lparr>nsAddress := nuAddress u, nsStatus := nuStatus u, nsLastSeen := now,
                 nsZoneInfo := nuZoneInfo u, nsVersion := nsVersion n + 1, nsIsStale := False\<rparr>)"

lemma incoming_step_table:
  "gmAllNodes (snd (incoming_step now u (evs, gm))) =
     (if accepts now (map_of (gmAllNodes gm) (nuIdentity u))
      then aset (nuIdentity u) (told now u (map_of (gmAllNodes gm) (nuIdentity u))) (gmAllNodes gm) else gmAllNodes gm)"
  by (auto simp: incoming_step_def accepts_def told_def split: option.splits)

text \<open>Everything but the table of nodes and the chosen peers.\<close>

definition same_gossip :: "GossipManager \<Rightarrow> GossipManager \<Rightarrow> bool" where
  "same_gossip gm gm' \<longleftrightarrow> gmNodeIdentity gm' = gmNodeIdentity gm \<and> gmMaxGossipPeers gm' = gmMaxGossipPeers gm \<and>
     gmIsRunning gm' = gmIsRunning gm \<and> gmPendingUpdates gm' = gmPendingUpdates gm \<and> gmOnNodeJoined gm' = gmOnNodeJoined gm \<and>
     gmOnNodeLeft gm' = gmOnNodeLeft gm \<and> gmOnZoneChange gm' = gmOnZoneChange gm"

lemma incoming_step_same: "same_gossip gm (snd (incoming_step now u (evs, gm)))"
  by (auto simp: incoming_step_def same_gossip_def split: option.splits)

lemma incoming_fold:
  assumes "fold (incoming_step now) us (evs, gm) = (evs', gm')" "table_inv (gmAllNodes gm)"
  shows "table_inv (gmAllNodes gm') \<and> same_gossip gm gm' \<and>
    (distinct (map nuIdentity us) \<longrightarrow> (\<forall>p. map_of (gmAllNodes gm') p =
       (case find (\<lambda>u. nuIdentity u = p) us of
          Some u \<Rightarrow> if accepts now (map_of (gmAllNodes gm) p) then Some (told now u (map_of (gmAllNodes gm) p)) else map_of (gmAllNodes gm) p
        | None \<Rightarrow> map_of (gmAllNodes gm) p)))"
  using assms
proof (induction us arbitrary: evs gm)
  case Nil
  then show ?case by (simp add: same_gossip_def)
next
  case (Cons u us)
  obtain evs1 gm1 where s: "incoming_step now u (evs, gm) = (evs1, gm1)" by fastforce
  have t1: "gmAllNodes gm1 = (if accepts now (map_of (gmAllNodes gm) (nuIdentity u))
      then aset (nuIdentity u) (told now u (map_of (gmAllNodes gm) (nuIdentity u))) (gmAllNodes gm) else gmAllNodes gm)"
    using incoming_step_table [of now u evs gm] s by simp
  have inv: "table_inv (gmAllNodes gm1)"
    using t1 Cons.prems(2) node_identity [OF Cons.prems(2)] by (auto simp: told_def split: option.splits intro!: table_inv_aset)
  have rest: "fold (incoming_step now) us (evs1, gm1) = (evs', gm')" using Cons.prems(1) s by simp
  note IH = Cons.IH [OF rest inv]
  have "same_gossip gm gm1" using incoming_step_same [of gm now u evs] s by simp
  then have "same_gossip gm gm'" using IH by (simp add: same_gossip_def)
  moreover have "map_of (gmAllNodes gm') p =
      (case find (\<lambda>u. nuIdentity u = p) (u # us) of
         Some u \<Rightarrow> if accepts now (map_of (gmAllNodes gm) p) then Some (told now u (map_of (gmAllNodes gm) p)) else map_of (gmAllNodes gm) p
       | None \<Rightarrow> map_of (gmAllNodes gm) p)" if d: "distinct (map nuIdentity (u # us))" for p
  proof (cases "nuIdentity u = p")
    case True
    have "p \<notin> nuIdentity ` set us" using d True by simp
    then have "find (\<lambda>u. nuIdentity u = p) us = None" unfolding find_None_iff by blast
    then show ?thesis using IH d t1 True by auto
  next
    case False
    then have "map_of (gmAllNodes gm1) p = map_of (gmAllNodes gm) p" using t1 by simp
    then show ?thesis using IH d False by (simp split: option.split)
  qed
  ultimately show ?case using IH by blast
qed

lemma gm_inv_incoming:
  assumes "Intn_ok rnd" "gm_inv gm"
  shows "gm_inv (snd (processIncomingGossip rnd now msg gm))"
  using incoming_fold [OF _ gm_inv_table [OF assms(2)]] assms
  by (auto simp: processIncomingGossip_def intro: updateGossipPeers_inv split: option.splits prod.splits)

lemma gm_inv_send:
  assumes "Intn_ok rnd" "gm_inv gm"
  shows "gm_inv (snd (sendGossip rnd now dial net p msg gm))"
  using gm_inv_local(3) [OF assms(2)] gm_inv_incoming [OF assms] assms(2)
  by (auto simp: sendGossip_def split: option.splits sum.splits)

subsection \<open>Runs\<close>

inductive gossip_step :: "GossipManager \<Rightarrow> GossipManager \<Rightarrow> bool" where
  add: "Intn_ok rnd \<Longrightarrow> gossip_step gm (snd (AddNode rnd now p a z gm))"
| remove: "Intn_ok rnd \<Longrightarrow> gossip_step gm (snd (RemoveNode rnd now p gm))"
| mark: "gossip_step gm (MarkNodeFailed now p gm)"
| zone: "gossip_step gm (snd (UpdateZoneInfo now p z gm))"
| round: "gossip_step gm (snd (processGossipRound rnd now gm))"
| send: "Intn_ok rnd \<Longrightarrow> gossip_step gm (snd (sendGossip rnd now dial net p msg gm))"
| receive: "Intn_ok rnd \<Longrightarrow> gossip_step gm (snd (processIncomingGossip rnd now msg gm))"
| start: "gossip_step gm (gm_Start gm)"
| stop: "gossip_step gm (gm_Stop gm)"
| callbacks: "gossip_step gm (SetCallbacks a b c gm)"

lemma gm_inv_switch:
  assumes "gm_inv gm"
  shows "gm_inv (gm_Start gm)" "gm_inv (gm_Stop gm)" "gm_inv (SetCallbacks a b c gm)"
  using assms by (simp_all add: gm_Start_def gm_Stop_def SetCallbacks_def gm_inv_def)

lemma gm_inv_step: "gossip_step gm gm' \<Longrightarrow> gm_inv gm \<Longrightarrow> gm_inv gm'"
  by (induction rule: gossip_step.induct)
     (simp_all add: gm_inv_update gm_inv_local gm_inv_round gm_inv_send gm_inv_incoming gm_inv_switch)

lemma gm_inv_reachable: "gossip_step\<^sup>*\<^sup>* (NewGossipManager i) gm \<Longrightarrow> gm_inv gm"
  by (induction rule: rtranclp_induct) (simp_all add: gm_inv_New gm_inv_step)

lemma selectGossipTargets_ok:
  assumes "Intn_ok rnd" "gm_inv gm"
  shows "distinct (selectGossipTargets rnd gm) \<and> length (selectGossipTargets rnd gm) \<le> gmMaxGossipPeers gm \<and>
    (\<forall>p \<in> set (selectGossipTargets rnd gm). p \<noteq> gmNodeIdentity gm \<and> (\<exists>n. map_of (gmAllNodes gm) p = Some n \<and> nsStatus n = joined))"
proof -
  let ?av = "filter (\<lambda>peer. case map_of (gmAllNodes gm) peer of None \<Rightarrow> False | Some node \<Rightarrow> nsStatus node = joined) (gmGossipPeers gm)"
  let ?t = "pick rnd 0 (min (gmMaxGossipPeers gm) (length ?av)) ?av"
  have d: "distinct ?av" using assms(2) by (simp add: gm_inv_def)
  have t: "length ?t = min (gmMaxGossipPeers gm) (length ?av) \<and> distinct ?t \<and> set ?t \<subseteq> set ?av"
    by (rule pick_ok [OF assms(1) d]) simp
  have "p \<noteq> gmNodeIdentity gm \<and> (\<exists>n. map_of (gmAllNodes gm) p = Some n \<and> nsStatus n = joined)" if "p \<in> set ?av" for p
    using that assms(2) by (auto simp: gm_inv_def split: option.splits)
  then show ?thesis using t by (auto simp: selectGossipTargets_def Let_def)
qed

end
