(* ===== verification/Mesh_Heartbeat.thy ===== *)
theory Mesh_Heartbeat
  imports Mesh_Gossip "HOL-Library.Signed_Division"
begin

text \<open>
  Heartbeats and failure detection between mesh nodes (\<open>src/internal/mesh/heartbeat.go\<close>). Times are
  nanoseconds; what the network does with a message is an argument. Durations saturate in Go, which
  makes no difference to comparisons with a few seconds. Every goroutine that sends a heartbeat is
  one step on a peer of the table.
\<close>

subsection \<open>Data\<close>

text \<open>Of a connection only matters whether there is one.\<close>

record PeerConnection =
  pcIdentity :: gostring
  pcAddress :: gostring
  pcConn :: bool
  pcLastHeartbeat :: int
  pcLastResponse :: int
  pcIsOnline :: bool
  pcFailureCount :: i64
  pcZoneData :: bytes
  pcClockSkew :: i64
  pcRTT :: int

record HeartbeatManager =
  hmNodeIdentity :: gostring
  hmPeers :: "(gostring \<times> PeerConnection) list"
  hmClockOffset :: i64
  hmFailureTimeout :: int
  hmIsRunning :: bool
  hmOnNodeFailed :: bool
  hmOnNodeRecovered :: bool

datatype heartbeat_event = PeerFailed gostring | PeerRecovered gostring

definition HEARTBEAT :: u8 where "HEARTBEAT = 0x36"
definition HEARTBEAT_ACK :: u8 where "HEARTBEAT_ACK = 0x37"

text \<open>The zero \<open>time.Time\<close>, the start of year 1, in nanoseconds from 1970.\<close>

definition no_time :: int where "no_time = - 62135596800000000000"

definition NewHeartbeatManager :: "gostring \<Rightarrow> HeartbeatManager" where
  "NewHeartbeatManager nodeIdentity =
     \<lparr>hmNodeIdentity = nodeIdentity, hmPeers = [], hmClockOffset = 0, hmFailureTimeout = 3000000000, hmIsRunning = False,
      hmOnNodeFailed = False, hmOnNodeRecovered = False\<rparr>"

definition hm_Start :: "HeartbeatManager \<Rightarrow> HeartbeatManager" where
  "hm_Start hm = (if hmIsRunning hm then hm else hm\<lparr>hmIsRunning := True\<rparr>)"

text \<open>Stopping closes the connections, which stay recorded.\<close>

definition hm_Stop :: "HeartbeatManager \<Rightarrow> HeartbeatManager" where
  "hm_Stop hm = (if \<not> hmIsRunning hm then hm else hm\<lparr>hmIsRunning := False\<rparr>)"

datatype peer_error = PeerExists gostring

definition AddPeer :: "gostring \<Rightarrow> gostring \<Rightarrow> HeartbeatManager \<Rightarrow> peer_error + HeartbeatManager" where
  "AddPeer identity address hm =
     (case map_of (hmPeers hm) identity of
        Some peer \<Rightarrow> Inl (PeerExists identity)
      | None \<Rightarrow> Inr (hm\<lparr>hmPeers := aset identity
            \<lparr>pcIdentity = identity, pcAddress = address, pcConn = False, pcLastHeartbeat = no_time, pcLastResponse = no_time,
             pcIsOnline = False, pcFailureCount = 0, pcZoneData = [], pcClockSkew = 0, pcRTT = 0\<rparr> (hmPeers hm)\<rparr>))"

definition RemovePeer :: "gostring \<Rightarrow> HeartbeatManager \<Rightarrow> HeartbeatManager" where
  "RemovePeer identity hm = hm\<lparr>hmPeers := adel identity (hmPeers hm)\<rparr>"

definition GetPeerStatus :: "HeartbeatManager \<Rightarrow> (gostring \<times> PeerConnection) list" where
  "GetPeerStatus hm = map (\<lambda>(identity, peer). (identity, peer\<lparr>pcConn := False\<rparr>)) (hmPeers hm)"

definition SetFailureCallback :: "bool \<Rightarrow> HeartbeatManager \<Rightarrow> HeartbeatManager" where
  "SetFailureCallback callback hm = hm\<lparr>hmOnNodeFailed := callback\<rparr>"

definition SetRecoveryCallback :: "bool \<Rightarrow> HeartbeatManager \<Rightarrow> HeartbeatManager" where
  "SetRecoveryCallback callback hm = hm\<lparr>hmOnNodeRecovered := callback\<rparr>"

definition set_peer :: "gostring \<Rightarrow> PeerConnection \<Rightarrow> HeartbeatManager \<Rightarrow> HeartbeatManager" where
  "set_peer identity peer hm = hm\<lparr>hmPeers := aset identity peer (hmPeers hm)\<rparr>"

definition UpdateZoneData :: "gostring \<Rightarrow> bytes \<Rightarrow> HeartbeatManager \<Rightarrow> HeartbeatManager" where
  "UpdateZoneData identity data hm =
     (case map_of (hmPeers hm) identity of
        None \<Rightarrow> hm
      | Some peer \<Rightarrow> set_peer identity (peer\<lparr>pcZoneData := data\<rparr>) hm)"

subsection \<open>Clock offset\<close>

definition online_skews :: "HeartbeatManager \<Rightarrow> i64 list" where
  "online_skews hm = map (\<lambda>(identity, peer). pcClockSkew peer) (filter (\<lambda>(identity, peer). pcIsOnline peer) (hmPeers hm))"

definition updateClockOffset :: "HeartbeatManager \<Rightarrow> HeartbeatManager" where
  "updateClockOffset hm =
     (if hmPeers hm = [] then hm
      else let skews = online_skews hm; totalSkew = foldl (+) 0 skews; onlineCount = length skews
           in if 0 < onlineCount then hm\<lparr>hmClockOffset := of_int (sint totalSkew sdiv int onlineCount)\<rparr> else hm)"

definition processHeartbeatResponse :: "int \<Rightarrow> gostring \<Rightarrow> Message \<Rightarrow> HeartbeatManager \<Rightarrow> HeartbeatManager" where
  "processHeartbeatResponse now identity response hm =
     (if mType response \<noteq> HEARTBEAT_ACK then hm
      else if 8 \<le> length (mPayload response) then
        (case map_of (hmPeers hm) identity of
           None \<Rightarrow> hm
         | Some peer \<Rightarrow>
             let responseTime = get_be (take 8 (mPayload response))
             in updateClockOffset (set_peer identity (peer\<lparr>pcClockSkew := responseTime - of_int now\<rparr>) hm))
      else hm)"

subsection \<open>Failures\<close>

definition handleConnectionError :: "gostring \<Rightarrow> HeartbeatManager \<Rightarrow> heartbeat_event list \<times> HeartbeatManager" where
  "handleConnectionError identity hm =
     (case map_of (hmPeers hm) identity of
        None \<Rightarrow> ([], hm)
      | Some peer \<Rightarrow>
          let peer1 = peer\<lparr>pcConn := False, pcFailureCount := pcFailureCount peer + 1\<rparr> in
          if 3 \<le>s pcFailureCount peer1 \<and> pcIsOnline peer1
          then (if hmOnNodeFailed hm then [PeerFailed (pcIdentity peer)] else [], set_peer identity (peer1\<lparr>pcIsOnline := False\<rparr>) hm)
          else ([], set_peer identity peer1 hm))"

definition timed_out :: "int \<Rightarrow> HeartbeatManager \<Rightarrow> PeerConnection \<Rightarrow> bool" where
  "timed_out now hm peer \<longleftrightarrow> pcIsOnline peer \<and> hmFailureTimeout hm < now - pcLastResponse peer"

definition checkForFailures :: "int \<Rightarrow> HeartbeatManager \<Rightarrow> heartbeat_event list \<times> HeartbeatManager" where
  "checkForFailures now hm =
     (if hmOnNodeFailed hm then map (\<lambda>(identity, peer). PeerFailed (pcIdentity peer)) (filter (\<lambda>(identity, peer). timed_out now hm peer) (hmPeers hm)) else [],
      hm\<lparr>hmPeers := map (\<lambda>(identity, peer). (identity, if timed_out now hm peer then peer\<lparr>pcIsOnline := False\<rparr> else peer)) (hmPeers hm)\<rparr>)"

subsection \<open>Sending\<close>

definition encodeHeartbeatPayload :: "int \<Rightarrow> bytes \<Rightarrow> bytes" where
  "encodeHeartbeatPayload timestamp zoneData =
     put_be 8 (of_int timestamp :: i64) @ put_be 4 (of_nat (length zoneData) :: u32) @ zoneData"

definition heartbeatMsg :: "int \<Rightarrow> bytes \<Rightarrow> Message" where
  "heartbeatMsg timestamp zoneData =
     \<lparr>mVersion = Version, mType = HEARTBEAT, mSequence = of_int (timestamp div 1000000000), mPayloadLength = 0,
      mPayload = encodeHeartbeatPayload timestamp zoneData, mChecksum = 0\<rparr>"

text \<open>The same steps as for gossip.\<close>

definition readHeartbeatResponse :: "bytes \<Rightarrow> wire_error + Message" where
  "readHeartbeatResponse conn =
     rbind (ReadFull 10 conn) (\<lambda>(headerBytes, r1).
     rbind (ReadFull (unat (get_be (drop 6 headerBytes) :: u32)) r1) (\<lambda>(payload, r2).
     rbind (ReadFull 4 r2) (\<lambda>(checksumBytes, r3).
       DecodeMessage (headerBytes @ payload @ checksumBytes))))"

text \<open>The part of \<open>sendHeartbeat\<close> behind a successful read; \<open>clock\<close> gives its three readings of the time.\<close>

definition heartbeat_answered ::
  "(nat \<Rightarrow> int) \<Rightarrow> int \<Rightarrow> int \<Rightarrow> gostring \<Rightarrow> Message \<Rightarrow> HeartbeatManager \<Rightarrow> heartbeat_event list \<times> HeartbeatManager" where
  "heartbeat_answered clock timestamp startTime identity response hm =
     (case map_of (hmPeers hm) identity of
        None \<Rightarrow> ([], hm)
      | Some peer \<Rightarrow>
          let peer1 = peer\<lparr>pcLastHeartbeat := timestamp, pcLastResponse := clock 1, pcRTT := clock 0 - startTime, pcFailureCount := 0, pcIsOnline := True\<rparr>;
              hm1 = processHeartbeatResponse (clock 2) identity response (set_peer identity peer1 hm)
          in (if \<not> pcIsOnline peer \<and> hmOnNodeRecovered hm then [PeerRecovered (pcIdentity peer)] else [], hm1))"

definition sendHeartbeat ::
  "(nat \<Rightarrow> int) \<Rightarrow> int \<Rightarrow> int \<Rightarrow> (gostring \<Rightarrow> bool) \<Rightarrow> (gostring \<Rightarrow> bytes \<Rightarrow> bytes option) \<Rightarrow> gostring \<Rightarrow> HeartbeatManager \<Rightarrow>
   heartbeat_event list \<times> HeartbeatManager" where
  "sendHeartbeat clock timestamp startTime dial net identity hm =
     (case map_of (hmPeers hm) identity of
        None \<Rightarrow> ([], hm)
      | Some peer \<Rightarrow>
          if \<not> pcConn peer \<and> \<not> dial (pcAddress peer) then handleConnectionError identity hm
          else let hm1 = set_peer identity (peer\<lparr>pcConn := True\<rparr>) hm in
          (case EncodeMessage (heartbeatMsg timestamp (pcZoneData peer)) of
             Inl e \<Rightarrow> handleConnectionError identity hm1
           | Inr data \<Rightarrow>
               (case net (pcAddress peer) data of
                  None \<Rightarrow> handleConnectionError identity hm1
                | Some conn \<Rightarrow>
                    (case readHeartbeatResponse conn of
                       Inl e \<Rightarrow> handleConnectionError identity hm1
                     | Inr response \<Rightarrow> heartbeat_answered clock timestamp startTime identity response hm1))))"

text \<open>A tick starts a goroutine per peer and checks for failures.\<close>

definition processTick :: "int \<Rightarrow> HeartbeatManager \<Rightarrow> gostring list \<times> heartbeat_event list \<times> HeartbeatManager" where
  "processTick now hm = (map fst (hmPeers hm), checkForFailures now hm)"

subsection \<open>Queries\<close>

definition GetClockOffset :: "HeartbeatManager \<Rightarrow> i64" where
  "GetClockOffset hm = hmClockOffset hm"

definition GetSynchronizedTime :: "int \<Rightarrow> HeartbeatManager \<Rightarrow> int" where
  "GetSynchronizedTime now hm = now + sint (hmClockOffset hm)"

definition GetOnlinePeers :: "HeartbeatManager \<Rightarrow> gostring list" where
  "GetOnlinePeers hm = map fst (filter (\<lambda>(identity, peer). pcIsOnline peer) (hmPeers hm))"

definition GetPeerCount :: "HeartbeatManager \<Rightarrow> nat \<times> nat" where
  "GetPeerCount hm = (length (hmPeers hm), length (filter (\<lambda>(identity, peer). pcIsOnline peer) (hmPeers hm)))"

subsection \<open>The clock offset is an average\<close>

lemma sdiv_between:
  assumes "0 < n" "n * lo \<le> t" "t \<le> n * hi"
  shows "lo \<le> t sdiv (n :: int)" "t sdiv n \<le> hi"
proof -
  have pos: "lo \<le> x div n \<and> x div n \<le> hi" if "n * lo \<le> x" "x \<le> n * hi" for x lo hi
    using that assms(1) by (metis div_mult_self1_is_m mult.commute nonzero_mult_div_cancel_left order_less_imp_not_eq2 zdiv_mono1)
  have "lo \<le> t sdiv n \<and> t sdiv n \<le> hi"
  proof (cases "0 \<le> t")
    case True
    then have "t sdiv n = t div n" using assms(1) by (cases "t = 0") (simp_all add: signed_divide_int_def sgn_mult)
    then show ?thesis using pos [OF assms(2,3)] by simp
  next
    case False
    then have "t sdiv n = - ((- t) div n)" using assms(1) by (simp add: signed_divide_int_def sgn_mult)
    then show ?thesis using pos [of "- hi" "- t" "- lo"] assms(2,3) by simp
  qed
  then show "lo \<le> t sdiv n" "t sdiv n \<le> hi" by simp_all
qed

lemma online_skews_comprehension: "online_skews hm = [pcClockSkew peer. (p, peer) \<leftarrow> hmPeers hm, pcIsOnline peer]"
proof -
  have "map (\<lambda>(p, peer). pcClockSkew peer) (filter (\<lambda>(p, peer). pcIsOnline peer) peers) =
      [pcClockSkew peer. (p, peer) \<leftarrow> peers, pcIsOnline peer]" for peers :: "(gostring \<times> PeerConnection) list"
    by (induction peers) auto
  then show ?thesis by (simp add: online_skews_def)
qed

lemma foldl_plus_words: "foldl (+) a ws = a + of_int (sum_list (map sint (ws :: i64 list)))"
  by (induction ws arbitrary: a) (simp_all add: add.assoc)

lemma sum_between:
  assumes "\<forall>w \<in> set ws. lo \<le> f w \<and> f w \<le> (hi :: int)"
  shows "int (length ws) * lo \<le> sum_list (map f ws)" "sum_list (map f ws) \<le> int (length ws) * hi"
  using assms by (induction ws) (auto simp: algebra_simps)

text \<open>
  The sum of the skews wraps around only if the true sum is out of range; then the offset is the
  true mean, rounded towards zero.
\<close>

lemma updateClockOffset_mean:
  assumes "online_skews hm \<noteq> []"
    and "- (2 ^ 63) \<le> sum_list (map sint (online_skews hm))" "sum_list (map sint (online_skews hm)) < 2 ^ 63"
  shows "sint (GetClockOffset (updateClockOffset hm)) =
    sum_list (map sint (online_skews hm)) sdiv int (length (online_skews hm))"
proof -
  let ?n = "int (length (online_skews hm))" and ?t = "sum_list (map sint (online_skews hm))"
  have n: "1 \<le> ?n" using assms(1) by (cases "online_skews hm") auto
  have t: "sint (foldl (+) 0 (online_skews hm)) = ?t"
    using assms(2,3) by (simp add: foldl_plus_words signed_of_int signed_take_bit_int_eq_self)
  have "?n * (- (2 ^ 63)) \<le> - (2 ^ 63)" "2 ^ 63 - 1 \<le> ?n * (2 ^ 63 - 1)" using n by simp_all
  then have "?n * (- (2 ^ 63)) \<le> ?t" "?t \<le> ?n * (2 ^ 63 - 1)" using assms(2,3) by linarith+
  then have "- (2 ^ 63) \<le> ?t sdiv ?n" "?t sdiv ?n < 2 ^ 63"
    using sdiv_between [of ?n "- (2 ^ 63)" ?t "2 ^ 63 - 1"] n by linarith+
  then have "sint (of_int (?t sdiv ?n) :: i64) = ?t sdiv ?n" by (simp add: signed_of_int signed_take_bit_int_eq_self)
  moreover have "hmPeers hm \<noteq> []" using assms(1) by (auto simp: online_skews_def)
  ultimately show ?thesis using assms(1) t by (simp add: updateClockOffset_def GetClockOffset_def Let_def)
qed

end
