(* ===== verification/Mesh_Heartbeat_Correct.thy ===== *)
theory Mesh_Heartbeat_Correct
  imports Mesh_Heartbeat
begin

text \<open>
  Facts on heartbeats. The failure detector is edge-triggered: the reports about a peer alternate
  between recovery and failure and the last one tells whether the peer is online; this is proved
  once for any detector that reports exactly the changes of a flag. On the other side, the message
  a node builds for a heartbeat is one the encoder refuses, so that no run ever gets a peer online.
\<close>

declare map_of_eq_Some_iff [simp del]

subsection \<open>Edge-triggered detectors\<close>

fun alternates :: "bool \<Rightarrow> bool list \<Rightarrow> bool" where
  "alternates b [] = True"
| "alternates b (e # es) = (e \<noteq> b \<and> alternates e es)"

fun run_acts :: "('a \<Rightarrow> 's \<Rightarrow> bool list \<times> 's) \<Rightarrow> 'a list \<Rightarrow> 's \<Rightarrow> bool list \<times> 's" where
  "run_acts act [] s = ([], s)"
| "run_acts act (a # as) s =
     (let (es, s1) = act a s; (es', s2) = run_acts act as s1 in (es @ es', s2))"

locale edge_detector =
  fixes act :: "'a \<Rightarrow> 's \<Rightarrow> bool list \<times> 's"
    and up :: "'s \<Rightarrow> bool"
    and inv :: "'s \<Rightarrow> bool"
  assumes edge: "inv s \<Longrightarrow> act a s = (es, s') \<Longrightarrow> inv s' \<and> es = (if up s' = up s then [] else [up s'])"
begin

lemma reports_alternate:
  "inv s \<Longrightarrow> run_acts act as s = (es, s') \<Longrightarrow>
     inv s' \<and> alternates (up s) es \<and> up s' = (if es = [] then up s else last es)"
proof (induction as arbitrary: s es)
  case (Cons a as)
  obtain es1 s1 where a: "act a s = (es1, s1)" by fastforce
  obtain es2 where r: "run_acts act as s1 = (es2, s')" "es = es1 @ es2" using Cons.prems(2) a by (auto split: prod.splits)
  note e = edge [OF Cons.prems(1) a]
  show ?case using Cons.IH [of s1 es2] e r by (cases "up s1 = up s") auto
qed simp

end

subsection \<open>The detector of the heartbeat manager\<close>

text \<open>What happens to a peer: an answered heartbeat, a connection error, the check of a tick.\<close>

datatype hb_action =
    Answered "nat \<Rightarrow> int" int int gostring Message
  | ConnError gostring
  | Check int

fun hb_act :: "hb_action \<Rightarrow> HeartbeatManager \<Rightarrow> heartbeat_event list \<times> HeartbeatManager" where
  "hb_act (Answered clock timestamp startTime p response) hm = heartbeat_answered clock timestamp startTime p response hm"
| "hb_act (ConnError p) hm = handleConnectionError p hm"
| "hb_act (Check now) hm = checkForFailures now hm"

fun report :: "gostring \<Rightarrow> heartbeat_event \<Rightarrow> bool list" where
  "report p (PeerFailed q) = (if q = p then [False] else [])"
| "report p (PeerRecovered q) = (if q = p then [True] else [])"

definition reports :: "gostring \<Rightarrow> heartbeat_event list \<Rightarrow> bool list" where
  "reports p evs = concat (map (report p) evs)"

definition peer_up :: "gostring \<Rightarrow> HeartbeatManager \<Rightarrow> bool" where
  "peer_up p hm = (case map_of (hmPeers hm) p of None \<Rightarrow> False | Some peer \<Rightarrow> pcIsOnline peer)"

definition hb_inv :: "HeartbeatManager \<Rightarrow> bool" where
  "hb_inv hm \<longleftrightarrow> distinct (map fst (hmPeers hm)) \<and> (\<forall>p peer. map_of (hmPeers hm) p = Some peer \<longrightarrow> pcIdentity peer = p) \<and>
     hmOnNodeFailed hm \<and> hmOnNodeRecovered hm"

lemma hb_inv_set_peer: "hb_inv hm \<Longrightarrow> pcIdentity peer = p \<Longrightarrow> hb_inv (set_peer p peer hm)"
  by (auto simp: hb_inv_def set_peer_def)

lemma peer_up_set_peer: "peer_up p (set_peer q peer hm) = (if p = q then pcIsOnline peer else peer_up p hm)"
  by (simp add: peer_up_def set_peer_def)

lemma updateClockOffset_peers: "hmPeers (updateClockOffset hm) = hmPeers hm"
  "hmOnNodeFailed (updateClockOffset hm) = hmOnNodeFailed hm" "hmOnNodeRecovered (updateClockOffset hm) = hmOnNodeRecovered hm"
  by (simp_all add: updateClockOffset_def Let_def)

lemma response_keeps:
  assumes "hb_inv hm"
  shows "hb_inv (processHeartbeatResponse now p response hm)" "peer_up q (processHeartbeatResponse now p response hm) = peer_up q hm"
proof -
  have "hb_inv (processHeartbeatResponse now p response hm) \<and> peer_up q (processHeartbeatResponse now p response hm) = peer_up q hm"
  proof (cases "map_of (hmPeers hm) p")
    case (Some peer)
    have off: "hb_inv (updateClockOffset h) = hb_inv h" "peer_up q (updateClockOffset h) = peer_up q h" for h
      by (simp_all add: hb_inv_def peer_up_def updateClockOffset_peers)
    have "pcIdentity peer = p" using assms Some by (simp add: hb_inv_def)
    moreover have "peer_up p hm = pcIsOnline peer" using Some by (simp add: peer_up_def)
    ultimately show ?thesis
      using Some assms by (auto simp: processHeartbeatResponse_def Let_def off hb_inv_set_peer peer_up_set_peer)
  qed (use assms in \<open>simp add: processHeartbeatResponse_def\<close>)
  then show "hb_inv (processHeartbeatResponse now p response hm)" "peer_up q (processHeartbeatResponse now p response hm) = peer_up q hm" by simp_all
qed

lemma reports_filter:
  assumes "distinct (map fst m)" "\<forall>p peer. map_of m p = Some peer \<longrightarrow> pcIdentity peer = p"
  shows "reports p (map (\<lambda>(i, peer). PeerFailed (pcIdentity peer)) (filter (\<lambda>(i, peer). P peer) m)) =
    (case map_of m p of None \<Rightarrow> [] | Some peer \<Rightarrow> if P peer then [False] else [])"
  using assms
proof (induction m)
  case (Cons x m)
  obtain i peer where x: "x = (i, peer)" by (cases x)
  have i: "pcIdentity peer = i" "i \<notin> fst ` set m" using Cons.prems x by auto
  have none: "map_of m i = None" using i(2) by (simp add: map_of_eq_None_iff)
  have filed: "pcIdentity n = q" if "map_of m q = Some n" for q n
  proof -
    have "q \<noteq> i" using that none by auto
    then have "map_of (x # m) q = Some n" using that x by simp
    then show ?thesis using Cons.prems(2) by blast
  qed
  have d: "distinct (map fst m)" using Cons.prems(1) by simp
  have IH: "reports p (map (\<lambda>(i, peer). PeerFailed (pcIdentity peer)) (filter (\<lambda>(i, peer). P peer) m)) =
    (case map_of m p of None \<Rightarrow> [] | Some peer \<Rightarrow> if P peer then [False] else [])"
    using filed by (intro Cons.IH d) blast
  show ?case using IH none i(1) by (cases "p = i") (auto simp: x reports_def)
qed (simp add: reports_def)

lemma check_edge:
  assumes "hb_inv hm" "checkForFailures now hm = (evs, hm')"
  shows "hb_inv hm' \<and> reports p evs = (if peer_up p hm' = peer_up p hm then [] else [peer_up p hm'])"
proof -
  let ?f = "\<lambda>peer. if timed_out now hm peer then peer\<lparr>pcIsOnline := False\<rparr> else peer"
  have m: "hmPeers hm' = map (\<lambda>(i, peer). (i, ?f peer)) (hmPeers hm)" and e: "evs = map (\<lambda>(i, peer). PeerFailed (pcIdentity peer)) (filter (\<lambda>(i, peer). timed_out now hm peer) (hmPeers hm))"
    and c: "hmOnNodeFailed hm'" "hmOnNodeRecovered hm'"
    using assms by (auto simp: checkForFailures_def hb_inv_def)
  have mo: "map_of (hmPeers hm') q = map_option ?f (map_of (hmPeers hm) q)" for q by (simp add: m map_of_map)
  have k: "map fst (hmPeers hm') = map fst (hmPeers hm)" by (simp add: m case_prod_unfold)
  have "hb_inv hm'" using assms(1) k mo c unfolding hb_inv_def by (auto split: if_splits)
  moreover have "reports p evs = (case map_of (hmPeers hm) p of None \<Rightarrow> [] | Some peer \<Rightarrow> if timed_out now hm peer then [False] else [])"
    unfolding e using assms(1) by (intro reports_filter) (simp_all add: hb_inv_def)
  ultimately show ?thesis by (auto simp: peer_up_def mo timed_out_def split: option.splits)
qed

lemma answered_edge:
  assumes "hb_inv hm" "heartbeat_answered clock timestamp startTime q response hm = (evs, hm')"
  shows "hb_inv hm' \<and> reports p evs = (if peer_up p hm' = peer_up p hm then [] else [peer_up p hm'])"
proof (cases "map_of (hmPeers hm) q")
  case None
  then show ?thesis using assms by (auto simp: heartbeat_answered_def reports_def)
next
  case (Some peer)
  let ?peer = "peer\<lparr>pcLastHeartbeat := timestamp, pcLastResponse := clock 1, pcRTT := clock 0 - startTime, pcFailureCount := 0, pcIsOnline := True\<rparr>"
  have q: "pcIdentity peer = q" "hmOnNodeRecovered hm" using assms(1) Some by (auto simp: hb_inv_def)
  have r: "hm' = processHeartbeatResponse (clock 2) q response (set_peer q ?peer hm)"
    "evs = (if \<not> pcIsOnline peer then [PeerRecovered q] else [])"
    using assms(2) Some q by (auto simp: heartbeat_answered_def Let_def)
  have inv: "hb_inv (set_peer q ?peer hm)" using assms(1) q by (simp add: hb_inv_set_peer)
  have "peer_up p hm' = (if p = q then True else peer_up p hm)" using response_keeps(2) [OF inv] r(1) by (simp add: peer_up_set_peer)
  moreover have "peer_up q hm = pcIsOnline peer" using Some by (simp add: peer_up_def)
  ultimately show ?thesis using response_keeps(1) [OF inv] r by (auto simp: reports_def)
qed

lemma error_edge:
  assumes "hb_inv hm" "handleConnectionError q hm = (evs, hm')"
  shows "hb_inv hm' \<and> reports p evs = (if peer_up p hm' = peer_up p hm then [] else [peer_up p hm'])"
proof (cases "map_of (hmPeers hm) q")
  case None
  then show ?thesis using assms by (auto simp: handleConnectionError_def reports_def)
next
  case (Some peer)
  have q: "pcIdentity peer = q" "hmOnNodeFailed hm" "peer_up q hm = pcIsOnline peer"
    using assms(1) Some by (auto simp: hb_inv_def peer_up_def)
  then show ?thesis
    using assms Some by (auto simp: handleConnectionError_def Let_def reports_def hb_inv_set_peer peer_up_set_peer split: if_splits)
qed

interpretation detector: edge_detector "\<lambda>a hm. map_prod (reports p) id (hb_act a hm)" "peer_up p" hb_inv for p
proof
  fix hm a es hm'
  assume inv: "hb_inv hm" and "map_prod (reports p) id (hb_act a hm) = (es, hm')"
  then obtain evs where evs: "hb_act a hm = (evs, hm')" "es = reports p evs" by (cases "hb_act a hm") auto
  then show "hb_inv hm' \<and> es = (if peer_up p hm' = peer_up p hm then [] else [peer_up p hm'])"
    using answered_edge [OF inv] error_edge [OF inv] check_edge [OF inv] by (cases a) auto
qed

subsection \<open>No heartbeat is ever sent\<close>

lemma heartbeat_unencodable: "EncodeMessage (heartbeatMsg t z) = Inl (PayloadLengthMismatch 0 (12 + length z))"
  by (simp add: EncodeMessage_def heartbeatMsg_def encodeHeartbeatPayload_def)

inductive hb_step :: "HeartbeatManager \<Rightarrow> heartbeat_event list \<Rightarrow> HeartbeatManager \<Rightarrow> bool" where
  add: "AddPeer p a hm = Inr hm' \<Longrightarrow> hb_step hm [] hm'"
| remove: "hb_step hm [] (RemovePeer p hm)"
| zone: "hb_step hm [] (UpdateZoneData p d hm)"
| on_failure: "hb_step hm [] (SetFailureCallback b hm)"
| on_recovery: "hb_step hm [] (SetRecoveryCallback b hm)"
| start: "hb_step hm [] (hm_Start hm)"
| stop: "hb_step hm [] (hm_Stop hm)"
| send: "sendHeartbeat clock t t0 dial net p hm = (evs, hm') \<Longrightarrow> hb_step hm evs hm'"
| tick: "processTick now hm = (ps, evs, hm') \<Longrightarrow> hb_step hm evs hm'"

inductive hb_run :: "HeartbeatManager \<Rightarrow> heartbeat_event list \<Rightarrow> HeartbeatManager \<Rightarrow> bool" where
  idle: "hb_run hm [] hm"
| more: "hb_run hm evs hm' \<Longrightarrow> hb_step hm' evs' hm'' \<Longrightarrow> hb_run hm (evs @ evs') hm''"

definition dark :: "HeartbeatManager \<Rightarrow> bool" where
  "dark hm \<longleftrightarrow> hmClockOffset hm = 0 \<and> (\<forall>(p, peer) \<in> set (hmPeers hm). \<not> pcIsOnline peer)"

lemma dark_aset:
  assumes "dark hm" "\<not> pcIsOnline peer"
  shows "dark (set_peer p peer hm)"
  using assms set_aset [of p peer "hmPeers hm"] by (auto simp: dark_def set_peer_def)

lemma dark_known: "dark hm \<Longrightarrow> map_of (hmPeers hm) p = Some peer \<Longrightarrow> \<not> pcIsOnline peer"
  by (auto simp: dark_def dest!: map_of_SomeD)

lemma dark_error: "dark hm \<Longrightarrow> handleConnectionError p hm = (evs, hm') \<Longrightarrow> evs = [] \<and> dark hm'"
  using dark_known [of hm p] by (auto simp: handleConnectionError_def Let_def dark_aset split: option.splits if_splits)

lemma dark_send:
  assumes "dark hm" "sendHeartbeat clock t t0 dial net p hm = (evs, hm')"
  shows "evs = [] \<and> dark hm'"
proof (cases "map_of (hmPeers hm) p")
  case (Some peer)
  have "dark (set_peer p (peer\<lparr>pcConn := True\<rparr>) hm)" using dark_aset [OF assms(1)] dark_known [OF assms(1) Some] by simp
  then show ?thesis
    using assms Some dark_error by (auto simp: sendHeartbeat_def heartbeat_unencodable Let_def split: if_splits)
qed (use assms in \<open>auto simp: sendHeartbeat_def\<close>)

lemma dark_tick: "dark hm \<Longrightarrow> processTick now hm = (ps, evs, hm') \<Longrightarrow> evs = [] \<and> dark hm'"
  by (fastforce simp: dark_def processTick_def checkForFailures_def timed_out_def filter_empty_conv split: if_splits)

lemma dark_step: "hb_step hm evs hm' \<Longrightarrow> dark hm \<Longrightarrow> evs = [] \<and> dark hm'"
proof (induction rule: hb_step.induct)
  case (add p a hm hm')
  then show ?case using set_aset [of p _ "hmPeers hm"] by (fastforce simp: AddPeer_def dark_def split: option.splits)
next
  case (zone hm p d)
  then show ?case using dark_known [of hm p] by (auto simp: UpdateZoneData_def dark_aset split: option.splits)
next
  case (send clock t t0 dial net p hm evs hm')
  then show ?case using dark_send by blast
next
  case (tick now hm ps evs hm')
  then show ?case using dark_tick by blast
qed (auto simp: RemovePeer_def adel_def SetFailureCallback_def SetRecoveryCallback_def hm_Start_def hm_Stop_def dark_def)

lemma dark_run: "hb_run hm evs hm' \<Longrightarrow> dark hm \<Longrightarrow> evs = [] \<and> dark hm'"
proof (induction rule: hb_run.induct)
  case (more hm evs hm' evs' hm'')
  then show ?case using dark_step by fastforce
qed simp

lemma dark_New: "dark (NewHeartbeatManager i)"
  by (simp add: dark_def NewHeartbeatManager_def)

end
