(* ===== verification/Mesh_Authority.thy ===== *)
theory Mesh_Authority
  imports Mesh_Gossip Mbl_Compare
begin

text \<open>
  Write authority over paths (\<open>src/internal/mesh/authority.go\<close>): announcing, delegating and splitting
  authority, electing a new authority when a node fails, and the announcements of other nodes.
  It works on the directory, the subscription registry and the gossip manager. Work the code hands
  to goroutines is returned as a list of tasks; a promotion election is one step.
\<close>

subsection \<open>Data\<close>

record AuthorityElection =
  aePath :: gostring
  aeFormerAuthority :: Identity
  aeCandidates :: "Identity list"
  aeStartTime :: int
  aeVotes :: "(gostring \<times> Identity) list"
  aeCompleted :: bool
  aeWinner :: "Identity option"

record AuthorityAnnouncement =
  aaPath :: gostring
  aaAuthority :: Identity
  aaReason :: gostring
  aaTimestamp :: int

record AuthorityManager =
  amNodeIdentity :: Identity
  amDirectory :: Directory
  amSubscriptions :: SubscriptionRegistry
  amGossipManager :: "GossipManager option"
  amMissedHeartbeatThreshold :: nat
  amWriteRateThreshold :: nat
  amMissedHeartbeats :: "(gostring \<times> nat) list"
  amWriteRates :: "(gostring \<times> nat) list"
  amLastWriteTime :: "(gostring \<times> int) list"
  amActiveElections :: "(gostring \<times> AuthorityElection) list"

datatype authority_error =
    NotCurrentAuthority gostring
  | NotASubscriber gostring gostring
  | GossipNotSet
  | NilAuthority

definition NewAuthorityManager :: "Identity \<Rightarrow> Directory \<Rightarrow> SubscriptionRegistry \<Rightarrow> AuthorityManager" where
  "NewAuthorityManager nodeIdentity directory subscriptions =
     \<lparr>amNodeIdentity = nodeIdentity, amDirectory = directory, amSubscriptions = subscriptions, amGossipManager = None,
      amMissedHeartbeatThreshold = 3, amWriteRateThreshold = 100, amMissedHeartbeats = [], amWriteRates = [],
      amLastWriteTime = [], amActiveElections = []\<rparr>"

definition SetGossipManager :: "GossipManager \<Rightarrow> AuthorityManager \<Rightarrow> AuthorityManager" where
  "SetGossipManager gossipManager am = am\<lparr>amGossipManager := Some gossipManager\<rparr>"

subsection \<open>Announcements\<close>

text \<open>\<open>%d\<close> of a signed number.\<close>

definition itoa :: "int \<Rightarrow> gostring" where
  "itoa n = (if n < 0 then str ''-'' @ dec (nat (- n)) else dec (nat n))"

definition encodeAuthorityAnnouncement :: "AuthorityAnnouncement \<Rightarrow> bytes" where
  "encodeAuthorityAnnouncement announcement =
     str ''AUTH:'' @ aaPath announcement @ str '':'' @ idID (aaAuthority announcement) @ str '':'' @
     aaReason announcement @ str '':'' @ itoa (aaTimestamp announcement div 1000000000)"

definition decodeAuthorityAnnouncement :: "bytes \<Rightarrow> AuthorityAnnouncement option" where
  "decodeAuthorityAnnouncement data =
     (if length data < 5 \<or> take 5 data \<noteq> str ''AUTH:'' then None else None)"

definition propagateAnnouncement ::
  "int \<Rightarrow> AuthorityAnnouncement \<Rightarrow> AuthorityManager \<Rightarrow> (authority_error + unit) \<times> AuthorityManager" where
  "propagateAnnouncement now announcement am =
     (case amGossipManager am of
        None \<Rightarrow> (Inl GossipNotSet, am)
      | Some gm \<Rightarrow>
          (Inr (), am\<lparr>amGossipManager :=
             Some (snd (UpdateZoneInfo now (idID (amNodeIdentity am)) (encodeAuthorityAnnouncement announcement) gm))\<rparr>))"

text \<open>Setting the directory entry and announcing it, the common end of the operations.\<close>

definition assign_authority ::
  "int \<Rightarrow> gostring \<Rightarrow> Identity \<Rightarrow> gostring \<Rightarrow> AuthorityManager \<Rightarrow> (authority_error + unit) \<times> AuthorityManager" where
  "assign_authority now path authority reason am =
     propagateAnnouncement now \<lparr>aaPath = path, aaAuthority = authority, aaReason = reason, aaTimestamp = now\<rparr>
       (am\<lparr>amDirectory := dir_Set path (Some authority) now (amDirectory am)\<rparr>)"

definition AnnounceAuthority ::
  "int \<Rightarrow> gostring \<Rightarrow> gostring \<Rightarrow> AuthorityManager \<Rightarrow> (authority_error + unit) \<times> AuthorityManager" where
  "AnnounceAuthority now path reason am = assign_authority now path (amNodeIdentity am) reason am"

text \<open>The two checks before authority is given away: we hold it, and the receiver subscribes to the path.\<close>

definition may_hand_over :: "gostring \<Rightarrow> Identity \<Rightarrow> AuthorityManager \<Rightarrow> authority_error + unit" where
  "may_hand_over path newAuthority am =
     (case dir_Get (amDirectory am) path of
        None \<Rightarrow> Inl (NotCurrentAuthority path)
      | Some (None, _) \<Rightarrow> Inl NilAuthority
      | Some (Some currentAuthority, _) \<Rightarrow>
          if idID currentAuthority \<noteq> idID (amNodeIdentity am) then Inl (NotCurrentAuthority path)
          else if list_ex (\<lambda>subscriber. idID subscriber = idID newAuthority) (Subscribers (amSubscriptions am) path) then Inr ()
          else Inl (NotASubscriber (idID newAuthority) path))"

definition DelegateAuthority ::
  "int \<Rightarrow> gostring \<Rightarrow> Identity \<Rightarrow> AuthorityManager \<Rightarrow> (authority_error + unit) \<times> AuthorityManager" where
  "DelegateAuthority now path newAuthority am =
     (case may_hand_over path newAuthority am of
        Inl e \<Rightarrow> (Inl e, am)
      | Inr _ \<Rightarrow> assign_authority now path newAuthority (str ''delegation'') am)"

definition SplitAuthority ::
  "int \<Rightarrow> gostring \<Rightarrow> gostring \<Rightarrow> Identity \<Rightarrow> AuthorityManager \<Rightarrow> (authority_error + unit) \<times> AuthorityManager" where
  "SplitAuthority now parentPath subPath newAuthority am =
     (case may_hand_over parentPath newAuthority am of
        Inl e \<Rightarrow> (Inl e, am)
      | Inr _ \<Rightarrow> assign_authority now subPath newAuthority (str ''split'') am)"

subsection \<open>Missed heartbeats and failures\<close>

text \<open>A task is an election to start: the path and its former authority.\<close>

definition missed_step ::
  "gostring \<Rightarrow> DirectoryEntry \<Rightarrow> (gostring \<times> Identity) list \<times> AuthorityManager \<Rightarrow>
   authority_error + (gostring \<times> Identity) list \<times> AuthorityManager" where
  "missed_step nodeID entry = (\<lambda>(tasks, am).
     case deAuthority entry of
       None \<Rightarrow> Inl NilAuthority
     | Some authority \<Rightarrow>
         if idNodeID authority = nodeID then
           let count = (case map_of (amMissedHeartbeats am) (dePath entry) of None \<Rightarrow> 0 | Some n \<Rightarrow> n) + 1;
               am' = am\<lparr>amMissedHeartbeats := aset (dePath entry) count (amMissedHeartbeats am)\<rparr>
           in Inr (if amMissedHeartbeatThreshold am \<le> count then tasks @ [(dePath entry, authority)] else tasks, am')
         else Inr (tasks, am))"

definition OnHeartbeatMissed ::
  "gostring \<Rightarrow> AuthorityManager \<Rightarrow> authority_error + (gostring \<times> Identity) list \<times> AuthorityManager" where
  "OnHeartbeatMissed nodeID am =
     fold (\<lambda>entry r. rbind r (missed_step nodeID entry)) (Snapshot (amDirectory am)) (Inr ([], am))"

definition am_onNodeFailed :: "gostring \<Rightarrow> AuthorityManager \<Rightarrow> authority_error + (gostring \<times> Identity) list" where
  "am_onNodeFailed nodeID am =
     fold (\<lambda>entry r. rbind r (\<lambda>tasks. case deAuthority entry of
         None \<Rightarrow> Inl NilAuthority
       | Some authority \<Rightarrow> Inr (if idNodeID authority = nodeID then tasks @ [(dePath entry, authority)] else tasks)))
       (Snapshot (amDirectory am)) (Inr [])"

subsection \<open>Elections\<close>

definition elect_step :: "Identity \<Rightarrow> Identity option \<Rightarrow> Identity option" where
  "elect_step candidate w =
     (case w of
        None \<Rightarrow> Some candidate
      | Some winner \<Rightarrow>
          if idCreated candidate < idCreated winner then Some candidate
          else if idCreated candidate = idCreated winner then
            (if bytes_less (idID candidate) (idID winner) then Some candidate else Some winner)
          else Some winner)"

definition electByUptime :: "Identity list \<Rightarrow> Identity option" where
  "electByUptime candidates = fold elect_step candidates None"

definition startPromotionElection :: "int \<Rightarrow> gostring \<Rightarrow> Identity \<Rightarrow> AuthorityManager \<Rightarrow> AuthorityManager" where
  "startPromotionElection now path formerAuthority am =
     (let candidates = Subscribers (amSubscriptions am) path in
      if (case map_of (amActiveElections am) path of None \<Rightarrow> False | Some election \<Rightarrow> \<not> aeCompleted election) then am
      else if candidates = [] then am
      else let winner = electByUptime candidates;
               election = \<lparr>aePath = path, aeFormerAuthority = formerAuthority, aeCandidates = candidates, aeStartTime = now,
                           aeVotes = [], aeCompleted = True, aeWinner = winner\<rparr>;
               am1 = am\<lparr>amActiveElections := aset path election (amActiveElections am)\<rparr>
           in (case winner of
                 None \<Rightarrow> am1
               | Some w \<Rightarrow>
                   if idID w = idID (amNodeIdentity am) then snd (AnnounceAuthority now path (str ''promotion'') am1) else am1))"

subsection \<open>Write rates and splitting\<close>

text \<open>The second result tells whether splitting is to be considered.\<close>

definition RecordWrite :: "int \<Rightarrow> gostring \<Rightarrow> AuthorityManager \<Rightarrow> bool \<times> AuthorityManager" where
  "RecordWrite now path am =
     (let am1 = am\<lparr>amLastWriteTime := aset path now (amLastWriteTime am)\<rparr>;
          rate = (case map_of (amWriteRates am1) path of None \<Rightarrow> 0 | Some n \<Rightarrow> n);
          rate' = (case map_of (amLastWriteTime am1) path of
                     Some lastWrite \<Rightarrow> if now - lastWrite < 1000000000 then rate + 1 else 1
                   | None \<Rightarrow> 1);
          am2 = am1\<lparr>amWriteRates := aset path rate' (amWriteRates am1)\<rparr>
      in (amWriteRateThreshold am2 < rate', am2))"

definition considerSplitting :: "int \<Rightarrow> gostring \<Rightarrow> AuthorityManager \<Rightarrow> AuthorityManager" where
  "considerSplitting now path am =
     (let writeRate = (case map_of (amWriteRates am) path of None \<Rightarrow> 0 | Some n \<Rightarrow> n) in
      if writeRate \<le> amWriteRateThreshold am then am
      else (case Subscribers (amSubscriptions am) path of
              [] \<Rightarrow> am
            | newAuthority # _ \<Rightarrow> snd (SplitAuthority now path (path @ str ''.partition1'') newAuthority am)))"

subsection \<open>Announcements of others\<close>

definition ProcessAuthorityAnnouncement :: "AuthorityAnnouncement \<Rightarrow> AuthorityManager \<Rightarrow> AuthorityManager" where
  "ProcessAuthorityAnnouncement announcement am =
     (if (case dir_Get (amDirectory am) (aaPath announcement) of
            None \<Rightarrow> True
          | Some (_, currentTime) \<Rightarrow> currentTime < aaTimestamp announcement)
      then am\<lparr>amDirectory := dir_Set (aaPath announcement) (Some (aaAuthority announcement)) (aaTimestamp announcement) (amDirectory am),
              amMissedHeartbeats := adel (aaPath announcement) (amMissedHeartbeats am),
              amActiveElections := adel (aaPath announcement) (amActiveElections am)\<rparr>
      else am)"

subsection \<open>Queries\<close>

definition GetAuthorityForPath :: "gostring \<Rightarrow> AuthorityManager \<Rightarrow> Identity option \<times> bool" where
  "GetAuthorityForPath path am =
     (case dir_Get (amDirectory am) path of None \<Rightarrow> (None, False) | Some (authority, _) \<Rightarrow> (authority, True))"

definition IsAuthorityFor :: "gostring \<Rightarrow> AuthorityManager \<Rightarrow> authority_error + bool" where
  "IsAuthorityFor path am =
     (case GetAuthorityForPath path am of
        (_, False) \<Rightarrow> Inr False
      | (None, True) \<Rightarrow> Inl NilAuthority
      | (Some authority, True) \<Rightarrow> Inr (idID authority = idID (amNodeIdentity am)))"

text \<open>Active elections, tracked paths, paths we are the authority for.\<close>

definition GetAuthorityStats :: "AuthorityManager \<Rightarrow> authority_error + nat \<times> nat \<times> nat" where
  "GetAuthorityStats am =
     rmap (\<lambda>n. (length (amActiveElections am), length (amWriteRates am), n))
       (fold (\<lambda>entry r. rbind r (\<lambda>n. case deAuthority entry of
           None \<Rightarrow> Inl NilAuthority
         | Some authority \<Rightarrow> Inr (if idID authority = idID (amNodeIdentity am) then n + 1 else n)))
         (Snapshot (amDirectory am)) (Inr 0))"

section \<open>Lemmas\<close>

subsection \<open>The winner of an election\<close>

text \<open>\<open>beats a b\<close>: \<open>a\<close> wins over \<open>b\<close>; a strict linear order on identities with different IDs.\<close>

definition beats :: "Identity \<Rightarrow> Identity \<Rightarrow> bool" where
  "beats a b \<longleftrightarrow> idCreated a < idCreated b \<or> idCreated a = idCreated b \<and> bytes_less (idID a) (idID b)"

lemma bytes_less_trans: "bytes_less s t \<Longrightarrow> bytes_less t u \<Longrightarrow> bytes_less s u"
proof (induction s t arbitrary: u rule: bytes_less.induct)
  case (2 c t)
  then show ?case by (cases u) auto
next
  case (3 b s c t)
  then show ?case by (cases u) auto
qed simp

lemma bytes_less_irrefl: "\<not> bytes_less s s"
  using bytes_less_asym by blast

lemma beats_order: "beats a b \<Longrightarrow> beats b c \<Longrightarrow> beats a c" "beats a b \<Longrightarrow> \<not> beats b a"
  "idID a \<noteq> idID b \<Longrightarrow> beats a b \<or> beats b a" "\<not> beats a a"
proof -
  show "beats a b \<Longrightarrow> beats b c \<Longrightarrow> beats a c" using bytes_less_trans [of "idID a" "idID b" "idID c"] by (auto simp: beats_def)
  show "beats a b \<Longrightarrow> \<not> beats b a" using bytes_less_asym [of "idID a" "idID b"] by (auto simp: beats_def)
  show "idID a \<noteq> idID b \<Longrightarrow> beats a b \<or> beats b a" using bytes_less_linear [of "idID a" "idID b"] by (auto simp: beats_def)
  show "\<not> beats a a" by (simp add: beats_def bytes_less_irrefl)
qed

lemma beats_between: "beats c w' \<Longrightarrow> beats c w \<or> beats w w'"
proof -
  assume c: "beats c w'"
  show ?thesis
  proof (cases "idID c = idID w")
    case True
    then show ?thesis using c by (auto simp: beats_def bytes_less_irrefl)
  next
    case False
    then show ?thesis using c beats_order(1) [of w c w'] beats_order(3) [of c w] by blast
  qed
qed

lemma elect_step_beats: "elect_step c w = Some (case w of None \<Rightarrow> c | Some v \<Rightarrow> if beats c v then c else v)"
  by (auto simp: elect_step_def beats_def split: option.splits)

lemma fold_elect:
  "\<exists>w'. fold elect_step cs (Some w) = Some w' \<and> w' \<in> insert w (set cs) \<and> (\<forall>c \<in> insert w (set cs). \<not> beats c w')"
proof (induction cs arbitrary: w)
  case (Cons c cs)
  let ?v = "if beats c w then c else w"
  obtain w' where w': "fold elect_step cs (Some ?v) = Some w'" "w' \<in> insert ?v (set cs)" "\<forall>d \<in> insert ?v (set cs). \<not> beats d w'"
    using Cons by blast
  have v: "\<not> beats ?v w'" using w'(3) by blast
  have "\<not> beats c w' \<and> \<not> beats w w'"
  proof (cases "beats c w")
    case True
    then show ?thesis using v beats_order(1) [OF True] by auto
  next
    case False
    have "\<not> beats c w'" if "\<not> beats w w'"
    proof
      assume "beats c w'"
      then show False using False that beats_between by blast
    qed
    then show ?thesis using v False by simp
  qed
  moreover have "fold elect_step (c # cs) (Some w) = Some w'" using w'(1) elect_step_beats [of c "Some w"] by simp
  moreover have "w' \<in> insert w (set (c # cs))" using w'(2) by (auto split: if_splits)
  ultimately show ?case using w'(3) by auto
qed (simp add: beats_order(4))

lemma electByUptime_best:
  assumes "cs \<noteq> []"
  shows "\<exists>w. electByUptime cs = Some w \<and> w \<in> set cs \<and> (\<forall>c \<in> set cs. \<not> beats c w)"
proof -
  obtain c cs' where cs: "cs = c # cs'" using assms by (cases cs) auto
  then show ?thesis using fold_elect [of cs' c] by (auto simp: electByUptime_def elect_step_def)
qed

lemma electByUptime_cong:
  assumes "set cs = set cs'" "inj_on idID (set cs)"
  shows "electByUptime cs = electByUptime cs'"
proof (cases "cs = []")
  case False
  then have "cs' \<noteq> []" using assms(1) by auto
  then obtain w w' where w: "electByUptime cs = Some w" "w \<in> set cs" "\<forall>c \<in> set cs. \<not> beats c w"
    "electByUptime cs' = Some w'" "w' \<in> set cs" "\<forall>c \<in> set cs. \<not> beats c w'"
    using electByUptime_best [OF False] electByUptime_best [of cs'] assms(1) by auto
  have "w = w'"
  proof (rule ccontr)
    assume "w \<noteq> w'"
    then have "idID w \<noteq> idID w'" using assms(2) w by (auto dest: inj_onD)
    then show False using beats_order(3) w by blast
  qed
  then show ?thesis using w by simp
qed (use assms in simp)

lemma Subscribers_inj:
  assumes "sr_inv sr"
  shows "inj_on idID (set (Subscribers sr path))"
proof (cases "map_of (srSubscribers sr) path")
  case (Some m)
  then have "subscribers_ok m" using assms by (simp add: sr_inv_def)
  then have "distinct (map fst m)" "map fst m = map idID (map snd m)"
    by (auto simp: subscribers_ok_def)
  then have "distinct (map idID (map snd m))" by simp
  then show ?thesis using Some by (auto simp: Subscribers_def distinct_map intro: inj_on_imageI)
qed (simp add: Subscribers_def)

subsection \<open>What the operations do to the directory\<close>

lemma assign_authority_directory: "amDirectory (snd (assign_authority now path i reason am)) = dir_Set path (Some i) now (amDirectory am)"
  "amNodeIdentity (snd (assign_authority now path i reason am)) = amNodeIdentity am"
  "amActiveElections (snd (assign_authority now path i reason am)) = amActiveElections am"
  by (simp_all add: assign_authority_def propagateAnnouncement_def split: option.splits)

lemma dir_Get_Set: "dir_Get (dir_Set path i t d) path = Some (i, t)"
  by (simp add: dir_Get_def dir_Set_def)

lemma map_of_dir_Set: "map_of (dir_Set path i t d) q = (if q = path then Some \<lparr>dePath = path, deAuthority = i, deTimestamp = t\<rparr> else map_of d q)"
  by (simp add: dir_Set_def)

text \<open>The elections of two nodes that know the same subscribers of a path.\<close>

lemma election_result:
  assumes "sr_inv (amSubscriptions am)" "Subscribers (amSubscriptions am) path \<noteq> []"
    "\<forall>e. map_of (amActiveElections am) path = Some e \<longrightarrow> aeCompleted e"
  obtains w e where "electByUptime (Subscribers (amSubscriptions am) path) = Some w" "w \<in> set (Subscribers (amSubscriptions am) path)"
    "map_of (amActiveElections (startPromotionElection now path former am)) path = Some e" "aeWinner e = Some w" "aeCompleted e"
    "amDirectory (startPromotionElection now path former am) =
       (if idID w = idID (amNodeIdentity am) then dir_Set path (Some (amNodeIdentity am)) now (amDirectory am) else amDirectory am)"
proof -
  let ?cs = "Subscribers (amSubscriptions am) path"
  obtain w where w: "electByUptime ?cs = Some w" "w \<in> set ?cs" using electByUptime_best [OF assms(2)] by blast
  let ?e = "\<lparr>aePath = path, aeFormerAuthority = former, aeCandidates = ?cs, aeStartTime = now, aeVotes = [], aeCompleted = True, aeWinner = Some w\<rparr>"
  have "\<not> (case map_of (amActiveElections am) path of None \<Rightarrow> False | Some election \<Rightarrow> \<not> aeCompleted election)"
    using assms(3) by (auto split: option.splits)
  then have s: "startPromotionElection now path former am =
      (let am1 = am\<lparr>amActiveElections := aset path ?e (amActiveElections am)\<rparr>
       in if idID w = idID (amNodeIdentity am) then snd (AnnounceAuthority now path (str ''promotion'') am1) else am1)"
    using assms(2) w(1) by (simp add: startPromotionElection_def)
  show ?thesis
    by (rule that [OF w, of ?e]) (simp_all add: s Let_def AnnounceAuthority_def assign_authority_directory)
qed

subsection \<open>Write rates\<close>

text \<open>The time of the last write is overwritten before it is compared, so the rate only grows.\<close>

lemma RecordWrite_counts:
  "map_of (amWriteRates (snd (RecordWrite now path am))) q =
     (if q = path then Some ((case map_of (amWriteRates am) path of None \<Rightarrow> 0 | Some n \<Rightarrow> n) + 1) else map_of (amWriteRates am) q)"
  "amWriteRateThreshold (snd (RecordWrite now path am)) = amWriteRateThreshold am"
  by (simp_all add: RecordWrite_def Let_def)

lemma RecordWrite_rate:
  "(case map_of (amWriteRates (fold (\<lambda>now am. snd (RecordWrite now path am)) ts am)) path of None \<Rightarrow> 0 | Some n \<Rightarrow> n) =
     (case map_of (amWriteRates am) path of None \<Rightarrow> 0 | Some n \<Rightarrow> n) + length ts"
  by (induction ts arbitrary: am) (simp_all add: RecordWrite_counts)

subsection \<open>Announcements\<close>

lemma announcements_lost: "decodeAuthorityAnnouncement (encodeAuthorityAnnouncement a) = None"
  by (simp add: decodeAuthorityAnnouncement_def)

end
