(* ===== verification/Mesh_Identity.thy ===== *)
theory Mesh_Identity
  imports Identity
begin

text \<open>
  Pronounceable node identities (\<open>src/internal/mesh/identity.go\<close>): three or four syllables of the
  form consonant, vowel and sometimes another consonant, none of them containing a blacklisted
  word. \<open>rnd k n\<close> is the \<open>k\<close>-th draw of a random number below \<open>n\<close>, \<open>None\<close> when the source of
  randomness fails; \<open>lower\<close> is \<open>strings.ToLower\<close>, of which only the effect on ASCII texts matters.
\<close>

subsection \<open>Tables\<close>

definition consonants :: "gostring list" where
  "consonants = map str
     [''b'', ''c'', ''d'', ''f'', ''g'', ''h'', ''j'', ''k'', ''l'', ''m'',
      ''n'', ''p'', ''r'', ''s'', ''t'', ''v'', ''w'', ''x'', ''z'']"

definition vowels :: "gostring list" where
  "vowels = map str [''a'', ''e'', ''i'', ''o'', ''u'']"

definition blacklistedSyllables :: "gostring list" where
  "blacklistedSyllables = map str
     [''bad'', ''bat'', ''bit'', ''bot'', ''but'', ''cat'', ''cot'', ''cut'', ''dam'', ''dig'', ''dog'',
      ''dug'', ''fat'', ''fig'', ''fog'', ''got'', ''gun'', ''gut'', ''hat'', ''hog'', ''hot'', ''hut'',
      ''jag'', ''jog'', ''jut'', ''keg'', ''kid'', ''lag'', ''leg'', ''log'', ''lot'', ''lug'', ''mad'',
      ''mat'', ''met'', ''mop'', ''mud'', ''mug'', ''net'', ''nit'', ''not'', ''nut'', ''pad'', ''pat'',
      ''pet'', ''pig'', ''pit'', ''pot'', ''pug'', ''put'', ''rag'', ''rat'', ''red'', ''rig'', ''rot'',
      ''run'', ''rut'', ''sad'', ''sat'', ''set'', ''sit'', ''sod'', ''sun'', ''tag'', ''tan'', ''ten'',
      ''tin'', ''top'', ''tug'', ''van'', ''vet'', ''vex'', ''wag'', ''war'', ''wet'', ''wig'', ''win'',
      ''wit'', ''zap'', ''zen'', ''zip'']"

definition dash :: u8 where "dash = 45"

subsection \<open>Texts\<close>

text \<open>\<open>strings.Split\<close> and \<open>strings.Join\<close> at dashes.\<close>

fun split_dash :: "gostring \<Rightarrow> gostring list" where
  "split_dash [] = [[]]"
| "split_dash (c # s) = (if c = dash then [] # split_dash s else (c # hd (split_dash s)) # tl (split_dash s))"

fun join_dash :: "gostring list \<Rightarrow> gostring" where
  "join_dash [] = []"
| "join_dash [c] = c"
| "join_dash (c # cs) = c @ dash # join_dash cs"

definition isBlacklisted :: "(gostring \<Rightarrow> gostring) \<Rightarrow> gostring \<Rightarrow> bool" where
  "isBlacklisted lower identity =
     list_ex (\<lambda>part. lower part \<in> set blacklistedSyllables \<or> list_ex (Contains (lower part)) blacklistedSyllables)
       (split_dash identity)"

definition contains :: "gostring list \<Rightarrow> gostring \<Rightarrow> bool" where
  "contains items item = list_ex (\<lambda>s. s = item) items"

subsection \<open>Generating\<close>

definition generateCVSyllable :: "(nat \<Rightarrow> nat \<Rightarrow> nat option) \<Rightarrow> nat \<Rightarrow> (gostring \<times> nat) option" where
  "generateCVSyllable rnd k =
     (case rnd k (length consonants) of
        None \<Rightarrow> None
      | Some consonantIdx \<Rightarrow>
     (case rnd (k + 1) (length vowels) of
        None \<Rightarrow> None
      | Some vowelIdx \<Rightarrow>
     (case rnd (k + 2) 10 of
        None \<Rightarrow> None
      | Some hasFinalConsonant \<Rightarrow>
          let syllable = consonants ! consonantIdx @ vowels ! vowelIdx in
          if hasFinalConsonant < 3 then
            (case rnd (k + 3) (length consonants) of
               None \<Rightarrow> None
             | Some finalConsonantIdx \<Rightarrow> Some (syllable @ consonants ! finalConsonantIdx, k + 4))
          else Some (syllable, k + 3))))"

fun generate_syllables :: "(nat \<Rightarrow> nat \<Rightarrow> nat option) \<Rightarrow> nat \<Rightarrow> nat \<Rightarrow> (gostring list \<times> nat) option" where
  "generate_syllables rnd 0 k = Some ([], k)"
| "generate_syllables rnd (Suc n) k =
     (case generateCVSyllable rnd k of
        None \<Rightarrow> None
      | Some (syllable, k1) \<Rightarrow>
          (case generate_syllables rnd n k1 of None \<Rightarrow> None | Some (syllables, k2) \<Rightarrow> Some (syllable # syllables, k2)))"

definition generateCVIdentity :: "(nat \<Rightarrow> nat \<Rightarrow> nat option) \<Rightarrow> nat \<Rightarrow> (gostring \<times> nat) option" where
  "generateCVIdentity rnd k =
     (case rnd k 2 of
        None \<Rightarrow> None
      | Some syllableCount \<Rightarrow> map_option (\<lambda>(syllables, k'). (join_dash syllables, k')) (generate_syllables rnd (syllableCount + 3) (k + 1)))"

datatype generate_error = RandomFailed | OnlyBlacklisted

fun generate_loop :: "(gostring \<Rightarrow> gostring) \<Rightarrow> (nat \<Rightarrow> nat \<Rightarrow> nat option) \<Rightarrow> nat \<Rightarrow> nat \<Rightarrow> generate_error + gostring" where
  "generate_loop lower rnd 0 k = Inl OnlyBlacklisted"
| "generate_loop lower rnd (Suc attempts) k =
     (case generateCVIdentity rnd k of
        None \<Rightarrow> Inl RandomFailed
      | Some (identity, k') \<Rightarrow>
          if \<not> isBlacklisted lower identity then Inr identity else generate_loop lower rnd attempts k')"

definition mesh_GenerateNodeIdentity :: "(gostring \<Rightarrow> gostring) \<Rightarrow> (nat \<Rightarrow> nat \<Rightarrow> nat option) \<Rightarrow> generate_error + gostring" where
  "mesh_GenerateNodeIdentity lower rnd = generate_loop lower rnd 1000 0"

subsection \<open>Validating\<close>

definition isValidCVSyllable :: "gostring \<Rightarrow> bool" where
  "isValidCVSyllable syllable =
     (if length syllable < 2 \<or> 3 < length syllable then False
      else if \<not> contains consonants [syllable ! 0] then False
      else if \<not> contains vowels [syllable ! 1] then False
      else if length syllable = 3 then contains consonants [syllable ! 2]
      else True)"

definition mesh_ValidateIdentity :: "(gostring \<Rightarrow> gostring) \<Rightarrow> gostring \<Rightarrow> bool" where
  "mesh_ValidateIdentity lower identity =
     (if identity = [] then False
      else let lowerIdentity = lower identity in
        if isBlacklisted lower lowerIdentity then False
        else let syllables = split_dash lowerIdentity in
          if length syllables < 3 \<or> 4 < length syllables then False
          else list_all isValidCVSyllable syllables)"

definition GetIdentityParts :: "gostring \<Rightarrow> gostring list" where
  "GetIdentityParts identity = split_dash identity"

section \<open>Lemmas\<close>

lemma split_dash_not_Nil [simp]: "split_dash s \<noteq> []"
  by (cases s) simp_all

lemma split_dash_append: "dash \<notin> set c \<Longrightarrow> split_dash (c @ dash # s) = c # split_dash s" "dash \<notin> set c \<Longrightarrow> split_dash c = [c]"
  by (induction c) auto

lemma split_join_dash: "cs \<noteq> [] \<Longrightarrow> \<forall>c \<in> set cs. dash \<notin> set c \<Longrightarrow> split_dash (join_dash cs) = cs"
  by (induction cs rule: join_dash.induct) (simp_all add: split_dash_append)

text \<open>What the source of randomness and \<open>ToLower\<close> promise.\<close>

definition draws_ok :: "(nat \<Rightarrow> nat \<Rightarrow> nat option) \<Rightarrow> bool" where
  "draws_ok rnd \<longleftrightarrow> (\<forall>k n i. rnd k n = Some i \<longrightarrow> i < n)"

definition lower_ok :: "(gostring \<Rightarrow> gostring) \<Rightarrow> bool" where
  "lower_ok lower \<longleftrightarrow> (\<forall>s. (\<forall>c \<in> set s. unat c < 128) \<longrightarrow> lower s = lower_ascii s)"

definition lower_letter :: "u8 \<Rightarrow> bool" where
  "lower_letter c \<longleftrightarrow> 97 \<le> unat c \<and> unat c \<le> 122"

lemma letters:
  "s \<in> set consonants \<Longrightarrow> \<exists>c. s = [c] \<and> lower_letter c \<and> contains consonants [c]"
  "s \<in> set vowels \<Longrightarrow> \<exists>c. s = [c] \<and> lower_letter c \<and> contains vowels [c]"
  by (auto simp: consonants_def vowels_def str_def lower_letter_def contains_def)

lemma generateCVSyllable_valid:
  assumes "draws_ok rnd" "generateCVSyllable rnd k = Some (s, k')"
  shows "isValidCVSyllable s \<and> list_all lower_letter s"
proof -
  obtain i j f where d: "rnd k (length consonants) = Some i" "rnd (k + 1) (length vowels) = Some j" "rnd (k + 2) 10 = Some f"
    using assms(2) by (auto simp: generateCVSyllable_def split: option.splits)
  then have "consonants ! i \<in> set consonants" "vowels ! j \<in> set vowels" using assms(1) by (auto simp: draws_ok_def)
  then obtain c v where cv: "consonants ! i = [c]" "lower_letter c" "contains consonants [c]"
      "vowels ! j = [v]" "lower_letter v" "contains vowels [v]" using letters by metis
  show ?thesis
  proof (cases "f < 3")
    case True
    then obtain l where l: "rnd (k + 3) (length consonants) = Some l" "s = [c, v] @ consonants ! l"
      using assms(2) d cv by (auto simp: generateCVSyllable_def split: option.splits)
    then have "consonants ! l \<in> set consonants" using assms(1) by (auto simp: draws_ok_def)
    then obtain c' where "consonants ! l = [c']" "lower_letter c'" "contains consonants [c']" using letters by metis
    then show ?thesis using cv l by (simp add: isValidCVSyllable_def)
  next
    case False
    then have "s = [c, v]" using assms(2) d cv by (auto simp: generateCVSyllable_def)
    then show ?thesis using cv by (simp add: isValidCVSyllable_def)
  qed
qed

lemma generate_syllables_valid:
  assumes "draws_ok rnd" "generate_syllables rnd n k = Some (ss, k')"
  shows "length ss = n \<and> (\<forall>s \<in> set ss. isValidCVSyllable s \<and> list_all lower_letter s)"
  using assms(2)
proof (induction n arbitrary: k ss)
  case (Suc n)
  then obtain s k1 ss' where "generateCVSyllable rnd k = Some (s, k1)" "generate_syllables rnd n k1 = Some (ss', k')" "ss = s # ss'"
    by (auto split: option.splits)
  then show ?case using Suc.IH generateCVSyllable_valid [OF assms(1)] by fastforce
qed simp

lemma lower_letters: "lower_ok lower \<Longrightarrow> \<forall>c \<in> set s. lower_letter c \<or> c = dash \<Longrightarrow> lower s = s"
proof -
  assume "lower_ok lower" and s: "\<forall>c \<in> set s. lower_letter c \<or> c = dash"
  moreover have "\<forall>c \<in> set s. unat c < 128" using s by (auto simp: lower_letter_def dash_def)
  ultimately have "lower s = lower_ascii s" by (simp add: lower_ok_def)
  moreover have "lower_ascii s = s" using s by (auto simp: lower_ascii_def lower_letter_def dash_def intro!: map_idI)
  ultimately show ?thesis by simp
qed

lemma join_dash_letters: "\<forall>s \<in> set ss. list_all lower_letter s \<Longrightarrow> \<forall>c \<in> set (join_dash ss). lower_letter c \<or> c = dash"
  by (induction ss rule: join_dash.induct) (auto simp: list_all_iff)

lemma generated_identity:
  assumes "draws_ok rnd" "generateCVIdentity rnd k = Some (s, k')"
  shows "\<exists>ss. s = join_dash ss \<and> length ss \<in> {3, 4} \<and> (\<forall>x \<in> set ss. isValidCVSyllable x \<and> list_all lower_letter x)"
proof -
  obtain n ss where n: "rnd k 2 = Some n" "generate_syllables rnd (n + 3) (k + 1) = Some (ss, k')" "s = join_dash ss"
    using assms(2) by (auto simp: generateCVIdentity_def split: option.splits)
  then have "n < 2" using assms(1) by (auto simp: draws_ok_def)
  then show ?thesis using n generate_syllables_valid [OF assms(1) n(2)] by (intro exI [of _ ss]) auto
qed

lemma generated_valid:
  assumes "draws_ok rnd" "lower_ok lower" "generateCVIdentity rnd k = Some (s, k')" "\<not> isBlacklisted lower s"
  shows "mesh_ValidateIdentity lower s"
proof -
  obtain ss where ss: "s = join_dash ss" "length ss \<in> {3, 4}" "\<forall>x \<in> set ss. isValidCVSyllable x \<and> list_all lower_letter x"
    using generated_identity [OF assms(1,3)] by blast
  have "\<not> lower_letter dash" by (simp add: lower_letter_def dash_def)
  then have "\<forall>x \<in> set ss. dash \<notin> set x" using ss(3) by (auto simp: list_all_iff)
  then have parts: "split_dash s = ss" using ss(1,2) split_join_dash [of ss] by force
  have low: "lower s = s" using lower_letters [OF assms(2)] join_dash_letters ss by blast
  have "s \<noteq> []" using parts ss(2,3) by (force simp: isValidCVSyllable_def)
  then show ?thesis using ss parts low assms(4) by (auto simp: mesh_ValidateIdentity_def list_all_iff)
qed

lemma generate_loop_valid:
  assumes "draws_ok rnd" "lower_ok lower"
  shows "generate_loop lower rnd n k = Inr s \<Longrightarrow> mesh_ValidateIdentity lower s"
  by (induction n arbitrary: k) (auto split: option.splits if_splits intro: generated_valid [OF assms])

end
