(* ===== verification/Mesh_Properties.thy ===== *)
theory Mesh_Properties
  imports Mesh_Gossip_Correct Mesh_Heartbeat_Correct Mesh_Authority Mesh_Identity
begin

text \<open>
  The properties of the mesh: gossip, heartbeats, elections and node identities.
\<close>

declare map_of_eq_Some_iff [simp del]

subsection \<open>Sample nodes for the witnesses\<close>

definition rnd0 :: "nat \<Rightarrow> nat \<Rightarrow> nat" where
  "rnd0 k n = 0"

lemma rnd0_ok: "Intn_ok rnd0"
  by (simp add: Intn_ok_def rnd0_def)

definition nodeA :: gostring where "nodeA = str ''ba-be-bi''"
definition nodeB :: gostring where "nodeB = str ''da-de-di''"

definition gossip1 :: GossipManager where
  "gossip1 = snd (AddNode rnd0 100 nodeB (str ''host:1'') [7] (NewGossipManager nodeA))"

lemma gossip1_reached: "gossip_step\<^sup>*\<^sup>* (NewGossipManager nodeA) gossip1"
  unfolding gossip1_def by (rule r_into_rtranclp) (rule gossip_step.add [OF rnd0_ok])

subsection \<open>Gossip\<close>

text \<open>
  C32. In every state a gossip manager can reach, whatever the order of local changes, rounds,
  replies and received messages, the nodes chosen for a round are different from each other and
  from the node itself, at most as many as configured, and known as joined; nodes are filed under
  their own identity and the pool of peers has at most twice that size.
\<close>

theorem gossip_targets:
  assumes "gossip_step\<^sup>*\<^sup>* (NewGossipManager i) gm" "Intn_ok rnd"
  shows "gm_inv gm \<and> distinct (selectGossipTargets rnd gm) \<and> length (selectGossipTargets rnd gm) \<le> gmMaxGossipPeers gm \<and>
    (\<forall>p \<in> set (selectGossipTargets rnd gm). p \<noteq> gmNodeIdentity gm \<and> (\<exists>n. map_of (gmAllNodes gm) p = Some n \<and> nsStatus n = joined))"
  using selectGossipTargets_ok [OF assms(2) gm_inv_reachable [OF assms(1)]] gm_inv_reachable [OF assms(1)] by blast

theorem gossip_targets_witness:
  "gm_inv gossip1 \<and> selectGossipTargets rnd0 gossip1 = [nodeB] \<and> distinct (selectGossipTargets rnd0 gossip1)"
proof -
  have "selectGossipTargets rnd0 gossip1 = [nodeB]" by code_simp
  then show ?thesis using gossip_targets [OF gossip1_reached rnd0_ok] by blast
qed




text \<open>
  What a message says of a node heard of within the last minute is dropped, and nothing is queued
  for relaying to further nodes.
\<close>

lemma recent_news_dropped:
  assumes "map_of (gmAllNodes gm) (nuIdentity u) = Some n" "now - nsLastSeen n \<le> 60000000000"
  shows "incoming_step now u (evs, gm) = (evs, gm)"
  using assms by (simp add: incoming_step_def)

lemma nothing_relayed: "gmPendingUpdates (snd (processIncomingGossip rnd now msg gm)) = gmPendingUpdates gm"
proof -
  have "gmPendingUpdates (snd (fold (incoming_step now) us (evs, gm))) = gmPendingUpdates gm" for us evs gm
  proof (induction us arbitrary: evs gm)
    case (Cons u us)
    obtain evs1 gm1 where s: "incoming_step now u (evs, gm) = (evs1, gm1)" by fastforce
    then show ?case using Cons [of evs1 gm1] incoming_step_same [of gm now u evs] by (simp add: same_gossip_def)
  qed simp
  then show ?thesis
    by (auto simp: processIncomingGossip_def updateGossipPeers_def Let_def split: option.splits prod.splits)
      (metis snd_conv)
qed

text \<open>
  The messages a node itself builds never get that far. A round hands out messages whose payload
  length is left at 0; the encoder refuses each of them, so sending only marks the target as stale,
  whatever the network would do; and the updates of the round are dropped nevertheless.
\<close>

lemma gossip_never_leaves:
  assumes "processGossipRound rnd now gm = (sends, gm')" "(target, msg) \<in> set sends"
  shows "EncodeMessage msg = Inl (PayloadLengthMismatch 0 (length (mPayload msg))) \<and> gmPendingUpdates gm' = [] \<and> gmPendingUpdates gm \<noteq> [] \<and>
    (\<forall>rnd' now' dial net gm1. sendGossip rnd' now' dial net target msg gm1 = ([], handleGossipError target gm1))"
proof -
  have msg: "prepareGossipMessage now gm = Some msg" and gm': "gmPendingUpdates gm' = []"
    using assms by (auto simp: processGossipRound_def Let_def cleanupStaleNodes_def split: if_splits option.splits)
  then have "mPayloadLength msg = 0 \<and> mPayload msg \<noteq> [] \<and> gmPendingUpdates gm \<noteq> []"
    by (auto simp: prepareGossipMessage_def Let_def encodeGossipPayload_def split: if_splits)
  then have e: "EncodeMessage msg = Inl (PayloadLengthMismatch 0 (length (mPayload msg)))" "gmPendingUpdates gm \<noteq> []"
    by (simp_all add: EncodeMessage_def)
  have "sendGossip rnd' now' dial net target msg gm1 = ([], handleGossipError target gm1)" for rnd' now' dial net gm1
    by (auto simp: sendGossip_def e(1) handleGossipError_def split: option.splits)
  then show ?thesis using e gm' by blast
qed

lemma gossip_never_leaves_witness:
  "\<exists>msg gm'. processGossipRound rnd0 300 gossip1 = ([(nodeB, msg)], gm') \<and> (\<exists>n. EncodeMessage msg = Inl (PayloadLengthMismatch 0 n)) \<and> gmPendingUpdates gm' = []"
proof -
  have "map fst (fst (processGossipRound rnd0 300 gossip1)) = [nodeB]" by code_simp
  then obtain msg gm' where r: "processGossipRound rnd0 300 gossip1 = ([(nodeB, msg)], gm')"
    by (cases "processGossipRound rnd0 300 gossip1") auto
  then show ?thesis using gossip_never_leaves [OF r, of nodeB msg] by auto
qed

text \<open>An update made between the preparation of a message and the end of the round is dropped without having been in it.\<close>

lemma concurrent_update_lost:
  assumes "prepareGossipMessage now gm = Some msg"
  shows "gmPendingUpdates (cleanupStaleNodes now ((snd (AddNode rnd now p a z gm))\<lparr>gmPendingUpdates := []\<rparr>)) = []"
  by (simp add: cleanupStaleNodes_def)

subsection \<open>Heartbeats\<close>

text \<open>
  The same holds for heartbeats, with worse consequences: in no run, whatever peers are added and
  however they answer, does any peer become online, is any failure or recovery reported, or does
  the clock offset change.
\<close>

lemma heartbeats_never_succeed:
  assumes "hb_run (NewHeartbeatManager i) evs hm"
  shows "evs = [] \<and> GetOnlinePeers hm = [] \<and> GetClockOffset hm = 0"
  using dark_run [OF assms dark_New] by (auto simp: dark_def GetOnlinePeers_def GetClockOffset_def filter_empty_conv)

lemma heartbeats_never_succeed_witness:
  "\<exists>hm1 evs hm2. AddPeer nodeB (str ''host:1'') (NewHeartbeatManager nodeA) = Inr hm1 \<and>
    sendHeartbeat (\<lambda>_. 9) 8 8 (\<lambda>_. True) (\<lambda>_ d. Some d) nodeB hm1 = (evs, hm2) \<and> evs = [] \<and> GetOnlinePeers hm2 = []"
proof -
  obtain hm1 where 1: "AddPeer nodeB (str ''host:1'') (NewHeartbeatManager nodeA) = Inr hm1"
    by (simp add: AddPeer_def NewHeartbeatManager_def)
  obtain evs hm2 where 2: "sendHeartbeat (\<lambda>_. 9) 8 8 (\<lambda>_. True) (\<lambda>_ d. Some d) nodeB hm1 = (evs, hm2)" by fastforce
  have "hb_run (NewHeartbeatManager nodeA) (([] @ []) @ evs) hm2"
    by (rule hb_run.more [OF hb_run.more [OF hb_run.idle hb_step.add [OF 1]] hb_step.send [OF 2]])
  then show ?thesis using heartbeats_never_succeed 1 2 by force
qed

text \<open>
  C34. The detector itself is right: over any sequence of answered heartbeats, connection errors and
  tick checks, the reports about a peer alternate between recovered and failed, starting from
  whether it was online, and the peer is online exactly when the last report says so.
\<close>

theorem failure_reports_alternate:
  assumes "hb_inv hm" "run_acts (\<lambda>a hm. map_prod (reports p) id (hb_act a hm)) acts hm = (es, hm')"
  shows "alternates (peer_up p hm) es \<and> peer_up p hm' = (if es = [] then peer_up p hm else last es)"
  using detector.reports_alternate [OF assms] by blast

definition hb1 :: HeartbeatManager where
  "hb1 = SetFailureCallback True (SetRecoveryCallback True (case AddPeer nodeB (str ''host:1'') (NewHeartbeatManager nodeA) of Inr hm \<Rightarrow> hm))"

definition acts1 :: "hb_action list" where
  "acts1 = [Answered (\<lambda>_. 1000) 900 900 nodeB \<lparr>mVersion = 1, mType = 0, mSequence = 0, mPayloadLength = 0, mPayload = [], mChecksum = 0\<rparr>,
     Check 2000, Check 4000000000, ConnError nodeB]"

theorem failure_reports_alternate_witness:
  "fst (run_acts (\<lambda>a hm. map_prod (reports nodeB) id (hb_act a hm)) acts1 hb1) = [True, False] \<and>
   \<not> peer_up nodeB (snd (run_acts (\<lambda>a hm. map_prod (reports nodeB) id (hb_act a hm)) acts1 hb1))"
proof -
  let ?r = "run_acts (\<lambda>a hm. map_prod (reports nodeB) id (hb_act a hm)) acts1 hb1"
  have inv: "hb_inv hb1"
    by (simp add: hb_inv_def hb1_def AddPeer_def NewHeartbeatManager_def SetFailureCallback_def SetRecoveryCallback_def)
  have es: "fst ?r = [True, False]" by code_simp
  then have "?r = ([True, False], snd ?r)" by (metis prod.collapse)
  then show ?thesis using failure_reports_alternate [OF inv, of nodeB acts1] es by fastforce
qed

text \<open>
  C35. When the sum of the skews of the online peers fits 64 bits, an update makes the clock offset
  their mean, rounded towards zero: it divides by the number of peers that are online, so that
  offline peers count neither in the sum nor in the number, and lies between the smallest and the
  largest of these skews. With no peer online the offset is left as it was.
\<close>

theorem clock_offset_between:
  assumes "- (2 ^ 63) \<le> sum_list (map sint (online_skews hm))" "sum_list (map sint (online_skews hm)) < 2 ^ 63"
  shows "online_skews hm = [pcClockSkew peer. (p, peer) \<leftarrow> hmPeers hm, pcIsOnline peer] \<and>
    (online_skews hm = [] \<longrightarrow> GetClockOffset (updateClockOffset hm) = GetClockOffset hm) \<and>
    (online_skews hm \<noteq> [] \<longrightarrow>
      sint (GetClockOffset (updateClockOffset hm)) =
        sum_list (map sint (online_skews hm)) sdiv int (length (online_skews hm)) \<and>
      (\<exists>w \<in> set (online_skews hm). sint w \<le> sint (GetClockOffset (updateClockOffset hm))) \<and>
      (\<exists>w \<in> set (online_skews hm). sint (GetClockOffset (updateClockOffset hm)) \<le> sint w))"
proof (intro conjI impI)
  let ?ws = "online_skews hm" and ?off = "GetClockOffset (updateClockOffset hm)"
  show "?ws = [pcClockSkew peer. (p, peer) \<leftarrow> hmPeers hm, pcIsOnline peer]"
    by (rule online_skews_comprehension)
  show "?ws = [] \<Longrightarrow> ?off = GetClockOffset hm" by (simp add: updateClockOffset_def GetClockOffset_def Let_def)
  assume ne: "?ws \<noteq> []"
  show mean: "sint ?off = sum_list (map sint ?ws) sdiv int (length ?ws)" by (rule updateClockOffset_mean [OF ne assms])
  have n: "0 < int (length ?ws)" using ne by simp
  let ?S = "sint ` set ?ws"
  have S: "finite ?S" "?S \<noteq> {}" using ne by simp_all
  have b: "\<forall>w \<in> set ?ws. Min ?S \<le> sint w \<and> sint w \<le> Max ?S" by simp
  have "Min ?S \<le> sint ?off" "sint ?off \<le> Max ?S" unfolding mean using sdiv_between [OF n sum_between [OF b]] by simp_all
  then show "\<exists>w \<in> set ?ws. sint w \<le> sint ?off" "\<exists>w \<in> set ?ws. sint ?off \<le> sint w"
    using Min_in [OF S] Max_in [OF S] by (metis imageE)+
qed

definition peer1 :: "i64 \<Rightarrow> bool \<Rightarrow> PeerConnection" where
  "peer1 skew online =
     (snd (hd (hmPeers hb1)))\<lparr>pcIsOnline := online, pcClockSkew := skew\<rparr>"

text \<open>Two peers online with skews 9 and 4, a third one offline: the offset is 6.\<close>

theorem clock_offset_between_witness:
  "sint (GetClockOffset (updateClockOffset (hb1\<lparr>hmPeers := [(nodeA, peer1 9 True), (nodeB, peer1 4 True), ([], peer1 100 False)]\<rparr>))) = 6"
proof -
  let ?hm = "hb1\<lparr>hmPeers := [(nodeA, peer1 9 True), (nodeB, peer1 4 True), ([], peer1 100 False)]\<rparr>"
  have s: "online_skews ?hm = [9, 4]" by (simp add: online_skews_def peer1_def)
  have "13 sdiv 2 = (6 :: int)" by (simp add: signed_divide_int_def)
  then show ?thesis using clock_offset_between [of ?hm] unfolding s by simp
qed

subsection \<open>Elections\<close>

text \<open>
  C36. Nodes that know the same subscribers of a path, in whatever order, elect the same one; a node
  enters itself as the authority exactly when it is the one elected, and leaves its directory as
  it was otherwise.
\<close>

theorem election_agreement:
  assumes "sr_inv (amSubscriptions a)" "sr_inv (amSubscriptions b)"
    and "set (Subscribers (amSubscriptions a) path) = set (Subscribers (amSubscriptions b) path)" "Subscribers (amSubscriptions a) path \<noteq> []"
    and "\<forall>e. map_of (amActiveElections a) path = Some e \<longrightarrow> aeCompleted e" "\<forall>e. map_of (amActiveElections b) path = Some e \<longrightarrow> aeCompleted e"
  shows "\<exists>w e e'. map_of (amActiveElections (startPromotionElection ta path fa a)) path = Some e \<and> aeWinner e = Some w \<and>
    map_of (amActiveElections (startPromotionElection tb path fb b)) path = Some e' \<and> aeWinner e' = Some w \<and>
    w \<in> set (Subscribers (amSubscriptions a) path) \<and> (\<forall>c \<in> set (Subscribers (amSubscriptions a) path). \<not> beats c w) \<and>
    amDirectory (startPromotionElection ta path fa a) =
      (if idID w = idID (amNodeIdentity a) then dir_Set path (Some (amNodeIdentity a)) ta (amDirectory a) else amDirectory a)"
proof -
  let ?sa = "Subscribers (amSubscriptions a) path" and ?sb = "Subscribers (amSubscriptions b) path"
  obtain w e where w: "electByUptime ?sa = Some w" "map_of (amActiveElections (startPromotionElection ta path fa a)) path = Some e" "aeWinner e = Some w"
    "amDirectory (startPromotionElection ta path fa a) =
      (if idID w = idID (amNodeIdentity a) then dir_Set path (Some (amNodeIdentity a)) ta (amDirectory a) else amDirectory a)"
    using election_result [OF assms(1,4,5), of ta fa] by metis
  have nb: "?sb \<noteq> []" using assms(3,4) by auto
  obtain w' e' where w': "electByUptime ?sb = Some w'" "map_of (amActiveElections (startPromotionElection tb path fb b)) path = Some e'" "aeWinner e' = Some w'"
    using election_result [OF assms(2) nb assms(6), of tb fb] by metis
  have "w' = w" using electByUptime_cong [OF assms(3) Subscribers_inj [OF assms(1)]] w(1) w'(1) by simp
  moreover have "w \<in> set ?sa \<and> (\<forall>c \<in> set ?sa. \<not> beats c w)" using electByUptime_best [OF assms(4)] w(1) by auto
  ultimately show ?thesis using w w' by blast
qed

definition ident :: "gostring \<Rightarrow> int \<Rightarrow> Identity" where
  "ident i t = \<lparr>idID = i, idType = NodeAgent, idMeshName = [], idCreated = t, idNodeID = i\<rparr>"

definition subsA :: SubscriptionRegistry where
  "subsA = AddSubscriber (str ''x'') (ident nodeB 5) (AddSubscriber (str ''x'') (ident nodeA 5) NewSubscriptionRegistry)"

definition subsB :: SubscriptionRegistry where
  "subsB = AddSubscriber (str ''x'') (ident nodeA 5) (AddSubscriber (str ''x'') (ident nodeB 5) NewSubscriptionRegistry)"

lemma subs_facts: "sr_inv subsA" "sr_inv subsB" "Subscribers subsA (str ''x'') = [ident nodeA 5, ident nodeB 5]"
  "Subscribers subsB (str ''x'') = [ident nodeB 5, ident nodeA 5]"
proof -
  have "sr_inv NewSubscriptionRegistry" by (simp add: sr_inv_def NewSubscriptionRegistry_def)
  then show "sr_inv subsA" "sr_inv subsB" unfolding subsA_def subsB_def by (intro sr_inv_ops(4); assumption)+
  show "Subscribers subsA (str ''x'') = [ident nodeA 5, ident nodeB 5]" by code_simp
  show "Subscribers subsB (str ''x'') = [ident nodeB 5, ident nodeA 5]" by code_simp
qed

theorem election_agreement_witness:
  "\<exists>w e e'. map_of (amActiveElections (startPromotionElection 1 (str ''x'') (ident [] 0) (NewAuthorityManager (ident nodeA 5) [] subsA))) (str ''x'') = Some e \<and>
    aeWinner e = Some w \<and>
    map_of (amActiveElections (startPromotionElection 2 (str ''x'') (ident [] 0) (NewAuthorityManager (ident nodeB 5) [] subsB))) (str ''x'') = Some e' \<and>
    aeWinner e' = Some w"
proof -
  let ?a = "NewAuthorityManager (ident nodeA 5) [] subsA" and ?b = "NewAuthorityManager (ident nodeB 5) [] subsB"
  have s: "amSubscriptions ?a = subsA" "amSubscriptions ?b = subsB" "amActiveElections ?a = []" "amActiveElections ?b = []"
    by (simp_all add: NewAuthorityManager_def)
  show ?thesis
    using election_agreement [of ?a ?b "str ''x''" 1 "ident [] 0" 2 "ident [] 0"] subs_facts unfolding s by auto
qed

text \<open>Nothing keeps the node that failed from standing in the election for its own succession and winning it.\<close>

lemma failed_node_wins:
  "startPromotionElection 1 (str ''x'') (ident nodeA 5) (NewAuthorityManager (ident nodeB 5) [] subsB) =
     (NewAuthorityManager (ident nodeB 5) [] subsB)\<lparr>amActiveElections := [(str ''x'',
        \<lparr>aePath = str ''x'', aeFormerAuthority = ident nodeA 5, aeCandidates = [ident nodeB 5, ident nodeA 5], aeStartTime = 1,
         aeVotes = [], aeCompleted = True, aeWinner = Some (ident nodeA 5)\<rparr>)]\<rparr>"
  by code_simp

text \<open>
  Announcements are compared with the entry of the longest known prefix, so that an announcement
  for a path is dropped when a newer one for a parent came first: nodes that receive the same two
  announcements in different order disagree.
\<close>

lemma announcements_do_not_commute:
  fixes am :: AuthorityManager
  defines "parent \<equiv> \<lparr>aaPath = str ''x'', aaAuthority = ident nodeA 1, aaReason = [], aaTimestamp = 5\<rparr>"
    and "child \<equiv> \<lparr>aaPath = str ''x.y'', aaAuthority = ident nodeB 1, aaReason = [], aaTimestamp = 3\<rparr>"
    and "am \<equiv> NewAuthorityManager (ident nodeA 1) [] NewSubscriptionRegistry"
  shows "fst (GetAuthorityForPath (str ''x.y'') (ProcessAuthorityAnnouncement child (ProcessAuthorityAnnouncement parent am))) = Some (ident nodeA 1) \<and>
    fst (GetAuthorityForPath (str ''x.y'') (ProcessAuthorityAnnouncement parent (ProcessAuthorityAnnouncement child am))) = Some (ident nodeB 1)"
  unfolding parent_def child_def am_def by code_simp

text \<open>A path written once an hour is taken for overloaded at the 101st write.\<close>

lemma slow_writes_counted:
  assumes "map_of (amWriteRates am) path = None" "amWriteRateThreshold am = 100" "length ts = 100"
  shows "fst (RecordWrite now path (fold (\<lambda>now am. snd (RecordWrite now path am)) ts am))"
proof -
  let ?am = "fold (\<lambda>now am. snd (RecordWrite now path am)) ts am"
  have "amWriteRateThreshold (fold (\<lambda>now am. snd (RecordWrite now path am)) us am) = amWriteRateThreshold am" for us am
    by (induction us arbitrary: am) (simp_all add: RecordWrite_counts)
  moreover have "(case map_of (amWriteRates ?am) path of None \<Rightarrow> 0 | Some n \<Rightarrow> n) = 100"
    using RecordWrite_rate [of path ts am] assms by simp
  ultimately show ?thesis using assms(2) by (simp add: RecordWrite_def Let_def)
qed

subsection \<open>Node identities\<close>

text \<open>
  C37. Generating an identity ends after at most a thousand attempts; an identity it returns passes
  the validation other nodes apply to it.
\<close>

theorem node_identity_valid:
  assumes "draws_ok rnd" "lower_ok lower" "mesh_GenerateNodeIdentity lower rnd = Inr s"
  shows "mesh_ValidateIdentity lower s"
  using generate_loop_valid [OF assms(1,2)] assms(3) by (simp add: mesh_GenerateNodeIdentity_def)

definition draw0 :: "nat \<Rightarrow> nat \<Rightarrow> nat option" where
  "draw0 k n = (if 0 < n then Some 0 else None)"

theorem node_identity_valid_witness:
  "mesh_GenerateNodeIdentity lower_ascii draw0 = Inr (str ''bab-bab-bab'') \<and> mesh_ValidateIdentity lower_ascii (str ''bab-bab-bab'')"
proof -
  have d: "draws_ok draw0" "lower_ok lower_ascii" by (auto simp: draws_ok_def draw0_def lower_ok_def split: if_splits)
  have "generate_loop lower_ascii draw0 (Suc 0) 0 = Inr (str ''bab-bab-bab'')" by code_simp
  then have "generate_loop lower_ascii draw0 (Suc n) 0 = Inr (str ''bab-bab-bab'')" for n by (auto split: option.splits if_splits)
  moreover have "(1000 :: nat) = Suc 999" by simp
  ultimately have g: "mesh_GenerateNodeIdentity lower_ascii draw0 = Inr (str ''bab-bab-bab'')" by (metis mesh_GenerateNodeIdentity_def)
  then show ?thesis using node_identity_valid [OF d g] by simp
qed

end
