(* ===== verification/Spec2Isabelle.thy ===== *)
theory Spec2Isabelle
  imports Storage_Properties Wire_Properties Types_Properties Security_Properties Coordination_Properties
    Language_Properties Service_Properties Mesh_Properties
begin

text \<open>
  A verification library for AmorphDB, a database that stores a tree of named attributes whose
  values are versioned: a write adds an instance to the history of a path, and reads return the
  newest instance or the one valid at a given time. The program is the Go code under \<open>src/\<close>.

  \<^bold>\<open>Parts of the program and their theories.\<close>

  \<^item> \<open>Prelude\<close>: words of 8, 32 and 64 bits, little and big endian encodings, results as
    \<open>error + 'a\<close> with \<open>rbind\<close> and \<open>rmap\<close>, and lemmas on lists and maps that the components share.
  \<^item> \<open>Go_File\<close>: an \<open>os.File\<close> as its list of bytes, with seeking, reading, overwriting and
    appending as the stores use them.
  \<^item> \<open>Value_Format\<close>: \<open>internal/storage/values.go\<close>, the record of a value (sentinel, type tag,
    length, data), its size classes and the packing of tier, bucket and offset into a value ID.
  \<^item> \<open>FreeList\<close>: \<open>internal/storage/freelist.go\<close>. The locale \<open>space_manager\<close> is what the value store
    relies on.
  \<^item> \<open>ValueStore\<close>, \<open>ValueStore_Correct\<close>, \<open>Value_Heap\<close>: the four tiers of
    \<open>internal/storage/values.go\<close> with deduplication and reference counts, the invariant \<open>vs_inv\<close>,
    and the locale \<open>value_heap\<close> through which the tree uses them.
  \<^item> \<open>Record_File\<close>, \<open>InstanceStore\<close>, \<open>AttributeStore\<close>: \<open>internal/storage/instances.go\<close> and
    \<open>attributes.go\<close>, files of fixed-size records (locale \<open>fixed_records\<close>) linked into chains.
  \<^item> \<open>HashIndex\<close>: \<open>internal/storage/hashindex.go\<close>, a chained hash table with FNV-1a (locale
    \<open>attribute_index\<close>).
  \<^item> \<open>StorageTree\<close>, \<open>StorageTree_Correct\<close>, \<open>Versioned_Tree\<close>, \<open>Tree_Listing\<close>:
    \<open>internal/storage/tree.go\<close>, which joins these into paths with histories. \<open>Versioned_Tree\<close>
    has the abstract specification, a map from paths to lists of versions.
  \<^item> \<open>Wire_Fields\<close>, \<open>Wire_Frame\<close>, \<open>Wire_Messages\<close>, \<open>Wire_Children\<close>:
    \<open>internal/protocol/encode.go\<close>, \<open>decode.go\<close> and \<open>messages.go\<close>, the frames with their CRC-32,
    the tagged fields and every message that has a codec (locale \<open>wire_codec\<close>).
  \<^item> \<open>Go_Text\<close>, \<open>Go_Float\<close>, \<open>Go_Time\<close>: what the program uses of Go's strings (UTF-8, decimal and
    hexadecimal numbers, joining and splitting paths, maps by iteration order), \<open>float64\<close> (words of
    64 bits with exact rounding) and \<open>time.Time\<close> (nanoseconds, with the calendar).
  \<^item> \<open>Mbl_Values\<close>, \<open>Mbl_Codec\<close>, \<open>Mbl_Compare\<close>, \<open>Mbl_Coerce\<close>: \<open>internal/types/types.go\<close>,
    \<open>serialize.go\<close>, \<open>compare.go\<close> and \<open>coerce.go\<close>, the values of the MBL language.
  \<^item> \<open>Identity\<close>: \<open>internal/types/agent.go\<close>, \<open>path.go\<close> and \<open>internal/identity\<close>.
  \<^item> \<open>Secure_Store\<close>: \<open>internal/storage/hash.go\<close>, the metadata that access control keeps beside the
    tree. The locale \<open>secure_metadata\<close> is the contract of its two implementations.
  \<^item> \<open>Permissions\<close>, \<open>Stamps\<close>, \<open>Filters\<close>: the files of these names in \<open>internal/security\<close>. The
    specification of permissions is a table in which the nearest ancestor decides.
  \<^item> \<open>Directory\<close>: \<open>internal/directory\<close> and \<open>internal/subscription\<close>. The locale \<open>gossip_map\<close> says
    when an exchange of entries converges.
  \<^item> \<open>Watchers\<close>, \<open>Watchers_Correct\<close>: \<open>internal/watcher\<close>, the engine, its tick, the step relation
    \<open>engine_step\<close> and its reachable states.
  \<^item> \<open>Storage_Properties\<close>, \<open>Wire_Properties\<close>, \<open>Types_Properties\<close>, \<open>Security_Properties\<close>,
    \<open>Coordination_Properties\<close>: the properties of the subsystems, each with an instance on a
    concrete state.

  \<^bold>\<open>How code becomes definitions.\<close> A Go struct is a record, an operation a function from the state
  to its result and the new state, an error a value of an error datatype, and \<open>uint64\<close>, \<open>int64\<close>,
  \<open>uint32\<close> and \<open>byte\<close> are words of their width, so that arithmetic wraps. A loop whose end
  depends on the data (a chain of instances, the fields of a payload) is a partial function into
  \<open>option\<close>, and termination is a theorem. SHA-256 is a parameter; theorems that need it assume
  that it does not collide on the strings concerned. The clock and random bytes are arguments of
  the operations that read them. Parsing and printing of floating point numbers and \<open>math.Pow\<close> are
  the parameter \<open>float_lib\<close>, the JSON of foreign types is a parameter, and so are, for the
  watchers, running MBL code, the commit coordinator and reads of the storage (\<open>exec_env\<close>). A Go
  map whose iteration order can be observed is the list of its entries in that order.

  \<^bold>\<open>What the lemmas show.\<close> For the storage: value records and IDs round trip; every operation of
  the value store keeps \<open>vs_inv\<close> and implements an update of a map from IDs to values; chain walks
  end and return the chain; the hash table is a map; writes and reads on the tree answer as the
  abstract histories do; listings are exact; a reopened tree finds the same records. Side
  conditions bound the files: \<open>vs_fits\<close> keeps every tier below \<open>2 ^ 40\<close> bytes, the range of an
  offset in a value ID, and \<open>few\<close> keeps the number of records below \<open>2 ^ 56\<close>, so that positions do
  not wrap. For the wire: the frame decoder accepts exactly what the encoder writes, one changed
  byte is detected, messages survive the trip, and decoders end on every payload. For the values:
  nested values round trip, whatever is decoded is well-formed, comparison and equality agree and
  time windows nest, whole-number arithmetic is exact. For access control: runs of permission
  changes and checks refine the table of conditions; which stamp wins and what embedding keeps is
  determined; filters hide exactly what matches. For coordination: directories converge, ticks
  wake exactly the watchers concerned, runaway cascades are reported, one broken watcher blocks
  the engine.

  \<^bold>\<open>What is not modelled.\<close> Locks (each operation runs under its store's lock and is one step
  here), closing files, logging, disks that fail, and the daemon's networking. Of the types,
  \<open>ParseTimeLiteral\<close> (the layouts of the time package), \<open>NormalizePath\<close> (Unicode case mapping) and
  the display strings. Still open: the MBL language (\<open>internal/mbl\<close>), addressing
  (\<open>internal/ari\<close>), the mesh state machines, the service and key management.
\<close>

end
